(* ===== verification/Cras_Prelude.thy ===== *)
theory Cras_Prelude
  imports Main "HOL-Library.Signed_Division"
begin

text \<open>
  Shared vocabulary of the development: C's fixed-width integers as \<^typ>\<open>int\<close> with the
  conversion to a width written out (\<open>u32\<close>, \<open>u64\<close>, \<open>s16\<close>, \<open>s32\<close>, \<open>s64\<close>), C's saturation idiom
  \<open>clip\<close>, the errno values the modelled code returns, loops over index ranges, and the generic
  list lemmas that the component theories use.

  Conventions. An \<open>unsigned int\<close> or \<open>uint32_t\<close> is an \<^typ>\<open>int\<close> and every place where the source
  stores an arithmetic result in one applies \<open>u32\<close> (reduction modulo \<open>2 ^ 32\<close>); likewise \<open>u64\<close> for
  \<open>uint64_t\<close> and \<open>size_t\<close> (the supported targets are LP64). Signed results are computed exactly,
  and a narrowing conversion to a signed type applies \<open>s16\<close> or \<open>s32\<close> (two's complement). C's
  signed \<open>/\<close> truncates towards zero: the library's \<open>sdiv\<close>.
\<close>

section \<open>Fixed-width integers\<close>

named_theorems cint_simps \<open>wrap-around identities for values that are already in range\<close>

definition wrap_u :: "nat \<Rightarrow> int \<Rightarrow> int" where
  "wrap_u w x = x mod 2 ^ w"

definition wrap_s :: "nat \<Rightarrow> int \<Rightarrow> int" where
  "wrap_s w x = (x + 2 ^ (w - 1)) mod 2 ^ w - 2 ^ (w - 1)"

abbreviation u8 :: "int \<Rightarrow> int" where "u8 \<equiv> wrap_u 8"
abbreviation u16 :: "int \<Rightarrow> int" where "u16 \<equiv> wrap_u 16"
abbreviation u32 :: "int \<Rightarrow> int" where "u32 \<equiv> wrap_u 32"
abbreviation u64 :: "int \<Rightarrow> int" where "u64 \<equiv> wrap_u 64"
abbreviation s8 :: "int \<Rightarrow> int" where "s8 \<equiv> wrap_s 8"
abbreviation s16 :: "int \<Rightarrow> int" where "s16 \<equiv> wrap_s 16"
abbreviation s32 :: "int \<Rightarrow> int" where "s32 \<equiv> wrap_s 32"
abbreviation s64 :: "int \<Rightarrow> int" where "s64 \<equiv> wrap_s 64"

definition in_u :: "nat \<Rightarrow> int \<Rightarrow> bool" where
  "in_u w x \<longleftrightarrow> 0 \<le> x \<and> x < 2 ^ w"

definition in_s :: "nat \<Rightarrow> int \<Rightarrow> bool" where
  "in_s w x \<longleftrightarrow> - (2 ^ (w - 1)) \<le> x \<and> x < 2 ^ (w - 1)"

lemma wrap_u_id [cint_simps]: "0 \<le> x \<Longrightarrow> x < 2 ^ w \<Longrightarrow> wrap_u w x = x"
  by (simp add: wrap_u_def)

lemma wrap_u_ge0 [simp]: "0 \<le> wrap_u w x"
  by (simp add: wrap_u_def)

lemma wrap_u_less [simp]: "wrap_u w x < 2 ^ w"
  by (simp add: wrap_u_def)

lemma in_u_wrap_u [simp]: "in_u w (wrap_u w x)"
  by (simp add: in_u_def wrap_u_def)

lemma wrap_u_le: "0 \<le> x \<Longrightarrow> wrap_u w x \<le> x"
  by (simp add: wrap_u_def zmod_le_nonneg_dividend)

lemma wrap_u_idem [simp]: "wrap_u w (wrap_u w x) = wrap_u w x"
  by (simp add: wrap_u_def)

lemma in_u_wrap_id: "in_u w x \<Longrightarrow> wrap_u w x = x"
  by (simp add: in_u_def wrap_u_id)

lemma pow2_split: "0 < w \<Longrightarrow> (2 :: int) ^ w = 2 * 2 ^ (w - 1)"
  by (cases w) auto

lemma wrap_s_id [cint_simps]:
  assumes "0 < w" "- (2 ^ (w - 1)) \<le> x" "x < 2 ^ (w - 1)"
  shows "wrap_s w x = x"
proof -
  from assms pow2_split [of w] have "(x + 2 ^ (w - 1)) mod 2 ^ w = x + 2 ^ (w - 1)"
    by (intro mod_pos_pos_trivial) auto
  then show ?thesis by (simp add: wrap_s_def)
qed

lemma in_s_wrap_id: "0 < w \<Longrightarrow> in_s w x \<Longrightarrow> wrap_s w x = x"
  by (simp add: in_s_def wrap_s_id)

lemma in_s_wrap_s [simp]: "0 < w \<Longrightarrow> in_s w (wrap_s w x)"
  using pos_mod_bound [of "2 ^ w" "x + 2 ^ (w - 1)"] pow2_split [of w]
  by (simp add: in_s_def wrap_s_def)

lemma wrap_s_mod [simp]: "wrap_s w (x mod 2 ^ w) = wrap_s w x"
  by (simp add: wrap_s_def mod_add_left_eq)

lemma wrap_s_wrap_u [simp]: "wrap_s w (wrap_u w x) = wrap_s w x"
  by (simp add: wrap_u_def)

lemma wrap_u_wrap_s [simp]: "wrap_u w (wrap_s w x) = wrap_u w x"
  by (simp add: wrap_u_def wrap_s_def mod_diff_left_eq)

lemma wrap_s_idem [simp]: "wrap_s w (wrap_s w x) = wrap_s w x"
  by (metis wrap_s_wrap_u wrap_u_wrap_s)

text \<open>Saturation: \<open>sum = MAX(sum, LO); sum = MIN(sum, HI);\<close>.\<close>

definition clip :: "int \<Rightarrow> int \<Rightarrow> int \<Rightarrow> int" where
  "clip lo hi x = min (max x lo) hi"

lemma clip_bounds: "lo \<le> hi \<Longrightarrow> lo \<le> clip lo hi x \<and> clip lo hi x \<le> hi"
  by (auto simp: clip_def)

lemma clip_id: "lo \<le> x \<Longrightarrow> x \<le> hi \<Longrightarrow> clip lo hi x = x"
  by (simp add: clip_def)

lemma clip_mono: "x \<le> y \<Longrightarrow> clip lo hi x \<le> clip lo hi y"
  by (auto simp: clip_def)

section \<open>Rounding division\<close>

lemma floor_mult_le: "0 < d \<Longrightarrow> x div d * d \<le> x" for d :: int
  using pos_mod_sign [of d x] div_mult_mod_eq [of x d] by linarith

lemma less_floor_mult: "0 < d \<Longrightarrow> x < (x div d + 1) * d" for d :: int
  using pos_mod_bound [of d x] div_mult_mod_eq [of x d] unfolding distrib_right by linarith

lemma int_div_less_iff: "0 < d \<Longrightarrow> x div d < n \<longleftrightarrow> x < n * d" for d :: int
proof
  assume d: "0 < d" and "x div d < n"
  then have "(x div d + 1) * d \<le> n * d" by (intro mult_right_mono) auto
  with less_floor_mult [OF d, of x] show "x < n * d" by linarith
next
  assume d: "0 < d" and "x < n * d"
  with floor_mult_le [OF d, of x] have "x div d * d < n * d" by linarith
  with d show "x div d < n" by simp
qed

lemma sdiv_eq_div: "0 \<le> a \<Longrightarrow> 0 < b \<Longrightarrow> a sdiv b = a div b" for a b :: int
  by (cases "a = 0") (simp_all add: signed_divide_int_def)

lemma sdiv_neg: "a < 0 \<Longrightarrow> 0 < b \<Longrightarrow> a sdiv b = - ((- a) div b)" for a b :: int
  by (simp add: signed_divide_int_def)

text \<open>C's truncated mean stays between the bounds of the summands.\<close>

lemma sdiv_mean_bounds:
  fixes x :: int
  assumes "0 < d" "lo \<le> 0" "0 \<le> hi" "d * lo \<le> x" "x \<le> d * hi"
  shows "lo \<le> x sdiv d \<and> x sdiv d \<le> hi"
proof (cases "x < 0")
  case True
  have "(- x) div d \<le> (d * - lo) div d" using assms by (intro zdiv_mono1) auto
  then have "(- x) div d \<le> - lo" using assms(1) nonzero_mult_div_cancel_left [of d "- lo"] by simp
  moreover have "0 \<le> (- x) div d" using True assms(1) by (simp add: pos_imp_zdiv_nonneg_iff)
  ultimately show ?thesis using True assms by (simp add: sdiv_neg)
next
  case False
  have "x div d \<le> (d * hi) div d" using assms by (intro zdiv_mono1) auto
  moreover have "0 \<le> x div d" using False assms(1) by (simp add: pos_imp_zdiv_nonneg_iff)
  ultimately show ?thesis using False assms by (simp add: sdiv_eq_div)
qed

section \<open>Errno values\<close>

definition EIO :: int where "EIO = 5"
definition ENOENT :: int where "ENOENT = 2"
definition ENOMEM :: int where "ENOMEM = 12"
definition EEXIST :: int where "EEXIST = 17"
definition EINVAL :: int where "EINVAL = 22"
definition EBADF :: int where "EBADF = 9"
definition EACCES :: int where "EACCES = 13"
definition EBUSY :: int where "EBUSY = 16"
definition ENODEV :: int where "ENODEV = 19"
definition EPIPE :: int where "EPIPE = 32"

lemmas errno_defs = EIO_def ENOENT_def ENOMEM_def EEXIST_def EINVAL_def EBADF_def EACCES_def EBUSY_def ENODEV_def EPIPE_def

section \<open>Lists\<close>

lemma distinct_map_nth_eq:
  "distinct (map f xs) \<Longrightarrow> i < length xs \<Longrightarrow> j < length xs \<Longrightarrow> f (xs ! i) = f (xs ! j) \<Longrightarrow> i = j"
  by (metis length_map nth_eq_iff_index_eq nth_map)

end
