(* ===== verification/Cras_Time.thy ===== *)
theory Cras_Time
  imports Cras_Prelude
begin

text \<open>
  The time arithmetic of \<open>cras/include/cras_util.h\<close> and \<open>cras_timespec.h\<close>: a \<open>struct timespec\<close>,
  its sum, difference and order, and the conversions between frame counts, timespecs and
  milliseconds. \<open>ts_ns\<close> reads a timespec as a number of nanoseconds, and every operation is
  related to the arithmetic of that number. \<open>time_t\<close> and \<open>long\<close> are computed exactly (an overflow
  of these signed types is undefined in C); unsigned arithmetic wraps at its width.
\<close>

section \<open>Timespecs\<close>

record timespec =
  tv_sec :: int
  tv_nsec :: int

definition ts_ns :: "timespec \<Rightarrow> int" where
  "ts_ns t = tv_sec t * 1000000000 + tv_nsec t"

text \<open>What \<open>clock_gettime\<close> and the normalising operations produce.\<close>

definition ts_normal :: "timespec \<Rightarrow> bool" where
  "ts_normal t \<longleftrightarrow> 0 \<le> tv_nsec t \<and> tv_nsec t < 1000000000"

definition subtract_timespecs :: "timespec \<Rightarrow> timespec \<Rightarrow> timespec" where
  "subtract_timespecs en beg =
     (let sec = tv_sec en - tv_sec beg; nsec = tv_nsec en - tv_nsec beg in
      if sec > 0 \<and> nsec < 0 then \<lparr>tv_sec = sec - 1, tv_nsec = nsec + 1000000000\<rparr>
      else if sec < 0 \<and> nsec > 0 then \<lparr>tv_sec = sec + 1, tv_nsec = nsec - 1000000000\<rparr>
      else \<lparr>tv_sec = sec, tv_nsec = nsec\<rparr>)"

text \<open>The \<open>while (a->tv_nsec >= 1000000000L)\<close> loop of \<open>add_timespecs\<close>.\<close>

function carry_nsec :: "int \<Rightarrow> int \<Rightarrow> timespec" where
  "carry_nsec sec nsec =
     (if nsec \<ge> 1000000000 then carry_nsec (sec + 1) (nsec - 1000000000)
      else \<lparr>tv_sec = sec, tv_nsec = nsec\<rparr>)"
  by pat_completeness auto
termination
  by (relation "measure (\<lambda>(sec, nsec). nat nsec)") auto

declare carry_nsec.simps [simp del]

definition add_timespecs :: "timespec \<Rightarrow> timespec \<Rightarrow> timespec" where
  "add_timespecs a b = carry_nsec (tv_sec a + tv_sec b) (tv_nsec a + tv_nsec b)"

definition timespec_after :: "timespec \<Rightarrow> timespec \<Rightarrow> bool" where
  "timespec_after a b \<longleftrightarrow>
     tv_sec a > tv_sec b \<or> (tv_sec a = tv_sec b \<and> tv_nsec a > tv_nsec b)"

definition timespec_to_ms :: "timespec \<Rightarrow> int" where
  "timespec_to_ms ts = u32 (tv_sec ts * 1000 + (tv_nsec ts + 999999) sdiv 1000000)"

definition ms_to_timespec :: "int \<Rightarrow> timespec" where
  "ms_to_timespec milliseconds =
     \<lparr>tv_sec = milliseconds sdiv 1000, tv_nsec = (milliseconds smod 1000) * 1000000\<rparr>"

definition timespec_is_zero :: "timespec option \<Rightarrow> bool" where
  "timespec_is_zero ts \<longleftrightarrow>
     (case ts of None \<Rightarrow> False | Some t \<Rightarrow> tv_sec t = 0 \<and> tv_nsec t = 0)"

definition timespec_is_nonzero :: "timespec option \<Rightarrow> bool" where
  "timespec_is_nonzero ts \<longleftrightarrow>
     (case ts of None \<Rightarrow> False
      | Some t \<Rightarrow> tv_sec t \<noteq> 0 \<or> (tv_sec t = 0 \<and> tv_nsec t \<noteq> 0))"

definition timespec_diff_shorter_than :: "timespec \<Rightarrow> timespec \<Rightarrow> timespec \<Rightarrow> bool" where
  "timespec_diff_shorter_than a b t =
     (let diff = (if timespec_after a b then subtract_timespecs a b else subtract_timespecs b a)
      in timespec_after t diff)"

section \<open>Frames, rates and durations\<close>

definition cras_frames_at_rate :: "int \<Rightarrow> int \<Rightarrow> int \<Rightarrow> int" where
  "cras_frames_at_rate orig_rate orig_frames act_rate =
     u64 (u64 (orig_frames * act_rate) + orig_rate - 1) div orig_rate"

definition cras_frames_to_time :: "int \<Rightarrow> int \<Rightarrow> timespec" where
  "cras_frames_to_time frames rate =
     \<lparr>tv_sec = frames div rate, tv_nsec = u64 ((frames mod rate) * 1000000000) div rate\<rparr>"

definition cras_time_to_frames :: "timespec \<Rightarrow> int \<Rightarrow> int" where
  "cras_time_to_frames t rate =
     u64 (u64 (u64 (tv_nsec t) * rate) div 1000000000 + u64 (rate * tv_sec t))"

definition cras_frames_to_ms :: "int \<Rightarrow> int \<Rightarrow> int" where
  "cras_frames_to_ms frames rate = u32 (1000 * frames) div rate"

text \<open>The clock reading is an argument: the value \<open>clock_gettime\<close> stored in \<open>now\<close>.\<close>

definition cras_frames_since_time :: "timespec \<Rightarrow> timespec \<Rightarrow> int \<Rightarrow> int" where
  "cras_frames_since_time now beg rate =
     (if \<not> timespec_after now beg then 0
      else cras_time_to_frames (subtract_timespecs now beg) rate)"

definition cras_frames_until_time :: "timespec \<Rightarrow> timespec \<Rightarrow> int \<Rightarrow> int" where
  "cras_frames_until_time now en rate =
     (if \<not> timespec_after en now then 0
      else cras_time_to_frames (subtract_timespecs en now) rate)"

section \<open>Nanosecond arithmetic\<close>

lemma carry_nsec_ns: "ts_ns (carry_nsec sec nsec) = sec * 1000000000 + nsec"
proof (induction sec nsec rule: carry_nsec.induct)
  case (1 sec nsec)
  then show ?case by (subst carry_nsec.simps) (auto simp: ts_ns_def algebra_simps)
qed

lemma carry_nsec_normal: "0 \<le> nsec \<Longrightarrow> ts_normal (carry_nsec sec nsec)"
proof (induction sec nsec rule: carry_nsec.induct)
  case (1 sec nsec)
  then show ?case by (subst carry_nsec.simps) (auto simp: ts_normal_def)
qed

lemma subtract_timespecs_ns: "ts_ns (subtract_timespecs en beg) = ts_ns en - ts_ns beg"
  by (simp add: subtract_timespecs_def ts_ns_def Let_def)

lemma timespec_after_iff_ns:
  assumes "ts_normal a" "ts_normal b"
  shows "timespec_after a b \<longleftrightarrow> ts_ns a > ts_ns b"
  using assms by (auto simp: timespec_after_def ts_normal_def ts_ns_def)

text \<open>A difference taken in the right order is normal again.\<close>

lemma subtract_timespecs_normal:
  assumes "ts_normal en" "ts_normal beg" "ts_ns beg \<le> ts_ns en"
  shows "ts_normal (subtract_timespecs en beg) \<and> 0 \<le> tv_sec (subtract_timespecs en beg)"
  using assms by (auto simp: subtract_timespecs_def Let_def ts_normal_def ts_ns_def)

text \<open>\<open>add_timespecs\<close> terminates with the sum of the two durations, carried so that the
  nanosecond field is below one second: the cumulative durations kept in the shared header stay
  exact and normalised.\<close>

lemma add_timespecs_correct:
  assumes "ts_normal a" "ts_normal b"
  shows "ts_ns (add_timespecs a b) = ts_ns a + ts_ns b \<and> ts_normal (add_timespecs a b)"
proof
  show "ts_ns (add_timespecs a b) = ts_ns a + ts_ns b"
    by (simp add: add_timespecs_def carry_nsec_ns) (simp add: ts_ns_def)
  show "ts_normal (add_timespecs a b)"
    unfolding add_timespecs_def using assms
    by (intro carry_nsec_normal) (simp add: ts_normal_def)
qed

text \<open>\<open>subtract_timespecs\<close> is exact on nanoseconds and its two fields never have opposite
  signs, whatever the order of its arguments.\<close>

lemma subtract_timespecs_correct:
  assumes "ts_normal en" "ts_normal beg"
  shows "ts_ns (subtract_timespecs en beg) = ts_ns en - ts_ns beg
    \<and> \<not> (tv_sec (subtract_timespecs en beg) > 0 \<and> tv_nsec (subtract_timespecs en beg) < 0)
    \<and> \<not> (tv_sec (subtract_timespecs en beg) < 0 \<and> tv_nsec (subtract_timespecs en beg) > 0)
    \<and> \<bar>tv_nsec (subtract_timespecs en beg)\<bar> < 1000000000"
  using assms
  unfolding subtract_timespecs_ns
  by (auto simp: subtract_timespecs_def Let_def ts_normal_def)

text \<open>\<open>timespec_diff_shorter_than\<close> decides whether the distance of two clock readings is
  below a threshold.\<close>

lemma timespec_diff_shorter_than_correct:
  assumes "ts_normal a" "ts_normal b" "ts_normal t"
  shows "timespec_diff_shorter_than a b t \<longleftrightarrow> \<bar>ts_ns a - ts_ns b\<bar> < ts_ns t"
proof (cases "timespec_after a b")
  case True
  with assms have less: "ts_ns b < ts_ns a" by (simp add: timespec_after_iff_ns)
  with assms have "ts_normal (subtract_timespecs a b)" by (simp add: subtract_timespecs_normal)
  with True less assms show ?thesis
    by (simp add: timespec_diff_shorter_than_def timespec_after_iff_ns subtract_timespecs_ns)
next
  case False
  with assms have le: "ts_ns a \<le> ts_ns b" by (simp add: timespec_after_iff_ns)
  with assms have "ts_normal (subtract_timespecs b a)" by (simp add: subtract_timespecs_normal)
  with False le assms show ?thesis
    by (simp add: timespec_diff_shorter_than_def timespec_after_iff_ns subtract_timespecs_ns)
qed

section \<open>Conversions between frames and time\<close>

lemma frames_to_time_nsec:
  assumes "0 < rate" "rate < 2 ^ 32"
  shows "tv_nsec (cras_frames_to_time frames rate) = (frames mod rate) * 1000000000 div rate"
proof -
  have r: "0 \<le> frames mod rate" "frames mod rate < rate" using assms by simp_all
  then have "frames mod rate < 2 ^ 32" using assms(2) by linarith
  then have "(frames mod rate) * 1000000000 < 2 ^ 64" by simp
  with r show ?thesis by (simp add: cras_frames_to_time_def wrap_u_id)
qed

lemma frames_to_time_normal:
  assumes "0 < rate" "rate < 2 ^ 32"
  shows "ts_normal (cras_frames_to_time frames rate)"
proof -
  let ?r = "frames mod rate"
  have r: "0 \<le> ?r" "?r < rate" using assms by simp_all
  then have "?r * 1000000000 < 1000000000 * rate" by simp
  then have "?r * 1000000000 div rate < 1000000000"
    using assms(1) by (simp add: int_div_less_iff)
  then show ?thesis
    using r assms(1) by (simp add: ts_normal_def frames_to_time_nsec [OF assms] pos_imp_zdiv_nonneg_iff)
qed

text \<open>Scaling down and up again by two rounding divisions loses at most one unit.\<close>

lemma div_mult_div_bounds:
  fixes r c d :: int
  assumes "0 < d" "d \<le> c" "0 \<le> r"
  shows "r - 1 \<le> (r * c div d) * d div c" "(r * c div d) * d div c \<le> r"
proof -
  define q where "q = r * c div d"
  have qd: "q * d \<le> r * c"
    unfolding q_def by (rule floor_mult_le [OF assms(1)])
  have "r * c < (q + 1) * d"
    unfolding q_def by (rule less_floor_mult [OF assms(1)])
  then have lo: "(r - 1) * c \<le> q * d"
    using assms by (simp add: algebra_simps)
  have c: "0 < c" using assms by simp
  show "r - 1 \<le> (r * c div d) * d div c"
    using zdiv_mono1 [OF lo c] c by (simp add: q_def)
  show "(r * c div d) * d div c \<le> r"
    using zdiv_mono1 [OF qd c] c by (simp add: q_def)
qed

lemma time_to_frames_exact:
  assumes "ts_normal t" "0 \<le> tv_sec t" "0 < rate" "rate < 2 ^ 32" "rate * tv_sec t < 2 ^ 63"
  shows "cras_time_to_frames t rate = tv_nsec t * rate div 1000000000 + rate * tv_sec t"
proof -
  have n: "0 \<le> tv_nsec t" "tv_nsec t < 1000000000" using assms(1) by (simp_all add: ts_normal_def)
  have nr: "tv_nsec t * rate \<le> 1000000000 * 2 ^ 32"
    using n assms by (intro mult_mono) auto
  then have m: "tv_nsec t * rate div 1000000000 \<le> 2 ^ 32"
    using zdiv_mono1 [OF nr, of 1000000000] by simp
  have p: "0 \<le> tv_nsec t * rate div 1000000000"
    using n assms by (simp add: pos_imp_zdiv_nonneg_iff)
  have s: "0 \<le> rate * tv_sec t" using assms by simp
  have "u64 (tv_nsec t) = tv_nsec t" using n by (simp add: wrap_u_id)
  moreover have "u64 (tv_nsec t * rate) = tv_nsec t * rate" using n nr assms by (simp add: wrap_u_id)
  moreover have "u64 (rate * tv_sec t) = rate * tv_sec t" using s assms by (simp add: wrap_u_id)
  ultimately show ?thesis
    using m p s assms(5) by (simp add: cras_time_to_frames_def wrap_u_id)
qed

text \<open>Converting a frame count to a time and back loses at most one frame, for every 32-bit
  frame count and every rate up to one frame per nanosecond; no intermediate product overflows.\<close>

lemma frames_time_roundtrip:
  assumes "0 \<le> frames" "frames < 2 ^ 32" "0 < rate" "rate \<le> 1000000000"
  shows "frames - 1 \<le> cras_time_to_frames (cras_frames_to_time frames rate) rate
    \<and> cras_time_to_frames (cras_frames_to_time frames rate) rate \<le> frames"
proof -
  let ?t = "cras_frames_to_time frames rate" and ?r = "frames mod rate"
  have rate: "rate < 2 ^ 32" using assms(4) by simp
  have sec: "tv_sec ?t = frames div rate" by (simp add: cras_frames_to_time_def)
  have "rate * (frames div rate) \<le> frames"
    using floor_mult_le [OF assms(3), of frames] by (simp add: mult.commute)
  then have bound: "rate * tv_sec ?t < 2 ^ 63" using assms(2) sec by simp
  have pos: "0 \<le> tv_sec ?t" using assms sec by (simp add: pos_imp_zdiv_nonneg_iff)
  have eq: "cras_time_to_frames ?t rate
      = (?r * 1000000000 div rate) * rate div 1000000000 + rate * (frames div rate)"
    using time_to_frames_exact [OF frames_to_time_normal [OF assms(3) rate] pos assms(3) rate bound]
    by (simp add: frames_to_time_nsec [OF assms(3) rate] sec)
  have "0 \<le> ?r" using assms(3) by simp
  from div_mult_div_bounds [OF assms(3,4) this] show ?thesis
    using mult_div_mod_eq [of rate frames] unfolding eq by linarith
qed

text \<open>\<open>cras_frames_at_rate\<close> rounds up: the result is the least frame count at the new rate
  that lasts at least as long as the original one, so a buffer sized with it never comes up
  short.\<close>

lemma frames_at_rate_least:
  assumes "0 < orig_rate" "0 < act_rate" "0 \<le> orig_frames"
    and "orig_frames * act_rate + orig_rate \<le> 2 ^ 64"
  shows "cras_frames_at_rate orig_rate orig_frames act_rate \<le> n
    \<longleftrightarrow> orig_frames * act_rate \<le> n * orig_rate"
proof -
  let ?p = "orig_frames * act_rate"
  have p: "0 \<le> ?p" using assms by simp
  then have "u64 ?p = ?p" "u64 (?p + orig_rate - 1) = ?p + orig_rate - 1"
    using assms by (intro wrap_u_id; linarith)+
  then have "cras_frames_at_rate orig_rate orig_frames act_rate = (?p + orig_rate - 1) div orig_rate"
    by (simp add: cras_frames_at_rate_def)
  moreover have "(?p + orig_rate - 1) div orig_rate \<le> n \<longleftrightarrow> (?p + orig_rate - 1) div orig_rate < n + 1"
    by linarith
  moreover have "\<dots> \<longleftrightarrow> ?p + orig_rate - 1 < (n + 1) * orig_rate"
    using assms(1) by (rule int_div_less_iff)
  moreover have "\<dots> \<longleftrightarrow> ?p \<le> n * orig_rate"
    by (auto simp: distrib_right)
  ultimately show ?thesis by simp
qed

text \<open>\<open>cras_frames_to_ms\<close> multiplies in 32 bits: it is the duration only for buffers of up to
  4294967 frames, and wraps beyond.\<close>

lemma frames_to_ms_exact:
  "0 \<le> frames \<Longrightarrow> frames \<le> 4294967 \<Longrightarrow> cras_frames_to_ms frames rate = 1000 * frames div rate"
  by (simp add: cras_frames_to_ms_def wrap_u_id)

lemma frames_to_ms_wraps: "cras_frames_to_ms 4294968 48000 = 0"
  by (simp add: cras_frames_to_ms_def wrap_u_def)

lemma smod_eq_mod: "0 \<le> a \<Longrightarrow> 0 < b \<Longrightarrow> a smod b = a mod b" for a b :: int
  by (cases "a = 0") (simp_all add: signed_modulo_int_def)

lemma ms_roundtrip:
  assumes "0 \<le> ms" "ms < 2 ^ 32"
  shows "timespec_to_ms (ms_to_timespec ms) = ms"
proof -
  have "(ms mod 1000 * 1000000 + 999999) div 1000000 = ms mod 1000" by simp
  moreover have "0 \<le> ms mod 1000 * 1000000 + 999999" by simp
  ultimately show ?thesis
    using assms by (simp add: timespec_to_ms_def ms_to_timespec_def smod_eq_mod sdiv_eq_div wrap_u_id)
qed

text \<open>The frames elapsed between two clock readings are the elapsed nanoseconds multiplied by
  the rate, rounded down: \<open>cras_frames_since_time\<close> never over-counts and loses less than a frame.\<close>

lemma frames_since_time_correct:
  assumes "ts_normal now" "ts_normal beg" "0 < rate" "rate < 2 ^ 32"
    and "ts_ns beg < ts_ns now" "rate * (ts_ns now - ts_ns beg) < 2 ^ 63"
  shows "cras_frames_since_time now beg rate = (ts_ns now - ts_ns beg) * rate div 1000000000"
proof -
  let ?d = "subtract_timespecs now beg"
  have d: "ts_normal ?d" "0 \<le> tv_sec ?d"
    using assms(1,2,5) subtract_timespecs_normal [of now beg] by simp_all
  have ns: "ts_ns ?d = ts_ns now - ts_ns beg" by (rule subtract_timespecs_ns)
  have "tv_sec ?d \<le> ts_ns ?d" using d by (simp add: ts_ns_def ts_normal_def)
  then have "rate * tv_sec ?d \<le> rate * ts_ns ?d" using assms(3) by simp
  then have bound: "rate * tv_sec ?d < 2 ^ 63" using assms(6) by (simp add: ns)
  have "(ts_ns now - ts_ns beg) * rate = tv_nsec ?d * rate + (rate * tv_sec ?d) * 1000000000"
    unfolding ns [symmetric] by (simp add: ts_ns_def algebra_simps)
  then have "(ts_ns now - ts_ns beg) * rate div 1000000000
      = tv_nsec ?d * rate div 1000000000 + rate * tv_sec ?d"
    by simp
  with time_to_frames_exact [OF d assms(3,4) bound] show ?thesis
    using assms by (simp add: cras_frames_since_time_def timespec_after_iff_ns)
qed

end
