(* ===== verification/Fifo.thy ===== *)
theory Fifo
  imports Cras_Prelude
begin

text \<open>
  The contract every sample queue of the program offers its users: data that was put in comes out
  once, unchanged and in order. The locale states it for one put and one take over an abstract
  list of contents; its lemma lifts it to every interleaving of a producer and a consumer. The
  ring \<open>byte_buffer\<close> and the double buffer in shared memory interpret it.
\<close>

datatype 'a fifo_op = Put "'a list" | Take nat

text \<open>A run of operations collects what was written and what was read.\<close>

fun fifo_run ::
  "('b \<Rightarrow> 'a list) \<Rightarrow> ('a list \<Rightarrow> 'b \<Rightarrow> 'b) \<Rightarrow> (nat \<Rightarrow> 'b \<Rightarrow> 'b)
     \<Rightarrow> 'b \<Rightarrow> 'a fifo_op list \<Rightarrow> 'a list \<times> 'a list \<times> 'b" where
  "fifo_run contents put tk b [] = ([], [], b)"
| "fifo_run contents put tk b (Put xs # ops) =
     (let (w, r, b') = fifo_run contents put tk (put xs b) ops in (xs @ w, r, b'))"
| "fifo_run contents put tk b (Take n # ops) =
     (let (w, r, b') = fifo_run contents put tk (tk n b) ops in (w, take n (contents b) @ r, b'))"

text \<open>Every operation of the run is allowed in the state it meets.\<close>

fun fifo_ok ::
  "('b \<Rightarrow> 'a list \<Rightarrow> bool) \<Rightarrow> ('b \<Rightarrow> nat \<Rightarrow> bool) \<Rightarrow> ('a list \<Rightarrow> 'b \<Rightarrow> 'b) \<Rightarrow> (nat \<Rightarrow> 'b \<Rightarrow> 'b)
     \<Rightarrow> 'b \<Rightarrow> 'a fifo_op list \<Rightarrow> bool" where
  "fifo_ok can_put can_take put tk b [] = True"
| "fifo_ok can_put can_take put tk b (Put xs # ops) =
     (can_put b xs \<and> fifo_ok can_put can_take put tk (put xs b) ops)"
| "fifo_ok can_put can_take put tk b (Take n # ops) =
     (can_take b n \<and> fifo_ok can_put can_take put tk (tk n b) ops)"

locale bounded_fifo =
  fixes invar :: "'b \<Rightarrow> bool"
    and contents :: "'b \<Rightarrow> 'a list"
    and can_put :: "'b \<Rightarrow> 'a list \<Rightarrow> bool"
    and put :: "'a list \<Rightarrow> 'b \<Rightarrow> 'b"
    and can_take :: "'b \<Rightarrow> nat \<Rightarrow> bool"
    and tk :: "nat \<Rightarrow> 'b \<Rightarrow> 'b"
  assumes invar_put: "invar b \<Longrightarrow> can_put b xs \<Longrightarrow> invar (put xs b)"
    and contents_put: "invar b \<Longrightarrow> can_put b xs \<Longrightarrow> contents (put xs b) = contents b @ xs"
    and invar_take: "invar b \<Longrightarrow> can_take b n \<Longrightarrow> invar (tk n b)"
    and contents_take: "invar b \<Longrightarrow> can_take b n \<Longrightarrow> contents (tk n b) = drop n (contents b)"
begin

lemma run_invar_fifo:
  assumes "invar b" "fifo_ok can_put can_take put tk b ops"
    and "fifo_run contents put tk b ops = (written, got, b')"
  shows "invar b' \<and> contents b @ written = got @ contents b'"
  using assms
proof (induction ops arbitrary: b written got)
  case Nil
  then show ?case by simp
next
  case (Cons op ops)
  show ?case
  proof (cases op)
    case (Put xs)
    with Cons.prems have ok: "can_put b xs" "fifo_ok can_put can_take put tk (put xs b) ops"
      by simp_all
    from Cons.prems(3) Put obtain w where run: "fifo_run contents put tk (put xs b) ops = (w, got, b')"
      and w: "written = xs @ w" by (auto split: prod.splits)
    from Cons.IH [OF invar_put [OF Cons.prems(1) ok(1)] ok(2) run] show ?thesis
      using contents_put [OF Cons.prems(1) ok(1)] w by simp
  next
    case (Take n)
    with Cons.prems have ok: "can_take b n" "fifo_ok can_put can_take put tk (tk n b) ops"
      by simp_all
    from Cons.prems(3) Take obtain r where run: "fifo_run contents put tk (tk n b) ops = (written, r, b')"
      and r: "got = take n (contents b) @ r" by (auto split: prod.splits)
    from Cons.IH [OF invar_take [OF Cons.prems(1) ok(1)] ok(2) run]
    have "invar b'" and eq: "drop n (contents b) @ written = r @ contents b'"
      using contents_take [OF Cons.prems(1) ok(1)] by simp_all
    have "contents b @ written = take n (contents b) @ (drop n (contents b) @ written)" by simp
    then show ?thesis using \<open>invar b'\<close> r unfolding eq by simp
  qed
qed

end

end
