(* ===== verification/Byte_Buffer.thy ===== *)
theory Byte_Buffer
  imports Fifo
begin

text \<open>
  The ring of bytes of \<open>cras/src/common/byte_buffer.h\<close>, used by the Bluetooth and loopback
  devices. The record has the fields of \<open>struct byte_buffer\<close>; a pointer into \<open>bytes\<close> is its
  index. The theory shows that the ring is a FIFO of bytes: the readable and writable regions the
  accessors hand out are contiguous, in bounds and disjoint from each other, and the index
  arithmetic keeps the ring well formed.
\<close>

section \<open>Model\<close>

record byte_buffer =
  bb_write_idx :: int
  bb_read_idx :: int
  bb_level :: int
  bb_max_size :: int
  bb_used_size :: int
  bb_bytes :: "int list"

text \<open>\<open>calloc\<close> may fail: the flag says whether it returned memory.\<close>

definition byte_buffer_create :: "bool \<Rightarrow> int \<Rightarrow> byte_buffer option" where
  "byte_buffer_create alloc_ok buffer_size_bytes =
     (if \<not> alloc_ok then None
      else Some \<lparr>bb_write_idx = 0, bb_read_idx = 0, bb_level = 0,
                 bb_max_size = u32 buffer_size_bytes, bb_used_size = u32 buffer_size_bytes,
                 bb_bytes = replicate (nat buffer_size_bytes) 0\<rparr>)"

definition byte_buffer_set_used_size :: "byte_buffer \<Rightarrow> int \<Rightarrow> byte_buffer" where
  "byte_buffer_set_used_size buf used_size = buf\<lparr>bb_used_size := min used_size (bb_max_size buf)\<rparr>"

definition buf_writable :: "byte_buffer \<Rightarrow> int" where
  "buf_writable buf =
     (if bb_level buf \<ge> bb_used_size buf then 0
      else if bb_write_idx buf < bb_read_idx buf then bb_read_idx buf - bb_write_idx buf
      else u32 (bb_used_size buf - bb_write_idx buf))"

definition buf_readable :: "byte_buffer \<Rightarrow> int" where
  "buf_readable buf =
     (if bb_level buf = 0 then 0
      else if bb_read_idx buf < bb_write_idx buf then bb_write_idx buf - bb_read_idx buf
      else u32 (bb_used_size buf - bb_read_idx buf))"

definition buf_adjust_readable :: "byte_buffer \<Rightarrow> int \<Rightarrow> byte_buffer" where
  "buf_adjust_readable buf readable =
     (let lev = min readable (bb_used_size buf) in
      buf\<lparr>bb_level := lev, bb_write_idx := u32 (bb_read_idx buf + lev) mod bb_used_size buf\<rparr>)"

definition buf_queued :: "byte_buffer \<Rightarrow> int" where
  "buf_queued buf = bb_level buf"

definition buf_available :: "byte_buffer \<Rightarrow> int" where
  "buf_available buf = u32 (bb_used_size buf - bb_level buf)"

definition buf_read_pointer :: "byte_buffer \<Rightarrow> int" where
  "buf_read_pointer buf = bb_read_idx buf"

definition buf_read_pointer_size :: "byte_buffer \<Rightarrow> int \<times> int" where
  "buf_read_pointer_size buf = (buf_read_pointer buf, buf_readable buf)"

definition buf_increment_read :: "byte_buffer \<Rightarrow> int \<Rightarrow> byte_buffer" where
  "buf_increment_read buf inc =
     (let inc = min inc (bb_level buf) in
      buf\<lparr>bb_read_idx := u32 (bb_read_idx buf + inc) mod bb_used_size buf,
          bb_level := u32 (bb_level buf - inc)\<rparr>)"

definition buf_write_pointer :: "byte_buffer \<Rightarrow> int" where
  "buf_write_pointer buf = bb_write_idx buf"

definition buf_write_pointer_size :: "byte_buffer \<Rightarrow> int \<times> int" where
  "buf_write_pointer_size buf = (buf_write_pointer buf, buf_writable buf)"

definition buf_increment_write :: "byte_buffer \<Rightarrow> int \<Rightarrow> byte_buffer" where
  "buf_increment_write buf inc =
     buf\<lparr>bb_write_idx := u32 (bb_write_idx buf + inc) mod bb_used_size buf,
         bb_level := (if u64 (bb_level buf + inc) < bb_used_size buf then u32 (bb_level buf + inc)
                      else bb_used_size buf)\<rparr>"

definition buf_reset :: "byte_buffer \<Rightarrow> byte_buffer" where
  "buf_reset buf = buf\<lparr>bb_write_idx := 0, bb_read_idx := 0, bb_level := 0\<rparr>"

section \<open>Abstraction\<close>

text \<open>The queued bytes, oldest first.\<close>

definition buf_contents :: "byte_buffer \<Rightarrow> int list" where
  "buf_contents buf =
     map (\<lambda>i. bb_bytes buf ! nat ((bb_read_idx buf + int i) mod bb_used_size buf))
       [0..<nat (bb_level buf)]"

text \<open>Well-formed rings. The size limit keeps the sum of two indices below \<open>2 ^ 32\<close>.\<close>

definition buf_wf :: "byte_buffer \<Rightarrow> bool" where
  "buf_wf buf \<longleftrightarrow>
     0 < bb_used_size buf \<and> bb_used_size buf \<le> bb_max_size buf \<and> bb_used_size buf \<le> 2 ^ 31 \<and>
     bb_max_size buf = int (length (bb_bytes buf)) \<and>
     0 \<le> bb_read_idx buf \<and> bb_read_idx buf < bb_used_size buf \<and>
     0 \<le> bb_level buf \<and> bb_level buf \<le> bb_used_size buf \<and>
     bb_write_idx buf = (bb_read_idx buf + bb_level buf) mod bb_used_size buf"

text \<open>What a client does between \<open>buf_write_pointer\<close> and \<open>buf_increment_write\<close>: copy bytes to the
  pointer it got.\<close>

definition store_at :: "'a list \<Rightarrow> nat \<Rightarrow> 'a list \<Rightarrow> 'a list" where
  "store_at mem p xs = take p mem @ xs @ drop (p + length xs) mem"

definition buf_put :: "int list \<Rightarrow> byte_buffer \<Rightarrow> byte_buffer" where
  "buf_put xs buf =
     buf_increment_write (buf\<lparr>bb_bytes := store_at (bb_bytes buf) (nat (buf_write_pointer buf)) xs\<rparr>)
       (int (length xs))"

definition buf_take :: "nat \<Rightarrow> byte_buffer \<Rightarrow> byte_buffer" where
  "buf_take n buf = buf_increment_read buf (int n)"

section \<open>Index arithmetic\<close>

lemma length_store_at: "p + length xs \<le> length mem \<Longrightarrow> length (store_at mem p xs) = length mem"
  by (simp add: store_at_def)

lemma nth_store_at:
  "p + length xs \<le> length mem \<Longrightarrow> i < length mem \<Longrightarrow>
     store_at mem p xs ! i = (if p \<le> i \<and> i < p + length xs then xs ! (i - p) else mem ! i)"
  by (auto simp: store_at_def nth_append min_def)

text \<open>An index that is at most one lap ahead needs at most one subtraction.\<close>

lemma mod_one_lap: "0 \<le> a \<Longrightarrow> a < 2 * u \<Longrightarrow> a mod u = (if a < u then a else a - u)" for a u :: int
proof (cases "a < u")
  case False
  moreover assume "0 \<le> a" "a < 2 * u"
  ultimately have "(a - u) mod u = a - u" by (intro mod_pos_pos_trivial) auto
  with False show ?thesis by simp
qed simp

lemma buf_wf_write_idx:
  assumes "buf_wf buf"
  shows "bb_write_idx buf =
    (if bb_read_idx buf + bb_level buf < bb_used_size buf then bb_read_idx buf + bb_level buf
     else bb_read_idx buf + bb_level buf - bb_used_size buf)"
  using assms mod_one_lap [of "bb_read_idx buf + bb_level buf" "bb_used_size buf"]
  by (auto simp: buf_wf_def)

text \<open>The writable region is the largest contiguous free region at the write pointer.\<close>

lemma buf_writable_eq:
  assumes "buf_wf buf"
  shows "buf_writable buf =
    min (bb_used_size buf - bb_level buf) (bb_used_size buf - bb_write_idx buf)"
  using assms buf_wf_write_idx [OF assms]
  by (auto simp: buf_writable_def buf_wf_def min_def wrap_u_id split: if_splits)

lemma buf_readable_eq:
  assumes "buf_wf buf"
  shows "buf_readable buf = min (bb_level buf) (bb_used_size buf - bb_read_idx buf)"
  using assms buf_wf_write_idx [OF assms]
  by (auto simp: buf_readable_def buf_wf_def min_def wrap_u_id split: if_splits)

section \<open>The ring is a FIFO of bytes\<close>

lemma length_buf_contents: "length (buf_contents buf) = nat (bb_level buf)"
  by (simp add: buf_contents_def)

lemma nth_buf_contents:
  "i < nat (bb_level buf) \<Longrightarrow>
     buf_contents buf ! i = bb_bytes buf ! nat ((bb_read_idx buf + int i) mod bb_used_size buf)"
  by (simp add: buf_contents_def)

lemma buf_increment_read_wf:
  assumes wf: "buf_wf buf" and n: "0 \<le> n" "n \<le> bb_level buf"
  shows "buf_wf (buf_increment_read buf n)"
proof -
  let ?u = "bb_used_size buf" and ?r = "bb_read_idx buf" and ?l = "bb_level buf"
  have "u32 (?r + n) = ?r + n" "u32 (?l - n) = ?l - n"
    using wf n by (auto simp: buf_wf_def intro!: wrap_u_id)
  moreover have "((?r + n) mod ?u + (?l - n)) mod ?u = (?r + ?l) mod ?u"
    by (simp add: mod_add_left_eq)
  ultimately show ?thesis
    using wf n by (auto simp: buf_increment_read_def buf_wf_def min_def Let_def)
qed

lemma buf_increment_read_contents:
  assumes wf: "buf_wf buf" and n: "int n \<le> bb_level buf"
  shows "buf_contents (buf_increment_read buf (int n)) = drop n (buf_contents buf)"
proof (rule nth_equalityI)
  let ?u = "bb_used_size buf" and ?r = "bb_read_idx buf" and ?l = "bb_level buf"
  have w: "u32 (?r + int n) = ?r + int n" "u32 (?l - int n) = ?l - int n"
    using wf n by (auto simp: buf_wf_def intro!: wrap_u_id)
  show len: "length (buf_contents (buf_increment_read buf (int n))) = length (drop n (buf_contents buf))"
    using n w by (simp add: length_buf_contents buf_increment_read_def min_def Let_def nat_diff_distrib')
  fix i assume "i < length (buf_contents (buf_increment_read buf (int n)))"
  with n w have i: "i + n < nat ?l"
    by (simp add: length_buf_contents buf_increment_read_def min_def Let_def)
  have "((?r + int n) mod ?u + int i) mod ?u = (?r + int (n + i)) mod ?u"
    by (simp add: mod_add_left_eq add.assoc)
  then show "buf_contents (buf_increment_read buf (int n)) ! i = drop n (buf_contents buf) ! i"
    using i n w
    by (simp add: nth_buf_contents length_buf_contents buf_increment_read_def min_def Let_def add.commute)
qed

lemma buf_put_wf:
  assumes wf: "buf_wf buf" and fits: "int (length xs) \<le> buf_writable buf"
  shows "buf_wf (buf_put xs buf)"
proof -
  let ?u = "bb_used_size buf" and ?r = "bb_read_idx buf" and ?l = "bb_level buf"
    and ?w = "bb_write_idx buf" and ?n = "int (length xs)"
  have b: "0 \<le> ?w" "?w + ?n \<le> ?u" "?l + ?n \<le> ?u"
    using wf fits buf_writable_eq [OF wf] by (auto simp: buf_wf_def)
  then have w: "u32 (?w + ?n) = ?w + ?n" "u32 (?l + ?n) = ?l + ?n" "u64 (?l + ?n) = ?l + ?n"
    using wf by (auto simp: buf_wf_def intro!: wrap_u_id)
  have "(?w + ?n) mod ?u = (?r + (?l + ?n)) mod ?u"
    using wf by (simp add: buf_wf_def mod_add_left_eq add.assoc)
  moreover have "nat ?w + length xs \<le> length (bb_bytes buf)"
    using b wf by (auto simp: buf_wf_def)
  ultimately show ?thesis
    using wf b w
    by (auto simp: buf_put_def buf_increment_write_def buf_write_pointer_def buf_wf_def length_store_at)
qed

text \<open>A position of the queue lies in the stored chunk exactly when it is past the old contents.\<close>

lemma ring_slot_of_position:
  assumes wf: "buf_wf buf" and fits: "int (length xs) \<le> buf_writable buf"
    and i: "int i < bb_level buf + int (length xs)"
  defines "p \<equiv> (bb_read_idx buf + int i) mod bb_used_size buf"
  shows "0 \<le> p" "p < bb_used_size buf"
    and "int i < bb_level buf \<Longrightarrow> \<not> (bb_write_idx buf \<le> p \<and> p < bb_write_idx buf + int (length xs))"
    and "bb_level buf \<le> int i \<Longrightarrow> p = bb_write_idx buf + (int i - bb_level buf)"
proof -
  let ?u = "bb_used_size buf" and ?r = "bb_read_idx buf" and ?l = "bb_level buf"
    and ?w = "bb_write_idx buf" and ?n = "int (length xs)"
  have b: "?w + ?n \<le> ?u" "?l + ?n \<le> ?u" "0 \<le> ?r" "?r < ?u" "0 < ?u" "0 \<le> ?l" "?l \<le> ?u"
    using wf fits buf_writable_eq [OF wf] by (auto simp: buf_wf_def)
  have p: "p = (if ?r + int i < ?u then ?r + int i else ?r + int i - ?u)"
    unfolding p_def using b i by (intro mod_one_lap) auto
  show "0 \<le> p" "p < ?u" unfolding p_def using b by simp_all
  show "\<not> (?w \<le> p \<and> p < ?w + ?n)" if "int i < ?l"
    using that p b buf_wf_write_idx [OF wf] by (auto split: if_splits)
  show "p = ?w + (int i - ?l)" if "?l \<le> int i"
    using that p b i buf_wf_write_idx [OF wf] by (auto split: if_splits)
qed

lemma buf_put_contents:
  assumes wf: "buf_wf buf" and fits: "int (length xs) \<le> buf_writable buf"
  shows "buf_contents (buf_put xs buf) = buf_contents buf @ xs"
proof (rule nth_equalityI)
  let ?u = "bb_used_size buf" and ?r = "bb_read_idx buf" and ?l = "bb_level buf"
    and ?w = "bb_write_idx buf" and ?n = "int (length xs)"
  have b: "0 \<le> ?w" "?w + ?n \<le> ?u" "?l + ?n \<le> ?u" "0 \<le> ?l" "0 < ?u" "?u \<le> int (length (bb_bytes buf))"
    using wf fits buf_writable_eq [OF wf] by (auto simp: buf_wf_def)
  then have "u32 (?l + ?n) = ?l + ?n" "u64 (?l + ?n) = ?l + ?n"
    using wf by (auto simp: buf_wf_def intro!: wrap_u_id)
  then have lev: "bb_level (buf_put xs buf) = ?l + ?n"
    using b by (auto simp: buf_put_def buf_increment_write_def)
  have same: "bb_read_idx (buf_put xs buf) = ?r" "bb_used_size (buf_put xs buf) = ?u"
    "bb_bytes (buf_put xs buf) = store_at (bb_bytes buf) (nat ?w) xs"
    by (simp_all add: buf_put_def buf_increment_write_def buf_write_pointer_def)
  show "length (buf_contents (buf_put xs buf)) = length (buf_contents buf @ xs)"
    using b by (simp add: length_buf_contents lev nat_add_distrib)
  fix i assume "i < length (buf_contents (buf_put xs buf))"
  then have i: "int i < ?l + ?n" by (simp add: length_buf_contents lev)
  let ?p = "(?r + int i) mod ?u"
  note slot = ring_slot_of_position [OF wf fits i]
  have mem: "nat ?w + length xs \<le> length (bb_bytes buf)" "nat ?p < length (bb_bytes buf)"
    using b slot(1,2) by auto
  have nth: "buf_contents (buf_put xs buf) ! i = store_at (bb_bytes buf) (nat ?w) xs ! nat ?p"
    using i by (simp add: nth_buf_contents lev same)
  show "buf_contents (buf_put xs buf) ! i = (buf_contents buf @ xs) ! i"
  proof (cases "int i < ?l")
    case True
    with slot(1,3) b(1) have "\<not> (nat ?w \<le> nat ?p \<and> nat ?p < nat ?w + length xs)" by auto
    with True show ?thesis
      unfolding nth nth_store_at [OF mem] by (auto simp: nth_append length_buf_contents nth_buf_contents)
  next
    case False
    define k where "k = i - nat ?l"
    from False have i_eq: "i = nat ?l + k" by (simp add: k_def)
    with False slot(4) b i have "nat ?p = nat ?w + k" "k < length xs" by auto
    then show ?thesis
      unfolding nth nth_store_at [OF mem] by (simp add: i_eq nth_append length_buf_contents)
  qed
qed

interpretation bb: bounded_fifo buf_wf buf_contents
  "\<lambda>buf xs. int (length xs) \<le> buf_writable buf" buf_put
  "\<lambda>buf n. int n \<le> bb_level buf" buf_take
  by unfold_locales
    (simp_all add: buf_put_wf buf_put_contents buf_take_def buf_increment_read_wf
      buf_increment_read_contents)

text \<open>C22. The ring is a FIFO: over any interleaving of chunk writes that fit \<open>buf_writable\<close> and reads
  of queued bytes, the bytes that were in the ring followed by those written are exactly the bytes
  read followed by those still in it. Nothing is lost, duplicated or reordered, across any number
  of wrap-arounds.\<close>

theorem byte_buffer_fifo:
  assumes "buf_wf buf"
    and "fifo_ok (\<lambda>b xs. int (length xs) \<le> buf_writable b) (\<lambda>b n. int n \<le> buf_queued b)
           buf_put buf_take buf ops"
    and "fifo_run buf_contents buf_put buf_take buf ops = (written, got, buf')"
  shows "buf_wf buf' \<and> buf_contents buf @ written = got @ buf_contents buf'"
  using bb.run_invar_fifo [of buf ops written got buf'] assms by (simp add: buf_queued_def)

definition buf_example :: byte_buffer where
  "buf_example = \<lparr>bb_write_idx = 1, bb_read_idx = 3, bb_level = 2, bb_max_size = 4,
     bb_used_size = 4, bb_bytes = [20, 0, 0, 10]\<rparr>"

theorem byte_buffer_fifo_witness:
  "buf_contents buf_example @ [30, 40, 50] = [10, 20, 30] @ [40, 50]"
proof -
  let ?ops = "[Put [30, 40], Take 3, Put [50]]"
  have wf: "buf_wf buf_example" by (simp add: buf_wf_def buf_example_def)
  have ok: "fifo_ok (\<lambda>b xs. int (length xs) \<le> buf_writable b) (\<lambda>b n. int n \<le> buf_queued b)
      buf_put buf_take buf_example ?ops" by code_simp
  have run: "(case fifo_run buf_contents buf_put buf_take buf_example ?ops of (w, r, b) \<Rightarrow> w) = [30, 40, 50]
    \<and> (case fifo_run buf_contents buf_put buf_take buf_example ?ops of (w, r, b) \<Rightarrow> r @ buf_contents b)
      = [10, 20, 30] @ [40, 50]" by code_simp
  obtain w r b where eq: "fifo_run buf_contents buf_put buf_take buf_example ?ops = (w, r, b)"
    using prod_cases3 by blast
  from byte_buffer_fifo [OF wf ok eq] run eq show ?thesis by simp
qed

text \<open>The regions handed out by \<open>buf_write_pointer_size\<close> and \<open>buf_read_pointer_size\<close> lie inside
  the allocation and do not overlap, and a caller that is refused (size 0) finds the ring full or
  empty: there is always progress.\<close>

lemma byte_buffer_regions:
  assumes "buf_wf buf"
  shows "0 \<le> buf_write_pointer buf \<and> buf_write_pointer buf + buf_writable buf \<le> bb_max_size buf
    \<and> 0 \<le> buf_read_pointer buf \<and> buf_read_pointer buf + buf_readable buf \<le> bb_max_size buf
    \<and> (buf_write_pointer buf + buf_writable buf \<le> buf_read_pointer buf
       \<or> buf_read_pointer buf + buf_readable buf \<le> buf_write_pointer buf)
    \<and> (buf_writable buf = 0 \<longleftrightarrow> buf_queued buf = bb_used_size buf)
    \<and> (buf_readable buf = 0 \<longleftrightarrow> buf_queued buf = 0)"
  using assms buf_wf_write_idx [OF assms]
  by (auto simp: buf_writable_eq buf_readable_eq buf_write_pointer_def buf_read_pointer_def
      buf_queued_def buf_wf_def min_def split: if_splits)

lemma byte_buffer_create_wf:
  "0 < n \<Longrightarrow> n \<le> 2 ^ 31 \<Longrightarrow> byte_buffer_create True n = Some buf \<Longrightarrow> buf_wf buf \<and> buf_contents buf = []"
  by (auto simp: byte_buffer_create_def buf_wf_def buf_contents_def wrap_u_id)

lemma buf_reset_wf: "buf_wf buf \<Longrightarrow> buf_wf (buf_reset buf) \<and> buf_contents (buf_reset buf) = []"
  by (simp add: buf_reset_def buf_wf_def buf_contents_def)

text \<open>\<open>buf_adjust_readable\<close> truncates the queue or exposes stale bytes behind it, but keeps the ring
  well formed.\<close>

lemma buf_adjust_readable_wf:
  assumes "buf_wf buf" "0 \<le> n"
  shows "buf_wf (buf_adjust_readable buf n)"
  using assms by (auto simp: buf_adjust_readable_def buf_wf_def Let_def min_def wrap_u_id)

end
