(* ===== verification/Refinement.thy ===== *)
theory Refinement
  imports Cras_Prelude
begin

text \<open>
  Functional refinement between a concrete component and its abstract specification: every
  operation, run on a state that satisfies the invariant, keeps the invariant, returns what the
  specification returns and commutes with the abstraction function. The locale lifts this from one
  operation to every sequence of operations, so that a component is verified operation by
  operation and used through its specification.
\<close>

fun run_ops :: "('s \<Rightarrow> 'op \<Rightarrow> 's \<times> 'r) \<Rightarrow> 's \<Rightarrow> 'op list \<Rightarrow> 's \<times> 'r list" where
  "run_ops step s [] = (s, [])"
| "run_ops step s (x # xs) =
     (let (s', r) = step s x; (s'', rs) = run_ops step s' xs in (s'', r # rs))"

locale functional_refinement =
  fixes invar :: "'s \<Rightarrow> bool"
    and abst :: "'s \<Rightarrow> 'a"
    and step :: "'s \<Rightarrow> 'op \<Rightarrow> 's \<times> 'r"
    and spec :: "'a \<Rightarrow> 'op \<Rightarrow> 'a \<times> 'r"
    and allowed :: "'op \<Rightarrow> bool"
  assumes step_invar: "invar s \<Longrightarrow> allowed x \<Longrightarrow> invar (fst (step s x))"
    and step_refines: "invar s \<Longrightarrow> allowed x \<Longrightarrow>
      spec (abst s) x = (abst (fst (step s x)), snd (step s x))"
begin

lemma run_refines:
  "invar s \<Longrightarrow> list_all allowed xs \<Longrightarrow>
     invar (fst (run_ops step s xs)) \<and>
     run_ops spec (abst s) xs = (abst (fst (run_ops step s xs)), snd (run_ops step s xs))"
proof (induction xs arbitrary: s)
  case Nil
  then show ?case by simp
next
  case (Cons x xs)
  then have x: "allowed x" and xs: "list_all allowed xs" by simp_all
  from Cons.IH [OF step_invar [OF Cons.prems(1) x] xs] step_refines [OF Cons.prems(1) x]
  show ?case by (simp add: case_prod_beta Let_def)
qed

end

end
