(* ===== verification/Buffer_Share.thy ===== *)
theory Buffer_Share
  imports Refinement
begin

text \<open>
  \<open>cras/src/server/buffer_share.c\<close>: the table in which a device records how far each attached
  stream (or, for a stream, each attached device) has advanced in the buffer they share. The array
  \<open>wr_idx\<close> of \<open>id_sz\<close> slots is a list, whose length is \<open>id_sz\<close>; a \<open>void*\<close> is its address, 0 for
  NULL. The theory refines the array, whose freed slots keep stale ids and are looked up without
  their \<open>used\<close> flag by \<open>buffer_share_offset_update\<close>, to a finite map from ids to offsets.
\<close>

section \<open>Model\<close>

record id_offset =
  io_used :: int
  io_id :: int
  io_offset :: int
  io_data :: int

record buffer_share =
  bs_buf_sz :: int
  bs_wr_idx :: "id_offset list"

definition INITIAL_ID_SIZE :: nat where "INITIAL_ID_SIZE = 3"

text \<open>A search loop: the index of the first element that satisfies the condition.\<close>

fun first_index :: "('a \<Rightarrow> bool) \<Rightarrow> 'a list \<Rightarrow> nat option" where
  "first_index P [] = None"
| "first_index P (x # xs) = (if P x then Some 0 else map_option Suc (first_index P xs))"

definition find_unused :: "buffer_share \<Rightarrow> nat option" where
  "find_unused mix = first_index (\<lambda>slot. io_used slot = 0) (bs_wr_idx mix)"

definition find_id :: "buffer_share \<Rightarrow> int \<Rightarrow> nat option" where
  "find_id mix id' = first_index (\<lambda>slot. io_used slot \<noteq> 0 \<and> id' = io_id slot) (bs_wr_idx mix)"

text \<open>\<open>realloc\<close> leaves the new slots uninitialised: \<open>junk\<close> is what they hold.\<close>

definition alloc_more_ids :: "(nat \<Rightarrow> id_offset) \<Rightarrow> buffer_share \<Rightarrow> buffer_share" where
  "alloc_more_ids junk mix =
     (let id_sz = length (bs_wr_idx mix); new_size = id_sz * 2 in
      mix\<lparr>bs_wr_idx := bs_wr_idx mix @ map (\<lambda>i. (junk i)\<lparr>io_used := 0\<rparr>) [id_sz..<new_size]\<rparr>)"

definition buffer_share_create :: "int \<Rightarrow> buffer_share" where
  "buffer_share_create buf_sz =
     \<lparr>bs_buf_sz = buf_sz,
      bs_wr_idx = replicate INITIAL_ID_SIZE \<lparr>io_used = 0, io_id = 0, io_offset = 0, io_data = 0\<rparr>\<rparr>"

text \<open>None is the NULL dereference that a table without a free slot would cause.\<close>

definition buffer_share_add_id ::
  "(nat \<Rightarrow> id_offset) \<Rightarrow> buffer_share \<Rightarrow> int \<Rightarrow> int \<Rightarrow> (int \<times> buffer_share) option" where
  "buffer_share_add_id junk mix id' data =
     (if find_id mix id' \<noteq> None then Some (- EEXIST, mix)
      else
        let mix = (if find_unused mix = None then alloc_more_ids junk mix else mix) in
        case find_unused mix of
          None \<Rightarrow> None
        | Some i \<Rightarrow> Some (0, mix\<lparr>bs_wr_idx := (bs_wr_idx mix)
            [i := \<lparr>io_used = 1, io_id = id', io_offset = 0, io_data = data\<rparr>]\<rparr>))"

definition buffer_share_rm_id :: "buffer_share \<Rightarrow> int \<Rightarrow> int \<times> buffer_share" where
  "buffer_share_rm_id mix id' =
     (case find_id mix id' of
        None \<Rightarrow> (- ENOENT, mix)
      | Some i \<Rightarrow> (0, mix\<lparr>bs_wr_idx := (bs_wr_idx mix)
          [i := (bs_wr_idx mix ! i)\<lparr>io_used := 0, io_data := 0\<rparr>]\<rparr>))"

text \<open>The loop compares ids only, not the \<open>used\<close> flag.\<close>

definition buffer_share_offset_update :: "buffer_share \<Rightarrow> int \<Rightarrow> int \<Rightarrow> int \<times> buffer_share" where
  "buffer_share_offset_update mix id' delta =
     (case first_index (\<lambda>slot. id' = io_id slot) (bs_wr_idx mix) of
        None \<Rightarrow> (0, mix)
      | Some i \<Rightarrow> (0, mix\<lparr>bs_wr_idx := (bs_wr_idx mix)
          [i := (bs_wr_idx mix ! i)\<lparr>io_offset := u32 (io_offset (bs_wr_idx mix ! i) + delta)\<rparr>]\<rparr>))"

fun min_used_offset :: "int \<Rightarrow> id_offset list \<Rightarrow> int" where
  "min_used_offset m [] = m"
| "min_used_offset m (slot # slots) =
     min_used_offset (if io_used slot = 0 then m else min m (io_offset slot)) slots"

definition buffer_share_get_minimum_offset :: "buffer_share \<Rightarrow> int" where
  "buffer_share_get_minimum_offset mix =
     (let min_written = min_used_offset (u32 (bs_buf_sz mix + 1)) (bs_wr_idx mix) in
      if min_written > bs_buf_sz mix then 0 else min_written)"

definition buffer_share_update_write_point :: "buffer_share \<Rightarrow> int \<Rightarrow> int \<times> buffer_share" where
  "buffer_share_update_write_point mix written =
     (if list_ex (\<lambda>slot. io_used slot \<noteq> 0 \<and> io_offset slot < written) (bs_wr_idx mix)
      then (- EINVAL, mix)
      else (0, mix\<lparr>bs_wr_idx :=
        map (\<lambda>slot. slot\<lparr>io_offset := u32 (io_offset slot - written)\<rparr>) (bs_wr_idx mix)\<rparr>))"

definition buffer_share_get_new_write_point :: "buffer_share \<Rightarrow> int \<times> buffer_share" where
  "buffer_share_get_new_write_point mix =
     (let minimum_offset = buffer_share_get_minimum_offset mix;
          (rc, mix') = buffer_share_update_write_point mix minimum_offset
      in if rc < 0 then (0, mix') else (minimum_offset, mix'))"

definition get_id_offset :: "buffer_share \<Rightarrow> int \<Rightarrow> nat option" where
  "get_id_offset mix id' = first_index (\<lambda>slot. io_used slot \<noteq> 0 \<and> io_id slot = id') (bs_wr_idx mix)"

definition buffer_share_id_offset :: "buffer_share \<Rightarrow> int \<Rightarrow> int" where
  "buffer_share_id_offset mix id' =
     (case get_id_offset mix id' of None \<Rightarrow> 0 | Some i \<Rightarrow> io_offset (bs_wr_idx mix ! i))"

definition buffer_share_get_data :: "buffer_share \<Rightarrow> int \<Rightarrow> int" where
  "buffer_share_get_data mix id' =
     (case get_id_offset mix id' of None \<Rightarrow> 0 | Some i \<Rightarrow> io_data (bs_wr_idx mix ! i))"

text \<open>The argument may be NULL.\<close>

definition buffer_share_reset_write_point :: "buffer_share option \<Rightarrow> int \<times> buffer_share option" where
  "buffer_share_reset_write_point mix =
     (0, map_option (\<lambda>m. m\<lparr>bs_wr_idx :=
        map (\<lambda>slot. if io_used slot = 0 then slot else slot\<lparr>io_offset := 0\<rparr>) (bs_wr_idx m)\<rparr>) mix)"

section \<open>Search loops\<close>

lemma first_index_Some_iff:
  "first_index P xs = Some i \<longleftrightarrow> i < length xs \<and> P (xs ! i) \<and> (\<forall>j<i. \<not> P (xs ! j))"
proof (induction xs arbitrary: i)
  case (Cons x xs)
  then show ?case by (cases i) (auto simp: less_Suc_eq_0_disj)
qed simp

lemma first_index_None_iff: "first_index P xs = None \<longleftrightarrow> (\<forall>x\<in>set xs. \<not> P x)"
  by (induction xs) auto

lemma first_index_cong: "(\<And>x. P x = Q x) \<Longrightarrow> first_index P xs = first_index Q xs"
  by (induction xs) auto

lemma get_id_offset_eq: "get_id_offset mix id' = find_id mix id'"
  unfolding get_id_offset_def find_id_def by (rule first_index_cong) auto

section \<open>Abstract specification\<close>

text \<open>Each id that shares the buffer has an offset and a data pointer.\<close>

type_synonym share_map = "int \<rightharpoonup> int \<times> int"

datatype share_op =
    AddId "nat \<Rightarrow> id_offset" int int
  | RmId int
  | OffsetUpdate int int
  | GetMinimumOffset
  | UpdateWritePoint int
  | GetNewWritePoint
  | IdOffset int
  | GetData int
  | ResetWritePoint

definition share_offsets :: "share_map \<Rightarrow> int set" where
  "share_offsets m = fst ` ran m"

definition share_min :: "int \<Rightarrow> share_map \<Rightarrow> int" where
  "share_min sz m =
     (if share_offsets m = {} \<or> Min (share_offsets m) > sz then 0 else Min (share_offsets m))"

definition share_sub :: "int \<Rightarrow> share_map \<Rightarrow> share_map" where
  "share_sub w m = (\<lambda>x. map_option (\<lambda>(off, d). (off - w, d)) (m x))"

fun share_spec :: "int \<times> share_map \<Rightarrow> share_op \<Rightarrow> (int \<times> share_map) \<times> int option" where
  "share_spec (sz, m) (AddId junk x d) =
     (if m x \<noteq> None then ((sz, m), Some (- EEXIST)) else ((sz, m(x \<mapsto> (0, d))), Some 0))"
| "share_spec (sz, m) (RmId x) =
     (if m x = None then ((sz, m), Some (- ENOENT)) else ((sz, m(x := None)), Some 0))"
| "share_spec (sz, m) (OffsetUpdate x delta) =
     (case m x of None \<Rightarrow> ((sz, m), Some 0)
      | Some (off, d) \<Rightarrow> ((sz, m(x \<mapsto> (u32 (off + delta), d))), Some 0))"
| "share_spec (sz, m) GetMinimumOffset = ((sz, m), Some (share_min sz m))"
| "share_spec (sz, m) (UpdateWritePoint w) =
     (if \<exists>off\<in>share_offsets m. off < w then ((sz, m), Some (- EINVAL))
      else ((sz, share_sub w m), Some 0))"
| "share_spec (sz, m) GetNewWritePoint = ((sz, share_sub (share_min sz m) m), Some (share_min sz m))"
| "share_spec (sz, m) (IdOffset x) = ((sz, m), Some (case m x of None \<Rightarrow> 0 | Some (off, d) \<Rightarrow> off))"
| "share_spec (sz, m) (GetData x) = ((sz, m), Some (case m x of None \<Rightarrow> 0 | Some (off, d) \<Rightarrow> d))"
| "share_spec (sz, m) ResetWritePoint =
     ((sz, \<lambda>x. map_option (\<lambda>(off, d). (0, d)) (m x)), Some 0)"

text \<open>The modelled operations as one step function; an answer None is a NULL dereference.\<close>

fun share_step :: "buffer_share \<Rightarrow> share_op \<Rightarrow> buffer_share \<times> int option" where
  "share_step mix (AddId junk x d) =
     (case buffer_share_add_id junk mix x d of None \<Rightarrow> (mix, None) | Some (rc, mix') \<Rightarrow> (mix', Some rc))"
| "share_step mix (RmId x) = (let (rc, mix') = buffer_share_rm_id mix x in (mix', Some rc))"
| "share_step mix (OffsetUpdate x delta) =
     (let (rc, mix') = buffer_share_offset_update mix x delta in (mix', Some rc))"
| "share_step mix GetMinimumOffset = (mix, Some (buffer_share_get_minimum_offset mix))"
| "share_step mix (UpdateWritePoint w) =
     (let (rc, mix') = buffer_share_update_write_point mix w in (mix', Some rc))"
| "share_step mix GetNewWritePoint =
     (let (p, mix') = buffer_share_get_new_write_point mix in (mix', Some p))"
| "share_step mix (IdOffset x) = (mix, Some (buffer_share_id_offset mix x))"
| "share_step mix (GetData x) = (mix, Some (buffer_share_get_data mix x))"
| "share_step mix ResetWritePoint =
     (let (rc, mix') = buffer_share_reset_write_point (Some mix) in (the mix', Some rc))"

section \<open>Abstraction and invariant\<close>

fun slots_map :: "id_offset list \<Rightarrow> share_map" where
  "slots_map [] x = None"
| "slots_map (slot # slots) x =
     (if io_used slot \<noteq> 0 \<and> io_id slot = x then Some (io_offset slot, io_data slot)
      else slots_map slots x)"

text \<open>No slot, used or stale, shadows a used slot behind it. This is what makes the unguarded loop
  of \<open>buffer_share_offset_update\<close> find the right slot.\<close>

fun no_shadow :: "id_offset list \<Rightarrow> bool" where
  "no_shadow [] = True"
| "no_shadow (slot # slots) =
     ((\<forall>t\<in>set slots. io_used t \<noteq> 0 \<longrightarrow> io_id t \<noteq> io_id slot) \<and> no_shadow slots)"

definition offsets_u32 :: "id_offset list \<Rightarrow> bool" where
  "offsets_u32 slots \<longleftrightarrow> (\<forall>slot\<in>set slots. io_used slot \<noteq> 0 \<longrightarrow> in_u 32 (io_offset slot))"

definition share_wf :: "buffer_share \<Rightarrow> bool" where
  "share_wf mix \<longleftrightarrow>
     bs_wr_idx mix \<noteq> [] \<and> no_shadow (bs_wr_idx mix) \<and> offsets_u32 (bs_wr_idx mix) \<and>
     0 \<le> bs_buf_sz mix \<and> bs_buf_sz mix < 2 ^ 32 - 1"

definition share_abs :: "buffer_share \<Rightarrow> int \<times> share_map" where
  "share_abs mix = (bs_buf_sz mix, slots_map (bs_wr_idx mix))"

lemmas share_defs = share_wf_def share_abs_def offsets_u32_def

lemma offsets_u32_update:
  assumes "offsets_u32 xs" "io_used new \<noteq> 0 \<longrightarrow> in_u 32 (io_offset new)"
  shows "offsets_u32 (xs[i := new])"
  using assms set_update_subset_insert [of xs i new] unfolding offsets_u32_def by blast

lemma slots_map_None_iff: "slots_map xs x = None \<longleftrightarrow> (\<forall>t\<in>set xs. io_used t \<noteq> 0 \<longrightarrow> io_id t \<noteq> x)"
  by (induction xs) auto

lemma find_id_slots_map:
  "slots_map xs x = map_option (\<lambda>i. (io_offset (xs ! i), io_data (xs ! i)))
     (first_index (\<lambda>slot. io_used slot \<noteq> 0 \<and> x = io_id slot) xs)"
  by (induction xs) (auto simp: option.map_comp comp_def)

lemma find_id_None_iff: "find_id mix x = None \<longleftrightarrow> slots_map (bs_wr_idx mix) x = None"
  by (simp add: find_id_def find_id_slots_map)

text \<open>Filling the first free slot with a new id.\<close>

lemma add_slot:
  assumes "first_index (\<lambda>slot. io_used slot = 0) xs = Some i" "slots_map xs (io_id new) = None"
    and "no_shadow xs" "io_used new \<noteq> 0"
  shows "no_shadow (xs[i := new])
    \<and> slots_map (xs[i := new]) = (slots_map xs)(io_id new \<mapsto> (io_offset new, io_data new))"
  using assms
proof (induction xs arbitrary: i)
  case (Cons t xs)
  show ?case
  proof (cases "io_used t = 0")
    case True
    with Cons.prems show ?thesis by (auto simp: slots_map_None_iff fun_eq_iff)
  next
    case False
    with Cons.prems obtain j where j: "i = Suc j" "first_index (\<lambda>slot. io_used slot = 0) xs = Some j"
      by auto
    from False Cons.prems(2) have t: "io_id t \<noteq> io_id new" and new: "slots_map xs (io_id new) = None"
      by (auto split: if_splits)
    from Cons.prems(3) have "no_shadow xs" by simp
    from Cons.IH [OF j(2) new this Cons.prems(4)]
    have "no_shadow (xs[j := new])"
      and eq: "slots_map (xs[j := new]) = (slots_map xs)(io_id new \<mapsto> (io_offset new, io_data new))"
      by blast+
    moreover have "\<forall>u\<in>set (xs[j := new]). io_used u \<noteq> 0 \<longrightarrow> io_id u \<noteq> io_id t"
      using t Cons.prems(3) set_update_subset_insert [of xs j new] by auto
    ultimately show ?thesis using t j(1) by (auto simp: eq fun_eq_iff)
  qed
qed simp

text \<open>Freeing the slot of an id, and changing the offset of the slot found by id alone.\<close>

lemma free_slot:
  assumes "first_index (\<lambda>slot. io_used slot \<noteq> 0 \<and> x = io_id slot) xs = Some i" "no_shadow xs"
    and "io_used new = 0" "io_id new = x"
  shows "no_shadow (xs[i := new]) \<and> slots_map (xs[i := new]) = (slots_map xs)(x := None)"
  using assms
proof (induction xs arbitrary: i)
  case (Cons t xs)
  show ?case
  proof (cases "io_used t \<noteq> 0 \<and> x = io_id t")
    case True
    with Cons.prems have "slots_map xs x = None" by (auto simp: slots_map_None_iff)
    with True Cons.prems show ?thesis by (auto simp: fun_eq_iff)
  next
    case False
    with Cons.prems obtain j where j: "i = Suc j"
      "first_index (\<lambda>slot. io_used slot \<noteq> 0 \<and> x = io_id slot) xs = Some j" by auto
    from Cons.IH [OF j(2)] Cons.prems False j(1) show ?thesis
      using set_update_subset_insert [of xs j new] by (auto simp: fun_eq_iff)
  qed
qed simp

lemma update_slot:
  assumes "first_index (\<lambda>slot. x = io_id slot) xs = Some i" "no_shadow xs"
  shows "no_shadow (xs[i := (xs ! i)\<lparr>io_offset := f (io_offset (xs ! i))\<rparr>])
    \<and> slots_map (xs[i := (xs ! i)\<lparr>io_offset := f (io_offset (xs ! i))\<rparr>])
      = (slots_map xs)(x := map_option (\<lambda>(off, d). (f off, d)) (slots_map xs x))"
  using assms
proof (induction xs arbitrary: i)
  case (Cons t xs)
  show ?case
  proof (cases "x = io_id t")
    case True
    with Cons.prems have "slots_map xs x = None" by (auto simp: slots_map_None_iff)
    with True Cons.prems show ?thesis by (auto simp: fun_eq_iff)
  next
    case False
    with Cons.prems obtain j where j: "i = Suc j" "first_index (\<lambda>slot. x = io_id slot) xs = Some j"
      by auto
    then have id_j: "io_id (xs ! j) = x" and "j < length xs" by (auto simp: first_index_Some_iff)
    then have "\<forall>u\<in>set (xs[j := (xs ! j)\<lparr>io_offset := f (io_offset (xs ! j))\<rparr>]).
        io_used u \<noteq> 0 \<longrightarrow> io_id u \<noteq> io_id t"
      using False Cons.prems(2) set_update_subset_insert [of xs j] by fastforce
    with Cons.IH [OF j(2)] Cons.prems False j(1) show ?thesis by (auto simp: fun_eq_iff)
  qed
qed simp

lemma no_shadow_append_free:
  "no_shadow xs \<Longrightarrow> \<forall>t\<in>set ys. io_used t = 0 \<Longrightarrow> no_shadow (xs @ ys)"
proof (induction xs)
  case Nil
  then show ?case by (induction ys) auto
qed auto

lemma slots_map_append_free: "\<forall>t\<in>set ys. io_used t = 0 \<Longrightarrow> slots_map (xs @ ys) = slots_map xs"
proof (induction xs)
  case Nil
  then show ?case by (auto simp: slots_map_None_iff fun_eq_iff)
qed (auto simp: fun_eq_iff)

text \<open>Changing offsets slot by slot.\<close>

lemma no_shadow_map:
  "(\<And>t. io_used (g t) = io_used t \<and> io_id (g t) = io_id t) \<Longrightarrow> no_shadow xs \<Longrightarrow> no_shadow (map g xs)"
  by (induction xs) auto

lemma slots_map_map:
  assumes "\<And>t. io_used (g t) = io_used t \<and> io_id (g t) = io_id t"
    and "\<And>t. t \<in> set xs \<Longrightarrow> io_used t \<noteq> 0 \<Longrightarrow>
      (io_offset (g t), io_data (g t)) = h (io_offset t, io_data t)"
  shows "slots_map (map g xs) = (\<lambda>x. map_option h (slots_map xs x))"
  using assms(2)
proof (induction xs)
  case (Cons t xs)
  then show ?case using assms(1) [of t] by (auto simp: fun_eq_iff)
qed (simp add: fun_eq_iff)

lemma share_offsets_slots:
  assumes "no_shadow xs"
  shows "share_offsets (slots_map xs) = io_offset ` {t \<in> set xs. io_used t \<noteq> 0}"
  using assms
proof (induction xs)
  case Nil
  then show ?case by (simp add: share_offsets_def ran_def)
next
  case (Cons t xs)
  have "slots_map (t # xs) = (if io_used t \<noteq> 0
      then (slots_map xs)(io_id t \<mapsto> (io_offset t, io_data t)) else slots_map xs)"
    by (auto simp: fun_eq_iff)
  moreover have "slots_map xs (io_id t) = None" using Cons.prems by (auto simp: slots_map_None_iff)
  ultimately show ?case
    using Cons by (auto simp: share_offsets_def ran_map_upd)
qed

lemma Min_insert_min: "finite S \<Longrightarrow> Min (insert (min a b) S) = Min (insert a (insert b S))"
  by (cases "S = {}") (simp_all add: min.assoc)

lemma min_used_offset_eq:
  "min_used_offset m xs = Min (insert m (io_offset ` {t \<in> set xs. io_used t \<noteq> 0}))"
proof (induction xs arbitrary: m)
  case (Cons t xs)
  let ?S = "io_offset ` {t \<in> set xs. io_used t \<noteq> 0}"
  show ?case
  proof (cases "io_used t = 0")
    case True
    then have "{u \<in> set (t # xs). io_used u \<noteq> 0} = {u \<in> set xs. io_used u \<noteq> 0}" by auto
    with True Cons show ?thesis by simp
  next
    case False
    then have "{u \<in> set (t # xs). io_used u \<noteq> 0} = insert t {u \<in> set xs. io_used u \<noteq> 0}" by auto
    moreover have "Min (insert (min m (io_offset t)) ?S) = Min (insert m (insert (io_offset t) ?S))"
      by (rule Min_insert_min) simp
    ultimately show ?thesis using False Cons by simp
  qed
qed simp

section \<open>Every operation refines its specification\<close>

lemma finite_used_offsets [simp]: "finite (io_offset ` {t \<in> set xs. io_used t \<noteq> 0})"
  by simp

lemma minimum_offset_correct:
  assumes "share_wf mix"
  shows "buffer_share_get_minimum_offset mix = share_min (bs_buf_sz mix) (slots_map (bs_wr_idx mix))"
proof -
  let ?S = "io_offset ` {t \<in> set (bs_wr_idx mix). io_used t \<noteq> 0}" and ?sz = "bs_buf_sz mix"
  have sz: "u32 (?sz + 1) = ?sz + 1" using assms by (simp add: share_wf_def wrap_u_id)
  have S: "share_offsets (slots_map (bs_wr_idx mix)) = ?S"
    using assms by (simp add: share_wf_def share_offsets_slots)
  show ?thesis
  proof (cases "?S = {}")
    case True
    show ?thesis
      unfolding buffer_share_get_minimum_offset_def share_min_def min_used_offset_eq sz S True by simp
  next
    case False
    then have "Min (insert (?sz + 1) ?S) = min (?sz + 1) (Min ?S)" by (simp add: Min_insert)
    with False show ?thesis
      unfolding buffer_share_get_minimum_offset_def share_min_def min_used_offset_eq sz S Let_def
      by (auto simp: min_def)
  qed
qed

lemma add_id_refines:
  assumes wf: "share_wf mix"
  shows "share_wf (fst (share_step mix (AddId junk x d)))
    \<and> share_spec (share_abs mix) (AddId junk x d)
      = (share_abs (fst (share_step mix (AddId junk x d))), snd (share_step mix (AddId junk x d)))"
proof (cases "find_id mix x = None")
  case False
  then show ?thesis
    using wf by (auto simp: buffer_share_add_id_def share_abs_def find_id_None_iff)
next
  case True
  define mix1 where "mix1 = (if find_unused mix = None then alloc_more_ids junk mix else mix)"
  let ?xs = "bs_wr_idx mix1" and ?new = "\<lparr>io_used = 1, io_id = x, io_offset = 0, io_data = d\<rparr>"
  have wf1: "share_wf mix1" and map1: "slots_map ?xs = slots_map (bs_wr_idx mix)"
    using wf unfolding mix1_def
    by (auto simp: alloc_more_ids_def Let_def share_defs no_shadow_append_free slots_map_append_free)
  have "find_unused mix1 \<noteq> None"
  proof (cases "find_unused mix = None")
    case True
    have "length (bs_wr_idx mix) \<in> set [length (bs_wr_idx mix)..<length (bs_wr_idx mix) * 2]"
      using wf by (simp add: share_wf_def)
    then have "\<exists>t\<in>set (bs_wr_idx (alloc_more_ids junk mix)). io_used t = 0"
      by (force simp: alloc_more_ids_def Let_def)
    then show ?thesis
      unfolding mix1_def find_unused_def first_index_None_iff using True by simp
  next
    case False
    then have "mix1 = mix" by (auto simp: mix1_def)
    with False show ?thesis by simp
  qed
  then obtain i where i: "find_unused mix1 = Some i" by auto
  have new: "slots_map ?xs x = None" using True map1 by (simp add: find_id_None_iff)
  with i wf1 add_slot [of ?xs i ?new]
  have slot: "no_shadow (?xs[i := ?new])" "slots_map (?xs[i := ?new]) = (slots_map ?xs)(x \<mapsto> (0, d))"
    by (simp_all add: find_unused_def share_wf_def)
  have "offsets_u32 (?xs[i := ?new])"
    using wf1 by (intro offsets_u32_update) (simp_all add: share_wf_def in_u_def)
  moreover have "buffer_share_add_id junk mix x d = Some (0, mix1\<lparr>bs_wr_idx := ?xs[i := ?new]\<rparr>)"
    using True i by (simp add: buffer_share_add_id_def mix1_def Let_def)
  moreover have "bs_buf_sz mix1 = bs_buf_sz mix"
    by (simp add: mix1_def alloc_more_ids_def Let_def)
  ultimately show ?thesis
    using slot wf1 map1 new by (auto simp: share_wf_def share_abs_def)
qed

lemma rm_id_refines:
  assumes wf: "share_wf mix"
  shows "share_wf (fst (share_step mix (RmId x)))
    \<and> share_spec (share_abs mix) (RmId x)
      = (share_abs (fst (share_step mix (RmId x))), snd (share_step mix (RmId x)))"
proof (cases "find_id mix x")
  case None
  then have "slots_map (bs_wr_idx mix) x = None" by (simp add: find_id_None_iff)
  with None wf show ?thesis by (simp add: buffer_share_rm_id_def share_abs_def)
next
  case (Some i)
  let ?xs = "bs_wr_idx mix" and ?new = "(bs_wr_idx mix ! i)\<lparr>io_used := 0, io_data := 0\<rparr>"
  from Some have found: "first_index (\<lambda>slot. io_used slot \<noteq> 0 \<and> x = io_id slot) ?xs = Some i"
    by (simp add: find_id_def)
  then have id_i: "io_id (?xs ! i) = x" by (auto simp: first_index_Some_iff)
  from wf free_slot [OF found, of ?new] id_i
  have slot: "no_shadow (?xs[i := ?new])" "slots_map (?xs[i := ?new]) = (slots_map ?xs)(x := None)"
    by (simp_all add: share_wf_def)
  have "offsets_u32 (?xs[i := ?new])"
    using wf by (intro offsets_u32_update) (simp_all add: share_wf_def)
  moreover have "slots_map ?xs x \<noteq> None" using Some by (simp add: find_id_None_iff [symmetric])
  ultimately show ?thesis
    using slot wf Some by (auto simp: share_wf_def share_abs_def buffer_share_rm_id_def)
qed

lemma offset_update_refines:
  assumes wf: "share_wf mix"
  shows "share_wf (fst (share_step mix (OffsetUpdate x delta)))
    \<and> share_spec (share_abs mix) (OffsetUpdate x delta)
      = (share_abs (fst (share_step mix (OffsetUpdate x delta))),
         snd (share_step mix (OffsetUpdate x delta)))"
proof (cases "first_index (\<lambda>slot. x = io_id slot) (bs_wr_idx mix)")
  case None
  then have "slots_map (bs_wr_idx mix) x = None"
    by (auto simp: first_index_None_iff slots_map_None_iff)
  with None wf show ?thesis by (simp add: buffer_share_offset_update_def share_abs_def)
next
  case (Some i)
  let ?xs = "bs_wr_idx mix"
    and ?new = "(bs_wr_idx mix ! i)\<lparr>io_offset := u32 (io_offset (bs_wr_idx mix ! i) + delta)\<rparr>"
  from wf update_slot [OF Some, of "\<lambda>off. u32 (off + delta)"]
  have slot: "no_shadow (?xs[i := ?new])"
    "slots_map (?xs[i := ?new])
       = (slots_map ?xs)(x := map_option (\<lambda>(off, d). (u32 (off + delta), d)) (slots_map ?xs x))"
    by (simp_all add: share_wf_def)
  have "offsets_u32 (?xs[i := ?new])"
    using wf by (intro offsets_u32_update) (simp_all add: share_wf_def)
  with slot wf Some show ?thesis
    by (auto simp: share_wf_def share_abs_def buffer_share_offset_update_def split: option.splits)
qed

text \<open>Subtracting a write point that no offset is below never wraps around.\<close>

lemma subtract_write_point:
  assumes wf: "share_wf mix" and w: "0 \<le> w"
    and le: "\<forall>t\<in>set (bs_wr_idx mix). io_used t \<noteq> 0 \<longrightarrow> w \<le> io_offset t"
  defines "mix' \<equiv> mix\<lparr>bs_wr_idx :=
    map (\<lambda>slot. slot\<lparr>io_offset := u32 (io_offset slot - w)\<rparr>) (bs_wr_idx mix)\<rparr>"
  shows "share_wf mix' \<and> slots_map (bs_wr_idx mix') = share_sub w (slots_map (bs_wr_idx mix))"
proof
  show "share_wf mix'"
    using wf unfolding mix'_def by (auto simp: share_defs intro!: no_shadow_map)
  have "bs_wr_idx mix' = map (\<lambda>slot. slot\<lparr>io_offset := u32 (io_offset slot - w)\<rparr>) (bs_wr_idx mix)"
    by (simp add: mix'_def)
  then show "slots_map (bs_wr_idx mix') = share_sub w (slots_map (bs_wr_idx mix))"
    unfolding share_sub_def
  proof (rule ssubst [where P = "\<lambda>xs. slots_map xs = _"], intro slots_map_map)
    fix t assume "t \<in> set (bs_wr_idx mix)" "io_used t \<noteq> 0"
    with wf le w have "u32 (io_offset t - w) = io_offset t - w"
      by (intro wrap_u_id) (auto simp: share_defs in_u_def)
    then show "(io_offset (t\<lparr>io_offset := u32 (io_offset t - w)\<rparr>),
        io_data (t\<lparr>io_offset := u32 (io_offset t - w)\<rparr>))
        = (case (io_offset t, io_data t) of (off, d) \<Rightarrow> (off - w, d))" by simp
  qed simp
qed

lemma update_write_point_refines:
  assumes wf: "share_wf mix" and w: "0 \<le> w"
  shows "share_wf (fst (share_step mix (UpdateWritePoint w)))
    \<and> share_spec (share_abs mix) (UpdateWritePoint w)
      = (share_abs (fst (share_step mix (UpdateWritePoint w))),
         snd (share_step mix (UpdateWritePoint w)))"
proof -
  have S: "(\<exists>off\<in>share_offsets (slots_map (bs_wr_idx mix)). off < w)
      \<longleftrightarrow> list_ex (\<lambda>slot. io_used slot \<noteq> 0 \<and> io_offset slot < w) (bs_wr_idx mix)"
    using wf by (auto simp: share_wf_def share_offsets_slots list_ex_iff)
  show ?thesis
  proof (cases "list_ex (\<lambda>slot. io_used slot \<noteq> 0 \<and> io_offset slot < w) (bs_wr_idx mix)")
    case True
    with S wf show ?thesis by (simp add: buffer_share_update_write_point_def share_abs_def)
  next
    case False
    then have "\<forall>t\<in>set (bs_wr_idx mix). io_used t \<noteq> 0 \<longrightarrow> w \<le> io_offset t"
      by (auto simp: list_ex_iff)
    from subtract_write_point [OF wf w this] False S show ?thesis
      by (simp add: buffer_share_update_write_point_def share_abs_def)
  qed
qed

lemma share_min_le: "finite (share_offsets m) \<Longrightarrow> off \<in> share_offsets m \<Longrightarrow> 0 \<le> off \<Longrightarrow> share_min sz m \<le> off"
  by (auto simp: share_min_def)

lemma get_new_write_point_refines:
  assumes wf: "share_wf mix"
  shows "share_wf (fst (share_step mix GetNewWritePoint))
    \<and> share_spec (share_abs mix) GetNewWritePoint
      = (share_abs (fst (share_step mix GetNewWritePoint)), snd (share_step mix GetNewWritePoint))"
proof -
  let ?xs = "bs_wr_idx mix"
  define p where "p = share_min (bs_buf_sz mix) (slots_map ?xs)"
  have S: "share_offsets (slots_map ?xs) = io_offset ` {t \<in> set ?xs. io_used t \<noteq> 0}"
    using wf by (simp add: share_wf_def share_offsets_slots)
  have le: "\<forall>t\<in>set ?xs. io_used t \<noteq> 0 \<longrightarrow> p \<le> io_offset t"
    unfolding p_def using wf by (auto simp: S share_defs in_u_def intro!: share_min_le)
  have "0 \<le> p" unfolding p_def share_min_def S
    using wf by (auto simp: share_defs in_u_def)
  moreover have "\<not> list_ex (\<lambda>slot. io_used slot \<noteq> 0 \<and> io_offset slot < p) ?xs"
    using le by (auto simp: list_ex_iff)
  moreover have "buffer_share_get_minimum_offset mix = p"
    unfolding p_def by (rule minimum_offset_correct [OF wf])
  ultimately show ?thesis
    using subtract_write_point [OF wf _ le]
    by (simp add: buffer_share_get_new_write_point_def buffer_share_update_write_point_def
        share_abs_def p_def [symmetric])
qed

lemma reset_refines:
  assumes wf: "share_wf mix"
  shows "share_wf (fst (share_step mix ResetWritePoint))
    \<and> share_spec (share_abs mix) ResetWritePoint
      = (share_abs (fst (share_step mix ResetWritePoint)), snd (share_step mix ResetWritePoint))"
proof -
  let ?g = "\<lambda>slot. if io_used slot = 0 then slot else slot\<lparr>io_offset := 0\<rparr>"
  have "slots_map (map ?g (bs_wr_idx mix))
      = (\<lambda>x. map_option (\<lambda>(off, d). (0, d)) (slots_map (bs_wr_idx mix) x))"
    by (rule slots_map_map) auto
  with wf show ?thesis
    by (auto simp: buffer_share_reset_write_point_def share_defs in_u_def intro!: no_shadow_map)
qed

lemma query_refines:
  assumes "share_wf mix"
  shows "share_spec (share_abs mix) (IdOffset x) = (share_abs mix, Some (buffer_share_id_offset mix x))"
    and "share_spec (share_abs mix) (GetData x) = (share_abs mix, Some (buffer_share_get_data mix x))"
  by (auto simp: share_abs_def buffer_share_id_offset_def buffer_share_get_data_def get_id_offset_eq
      find_id_def find_id_slots_map split: option.splits)

text \<open>Only a negative write point, which no unsigned argument can be, is excluded.\<close>

fun share_allowed :: "share_op \<Rightarrow> bool" where
  "share_allowed (UpdateWritePoint w) = (0 \<le> w)"
| "share_allowed _ = True"

interpretation bshare: functional_refinement share_wf share_abs share_step share_spec share_allowed
proof unfold_locales
  fix mix x assume wf: "share_wf mix" and ok: "share_allowed x"
  have both: "share_wf (fst (share_step mix x))
    \<and> share_spec (share_abs mix) x = (share_abs (fst (share_step mix x)), snd (share_step mix x))"
  proof (cases x)
    case (AddId junk y d)
    with add_id_refines [OF wf] show ?thesis by blast
  next
    case (RmId y)
    with rm_id_refines [OF wf] show ?thesis by blast
  next
    case (OffsetUpdate y delta)
    with offset_update_refines [OF wf] show ?thesis by blast
  next
    case GetMinimumOffset
    with wf show ?thesis by (simp add: share_abs_def minimum_offset_correct)
  next
    case (UpdateWritePoint w)
    with ok update_write_point_refines [OF wf] show ?thesis by simp
  next
    case GetNewWritePoint
    with get_new_write_point_refines [OF wf] show ?thesis by blast
  next
    case (IdOffset y)
    with wf query_refines(1) [OF wf] show ?thesis by simp
  next
    case (GetData y)
    with wf query_refines(2) [OF wf] show ?thesis by simp
  next
    case ResetWritePoint
    with reset_refines [OF wf] show ?thesis by blast
  qed
  then show "share_wf (fst (share_step mix x))"
    and "share_spec (share_abs mix) x = (share_abs (fst (share_step mix x)), snd (share_step mix x))"
    by blast+
qed

text \<open>C19. The slot array behaves as a finite map from ids to offsets for every sequence of operations
  from creation on: adding an id never fails for lack of a slot, ids are unique, an offset update
  changes the id's own entry and no other although the code does not test the slot's \<open>used\<close> flag
  and freed slots keep their ids, and every return value is that of the specification.\<close>

theorem buffer_share_refines_map:
  assumes "0 \<le> buf_sz" "buf_sz < 2 ^ 32 - 1" "list_all share_allowed ops"
  shows "run_ops share_spec (buf_sz, Map.empty) ops
    = (share_abs (fst (run_ops share_step (buffer_share_create buf_sz) ops)),
       snd (run_ops share_step (buffer_share_create buf_sz) ops))"
proof -
  let ?mix = "buffer_share_create buf_sz"
  have "share_wf ?mix" and abs: "share_abs ?mix = (buf_sz, Map.empty)"
    using assms(1,2)
    by (auto simp: buffer_share_create_def INITIAL_ID_SIZE_def share_defs numeral_3_eq_3 fun_eq_iff)
  from bshare.run_refines [OF this(1) assms(3)] show ?thesis unfolding abs by blast
qed

definition junk_slot :: "nat \<Rightarrow> id_offset" where
  "junk_slot i = \<lparr>io_used = 7, io_id = 1, io_offset = 99, io_data = 0\<rparr>"

theorem buffer_share_refines_map_witness:
  "snd (run_ops share_spec (100, Map.empty)
     [AddId junk_slot 1 11, AddId junk_slot 2 12, OffsetUpdate 2 5, RmId 1, AddId junk_slot 3 13,
      RmId 2, IdOffset 2, OffsetUpdate 3 8, IdOffset 3])
   = [Some 0, Some 0, Some 0, Some 0, Some 0, Some 0, Some 0, Some 0, Some 8]"
proof -
  let ?ops = "[AddId junk_slot 1 11, AddId junk_slot 2 12, OffsetUpdate 2 5, RmId 1, AddId junk_slot 3 13,
      RmId 2, IdOffset 2, OffsetUpdate 3 8, IdOffset 3]"
  have "snd (run_ops share_step (buffer_share_create 100) ?ops)
    = [Some 0, Some 0, Some 0, Some 0, Some 0, Some 0, Some 0, Some 0, Some 8]" by code_simp
  then show ?thesis using buffer_share_refines_map [of 100 ?ops] by simp
qed

lemma new_write_point:
  assumes wf: "share_wf mix"
    and run: "buffer_share_get_new_write_point mix = (written, mix')"
  shows "0 \<le> written \<and> written \<le> bs_buf_sz mix \<and> share_wf mix'
    \<and> (\<forall>x off d. snd (share_abs mix) x = Some (off, d) \<longrightarrow>
         written \<le> off \<and> snd (share_abs mix') x = Some (off - written, d))
    \<and> (written > 0 \<longrightarrow> (\<exists>x d. snd (share_abs mix') x = Some (0, d)))"
proof -
  let ?m = "slots_map (bs_wr_idx mix)"
  have fin: "finite (share_offsets ?m)"
    and pos: "\<And>off. off \<in> share_offsets ?m \<Longrightarrow> 0 \<le> off"
    using wf by (auto simp: share_defs share_offsets_slots in_u_def)
  from get_new_write_point_refines [OF wf] run
  have wf': "share_wf mix'" and w: "written = share_min (bs_buf_sz mix) ?m"
    and m': "snd (share_abs mix') = share_sub written ?m"
    by (auto simp: share_abs_def)
  have w_bounds: "0 \<le> written" "written \<le> bs_buf_sz mix"
    using fin pos wf unfolding w share_min_def by (auto simp: share_wf_def)
  have min: "written \<le> off" if "?m x = Some (off, d)" for x off d
  proof -
    from that have "off \<in> share_offsets ?m" by (force simp: share_offsets_def ran_def)
    with fin pos show ?thesis unfolding w by (simp add: share_min_le)
  qed
  have zero: "\<exists>x d. share_sub written ?m x = Some (0, d)" if "written > 0"
  proof -
    from that have "written \<in> share_offsets ?m"
      using fin unfolding w share_min_def by (auto split: if_splits)
    then obtain x d where "?m x = Some (written, d)" by (auto simp: share_offsets_def ran_def)
    then show ?thesis by (force simp: share_sub_def)
  qed
  show ?thesis using wf' w_bounds min zero m' by (auto simp: share_abs_def share_sub_def)
qed

text \<open>Advancing the write point takes as many frames as the slowest id has supplied, at most the
  buffer size, and every id keeps its lead over the slowest one: offsets stay non-negative, and one
  of them becomes 0 whenever frames are taken.\<close>

lemma get_new_write_point_slowest:
  assumes "share_wf mix"
    and "buffer_share_get_new_write_point mix = (written, mix')"
  shows "0 \<le> written \<and> written \<le> bs_buf_sz mix \<and> share_wf mix'
    \<and> (\<forall>x off d. snd (share_abs mix) x = Some (off, d) \<longrightarrow>
         written \<le> off \<and> snd (share_abs mix') x = Some (off - written, d))
    \<and> (written > 0 \<longrightarrow> (\<exists>x d. snd (share_abs mix') x = Some (0, d)))"
  using assms by (rule new_write_point)

definition share_example :: buffer_share where
  "share_example = \<lparr>bs_buf_sz = 480, bs_wr_idx =
     [\<lparr>io_used = 1, io_id = 4, io_offset = 200, io_data = 0\<rparr>,
      \<lparr>io_used = 0, io_id = 9, io_offset = 5, io_data = 0\<rparr>,
      \<lparr>io_used = 1, io_id = 6, io_offset = 120, io_data = 0\<rparr>]\<rparr>"

end
