(* ===== verification/Audio_Shm.thy ===== *)
theory Audio_Shm
  imports Complex_Main Cras_Time Byte_Buffer
begin

text \<open>
  The shared-memory double buffer of \<open>cras/include/cras_shm.h\<close>, through which audio data passes
  between a client process and the server. The header is mapped read-write by both processes, so
  the server must not trust it: the first group of theorems holds for arbitrary header contents
  and shows that every pointer the accessors compute stays inside the samples area. The second
  group is about headers produced by the protocol itself and shows that the double buffer is a
  FIFO of samples.

  A pointer into the samples area is its byte offset from \<open>samples\<close>, NULL is None, a two-element
  array is a list of length 2 and \<open>idx & CRAS_SHM_BUFFERS_MASK\<close> is \<open>idx mod 2\<close>. The file
  descriptors and names of the two shm segments (\<open>struct cras_shm_info\<close>) are left out; of
  \<open>samples_info\<close> the length remains. A \<open>float\<close> is read as the real number it denotes.
\<close>

section \<open>Model\<close>

definition CRAS_NUM_SHM_BUFFERS :: int where "CRAS_NUM_SHM_BUFFERS = 2"

record cras_audio_shm_config =
  used_size :: int
  frame_bytes :: int

record cras_audio_shm_header =
  hdr_config :: cras_audio_shm_config
  read_buf_idx :: int
  write_buf_idx :: int
  read_offset :: "int list"
  write_offset :: "int list"
  write_in_progress :: "int list"
  volume_scaler :: real
  mute :: int
  callback_pending :: int
  num_overruns :: int
  hdr_ts :: timespec
  buffer_offset :: "int list"
  overrun_frames :: int
  dropped_samples_duration :: timespec
  underrun_duration :: timespec

text \<open>\<open>header_mapped\<close> says whether the \<open>header\<close> pointer is not NULL.\<close>

record cras_audio_shm =
  config :: cras_audio_shm_config
  header_mapped :: bool
  header :: cras_audio_shm_header
  samples_len :: int
  samples :: "int list"

abbreviation buf_mask :: "int \<Rightarrow> int" where
  "buf_mask idx \<equiv> idx mod CRAS_NUM_SHM_BUFFERS"

definition cras_shm_calculate_samples_size :: "int \<Rightarrow> int" where
  "cras_shm_calculate_samples_size used = u32 (used * CRAS_NUM_SHM_BUFFERS)"

subsection \<open>Checked offsets\<close>

definition cras_shm_get_checked_buffer_offset :: "cras_audio_shm \<Rightarrow> int \<Rightarrow> int" where
  "cras_shm_get_checked_buffer_offset shm buf_idx =
     u32 (min (u32 (buffer_offset (header shm) ! nat buf_idx)) (samples_len shm))"

definition cras_shm_buff_for_idx :: "cras_audio_shm \<Rightarrow> int \<Rightarrow> int" where
  "cras_shm_buff_for_idx shm idx =
     (let idx = buf_mask idx;
          boff = cras_shm_get_checked_buffer_offset shm idx
      in if boff + used_size (config shm) > samples_len shm
         then u32 (idx * used_size (config shm)) else boff)"

definition cras_shm_get_checked_read_offset :: "cras_audio_shm \<Rightarrow> int \<Rightarrow> int" where
  "cras_shm_get_checked_read_offset shm buf_idx =
     (let boff = cras_shm_get_checked_buffer_offset shm buf_idx;
          roff = read_offset (header shm) ! nat buf_idx
      in if roff > used_size (config shm) then 0
         else if boff + roff > samples_len shm then 0
         else roff)"

definition cras_shm_get_checked_write_offset :: "cras_audio_shm \<Rightarrow> int \<Rightarrow> int" where
  "cras_shm_get_checked_write_offset shm buf_idx =
     (let woff = write_offset (header shm) ! nat buf_idx;
          boff = cras_shm_get_checked_buffer_offset shm buf_idx;
          woff = min woff (used_size (config shm))
      in if boff + woff > samples_len shm then u32 (samples_len shm - boff) else woff)"

definition cras_shm_get_curr_read_frames :: "cras_audio_shm \<Rightarrow> int" where
  "cras_shm_get_curr_read_frames shm =
     (let buf_idx = buf_mask (read_buf_idx (header shm));
          roff = cras_shm_get_checked_read_offset shm buf_idx;
          woff = cras_shm_get_checked_write_offset shm buf_idx
      in if roff > woff then 0 else (woff - roff) div frame_bytes (config shm))"

definition cras_shm_get_read_buffer_base :: "cras_audio_shm \<Rightarrow> int" where
  "cras_shm_get_read_buffer_base shm =
     cras_shm_buff_for_idx shm (buf_mask (read_buf_idx (header shm)))"

definition cras_shm_get_write_buffer_base :: "cras_audio_shm \<Rightarrow> int" where
  "cras_shm_get_write_buffer_base shm =
     cras_shm_buff_for_idx shm (buf_mask (write_buf_idx (header shm)))"

text \<open>The pointer to write to, and the value stored in \<open>*frames\<close> (when \<open>frames\<close> is not NULL).\<close>

definition cras_shm_get_writeable_frames :: "cras_audio_shm \<Rightarrow> int \<Rightarrow> int \<times> int" where
  "cras_shm_get_writeable_frames shm limit_frames =
     (let buf_idx = buf_mask (write_buf_idx (header shm));
          woff = cras_shm_get_checked_write_offset shm buf_idx;
          written = woff div frame_bytes (config shm);
          frames = (if limit_frames \<ge> written then limit_frames - written else 0)
      in (cras_shm_buff_for_idx shm buf_idx + woff, frames))"

text \<open>The pointer to read from and \<open>*frames\<close>; the pointer is None past the end of the samples.\<close>

definition cras_shm_get_readable_frames :: "cras_audio_shm \<Rightarrow> int \<Rightarrow> int option \<times> int" where
  "cras_shm_get_readable_frames shm offset =
     (let buf_idx = buf_mask (read_buf_idx (header shm));
          roff = cras_shm_get_checked_read_offset shm buf_idx;
          woff = cras_shm_get_checked_write_offset shm buf_idx;
          final_offset = u32 (roff + u64 (offset * frame_bytes (config shm)));
          (final_offset, buf_idx, woff) =
            (if final_offset \<ge> woff
             then (u32 (final_offset - woff), buf_mask (buf_idx + 1),
                   cras_shm_get_checked_write_offset shm (buf_mask (buf_idx + 1)))
             else (final_offset, buf_idx, woff))
      in if final_offset \<ge> woff then (None, 0)
         else (Some (cras_shm_buff_for_idx shm buf_idx + final_offset),
               (woff - final_offset) div frame_bytes (config shm)))"

subsection \<open>Queue levels\<close>

text \<open>One iteration of the loop over the buffers.\<close>

definition bytes_in_buffer :: "cras_audio_shm \<Rightarrow> nat \<Rightarrow> int" where
  "bytes_in_buffer shm i =
     (let used = used_size (config shm);
          roff = min (read_offset (header shm) ! i) used;
          woff = min (write_offset (header shm) ! i) used
      in if woff > roff then woff - roff else 0)"

definition cras_shm_get_bytes_queued :: "cras_audio_shm \<Rightarrow> int" where
  "cras_shm_get_bytes_queued shm =
     foldl (\<lambda>total i. u64 (total + bytes_in_buffer shm i)) 0 [0..<nat CRAS_NUM_SHM_BUFFERS]"

definition cras_shm_get_frames :: "cras_audio_shm \<Rightarrow> int" where
  "cras_shm_get_frames shm =
     (let bytes = cras_shm_get_bytes_queued shm
      in if bytes mod frame_bytes (config shm) \<noteq> 0 then - EIO
         else s32 (bytes div frame_bytes (config shm)))"

definition cras_shm_get_frames_in_curr_buffer :: "cras_audio_shm \<Rightarrow> int" where
  "cras_shm_get_frames_in_curr_buffer shm =
     (let buf_idx = nat (buf_mask (read_buf_idx (header shm)));
          used = used_size (config shm);
          roff = min (read_offset (header shm) ! buf_idx) used;
          woff = min (write_offset (header shm) ! buf_idx) used
      in if woff \<le> roff then 0 else (woff - roff) div frame_bytes (config shm))"

definition cras_shm_is_buffer_available :: "cras_audio_shm \<Rightarrow> bool" where
  "cras_shm_is_buffer_available shm \<longleftrightarrow>
     write_offset (header shm) ! nat (buf_mask (write_buf_idx (header shm))) = 0"

definition cras_shm_get_num_writeable :: "cras_audio_shm \<Rightarrow> int" where
  "cras_shm_get_num_writeable shm =
     (if \<not> cras_shm_is_buffer_available shm then 0
      else used_size (config shm) div frame_bytes (config shm))"

subsection \<open>Producer and consumer\<close>

definition upd_header :: "(cras_audio_shm_header \<Rightarrow> cras_audio_shm_header) \<Rightarrow> cras_audio_shm \<Rightarrow> cras_audio_shm" where
  "upd_header f shm = shm\<lparr>header := f (header shm)\<rparr>"

text \<open>The result says whether an overrun happened. \<open>memset\<close> clears the buffer's bytes.\<close>

definition cras_shm_check_write_overrun :: "cras_audio_shm \<Rightarrow> int \<times> cras_audio_shm" where
  "cras_shm_check_write_overrun shm =
     (let i = buf_mask (write_buf_idx (header shm)) in
      if write_in_progress (header shm) ! nat i \<noteq> 0 then (0, shm)
      else
        let overrun = (write_offset (header shm) ! nat i \<noteq> 0);
            shm1 = (if overrun then upd_header (\<lambda>h. h\<lparr>num_overruns := u32 (num_overruns h + 1),
                        overrun_frames := u32 (overrun_frames h + cras_shm_get_curr_read_frames shm)\<rparr>) shm
                    else shm);
            shm2 = shm1\<lparr>samples := store_at (samples shm1) (nat (cras_shm_buff_for_idx shm1 i))
                        (replicate (nat (used_size (config shm1))) 0)\<rparr>
        in (if overrun then 1 else 0,
            upd_header (\<lambda>h. h\<lparr>write_in_progress := (write_in_progress h)[nat i := 1],
                             write_offset := (write_offset h)[nat i := 0]\<rparr>) shm2))"

definition cras_shm_buffer_written :: "cras_audio_shm \<Rightarrow> int \<Rightarrow> cras_audio_shm" where
  "cras_shm_buffer_written shm frames =
     (let i = nat (buf_mask (write_buf_idx (header shm))) in
      if frames = 0 then shm
      else upd_header (\<lambda>h. h\<lparr>write_offset := (write_offset h)
                        [i := u32 (write_offset h ! i + frames * frame_bytes (config shm))],
                      read_offset := (read_offset h)[i := 0]\<rparr>) shm)"

definition cras_shm_frames_written :: "cras_audio_shm \<Rightarrow> int" where
  "cras_shm_frames_written shm =
     write_offset (header shm) ! nat (buf_mask (write_buf_idx (header shm))) div frame_bytes (config shm)"

definition cras_shm_buffer_write_complete :: "cras_audio_shm \<Rightarrow> cras_audio_shm" where
  "cras_shm_buffer_write_complete shm =
     upd_header (\<lambda>h. let i = buf_mask (write_buf_idx h) in
       h\<lparr>write_in_progress := (write_in_progress h)[nat i := 0],
         write_buf_idx := buf_mask (i + 1)\<rparr>) shm"

definition cras_shm_buffer_written_start :: "cras_audio_shm \<Rightarrow> int \<Rightarrow> cras_audio_shm" where
  "cras_shm_buffer_written_start shm frames =
     (let i = nat (buf_mask (write_buf_idx (header shm))) in
      cras_shm_buffer_write_complete
        (upd_header (\<lambda>h. h\<lparr>write_offset := (write_offset h)[i := u32 (frames * frame_bytes (config shm))],
                           read_offset := (read_offset h)[i := 0]\<rparr>) shm))"

definition cras_shm_buffer_read :: "cras_audio_shm \<Rightarrow> int \<Rightarrow> cras_audio_shm" where
  "cras_shm_buffer_read shm frames =
     (let h = header shm; i = buf_mask (read_buf_idx h) in
      if frames = 0 then shm
      else
        let roff = u32 (read_offset h ! nat i + frames * frame_bytes (config shm)) in
        if roff \<ge> write_offset h ! nat i then
          let remainder = roff - write_offset h ! nat i;
              ro = (read_offset h)[nat i := 0];
              wo = (write_offset h)[nat i := 0];
              j = buf_mask (i + 1)
          in if remainder < wo ! nat j
             then shm\<lparr>header := h\<lparr>read_offset := ro[nat j := u32 remainder], write_offset := wo, read_buf_idx := j\<rparr>\<rparr>
             else if remainder \<noteq> 0
             then shm\<lparr>header := h\<lparr>read_offset := ro, write_offset := wo[nat j := 0],
                                 read_buf_idx := buf_mask (j + 1)\<rparr>\<rparr>
             else shm\<lparr>header := h\<lparr>read_offset := ro, write_offset := wo, read_buf_idx := j\<rparr>\<rparr>
        else shm\<lparr>header := h\<lparr>read_offset := (read_offset h)[nat i := roff]\<rparr>\<rparr>)"

definition cras_shm_buffer_read_current :: "cras_audio_shm \<Rightarrow> int \<Rightarrow> cras_audio_shm" where
  "cras_shm_buffer_read_current shm frames =
     (let h = header shm; i = buf_mask (read_buf_idx h);
          roff = u32 (read_offset h ! nat i + frames * frame_bytes (config shm)) in
      if roff \<ge> write_offset h ! nat i
      then shm\<lparr>header := h\<lparr>read_offset := (read_offset h)[nat i := 0],
                          write_offset := (write_offset h)[nat i := 0],
                          read_buf_idx := buf_mask (i + 1)\<rparr>\<rparr>
      else shm\<lparr>header := h\<lparr>read_offset := (read_offset h)[nat i := roff]\<rparr>\<rparr>)"

definition cras_shm_header_copy_offset :: "cras_audio_shm \<Rightarrow> cras_audio_shm \<Rightarrow> cras_audio_shm" where
  "cras_shm_header_copy_offset source dest =
     upd_header (\<lambda>h. h\<lparr>
       write_offset := foldl (\<lambda>xs i. xs[i := write_offset (header source) ! i]) (write_offset h)
         [0..<nat CRAS_NUM_SHM_BUFFERS],
       read_offset := foldl (\<lambda>xs i. xs[i := read_offset (header source) ! i]) (read_offset h)
         [0..<nat CRAS_NUM_SHM_BUFFERS],
       read_buf_idx := read_buf_idx (header source),
       write_buf_idx := write_buf_idx (header source)\<rparr>) dest"

subsection \<open>Configuration and counters\<close>

definition cras_shm_set_volume_scaler :: "cras_audio_shm \<Rightarrow> real \<Rightarrow> cras_audio_shm" where
  "cras_shm_set_volume_scaler shm vol = upd_header (\<lambda>h. h\<lparr>volume_scaler := min (max vol 0) 1\<rparr>) shm"

definition cras_shm_get_volume_scaler :: "cras_audio_shm \<Rightarrow> real" where
  "cras_shm_get_volume_scaler shm = volume_scaler (header shm)"

definition cras_shm_set_mute :: "cras_audio_shm \<Rightarrow> int \<Rightarrow> cras_audio_shm" where
  "cras_shm_set_mute shm m = upd_header (\<lambda>h. h\<lparr>mute := (if m \<noteq> 0 then 1 else 0)\<rparr>) shm"

definition cras_shm_get_mute :: "cras_audio_shm \<Rightarrow> int" where
  "cras_shm_get_mute shm = u64 (mute (header shm))"

definition cras_shm_set_frame_bytes :: "cras_audio_shm \<Rightarrow> int \<Rightarrow> cras_audio_shm" where
  "cras_shm_set_frame_bytes shm fb =
     (let shm = shm\<lparr>config := (config shm)\<lparr>frame_bytes := fb\<rparr>\<rparr> in
      if header_mapped shm
      then upd_header (\<lambda>h. h\<lparr>hdr_config := (hdr_config h)\<lparr>frame_bytes := fb\<rparr>\<rparr>) shm else shm)"

definition cras_shm_frame_bytes :: "cras_audio_shm \<Rightarrow> int" where
  "cras_shm_frame_bytes shm = frame_bytes (config shm)"

definition cras_shm_set_callback_pending :: "cras_audio_shm \<Rightarrow> int \<Rightarrow> cras_audio_shm" where
  "cras_shm_set_callback_pending shm pending =
     upd_header (\<lambda>h. h\<lparr>callback_pending := (if pending \<noteq> 0 then 1 else 0)\<rparr>) shm"

definition cras_shm_callback_pending :: "cras_audio_shm \<Rightarrow> int" where
  "cras_shm_callback_pending shm = callback_pending (header shm)"

definition cras_shm_set_buffer_offset :: "cras_audio_shm \<Rightarrow> int \<Rightarrow> int \<Rightarrow> cras_audio_shm" where
  "cras_shm_set_buffer_offset shm buf_idx offset =
     upd_header (\<lambda>h. h\<lparr>buffer_offset := (buffer_offset h)[nat buf_idx := offset]\<rparr>) shm"

definition cras_shm_set_used_size :: "cras_audio_shm \<Rightarrow> int \<Rightarrow> cras_audio_shm" where
  "cras_shm_set_used_size shm used =
     (let shm = shm\<lparr>config := (config shm)\<lparr>used_size := used\<rparr>\<rparr> in
      if header_mapped shm
      then foldl (\<lambda>m i. cras_shm_set_buffer_offset m (int i) (u32 (int i * used)))
             (upd_header (\<lambda>h. h\<lparr>hdr_config := (hdr_config h)\<lparr>used_size := used\<rparr>\<rparr>) shm)
             [0..<nat CRAS_NUM_SHM_BUFFERS]
      else shm)"

definition cras_shm_used_size :: "cras_audio_shm \<Rightarrow> int" where
  "cras_shm_used_size shm = used_size (config shm)"

definition cras_shm_used_frames :: "cras_audio_shm \<Rightarrow> int" where
  "cras_shm_used_frames shm = used_size (config shm) div frame_bytes (config shm)"

definition cras_shm_samples_size :: "cras_audio_shm \<Rightarrow> int" where
  "cras_shm_samples_size shm = samples_len shm"

definition cras_shm_num_overruns :: "cras_audio_shm \<Rightarrow> int" where
  "cras_shm_num_overruns shm = num_overruns (header shm)"

definition cras_shm_overrun_frames :: "cras_audio_shm \<Rightarrow> int" where
  "cras_shm_overrun_frames shm = overrun_frames (header shm)"

definition cras_shm_copy_shared_config :: "cras_audio_shm \<Rightarrow> cras_audio_shm" where
  "cras_shm_copy_shared_config shm = shm\<lparr>config := hdr_config (header shm)\<rparr>"

definition cras_shm_update_dropped_samples_duration :: "cras_audio_shm \<Rightarrow> timespec \<Rightarrow> cras_audio_shm" where
  "cras_shm_update_dropped_samples_duration shm duration =
     upd_header (\<lambda>h. h\<lparr>dropped_samples_duration := add_timespecs (dropped_samples_duration h) duration\<rparr>) shm"

definition cras_shm_dropped_samples_duration :: "cras_audio_shm \<Rightarrow> timespec" where
  "cras_shm_dropped_samples_duration shm = dropped_samples_duration (header shm)"

definition cras_shm_update_underrun_duration :: "cras_audio_shm \<Rightarrow> timespec \<Rightarrow> cras_audio_shm" where
  "cras_shm_update_underrun_duration shm duration =
     upd_header (\<lambda>h. h\<lparr>underrun_duration := add_timespecs (underrun_duration h) duration\<rparr>) shm"

definition cras_shm_underrun_duration :: "cras_audio_shm \<Rightarrow> timespec" where
  "cras_shm_underrun_duration shm = underrun_duration (header shm)"

section \<open>Memory safety for an arbitrary header\<close>

text \<open>The server's own side of the mapping: a frame size, and a samples area with room for two
  buffers of \<open>used_size\<close> bytes. Nothing is assumed of the header but the width of its fields.\<close>

definition shm_config_ok :: "cras_audio_shm \<Rightarrow> bool" where
  "shm_config_ok shm \<longleftrightarrow>
     0 < frame_bytes (config shm) \<and> 0 < used_size (config shm) \<and> used_size (config shm) < 2 ^ 31 \<and>
     2 * used_size (config shm) \<le> samples_len shm \<and> int (length (samples shm)) = samples_len shm"

definition header_typed :: "cras_audio_shm_header \<Rightarrow> bool" where
  "header_typed h \<longleftrightarrow>
     in_u 32 (read_buf_idx h) \<and> in_u 32 (write_buf_idx h) \<and>
     length (read_offset h) = 2 \<and> (\<forall>x\<in>set (read_offset h). in_u 32 x) \<and>
     length (write_offset h) = 2 \<and> (\<forall>x\<in>set (write_offset h). in_u 32 x) \<and>
     length (buffer_offset h) = 2 \<and> (\<forall>x\<in>set (buffer_offset h). in_u 64 x) \<and>
     length (write_in_progress h) = 2"

lemma buf_mask_cases: "buf_mask i = 0 \<or> buf_mask i = 1"
  unfolding CRAS_NUM_SHM_BUFFERS_def by presburger

lemma buf_mask_bounds [simp]: "0 \<le> buf_mask i" "buf_mask i < 2"
  by (simp_all add: CRAS_NUM_SHM_BUFFERS_def)

lemma header_offset_bounds:
  assumes "header_typed h" "0 \<le> i" "i < 2"
  shows "0 \<le> read_offset h ! nat i" "0 \<le> write_offset h ! nat i" "0 \<le> buffer_offset h ! nat i"
  using assms nth_mem by (auto simp: header_typed_def in_u_def nat_less_iff)

lemma checked_buffer_offset_bounds:
  assumes "0 \<le> samples_len shm"
  shows "0 \<le> cras_shm_get_checked_buffer_offset shm i"
    "cras_shm_get_checked_buffer_offset shm i \<le> samples_len shm"
    "cras_shm_get_checked_buffer_offset shm i < 2 ^ 32"
proof -
  let ?m = "min (u32 (buffer_offset (header shm) ! nat i)) (samples_len shm)"
  have "0 \<le> ?m" using assms by simp
  then have "u32 ?m \<le> ?m" by (rule wrap_u_le)
  then show "0 \<le> cras_shm_get_checked_buffer_offset shm i"
    "cras_shm_get_checked_buffer_offset shm i \<le> samples_len shm"
    "cras_shm_get_checked_buffer_offset shm i < 2 ^ 32"
    unfolding cras_shm_get_checked_buffer_offset_def
    by (auto simp only: wrap_u_ge0 wrap_u_less min.bounded_iff)
qed

text \<open>Whatever the header says, a whole buffer fits behind the returned base.\<close>

lemma buff_for_idx_bounds:
  assumes "shm_config_ok shm"
  shows "0 \<le> cras_shm_buff_for_idx shm i"
    "cras_shm_buff_for_idx shm i + used_size (config shm) \<le> samples_len shm"
proof -
  have len: "0 \<le> samples_len shm" using assms by (simp add: shm_config_ok_def)
  note b = checked_buffer_offset_bounds [OF len, of "buf_mask i"]
  have w: "u32 (buf_mask i * used_size (config shm)) = buf_mask i * used_size (config shm)"
    using buf_mask_cases [of i] assms by (auto simp: shm_config_ok_def intro!: wrap_u_id)
  show "0 \<le> cras_shm_buff_for_idx shm i"
    using b by (simp add: cras_shm_buff_for_idx_def Let_def)
  show "cras_shm_buff_for_idx shm i + used_size (config shm) \<le> samples_len shm"
    using buf_mask_cases [of i] assms w by (auto simp: cras_shm_buff_for_idx_def Let_def shm_config_ok_def)
qed

lemma checked_write_offset_bounds:
  assumes "shm_config_ok shm" "header_typed (header shm)" "0 \<le> i" "i < 2"
  shows "0 \<le> cras_shm_get_checked_write_offset shm i"
    "cras_shm_get_checked_write_offset shm i \<le> used_size (config shm)"
proof -
  have len: "0 \<le> samples_len shm" using assms by (simp add: shm_config_ok_def)
  note b = checked_buffer_offset_bounds [OF len, of i]
  let ?d = "samples_len shm - cras_shm_get_checked_buffer_offset shm i"
  have "0 \<le> ?d" using b by simp
  then have "u32 ?d \<le> ?d" by (rule wrap_u_le)
  then show "0 \<le> cras_shm_get_checked_write_offset shm i"
    "cras_shm_get_checked_write_offset shm i \<le> used_size (config shm)"
    using assms(1) header_offset_bounds [OF assms(2-4)]
    by (auto simp: cras_shm_get_checked_write_offset_def Let_def shm_config_ok_def min_def)
qed

lemma checked_read_offset_bounds:
  assumes "shm_config_ok shm" "header_typed (header shm)" "0 \<le> i" "i < 2"
  shows "0 \<le> cras_shm_get_checked_read_offset shm i"
    "cras_shm_get_checked_read_offset shm i \<le> used_size (config shm)"
  using assms(1) header_offset_bounds [OF assms(2-4)]
  by (auto simp: cras_shm_get_checked_read_offset_def Let_def shm_config_ok_def)

lemma readable_region:
  assumes "shm_config_ok shm" "header_typed (header shm)"
    and "cras_shm_get_readable_frames shm offset = (Some p, frames)"
  shows "0 \<le> p \<and> 0 \<le> frames \<and> p + frames * frame_bytes (config shm) \<le> samples_len shm"
proof -
  let ?fb = "frame_bytes (config shm)"
  from assms(3) obtain i fo where
    p: "p = cras_shm_buff_for_idx shm (buf_mask i) + fo"
    and fr: "frames = (cras_shm_get_checked_write_offset shm (buf_mask i) - fo) div ?fb"
    and fo: "0 \<le> fo" "fo < cras_shm_get_checked_write_offset shm (buf_mask i)"
    by (auto simp: cras_shm_get_readable_frames_def Let_def split: if_splits)
  let ?d = "cras_shm_get_checked_write_offset shm (buf_mask i) - fo"
  have fb: "0 < ?fb" using assms(1) by (simp add: shm_config_ok_def)
  from floor_mult_le [OF fb, of ?d] have "frames * ?fb \<le> ?d" by (simp add: fr)
  moreover have "0 \<le> frames" using fo fb by (simp add: fr pos_imp_zdiv_nonneg_iff)
  ultimately show ?thesis
    using p fo buff_for_idx_bounds [OF assms(1), of "buf_mask i"]
      checked_write_offset_bounds [OF assms(1,2) buf_mask_bounds, of i] by auto
qed


text \<open>A header whose every field is out of range for the configured buffers.\<close>

definition hostile_shm :: cras_audio_shm where
  "hostile_shm = \<lparr>config = \<lparr>used_size = 8, frame_bytes = 4\<rparr>, header_mapped = True,
     header = \<lparr>hdr_config = \<lparr>used_size = 4000, frame_bytes = 0\<rparr>,
       read_buf_idx = 4294967295, write_buf_idx = 77, read_offset = [4294967295, 4294967292],
       write_offset = [4294967295, 4294967295], write_in_progress = [0, 0], volume_scaler = 1,
       mute = 0, callback_pending = 0, num_overruns = 0, hdr_ts = \<lparr>tv_sec = 0, tv_nsec = 0\<rparr>,
       buffer_offset = [18446744073709551615, 9000000000], overrun_frames = 0,
       dropped_samples_duration = \<lparr>tv_sec = 0, tv_nsec = 0\<rparr>,
       underrun_duration = \<lparr>tv_sec = 0, tv_nsec = 0\<rparr>\<rparr>,
     samples_len = 16, samples = replicate 16 0\<rparr>"

definition late_offset_shm :: cras_audio_shm where
  "late_offset_shm = hostile_shm\<lparr>header := (header hostile_shm)\<lparr>buffer_offset := [4, 12]\<rparr>\<rparr>"


lemma writeable_region:
  assumes "shm_config_ok shm" "header_typed (header shm)"
    and "0 \<le> limit" "limit \<le> cras_shm_used_frames shm"
    and "cras_shm_get_writeable_frames shm limit = (p, frames)"
  shows "0 \<le> p \<and> 0 \<le> frames
    \<and> p + frames * frame_bytes (config shm) < samples_len shm + frame_bytes (config shm)
    \<and> (frame_bytes (config shm) dvd cras_shm_get_checked_write_offset shm (buf_mask (write_buf_idx (header shm)))
       \<longrightarrow> p + frames * frame_bytes (config shm) \<le> samples_len shm)"
proof -
  let ?fb = "frame_bytes (config shm)" and ?i = "buf_mask (write_buf_idx (header shm))"
  let ?w = "cras_shm_get_checked_write_offset shm ?i"
  have fb: "0 < ?fb" using assms(1) by (simp add: shm_config_ok_def)
  have p: "p = cras_shm_buff_for_idx shm ?i + ?w"
    and fr: "frames = (if limit \<ge> ?w div ?fb then limit - ?w div ?fb else 0)"
    using assms(5) by (simp_all add: cras_shm_get_writeable_frames_def Let_def)
  note w = checked_write_offset_bounds [OF assms(1,2) buf_mask_bounds, of "write_buf_idx (header shm)"]
  note base = buff_for_idx_bounds [OF assms(1), of ?i]
  have lim: "limit * ?fb \<le> used_size (config shm)"
  proof -
    have "limit * ?fb \<le> cras_shm_used_frames shm * ?fb" using assms(4) fb by simp
    also have "\<dots> \<le> used_size (config shm)"
      unfolding cras_shm_used_frames_def by (rule floor_mult_le [OF fb])
    finally show ?thesis .
  qed
  have split: "?w div ?fb * ?fb \<le> ?w" "?w < (?w div ?fb + 1) * ?fb"
    by (rule floor_mult_le [OF fb], rule less_floor_mult [OF fb])
  show ?thesis
  proof (cases "limit \<ge> ?w div ?fb")
    case True
    then have "frames * ?fb = limit * ?fb - ?w div ?fb * ?fb" by (simp add: fr algebra_simps)
    with p w base lim split fb True show ?thesis
      by (auto simp: algebra_simps fr dvd_div_mult_self)
  next
    case False
    with p w base fb show ?thesis by (auto simp: fr)
  qed
qed


definition unaligned_shm :: cras_audio_shm where
  "unaligned_shm = hostile_shm\<lparr>header := (header hostile_shm)
     \<lparr>buffer_offset := [0, 8], write_buf_idx := 1, write_offset := [0, 1]\<rparr>\<rparr>"

lemmas shm_eval = cras_shm_get_readable_frames_def cras_shm_get_writeable_frames_def
  cras_shm_get_checked_read_offset_def cras_shm_get_checked_write_offset_def
  cras_shm_get_checked_buffer_offset_def cras_shm_buff_for_idx_def cras_shm_used_frames_def
  late_offset_shm_def unaligned_shm_def hostile_shm_def CRAS_NUM_SHM_BUFFERS_def wrap_u_def


text \<open>The alignment is needed: a client that stores an unaligned write offset in the header makes
  \<open>cras_shm_get_writeable_frames\<close> offer a region that passes the end of the samples area, because the
  frames already written are rounded down but the pointer is not.\<close>

lemma writeable_frames_unaligned_overflow:
  "shm_config_ok unaligned_shm \<and> header_typed (header unaligned_shm)
    \<and> (case cras_shm_get_writeable_frames unaligned_shm (cras_shm_used_frames unaligned_shm) of
         (p, frames) \<Rightarrow> p + frames * frame_bytes (config unaligned_shm) > samples_len unaligned_shm)"
  by (simp add: shm_config_ok_def header_typed_def in_u_def shm_eval)

section \<open>The double buffer is a FIFO\<close>

definition region :: "'a list \<Rightarrow> int \<Rightarrow> int \<Rightarrow> 'a list" where
  "region mem p n = take (nat n) (drop (nat p) mem)"

lemma length_region: "0 \<le> p \<Longrightarrow> 0 \<le> n \<Longrightarrow> p + n \<le> int (length mem) \<Longrightarrow> length (region mem p n) = nat n"
  by (simp add: region_def)

lemma drop_region: "0 \<le> p \<Longrightarrow> int k \<le> n \<Longrightarrow> drop k (region mem p n) = region mem (p + int k) (n - int k)"
  by (simp add: region_def drop_take add.commute nat_add_distrib nat_diff_distrib')

lemma region_empty [simp]: "region mem p 0 = []"
  by (simp add: region_def)

lemma region_store_at_same:
  "0 \<le> p \<Longrightarrow> p \<le> int (length mem) \<Longrightarrow> region (store_at mem (nat p) xs) p (int (length xs)) = xs"
  by (simp add: region_def store_at_def)

lemma region_store_at_0 [simp]: "region (store_at mem 0 xs) 0 (int (length xs)) = xs"
  by (simp add: region_def store_at_def)

lemma take_drop_store_before:
  "p + n \<le> q \<Longrightarrow> q \<le> length mem \<Longrightarrow> take n (drop p (store_at mem q xs)) = take n (drop p mem)"
  by (auto simp: store_at_def drop_take min_def)

lemma drop_store_after:
  "q + length xs \<le> p \<Longrightarrow> p \<le> length mem \<Longrightarrow> drop p (store_at mem q xs) = drop p mem"
  by (cases "xs = []") (simp_all add: store_at_def)

lemma region_store_at_before:
  "0 \<le> p \<Longrightarrow> 0 \<le> n \<Longrightarrow> p + n \<le> q \<Longrightarrow> q \<le> int (length mem) \<Longrightarrow>
     region (store_at mem (nat q) xs) p n = region mem p n"
  unfolding region_def by (intro take_drop_store_before) auto

lemma region_store_at_after:
  "0 \<le> q \<Longrightarrow> q + int (length xs) \<le> p \<Longrightarrow> p \<le> int (length mem) \<Longrightarrow>
     region (store_at mem (nat q) xs) p n = region mem p n"
  unfolding region_def by (subst drop_store_after) auto

lemmas region_store_at_0_after = region_store_at_after [of 0, simplified]

text \<open>The states the protocol produces: \<open>r\<close> and \<open>w\<close> are the buffers being read and written, \<open>ro\<close> and
  \<open>a\<close> the offsets of the read buffer, \<open>b\<close> the level of the other one. The buffers fill in turn, the
  read buffer is the older one, and the other one is read from its start.\<close>

definition shm_at :: "cras_audio_shm \<Rightarrow> int \<Rightarrow> int \<Rightarrow> int \<Rightarrow> int \<Rightarrow> int \<Rightarrow> bool" where
  "shm_at shm r w ro a b \<longleftrightarrow>
     shm_config_ok shm \<and> (r = 0 \<or> r = 1) \<and> (w = 0 \<or> w = 1) \<and>
     read_buf_idx (header shm) = r \<and> write_buf_idx (header shm) = w \<and>
     buffer_offset (header shm) = [0, used_size (config shm)] \<and>
     length (write_in_progress (header shm)) = 2 \<and>
     read_offset (header shm) = (if r = 0 then [ro, 0] else [0, ro]) \<and>
     write_offset (header shm) = (if r = 0 then [a, b] else [b, a]) \<and>
     (a = 0 \<longrightarrow> ro = 0 \<and> b = 0 \<and> w = r) \<and> (a \<noteq> 0 \<longrightarrow> ro < a \<and> (w = r) = (b \<noteq> 0)) \<and>
     0 \<le> ro \<and> 0 \<le> a \<and> a \<le> used_size (config shm) \<and> 0 \<le> b \<and> b \<le> used_size (config shm) \<and>
     frame_bytes (config shm) dvd ro \<and> frame_bytes (config shm) dvd a \<and> frame_bytes (config shm) dvd b"

definition shm_wf :: "cras_audio_shm \<Rightarrow> bool" where
  "shm_wf shm \<longleftrightarrow> (\<exists>r w ro a b. shm_at shm r w ro a b)"

definition shm_contents :: "cras_audio_shm \<Rightarrow> int list" where
  "shm_contents shm =
     (let h = header shm; used = used_size (config shm); r = read_buf_idx h; oth = 1 - r;
          ro = read_offset h ! nat r
      in region (samples shm) (r * used + ro) (write_offset h ! nat r - ro)
         @ region (samples shm) (oth * used) (write_offset h ! nat oth))"

text \<open>A producer copies whole frames to the pointer it is given and completes the write; a consumer
  takes whole frames.\<close>

definition shm_put :: "int list \<Rightarrow> cras_audio_shm \<Rightarrow> cras_audio_shm" where
  "shm_put xs shm =
     (let (p, frames) = cras_shm_get_writeable_frames shm (cras_shm_used_frames shm)
      in cras_shm_buffer_written_start (shm\<lparr>samples := store_at (samples shm) (nat p) xs\<rparr>)
           (int (length xs) div frame_bytes (config shm)))"

definition shm_can_put :: "cras_audio_shm \<Rightarrow> int list \<Rightarrow> bool" where
  "shm_can_put shm xs \<longleftrightarrow>
     cras_shm_is_buffer_available shm \<and> xs \<noteq> [] \<and> frame_bytes (config shm) dvd int (length xs) \<and>
     int (length xs) \<le> used_size (config shm)"

definition shm_take :: "nat \<Rightarrow> cras_audio_shm \<Rightarrow> cras_audio_shm" where
  "shm_take n shm = cras_shm_buffer_read shm (int n div frame_bytes (config shm))"

definition shm_can_take :: "cras_audio_shm \<Rightarrow> nat \<Rightarrow> bool" where
  "shm_can_take shm n \<longleftrightarrow>
     frame_bytes (config shm) dvd int n \<and> int n \<le> cras_shm_get_bytes_queued shm"

lemma shm_wfI: "shm_at shm r w ro a b \<Longrightarrow> shm_wf shm"
  unfolding shm_wf_def by blast

lemma buf_mask_simps [simp]: "buf_mask 0 = 0" "buf_mask 1 = 1" "buf_mask 2 = 0"
  by (simp_all add: CRAS_NUM_SHM_BUFFERS_def)

text \<open>The two queued regions.\<close>

abbreviation cur_region :: "cras_audio_shm \<Rightarrow> int \<Rightarrow> int \<Rightarrow> int \<Rightarrow> int list" where
  "cur_region shm r ro a \<equiv> region (samples shm) (r * used_size (config shm) + ro) (a - ro)"

abbreviation next_region :: "cras_audio_shm \<Rightarrow> int \<Rightarrow> int \<Rightarrow> int list" where
  "next_region shm r b \<equiv> region (samples shm) ((1 - r) * used_size (config shm)) b"

lemma shm_contents_at:
  assumes "shm_at shm r w ro a b"
  shows "shm_contents shm = cur_region shm r ro a @ next_region shm r b"
    and "length (cur_region shm r ro a) = nat (a - ro)" "length (next_region shm r b) = nat b"
  using assms by (auto simp: shm_at_def shm_contents_def shm_config_ok_def Let_def intro!: length_region)

lemma bytes_queued_wf:
  assumes "shm_wf shm"
  shows "cras_shm_get_bytes_queued shm = int (length (shm_contents shm))"
proof -
  from assms obtain r w ro a b where at: "shm_at shm r w ro a b" by (auto simp: shm_wf_def)
  let ?u = "used_size (config shm)"
  have lev: "0 \<le> ro" "ro \<le> a" "a \<le> ?u" "0 \<le> b" "b \<le> ?u" "?u < 2 ^ 31" "r = 0 \<or> r = 1"
    using at by (auto simp: shm_at_def shm_config_ok_def)
  have "u64 (a - ro) = a - ro" "u64 b = b" "u64 (a - ro + b) = a - ro + b" "u64 (b + (a - ro)) = b + (a - ro)"
    using lev by (auto intro!: wrap_u_id)
  moreover have "bytes_in_buffer shm (nat r) = a - ro" "bytes_in_buffer shm (nat (1 - r)) = b"
    using at lev by (auto simp: shm_at_def bytes_in_buffer_def Let_def min_def)
  ultimately have "cras_shm_get_bytes_queued shm = a - ro + b"
    using lev(7) unfolding cras_shm_get_bytes_queued_def CRAS_NUM_SHM_BUFFERS_def
    by (auto simp: upt_rec)
  then show ?thesis using lev by (simp add: shm_contents_at [OF at])
qed

subsection \<open>The producer\<close>

lemma shm_buff_for_idx_at:
  assumes "shm_at shm r w ro a b" "i = 0 \<or> i = 1"
  shows "cras_shm_buff_for_idx shm i = i * used_size (config shm)"
  using assms
  by (auto simp: cras_shm_buff_for_idx_def cras_shm_get_checked_buffer_offset_def shm_at_def
      shm_config_ok_def Let_def min_def wrap_u_id)

text \<open>The pointer of an empty write buffer is the buffer's base.\<close>

lemma writeable_pointer_at:
  assumes at: "shm_at shm r w ro a b" and avail: "cras_shm_is_buffer_available shm"
  shows "fst (cras_shm_get_writeable_frames shm n) = w * used_size (config shm)"
proof -
  have w: "w = 0 \<or> w = 1" "write_buf_idx (header shm) = w" and ok: "shm_config_ok shm"
    using at by (auto simp: shm_at_def)
  then have "buf_mask w = w" "0 \<le> samples_len shm" by (auto simp: shm_config_ok_def)
  with avail ok checked_buffer_offset_bounds(2) [of shm w]
  have "cras_shm_get_checked_write_offset shm w = 0"
    by (auto simp: cras_shm_get_checked_write_offset_def Let_def cras_shm_is_buffer_available_def
        shm_config_ok_def not_less w)
  with w \<open>buf_mask w = w\<close> shm_buff_for_idx_at [OF at w(1)] show ?thesis
    by (simp add: cras_shm_get_writeable_frames_def Let_def)
qed

lemma shm_put_eq:
  assumes at: "shm_at shm r w ro a b" and ok: "shm_can_put shm xs"
  shows "shm_put xs shm =
    shm\<lparr>samples := store_at (samples shm) (nat (w * used_size (config shm))) xs,
        header := (header shm)\<lparr>write_offset := (write_offset (header shm))[nat w := int (length xs)],
          read_offset := (read_offset (header shm))[nat w := 0],
          write_in_progress := (write_in_progress (header shm))[nat w := 0],
          write_buf_idx := 1 - w\<rparr>\<rparr>"
proof -
  let ?fb = "frame_bytes (config shm)"
  have w: "w = 0 \<or> w = 1" "write_buf_idx (header shm) = w" and u: "0 < ?fb" "used_size (config shm) < 2 ^ 31"
    using at by (auto simp: shm_at_def shm_config_ok_def)
  have "int (length xs) div ?fb * ?fb = int (length xs)" "u32 (int (length xs)) = int (length xs)"
    using ok u by (auto simp: shm_can_put_def intro!: wrap_u_id)
  moreover have "fst (cras_shm_get_writeable_frames shm (cras_shm_used_frames shm)) = w * used_size (config shm)"
    using ok by (simp add: writeable_pointer_at [OF at] shm_can_put_def)
  ultimately show ?thesis
    using w by (auto simp: shm_put_def case_prod_beta Let_def cras_shm_buffer_written_start_def
        cras_shm_buffer_write_complete_def upd_header_def)
qed

lemma shm_put_correct:
  assumes wf: "shm_wf shm" and ok: "shm_can_put shm xs"
  shows "shm_wf (shm_put xs shm) \<and> shm_contents (shm_put xs shm) = shm_contents shm @ xs"
proof -
  from wf obtain r w ro a b where at: "shm_at shm r w ro a b" by (auto simp: shm_wf_def)
  note eq = shm_put_eq [OF at ok]
  have xs: "0 < int (length xs)" "int (length xs) \<le> used_size (config shm)"
    "frame_bytes (config shm) dvd int (length xs)" using ok by (auto simp: shm_can_put_def)
  have cfg: "shm_config_ok (shm_put xs shm)"
    using at xs(2) by (auto simp: eq shm_at_def shm_config_ok_def length_store_at)
  have mem: "2 * used_size (config shm) \<le> int (length (samples shm))"
    using at by (auto simp: shm_at_def shm_config_ok_def)
  from at ok consider (first) "a = 0" "ro = 0" "b = 0" "w = r" | (second) "a \<noteq> 0" "b = 0" "w = 1 - r"
    by (auto simp: shm_at_def shm_can_put_def cras_shm_is_buffer_available_def split: if_splits)
  then show ?thesis
  proof cases
    case first
    then have "shm_at (shm_put xs shm) r (1 - r) 0 (int (length xs)) 0"
      using at cfg xs by (auto simp: eq shm_at_def)
    moreover have "shm_contents (shm_put xs shm) = shm_contents shm @ xs"
      using at first xs mem by (auto simp: eq shm_at_def shm_contents_def Let_def region_store_at_same)
    ultimately show ?thesis by (blast intro: shm_wfI)
  next
    case second
    then have "shm_at (shm_put xs shm) r r ro a (int (length xs))"
      using at cfg xs by (auto simp: eq shm_at_def)
    moreover have "shm_contents (shm_put xs shm) = shm_contents shm @ xs"
      using at second xs mem
      by (auto simp: eq shm_at_def shm_contents_def Let_def region_store_at_same region_store_at_before
          region_store_at_after region_store_at_0_after)
    ultimately show ?thesis by (blast intro: shm_wfI)
  qed
qed

subsection \<open>The consumer\<close>

text \<open>Reading \<open>n\<close> bytes: within the read buffer, into the other one, or everything.\<close>

lemma shm_take_eq:
  assumes at: "shm_at shm r w ro a b" and n: "frame_bytes (config shm) dvd int n" "0 < n"
    and reach: "ro + int n \<le> a + b"
  shows "shm_take n shm = shm\<lparr>header :=
    (let h = header shm in
     if ro + int n < a then h\<lparr>read_offset := (read_offset h)[nat r := ro + int n]\<rparr>
     else if ro + int n - a < b then
       h\<lparr>read_offset := (read_offset h)[nat r := 0, nat (1 - r) := ro + int n - a],
         write_offset := (write_offset h)[nat r := 0], read_buf_idx := 1 - r\<rparr>
     else if b \<noteq> 0 then
       h\<lparr>read_offset := (read_offset h)[nat r := 0],
         write_offset := (write_offset h)[nat r := 0, nat (1 - r) := 0], read_buf_idx := r\<rparr>
     else
       h\<lparr>read_offset := (read_offset h)[nat r := 0],
         write_offset := (write_offset h)[nat r := 0], read_buf_idx := 1 - r\<rparr>)\<rparr>"
proof -
  let ?fb = "frame_bytes (config shm)"
  have fr: "int n div ?fb * ?fb = int n" using n by simp
  then have nz: "int n div ?fb \<noteq> 0" using n(2) by auto
  have u: "0 \<le> ro" "0 \<le> a" "a \<le> used_size (config shm)" "b \<le> used_size (config shm)"
    "used_size (config shm) < 2 ^ 31" "0 \<le> b"
    using at by (auto simp: shm_at_def shm_config_ok_def)
  have w: "u32 (ro + int n) = ro + int n" using u reach by (intro wrap_u_id) auto
  have w': "u32 (ro + int n - a) = ro + int n - a" if "a \<le> ro + int n"
    using that u reach by (intro wrap_u_id) auto
  have h: "r = 0 \<or> r = 1" "read_buf_idx (header shm) = r"
    "read_offset (header shm) = (if r = 0 then [ro, 0] else [0, ro])"
    "write_offset (header shm) = (if r = 0 then [a, b] else [b, a])"
    using at by (auto simp: shm_at_def)
  show ?thesis
    using h nz w w' reach u(6) unfolding shm_take_def cras_shm_buffer_read_def Let_def
    by (elim disjE) (auto simp: fr)
qed

lemma shm_take_within:
  assumes at: "shm_at shm r w ro a b" and n: "frame_bytes (config shm) dvd int n" "0 < n" "ro + int n < a"
  shows "shm_at (shm_take n shm) r w (ro + int n) a b
    \<and> shm_contents (shm_take n shm) = drop n (shm_contents shm)"
proof -
  have eq: "shm_take n shm = shm\<lparr>header := (header shm)
      \<lparr>read_offset := (read_offset (header shm))[nat r := ro + int n]\<rparr>\<rparr>"
    using shm_take_eq [OF at n(1,2)] n at by (auto simp: shm_at_def Let_def)
  have at': "shm_at (shm_take n shm) r w (ro + int n) a b"
    using at n by (auto simp: eq shm_at_def shm_config_ok_def)
  have "drop n (cur_region shm r ro a) = cur_region shm r (ro + int n) a"
    using n at by (subst drop_region) (auto simp: shm_at_def shm_config_ok_def algebra_simps)
  moreover have "n - nat (a - ro) = 0" using n by simp
  ultimately have "drop n (shm_contents shm) = cur_region shm r (ro + int n) a @ next_region shm r b"
    unfolding shm_contents_at(1) [OF at] drop_append shm_contents_at(2) [OF at] by simp
  with at' show ?thesis by (simp add: shm_contents_at(1) [OF at']) (simp add: eq)
qed

lemma shm_take_into_next:
  assumes at: "shm_at shm r w ro a b" and n: "frame_bytes (config shm) dvd int n" "0 < n"
    and cross: "a \<le> ro + int n" "ro + int n - a < b"
  shows "shm_at (shm_take n shm) (1 - r) w (ro + int n - a) b 0
    \<and> shm_contents (shm_take n shm) = drop n (shm_contents shm)"
proof -
  have eq: "shm_take n shm = shm\<lparr>header := (header shm)
      \<lparr>read_offset := (read_offset (header shm))[nat r := 0, nat (1 - r) := ro + int n - a],
       write_offset := (write_offset (header shm))[nat r := 0], read_buf_idx := 1 - r\<rparr>\<rparr>"
    using shm_take_eq [OF at n] cross by (simp add: Let_def)
  have at': "shm_at (shm_take n shm) (1 - r) w (ro + int n - a) b 0"
    using at n cross by (auto simp: eq shm_at_def shm_config_ok_def)
  have ro: "ro \<le> a" using at by (auto simp: shm_at_def)
  have "drop (n - nat (a - ro)) (next_region shm r b)
      = region (samples shm) ((1 - r) * used_size (config shm) + (ro + int n - a)) (b - (ro + int n - a))"
    using cross ro at by (subst drop_region) (auto simp: shm_at_def shm_config_ok_def algebra_simps)
  moreover have "drop n (cur_region shm r ro a) = []"
    using cross by (simp add: shm_contents_at(2) [OF at])
  ultimately have "drop n (shm_contents shm)
      = region (samples shm) ((1 - r) * used_size (config shm) + (ro + int n - a)) (b - (ro + int n - a))"
    unfolding shm_contents_at(1) [OF at] drop_append shm_contents_at(2) [OF at] by simp
  with at' show ?thesis by (simp add: shm_contents_at(1) [OF at']) (simp add: eq)
qed

lemma shm_take_all:
  assumes at: "shm_at shm r w ro a b" and n: "frame_bytes (config shm) dvd int n" "0 < n"
    and all: "ro + int n = a + b"
  shows "shm_wf (shm_take n shm) \<and> shm_contents (shm_take n shm) = drop n (shm_contents shm)"
proof -
  have "0 \<le> b" "ro \<le> a" "a \<noteq> 0" using at n(2) all by (auto simp: shm_at_def)
  then have "shm_at (shm_take n shm) w w 0 0 0"
    using at shm_take_eq [OF at n] all
    by (auto simp: shm_at_def shm_config_ok_def Let_def)
  moreover from this have "shm_contents (shm_take n shm) = []" by (simp add: shm_contents_at(1))
  moreover have "drop n (shm_contents shm) = []"
    using all \<open>0 \<le> b\<close> \<open>ro \<le> a\<close> by (simp add: shm_contents_at [OF at])
  ultimately show ?thesis using shm_wfI by auto
qed

lemma shm_take_correct:
  assumes wf: "shm_wf shm" and ok: "shm_can_take shm n"
  shows "shm_wf (shm_take n shm) \<and> shm_contents (shm_take n shm) = drop n (shm_contents shm)"
proof (cases "n = 0")
  case True
  with wf show ?thesis by (simp add: shm_take_def cras_shm_buffer_read_def Let_def)
next
  case False
  from wf obtain r w ro a b where at: "shm_at shm r w ro a b" by (auto simp: shm_wf_def)
  have n: "frame_bytes (config shm) dvd int n" "0 < n" using ok False by (simp_all add: shm_can_take_def)
  have "int n \<le> int (length (shm_contents shm))"
    using ok by (simp add: shm_can_take_def bytes_queued_wf [OF wf])
  moreover have "ro \<le> a" "0 \<le> b" using at by (auto simp: shm_at_def)
  ultimately have "ro + int n \<le> a + b" by (simp add: shm_contents_at [OF at])
  then consider "ro + int n < a" | "a \<le> ro + int n" "ro + int n - a < b" | "ro + int n = a + b"
    by linarith
  then show ?thesis
    using shm_take_within [OF at n] shm_take_into_next [OF at n] shm_take_all [OF at n]
    by cases (blast intro: shm_wfI)+
qed

interpretation dshm: bounded_fifo shm_wf shm_contents shm_can_put shm_put shm_can_take shm_take
  by unfold_locales (simp_all add: shm_put_correct shm_take_correct)

text \<open>C10. The double buffer is a FIFO: over any interleaving of writes of whole frames into an
  available buffer (\<open>cras_shm_get_writeable_frames\<close>, then \<open>cras_shm_buffer_written_start\<close>) and reads of
  queued frames (\<open>cras_shm_buffer_read\<close>, which may cross from one buffer into the other), the bytes
  that were queued followed by those written are the bytes read followed by those still queued.\<close>

theorem audio_shm_fifo:
  assumes "shm_wf shm" and "fifo_ok shm_can_put shm_can_take shm_put shm_take shm ops"
    and "fifo_run shm_contents shm_put shm_take shm ops = (written, got, shm')"
  shows "shm_wf shm' \<and> shm_contents shm @ written = got @ shm_contents shm'"
  using dshm.run_invar_fifo [OF assms] .

definition zero_ts :: timespec where "zero_ts = \<lparr>tv_sec = 0, tv_nsec = 0\<rparr>"

definition shm_example :: cras_audio_shm where
  "shm_example =
     (let cfg = \<lparr>used_size = 4, frame_bytes = 2\<rparr> in
      \<lparr>config = cfg, header_mapped = True,
       header = \<lparr>hdr_config = cfg, read_buf_idx = 1, write_buf_idx = 0, read_offset = [0, 2],
         write_offset = [0, 4], write_in_progress = [0, 0], volume_scaler = 1, mute = 0,
         callback_pending = 0, num_overruns = 0, hdr_ts = zero_ts, buffer_offset = [0, 4],
         overrun_frames = 0, dropped_samples_duration = zero_ts, underrun_duration = zero_ts\<rparr>,
       samples_len = 8, samples = [0, 0, 0, 0, 1, 2, 3, 4]\<rparr>)"

lemma shm_example_wf: "shm_wf shm_example"
  by (rule shm_wfI [of _ 1 0 2 4 0]) (simp add: shm_at_def shm_example_def shm_config_ok_def Let_def)

theorem audio_shm_fifo_witness:
  "shm_contents shm_example @ [5, 6, 7, 8, 9, 10] = [3, 4, 5, 6] @ [7, 8, 9, 10]"
proof -
  let ?ops = "[Put [5, 6, 7, 8], Take 4, Put [9, 10]]"
  let ?run = "fifo_run shm_contents shm_put shm_take shm_example ?ops"
  have ok: "fifo_ok shm_can_put shm_can_take shm_put shm_take shm_example ?ops" by code_simp
  have run: "fst ?run = [5, 6, 7, 8, 9, 10] \<and> fst (snd ?run) = [3, 4, 5, 6]
    \<and> shm_contents (snd (snd ?run)) = [7, 8, 9, 10]" by code_simp
  have eq: "?run = (fst ?run, fst (snd ?run), snd (snd ?run))" by simp
  from audio_shm_fifo [OF shm_example_wf ok eq] run show ?thesis by simp
qed

lemma frames_exact:
  assumes "shm_wf shm" "used_size (config shm) < 2 ^ 30"
  shows "0 \<le> cras_shm_get_frames shm
    \<and> cras_shm_get_frames shm * frame_bytes (config shm) = int (length (shm_contents shm))
    \<and> shm_contents (cras_shm_buffer_read shm (cras_shm_get_frames shm)) = []"
proof -
  let ?n = "length (shm_contents shm)" and ?fb = "frame_bytes (config shm)"
  from assms(1) obtain r w ro a b where at: "shm_at shm r w ro a b" by (auto simp: shm_wf_def)
  then have fb: "0 < ?fb" and len: "int ?n = a - ro + b" and u: "int ?n < 2 ^ 31"
    using assms(2) by (auto simp: shm_contents_at [OF at]) (auto simp: shm_at_def shm_config_ok_def)
  have dvd: "?fb dvd int ?n" using at unfolding len by (auto simp: shm_at_def)
  have small: "int ?n div ?fb < 2 ^ 31"
    using fb u by (auto simp: int_div_less_iff)
  have "0 \<le> int ?n div ?fb" using fb by (simp add: pos_imp_zdiv_nonneg_iff)
  then have get: "cras_shm_get_frames shm = int ?n div ?fb"
    using dvd small by (simp add: cras_shm_get_frames_def Let_def bytes_queued_wf [OF assms(1)]
        wrap_s_id)
  have "shm_can_take shm ?n" using dvd by (simp add: shm_can_take_def bytes_queued_wf [OF assms(1)])
  from shm_take_correct [OF assms(1) this] get dvd fb show ?thesis
    by (simp add: shm_take_def pos_imp_zdiv_nonneg_iff)
qed

text \<open>The levels reported to the stream agree with the queue: \<open>cras_shm_get_frames\<close> never reports
  the \<open>-EIO\<close> of a torn frame for a header the protocol produced, and counts exactly the queued frames.
  A reader that takes all of them leaves
  the queue empty. (The frame count is an \<open>int\<close>, so the buffers are taken to be below a gigabyte.)\<close>

lemma audio_shm_frames_exact:
  assumes "shm_wf shm" "used_size (config shm) < 2 ^ 30"
  shows "0 \<le> cras_shm_get_frames shm
    \<and> cras_shm_get_frames shm * frame_bytes (config shm) = int (length (shm_contents shm))
    \<and> shm_contents (cras_shm_buffer_read shm (cras_shm_get_frames shm)) = []"
  using assms by (rule frames_exact)

section \<open>Overruns\<close>

text \<open>\<open>cras_shm_check_write_overrun\<close> on a full write buffer: the buffer is cleared and reclaimed.\<close>

text \<open>An overrun is detected exactly when the buffer about to be written still holds data, is then
  counted once, and leaves the buffer cleared, claimed and available; no other byte of the samples
  area changes. A second call while the write is in progress does nothing.\<close>

lemma write_overrun_recovers:
  assumes at: "shm_at shm r w ro a b" and idle: "write_in_progress (header shm) ! nat w = 0"
    and res: "cras_shm_check_write_overrun shm = (n, shm')"
  shows "(n = 1 \<longleftrightarrow> \<not> cras_shm_is_buffer_available shm)
    \<and> cras_shm_num_overruns shm' = (if n = 1 then u32 (cras_shm_num_overruns shm + 1) else cras_shm_num_overruns shm)
    \<and> cras_shm_is_buffer_available shm'
    \<and> region (samples shm') (w * used_size (config shm)) (used_size (config shm))
        = replicate (nat (used_size (config shm))) 0
    \<and> region (samples shm') ((1 - w) * used_size (config shm)) (used_size (config shm))
        = region (samples shm) ((1 - w) * used_size (config shm)) (used_size (config shm))
    \<and> cras_shm_check_write_overrun shm' = (0, shm')"
proof -
  let ?u = "used_size (config shm)"
  have w: "w = 0 \<or> w = 1" "write_buf_idx (header shm) = w" "length (write_offset (header shm)) = 2"
    and u: "0 < ?u" "2 * ?u \<le> int (length (samples shm))" "length (write_in_progress (header shm)) = 2"
    using at by (auto simp: shm_at_def shm_config_ok_def)
  have boff: "cras_shm_buff_for_idx (shm\<lparr>header := h\<rparr>) w = w * ?u"
    if "buffer_offset h = buffer_offset (header shm)" for h
    using shm_buff_for_idx_at [OF at w(1)] that
    by (auto simp: cras_shm_buff_for_idx_def cras_shm_get_checked_buffer_offset_def Let_def split: if_splits)
  have boff0: "cras_shm_buff_for_idx shm w = w * ?u" by (rule shm_buff_for_idx_at [OF at w(1)])
  have zero: "region (store_at (samples shm) (nat (w * ?u)) (replicate (nat ?u) 0)) (w * ?u) ?u = replicate (nat ?u) 0"
    using region_store_at_same [of "w * ?u" "samples shm" "replicate (nat ?u) 0"] w(1) u by auto
  have keep: "region (store_at (samples shm) (nat (w * ?u)) (replicate (nat ?u) 0)) ((1 - w) * ?u) ?u
      = region (samples shm) ((1 - w) * ?u) ?u"
    using w(1) u by (auto simp: region_store_at_before region_store_at_0_after)
  have m: "buf_mask w = w" using w(1) by auto
  define ov where "ov = (write_offset (header shm) ! nat w \<noteq> 0)"
  have shm': "samples shm' = store_at (samples shm) (nat (w * ?u)) (replicate (nat ?u) 0)"
    "write_offset (header shm') = (write_offset (header shm))[nat w := 0]"
    "write_in_progress (header shm') = (write_in_progress (header shm))[nat w := 1]"
    "write_buf_idx (header shm') = w"
    "n = (if ov then 1 else 0)"
    "num_overruns (header shm') = (if ov then u32 (num_overruns (header shm) + 1) else num_overruns (header shm))"
    using res idle w(2) m boff0 boff
    by (auto simp: cras_shm_check_write_overrun_def Let_def ov_def upd_header_def split: if_splits)
  have "nat w < 2" using w(1) by auto
  with shm' zero keep w(2,3) u(3) m show ?thesis
    by (simp add: cras_shm_is_buffer_available_def cras_shm_num_overruns_def ov_def
        cras_shm_check_write_overrun_def)
qed

definition shm_full_example :: cras_audio_shm where
  "shm_full_example = shm_put [5, 6, 7, 8] shm_example"

lemma shm_full_example_at: "shm_at shm_full_example 1 1 2 4 4"
  by code_simp

end
