(* ===== verification/Cras_Float.thy ===== *)
theory Cras_Float
  imports Complex_Main Cras_Prelude "HOL-Library.Log_Nat"
begin

text \<open>
  The floating point arithmetic of the C sources. A \<open>float\<close> or \<open>double\<close> is the real number it
  denotes, and the result of an operation is rounded to 24 or 53 significant bits, to nearest with
  ties to even. The exponent is not bounded: the values of the audio path, samples times a volume, are
  far from the ends of its range, and infinities and NaN do not occur. Rounding is monotone and keeps the
  representable numbers (\<open>fround_mono\<close>, \<open>fround_exact\<close>), which is all that the proofs about samples use.
\<close>

section \<open>Rounding\<close>

text \<open>The exponent of a positive number: \<open>2 powi ilog2 x \<le> x < 2 powi (ilog2 x + 1)\<close>.\<close>

definition ilog2 :: "real \<Rightarrow> int" where
  "ilog2 x = (if x \<ge> 1 then int (floorlog 2 (nat \<lfloor>x\<rfloor>)) - 1 else - int (floorlog 2 (nat (\<lceil>1 / x\<rceil> - 1))))"

text \<open>The nearest integer, the even one of two.\<close>

definition rne :: "real \<Rightarrow> int" where
  "rne y = (let k = \<lfloor>y\<rfloor>; d = y - of_int k in
            if d < 1 / 2 then k else if d > 1 / 2 then k + 1 else if even k then k else k + 1)"

definition fround_pos :: "nat \<Rightarrow> real \<Rightarrow> real" where
  "fround_pos p x = (let u = 2 powi (ilog2 x - (int p - 1)) in of_int (rne (x / u)) * u)"

definition fround :: "nat \<Rightarrow> real \<Rightarrow> real" where
  "fround p x = (if x = 0 then 0 else if x > 0 then fround_pos p x else - fround_pos p (- x))"

abbreviation f32 :: "real \<Rightarrow> real" where "f32 \<equiv> fround 24"
abbreviation f64 :: "real \<Rightarrow> real" where "f64 \<equiv> fround 53"

text \<open>A conversion to an integer type cuts off the fraction.\<close>

definition c_trunc :: "real \<Rightarrow> int" where
  "c_trunc x = (if x \<ge> 0 then \<lfloor>x\<rfloor> else \<lceil>x\<rceil>)"

section \<open>The exponent\<close>

lemma ilog2_bounds:
  assumes "x > 0"
  shows "2 powi ilog2 x \<le> x" "x < 2 powi (ilog2 x + 1)"
proof -
  have "2 powi ilog2 x \<le> x \<and> x < 2 powi (ilog2 x + 1)"
  proof (cases "x \<ge> 1")
    case True
    define n where "n = nat \<lfloor>x\<rfloor>"
    have n: "n > 0" "real n \<le> x" "x < real n + 1" using True unfolding n_def by auto
    have b: "2 ^ (floorlog 2 n - 1) \<le> n" "n < 2 ^ floorlog 2 n" using floorlog_bounds [OF n(1), of 2] by auto
    have f: "floorlog 2 n > 0" using b(2) n(1) by (cases "floorlog 2 n") auto
    have e: "ilog2 x = int (floorlog 2 n - 1)" using True f by (simp add: ilog2_def n_def)
    have lo: "(2::real) powi ilog2 x \<le> real n" unfolding e power_int_of_nat using b(1) by (metis of_nat_le_iff of_nat_numeral of_nat_power)
    have "(2::real) powi (ilog2 x + 1) = real (2 ^ floorlog 2 n)" using f by (simp add: e power_int_add power_int_of_nat flip: power_Suc2)
    moreover have "real n + 1 \<le> real (2 ^ floorlog 2 n)" using b(2) by (metis Suc_leI of_nat_Suc of_nat_le_iff add.commute)
    ultimately show ?thesis using lo n by linarith
  next
    case False
    define m where "m = nat (\<lceil>1 / x\<rceil> - 1)"
    have y: "1 / x > 1" using False assms by simp
    have c: "\<lceil>1 / x\<rceil> \<ge> 2" using y by linarith
    have m: "m > 0" "real m < 1 / x" "1 / x \<le> real m + 1" using c unfolding m_def by (auto simp: of_nat_nat) linarith+
    have b: "2 ^ (floorlog 2 m - 1) \<le> m" "m < 2 ^ floorlog 2 m" using floorlog_bounds [OF m(1), of 2] by auto
    have f: "floorlog 2 m > 0" using b(2) m(1) by (cases "floorlog 2 m") auto
    have e: "ilog2 x = - int (floorlog 2 m)" using False by (simp add: ilog2_def m_def)
    have up: "1 / x \<le> 2 ^ floorlog 2 m" using b(2) m(3) by (metis Suc_leI of_nat_Suc of_nat_le_iff add.commute of_nat_numeral of_nat_power order_trans)
    have "(2::real) ^ (floorlog 2 m - 1) \<le> real m" using b(1) by (metis of_nat_le_iff of_nat_numeral of_nat_power)
    then have lo: "2 ^ (floorlog 2 m - 1) < 1 / x" using m(2) by linarith
    have "(2::real) powi ilog2 x = 1 / 2 ^ floorlog 2 m" by (simp add: e power_int_minus power_int_of_nat divide_inverse)
    moreover have "ilog2 x + 1 = - int (floorlog 2 m - 1)" using f e by (simp add: of_nat_diff)
    then have "(2::real) powi (ilog2 x + 1) = 1 / 2 ^ (floorlog 2 m - 1)" by (simp add: power_int_minus power_int_of_nat divide_inverse)
    moreover have "1 / 2 ^ floorlog 2 m \<le> x" "x < 1 / 2 ^ (floorlog 2 m - 1)" using up lo assms by (simp_all add: field_simps)
    ultimately show ?thesis by simp
  qed
  then show "2 powi ilog2 x \<le> x" "x < 2 powi (ilog2 x + 1)" by auto
qed

lemma powi2_less_iff: "(2::real) powi m < 2 powi n \<longleftrightarrow> m < n"
  using power_int_strict_increasing [of m n "2::real"] power_int_increasing [of n m "2::real"] by (auto simp: not_less [symmetric])

lemma ilog2_unique:
  assumes "2 powi e \<le> x" "x < 2 powi (e + 1)"
  shows "ilog2 x = e"
proof -
  have "x > 0" using assms(1) by (meson less_le_trans zero_less_numeral zero_less_power_int)
  note b = ilog2_bounds [OF this]
  have "(2::real) powi e < 2 powi (ilog2 x + 1)" "(2::real) powi ilog2 x < 2 powi (e + 1)" using assms b by linarith+
  then show ?thesis by (simp add: powi2_less_iff)
qed

lemma ilog2_mono:
  assumes "0 < x" "x \<le> y"
  shows "ilog2 x \<le> ilog2 y"
proof -
  have "(2::real) powi ilog2 x < 2 powi (ilog2 y + 1)"
    using ilog2_bounds(1) [of x] ilog2_bounds(2) [of y] assms by linarith
  then show ?thesis by (simp add: powi2_less_iff)
qed

section \<open>Rounding to an integer\<close>

lemma rne_int [simp]: "rne (of_int k) = k"
  by (simp add: rne_def)

lemma rne_near: "\<bar>y - of_int (rne y)\<bar> \<le> 1 / 2"
  by (simp add: rne_def Let_def)

lemma rne_mono:
  assumes "x \<le> y"
  shows "rne x \<le> rne y"
proof (cases "\<lfloor>x\<rfloor> = \<lfloor>y\<rfloor>")
  case True
  then show ?thesis using assms by (simp add: rne_def Let_def)
next
  case False
  then have "\<lfloor>x\<rfloor> + 1 \<le> \<lfloor>y\<rfloor>" using floor_mono [OF assms] by linarith
  moreover have "rne x \<le> \<lfloor>x\<rfloor> + 1" "\<lfloor>y\<rfloor> \<le> rne y" by (simp_all add: rne_def Let_def)
  ultimately show ?thesis by linarith
qed

lemma rne_le: "x \<le> of_int k \<Longrightarrow> rne x \<le> k"
  using rne_mono [of x "of_int k"] by simp

lemma rne_ge: "of_int k \<le> x \<Longrightarrow> k \<le> rne x"
  using rne_mono [of "of_int k" x] by simp

section \<open>Rounding to a number of bits\<close>

lemma fround_pos_bounds:
  assumes "x > 0" "p > 0"
  shows "2 powi ilog2 x \<le> fround_pos p x" "fround_pos p x \<le> 2 powi (ilog2 x + 1)"
proof -
  let ?u = "(2::real) powi (ilog2 x - (int p - 1))"
  have u: "?u > 0" by simp
  have lo: "(2::real) powi ilog2 x = of_int (2 ^ (p - 1)) * ?u"
    using assms(2) by (simp add: of_nat_diff flip: power_int_of_nat power_int_add)
  have hi: "(2::real) powi (ilog2 x + 1) = of_int (2 ^ p) * ?u"
    by (simp flip: power_int_of_nat power_int_add)
  have "of_int (2 ^ (p - 1)) \<le> x / ?u" "x / ?u \<le> of_int (2 ^ p)"
    using ilog2_bounds [OF assms(1)] u unfolding lo hi by (simp_all add: pos_le_divide_eq pos_divide_le_eq)
  then have "(2::int) ^ (p - 1) \<le> rne (x / ?u)" "rne (x / ?u) \<le> 2 ^ p" by (blast intro: rne_ge rne_le)+
  then show "2 powi ilog2 x \<le> fround_pos p x" "fround_pos p x \<le> 2 powi (ilog2 x + 1)"
    unfolding lo hi fround_pos_def Let_def using u by (simp_all add: mult_right_mono del: of_int_power)
qed

lemma fround_pos_mono:
  assumes "0 < x" "x \<le> y" "p > 0"
  shows "fround_pos p x \<le> fround_pos p y"
proof (cases "ilog2 x = ilog2 y")
  case True
  then show ?thesis using assms by (auto simp: fround_pos_def Let_def intro!: mult_right_mono rne_mono divide_right_mono)
next
  case False
  then have "(2::real) powi (ilog2 x + 1) \<le> 2 powi ilog2 y"
    using ilog2_mono [OF assms(1,2)] by (intro power_int_increasing) auto
  then show ?thesis using fround_pos_bounds [of x p] fround_pos_bounds [of y p] assms by linarith
qed

lemma fround_minus: "fround p (- x) = - fround p x"
  by (simp add: fround_def)

lemma fround_0 [simp]: "fround p 0 = 0"
  by (simp add: fround_def)

lemma fround_pos_pos: "x > 0 \<Longrightarrow> p > 0 \<Longrightarrow> fround_pos p x > 0"
  using fround_pos_bounds(1) [of x p] by (meson less_le_trans zero_less_numeral zero_less_power_int)

lemma fround_mono:
  assumes "x \<le> y" "p > 0"
  shows "fround p x \<le> fround p y"
proof -
  consider "0 < x" | "x \<le> 0" "0 \<le> y" | "y < 0" using assms by linarith
  then show ?thesis
  proof cases
    case 1
    then show ?thesis using assms by (simp add: fround_def fround_pos_mono)
  next
    case 2
    then show ?thesis using fround_pos_pos [of y p] fround_pos_pos [of "- x" p] assms(2) by (auto simp: fround_def)
  next
    case 3
    then show ?thesis using assms by (simp add: fround_def fround_pos_mono)
  qed
qed

text \<open>Numbers with at most \<open>p\<close> significant bits are kept.\<close>

lemma fround_pos_exact:
  assumes "0 < k" "k < 2 ^ p" "p > 0"
  shows "fround_pos p (of_int k * 2 powi e) = of_int k * 2 powi e"
proof -
  let ?x = "real_of_int k * 2 powi e" and ?s = "ilog2 (of_int k) "
  have k: "real_of_int k > 0" using assms by simp
  note b = ilog2_bounds [OF k]
  have "(2::real) powi ?s < 2 powi int p" using b(1) assms(2) by (simp add: power_int_of_nat) (metis of_int_less_iff of_int_numeral of_int_power order_le_less_trans)
  then have sp: "?s \<le> int p - 1" unfolding powi2_less_iff by simp
  have "ilog2 ?x = ?s + e"
    using b by (intro ilog2_unique) (simp_all add: power_int_add algebra_simps)
  then have u: "?x / 2 powi (ilog2 ?x - (int p - 1)) = of_int (k * 2 ^ nat (int p - 1 - ?s))"
    using sp by (simp add: field_simps flip: power_int_of_nat power_int_add)
  show ?thesis unfolding fround_pos_def Let_def u rne_int
    unfolding u [symmetric] by simp
qed

lemma fround_exact:
  assumes "\<bar>k\<bar> < 2 ^ p" "p > 0"
  shows "fround p (of_int k * 2 powi e) = of_int k * 2 powi e"
proof -
  consider "k = 0" | "k > 0" | "k < 0" by linarith
  then show ?thesis
  proof cases
    case 3
    then have "fround_pos p (of_int (- k) * 2 powi e) = of_int (- k) * 2 powi e"
      using assms by (intro fround_pos_exact) auto
    moreover have "of_int k * 2 powi e < (0::real)" using 3 by (simp add: mult_neg_pos)
    ultimately show ?thesis by (simp add: fround_def)
  qed (use assms in \<open>auto simp: fround_def fround_pos_exact zero_less_mult_iff\<close>)
qed

lemma fround_int:
  assumes "\<bar>k\<bar> < 2 ^ p" "p > 0"
  shows "fround p (of_int k) = of_int k"
  using fround_exact [OF assms, of 0] by simp

lemma fround_le:
  assumes "x \<le> of_int k * 2 powi e" "\<bar>k\<bar> < 2 ^ p" "p > 0"
  shows "fround p x \<le> of_int k * 2 powi e"
  using fround_mono [OF assms(1,3)] fround_exact [OF assms(2,3)] by simp

lemma fround_ge:
  assumes "of_int k * 2 powi e \<le> x" "\<bar>k\<bar> < 2 ^ p" "p > 0"
  shows "of_int k * 2 powi e \<le> fround p x"
  using fround_mono [OF assms(1,3)] fround_exact [OF assms(2,3)] by simp

lemma fround_nonneg: "0 \<le> x \<Longrightarrow> p > 0 \<Longrightarrow> 0 \<le> fround p x"
  using fround_mono [of 0 x p] by simp

lemma fround_nonpos: "x \<le> 0 \<Longrightarrow> p > 0 \<Longrightarrow> fround p x \<le> 0"
  using fround_mono [of x 0 p] by simp

lemma fround_abs_le:
  assumes "\<bar>x\<bar> \<le> of_int k * 2 powi e" "\<bar>k\<bar> < 2 ^ p" "p > 0"
  shows "\<bar>fround p x\<bar> \<le> of_int k * 2 powi e"
  using fround_le [OF _ assms(2,3), of x e] fround_le [OF _ assms(2,3), of "- x" e] assms(1) by (auto simp: fround_minus abs_le_iff)

text \<open>The relative error.\<close>

lemma fround_pos_err:
  assumes "x > 0" "p > 0"
  shows "\<bar>fround_pos p x - x\<bar> \<le> x / 2 ^ p"
proof -
  let ?u = "(2::real) powi (ilog2 x - (int p - 1))"
  have u: "?u > 0" by simp
  have "fround_pos p x - x = (of_int (rne (x / ?u)) - x / ?u) * ?u" using u by (simp add: fround_pos_def Let_def left_diff_distrib)
  then have "\<bar>fround_pos p x - x\<bar> = \<bar>x / ?u - of_int (rne (x / ?u))\<bar> * ?u" using u by (simp add: abs_mult abs_minus_commute)
  also have "\<dots> \<le> 1 / 2 * ?u" using rne_near [of "x / ?u"] u by (intro mult_right_mono) auto
  also have "\<dots> = 2 powi ilog2 x / 2 ^ p" by (simp add: power_int_diff power_int_add power_int_of_nat)
  also have "\<dots> \<le> x / 2 ^ p" using ilog2_bounds(1) [OF assms(1)] by (intro divide_right_mono) auto
  finally show ?thesis .
qed

lemma fround_err:
  assumes "p > 0"
  shows "\<bar>fround p x - x\<bar> \<le> \<bar>x\<bar> / 2 ^ p"
  using fround_pos_err [OF _ assms, of x] fround_pos_err [OF _ assms, of "- x"] by (auto simp: fround_def abs_minus_commute)

section \<open>Conversion to integers\<close>

lemma c_trunc_of_int [simp]: "c_trunc (of_int k) = k"
  by (simp add: c_trunc_def)

lemma c_trunc_minus: "c_trunc (- x) = - c_trunc x"
  by (simp add: c_trunc_def ceiling_def)

lemma c_trunc_mono: "x \<le> y \<Longrightarrow> c_trunc x \<le> c_trunc y"
  by (auto simp: c_trunc_def floor_mono ceiling_mono) (meson ceiling_le_zero dual_order.trans le_cases zero_le_floor)

lemma c_trunc_le: "x \<le> of_int k \<Longrightarrow> c_trunc x \<le> k"
  using c_trunc_mono [of x "of_int k"] by simp

lemma c_trunc_ge: "of_int k \<le> x \<Longrightarrow> k \<le> c_trunc x"
  using c_trunc_mono [of "of_int k" x] by simp

lemma c_trunc_err: "\<bar>of_int (c_trunc x) - x\<bar> < 1"
  unfolding c_trunc_def by (cases "x \<ge> 0"; simp; linarith)

lemma c_trunc_abs_le: "\<bar>of_int (c_trunc x)\<bar> \<le> \<bar>x\<bar>"
  by (cases "x \<ge> 0") (simp_all add: c_trunc_def)

end
