(* ===== verification/Fmt_Conv_Ops.thy ===== *)
theory Fmt_Conv_Ops
  imports Cras_Float
begin

text \<open>
  The sample format and channel converters of \<open>cras/src/server/cras_fmt_conv_ops.c\<close>. A buffer is the
  list of its elements at the type the function casts it to (\<open>int16_t\<close>, \<open>int32_t\<close>, or bytes), on a
  little-endian machine, so that \<open>htole16\<close> and its relatives are the identity. Every converter takes
  the input buffer, the frame count and the output buffer and returns the output buffer; the frame
  count it also returns is its argument.

  Source functions that exist in an \<open>s16_\<close> and an \<open>s32_\<close> copy differ in the sample type only. They
  share a body here, which takes the \<open>add_and_clip\<close> of the type where it is used. A channel index is
  an int, \<open>-1\<close> for the \<open>(size_t)-1\<close> of a channel that is missing from the layout.
\<close>

section \<open>Model\<close>

text \<open>\<open>for (i = 0; i < n; i++)\<close>, and the stores \<open>out[k * i + c] = v\<close> of one iteration in order.\<close>

definition for_frames :: "nat \<Rightarrow> (nat \<Rightarrow> 'm \<Rightarrow> 'm) \<Rightarrow> 'm \<Rightarrow> 'm" where
  "for_frames n body out = foldl (\<lambda>out i. body i out) out [0..<n]"

definition store_frame :: "nat \<Rightarrow> nat \<Rightarrow> (int \<times> 'a) list \<Rightarrow> 'a list \<Rightarrow> 'a list" where
  "store_frame k i stores out = foldl (\<lambda>out (c, v). out[k * i + nat c := v]) out stores"

text \<open>\<open>for (i = 0; i < n; i++, in++, out++) *out = f( *in)\<close>.\<close>

definition convert_samples :: "('a \<Rightarrow> 'b) \<Rightarrow> 'a list \<Rightarrow> nat \<Rightarrow> 'b list \<Rightarrow> 'b list" where
  "convert_samples f inp n out = for_frames n (\<lambda>i out. out[i := f (inp ! i)]) out"

definition memset0 :: "nat \<Rightarrow> int list \<Rightarrow> int list" where
  "memset0 n out = replicate n 0 @ drop n out"

subsection \<open>Add and clip\<close>

definition SHRT_MAX :: int where "SHRT_MAX = 32767"
definition SHRT_MIN :: int where "SHRT_MIN = - 32768"
definition INT32_MAX :: int where "INT32_MAX = 2147483647"
definition INT32_MIN :: int where "INT32_MIN = - 2147483648"

definition s16_add_and_clip :: "int \<Rightarrow> int \<Rightarrow> int" where
  "s16_add_and_clip a b =
     (let sum = s32 (a + b); sum = max sum SHRT_MIN; sum = min sum SHRT_MAX in s16 sum)"

definition s32_add_and_clip :: "int \<Rightarrow> int \<Rightarrow> int" where
  "s32_add_and_clip a b =
     (let sum = s64 (a + b); sum = max sum INT32_MIN; sum = min sum INT32_MAX in s32 sum)"

subsection \<open>Format converters\<close>

text \<open>The bytes of a 16 bit element in memory order.\<close>

definition le16_bytes :: "int \<Rightarrow> int list" where
  "le16_bytes x = [u16 x mod 256, u16 x div 256]"

definition convert_u8_to_s16le :: "int list \<Rightarrow> nat \<Rightarrow> int list \<Rightarrow> int list" where
  "convert_u8_to_s16le inp in_samples out =
     convert_samples (\<lambda>x. u16 (u16 (x - 0x80) * 2 ^ 8)) inp in_samples out"

text \<open>\<open>memcpy(_out, _in + 1, 2)\<close>: the 16 bit element made of bytes 1 and 2 of a packed sample.\<close>

definition convert_s243le_to_s16le :: "int list \<Rightarrow> nat \<Rightarrow> int list \<Rightarrow> int list" where
  "convert_s243le_to_s16le inp in_samples out =
     for_frames in_samples (\<lambda>i out. out[i := inp ! (3 * i + 1) + 256 * inp ! (3 * i + 2)]) out"

definition convert_s24le_to_s16le :: "int list \<Rightarrow> nat \<Rightarrow> int list \<Rightarrow> int list" where
  "convert_s24le_to_s16le inp in_samples out =
     convert_samples (\<lambda>x. u16 (s16 (x mod 2 ^ 24 div 2 ^ 8))) inp in_samples out"

definition convert_s32le_to_s16le :: "int list \<Rightarrow> nat \<Rightarrow> int list \<Rightarrow> int list" where
  "convert_s32le_to_s16le inp in_samples out =
     convert_samples (\<lambda>x. u16 (s16 (x div 2 ^ 16))) inp in_samples out"

definition convert_s16le_to_u8 :: "int list \<Rightarrow> nat \<Rightarrow> int list \<Rightarrow> int list" where
  "convert_s16le_to_u8 inp in_samples out =
     convert_samples (\<lambda>x. u8 (u8 (x div 2 ^ 8) + 128)) inp in_samples out"

definition convert_s16le_to_s243le :: "int list \<Rightarrow> nat \<Rightarrow> int list \<Rightarrow> int list" where
  "convert_s16le_to_s243le inp in_samples out =
     for_frames in_samples (\<lambda>i. store_frame 3 i
       [(0, 0), (1, le16_bytes (inp ! i) ! 0), (2, le16_bytes (inp ! i) ! 1)]) out"

definition convert_s16le_to_s24le :: "int list \<Rightarrow> nat \<Rightarrow> int list \<Rightarrow> int list" where
  "convert_s16le_to_s24le inp in_samples out =
     convert_samples (\<lambda>x. u32 (u32 x * 2 ^ 8)) inp in_samples out"

definition convert_s16le_to_s32le :: "int list \<Rightarrow> nat \<Rightarrow> int list \<Rightarrow> int list" where
  "convert_s16le_to_s32le inp in_samples out =
     convert_samples (\<lambda>x. u32 (u32 x * 2 ^ 16)) inp in_samples out"

text \<open>A \<open>float\<close> is the real number it denotes: division and multiplication by \<open>32768\<close> only change
  the exponent, and the bounds are exact, so no rounding takes place. The cast truncates.\<close>

definition convert_s16le_to_f32le :: "int list \<Rightarrow> nat \<Rightarrow> real list \<Rightarrow> real list" where
  "convert_s16le_to_f32le inp in_samples out =
     convert_samples (\<lambda>x. real_of_int x / 32768) inp in_samples out"

definition convert_f32le_to_s16le :: "real list \<Rightarrow> nat \<Rightarrow> int list \<Rightarrow> int list" where
  "convert_f32le_to_s16le inp in_samples out =
     convert_samples
       (\<lambda>x. s16 (c_trunc (max (min (x * 32768) (real_of_int SHRT_MAX)) (real_of_int SHRT_MIN))))
       inp in_samples out"

definition convert_s24le_to_s32le :: "int list \<Rightarrow> nat \<Rightarrow> int list \<Rightarrow> int list" where
  "convert_s24le_to_s32le inp in_samples out =
     convert_samples (\<lambda>x. u32 (u32 x mod 2 ^ 24 * 2 ^ 8)) inp in_samples out"

definition convert_s32le_to_s24le :: "int list \<Rightarrow> nat \<Rightarrow> int list \<Rightarrow> int list" where
  "convert_s32le_to_s24le inp in_samples out =
     convert_samples (\<lambda>x. x div 2 ^ 8) inp in_samples out"

text \<open>Byte buffers on both sides: \<open>memcpy(_out + 1, _in, 3)\<close> and \<open>memcpy(_out, _in + 1, 3)\<close>.\<close>

definition convert_s243le_to_s32le :: "int list \<Rightarrow> nat \<Rightarrow> int list \<Rightarrow> int list" where
  "convert_s243le_to_s32le inp in_samples out =
     for_frames in_samples (\<lambda>i. store_frame 4 i
       [(0, 0), (1, inp ! (3 * i)), (2, inp ! (3 * i + 1)), (3, inp ! (3 * i + 2))]) out"

definition convert_s32le_to_s243le :: "int list \<Rightarrow> nat \<Rightarrow> int list \<Rightarrow> int list" where
  "convert_s32le_to_s243le inp in_samples out =
     for_frames in_samples (\<lambda>i. store_frame 3 i
       [(0, inp ! (4 * i + 1)), (1, inp ! (4 * i + 2)), (2, inp ! (4 * i + 3))]) out"

subsection \<open>Channel converters: mono and stereo\<close>

definition mono_to_stereo :: "int list \<Rightarrow> nat \<Rightarrow> int list \<Rightarrow> int list" where
  "mono_to_stereo inp in_frames out =
     for_frames in_frames (\<lambda>i. store_frame 2 i [(0, inp ! i), (1, inp ! i)]) out"

definition s16_mono_to_stereo :: "int list \<Rightarrow> nat \<Rightarrow> int list \<Rightarrow> int list" where
  "s16_mono_to_stereo = mono_to_stereo"

definition s32_mono_to_stereo :: "int list \<Rightarrow> nat \<Rightarrow> int list \<Rightarrow> int list" where
  "s32_mono_to_stereo = mono_to_stereo"

definition stereo_to_mono :: "(int \<Rightarrow> int \<Rightarrow> int) \<Rightarrow> int list \<Rightarrow> nat \<Rightarrow> int list \<Rightarrow> int list" where
  "stereo_to_mono add_and_clip inp in_frames out =
     for_frames in_frames (\<lambda>i. store_frame 1 i [(0, add_and_clip (inp ! (2 * i)) (inp ! (2 * i + 1)))]) out"

definition s16_stereo_to_mono :: "int list \<Rightarrow> nat \<Rightarrow> int list \<Rightarrow> int list" where
  "s16_stereo_to_mono = stereo_to_mono s16_add_and_clip"

definition s32_stereo_to_mono :: "int list \<Rightarrow> nat \<Rightarrow> int list \<Rightarrow> int list" where
  "s32_stereo_to_mono = stereo_to_mono s32_add_and_clip"

subsection \<open>Channel converters: to five channels\<close>

definition mono_to_5 :: "int \<Rightarrow> int \<Rightarrow> int list \<Rightarrow> nat \<Rightarrow> int list \<Rightarrow> int list" where
  "mono_to_5 left right inp in_frames out =
     (let (left, right) = (if left = -1 \<or> right = -1 then (0, 1) else (left, right))
      in for_frames in_frames (\<lambda>i. store_frame 5 i [(left, inp ! i), (right, inp ! i)])
           (memset0 (5 * in_frames) out))"

definition s16_mono_to_5 :: "int \<Rightarrow> int \<Rightarrow> int list \<Rightarrow> nat \<Rightarrow> int list \<Rightarrow> int list" where
  "s16_mono_to_5 = mono_to_5"

definition s32_mono_to_5 :: "int \<Rightarrow> int \<Rightarrow> int list \<Rightarrow> nat \<Rightarrow> int list \<Rightarrow> int list" where
  "s32_mono_to_5 = mono_to_5"

definition stereo_to_5 :: "int \<Rightarrow> int \<Rightarrow> int list \<Rightarrow> nat \<Rightarrow> int list \<Rightarrow> int list" where
  "stereo_to_5 left right inp in_frames out =
     (let (left, right) = (if left = -1 \<or> right = -1 then (0, 1) else (left, right))
      in for_frames in_frames (\<lambda>i. store_frame 5 i [(left, inp ! (2 * i)), (right, inp ! (2 * i + 1))])
           (memset0 (5 * in_frames) out))"

definition s16_stereo_to_5 :: "int \<Rightarrow> int \<Rightarrow> int list \<Rightarrow> nat \<Rightarrow> int list \<Rightarrow> int list" where
  "s16_stereo_to_5 = stereo_to_5"

definition s32_stereo_to_5 :: "int \<Rightarrow> int \<Rightarrow> int list \<Rightarrow> nat \<Rightarrow> int list \<Rightarrow> int list" where
  "s32_stereo_to_5 = stereo_to_5"

subsection \<open>Channel converters: to 5.1 and 7.1 surround\<close>

text \<open>The 5.1 and 7.1 functions differ in the channel count \<open>k\<close> only.\<close>

definition mono_to_surround :: "nat \<Rightarrow> int \<Rightarrow> int \<Rightarrow> int \<Rightarrow> int list \<Rightarrow> nat \<Rightarrow> int list \<Rightarrow> int list" where
  "mono_to_surround k left right center inp in_frames out =
     (let out = memset0 (k * in_frames) out in
      if center \<noteq> -1 then
        for_frames in_frames (\<lambda>i. store_frame k i [(center, inp ! i)]) out
      else if left \<noteq> -1 \<and> right \<noteq> -1 then
        for_frames in_frames (\<lambda>i. store_frame k i
          [(right, inp ! i sdiv 2), (left, inp ! i sdiv 2)]) out
      else
        for_frames in_frames (\<lambda>i. store_frame k i [(0, inp ! i)]) out)"

definition s16_mono_to_51 :: "int \<Rightarrow> int \<Rightarrow> int \<Rightarrow> int list \<Rightarrow> nat \<Rightarrow> int list \<Rightarrow> int list" where
  "s16_mono_to_51 = mono_to_surround 6"

definition s32_mono_to_51 :: "int \<Rightarrow> int \<Rightarrow> int \<Rightarrow> int list \<Rightarrow> nat \<Rightarrow> int list \<Rightarrow> int list" where
  "s32_mono_to_51 = mono_to_surround 6"

definition s16_mono_to_71 :: "int \<Rightarrow> int \<Rightarrow> int \<Rightarrow> int list \<Rightarrow> nat \<Rightarrow> int list \<Rightarrow> int list" where
  "s16_mono_to_71 = mono_to_surround 8"

definition s32_mono_to_71 :: "int \<Rightarrow> int \<Rightarrow> int \<Rightarrow> int list \<Rightarrow> nat \<Rightarrow> int list \<Rightarrow> int list" where
  "s32_mono_to_71 = mono_to_surround 8"

definition stereo_to_surround ::
  "(int \<Rightarrow> int \<Rightarrow> int) \<Rightarrow> nat \<Rightarrow> int \<Rightarrow> int \<Rightarrow> int \<Rightarrow> int list \<Rightarrow> nat \<Rightarrow> int list \<Rightarrow> int list" where
  "stereo_to_surround add_and_clip k left right center inp in_frames out =
     (let out = memset0 (k * in_frames) out in
      if left \<noteq> -1 \<and> right \<noteq> -1 then
        for_frames in_frames (\<lambda>i. store_frame k i
          [(left, inp ! (2 * i)), (right, inp ! (2 * i + 1))]) out
      else if center \<noteq> -1 then
        for_frames in_frames (\<lambda>i. store_frame k i
          [(center, add_and_clip (inp ! (2 * i)) (inp ! (2 * i + 1)))]) out
      else
        for_frames in_frames (\<lambda>i. store_frame k i [(0, inp ! (2 * i)), (1, inp ! (2 * i + 1))]) out)"

definition s16_stereo_to_51 :: "int \<Rightarrow> int \<Rightarrow> int \<Rightarrow> int list \<Rightarrow> nat \<Rightarrow> int list \<Rightarrow> int list" where
  "s16_stereo_to_51 = stereo_to_surround s16_add_and_clip 6"

definition s32_stereo_to_51 :: "int \<Rightarrow> int \<Rightarrow> int \<Rightarrow> int list \<Rightarrow> nat \<Rightarrow> int list \<Rightarrow> int list" where
  "s32_stereo_to_51 = stereo_to_surround s32_add_and_clip 6"

definition s16_stereo_to_71 :: "int \<Rightarrow> int \<Rightarrow> int \<Rightarrow> int list \<Rightarrow> nat \<Rightarrow> int list \<Rightarrow> int list" where
  "s16_stereo_to_71 = stereo_to_surround s16_add_and_clip 8"

definition s32_stereo_to_71 :: "int \<Rightarrow> int \<Rightarrow> int \<Rightarrow> int list \<Rightarrow> nat \<Rightarrow> int list \<Rightarrow> int list" where
  "s32_stereo_to_71 = stereo_to_surround s32_add_and_clip 8"

definition quad_to_surround ::
  "nat \<Rightarrow> int \<Rightarrow> int \<Rightarrow> int \<Rightarrow> int \<Rightarrow> int list \<Rightarrow> nat \<Rightarrow> int list \<Rightarrow> int list" where
  "quad_to_surround k front_left front_right rear_left rear_right inp in_frames out =
     (let out = memset0 (k * in_frames) out in
      if front_left \<noteq> -1 \<and> front_right \<noteq> -1 \<and> rear_left \<noteq> -1 \<and> rear_right \<noteq> -1 then
        for_frames in_frames (\<lambda>i. store_frame k i
          [(front_left, inp ! (4 * i)), (front_right, inp ! (4 * i + 1)),
           (rear_left, inp ! (4 * i + 2)), (rear_right, inp ! (4 * i + 3))]) out
      else
        for_frames in_frames (\<lambda>i. store_frame k i
          [(0, inp ! (4 * i)), (1, inp ! (4 * i + 1)),
           (4, inp ! (4 * i + 2)), (5, inp ! (4 * i + 3))]) out)"

definition s16_quad_to_51 :: "int \<Rightarrow> int \<Rightarrow> int \<Rightarrow> int \<Rightarrow> int list \<Rightarrow> nat \<Rightarrow> int list \<Rightarrow> int list" where
  "s16_quad_to_51 = quad_to_surround 6"

definition s32_quad_to_51 :: "int \<Rightarrow> int \<Rightarrow> int \<Rightarrow> int \<Rightarrow> int list \<Rightarrow> nat \<Rightarrow> int list \<Rightarrow> int list" where
  "s32_quad_to_51 = quad_to_surround 6"

definition s16_quad_to_71 :: "int \<Rightarrow> int \<Rightarrow> int \<Rightarrow> int \<Rightarrow> int list \<Rightarrow> nat \<Rightarrow> int list \<Rightarrow> int list" where
  "s16_quad_to_71 = quad_to_surround 8"

definition s32_quad_to_71 :: "int \<Rightarrow> int \<Rightarrow> int \<Rightarrow> int \<Rightarrow> int list \<Rightarrow> nat \<Rightarrow> int list \<Rightarrow> int list" where
  "s32_quad_to_71 = quad_to_surround 8"

text \<open>The channels of \<open>enum CRAS_CHANNEL\<close>; a layout is the \<open>channel_layout\<close> array of a format.\<close>

datatype cras_channel =
  CRAS_CH_FL | CRAS_CH_FR | CRAS_CH_RL | CRAS_CH_RR | CRAS_CH_FC | CRAS_CH_LFE
  | CRAS_CH_SL | CRAS_CH_SR | CRAS_CH_RC | CRAS_CH_FLC | CRAS_CH_FRC

type_synonym channel_layout = "cras_channel \<Rightarrow> int"

definition surround_51_to_71 ::
  "channel_layout \<Rightarrow> channel_layout \<Rightarrow> int list \<Rightarrow> nat \<Rightarrow> int list \<Rightarrow> int list" where
  "surround_51_to_71 in_layout out_layout inp in_frames out =
     (let out = memset0 (8 * in_frames) out;
          in_has = (\<lambda>ch. in_layout ch \<noteq> -1);
          out_has = (\<lambda>ch. out_layout ch \<noteq> -1);
          both = (\<lambda>ch. in_has ch \<and> out_has ch)
      in if in_has CRAS_CH_FL \<and> in_has CRAS_CH_FR \<and> in_has CRAS_CH_FC \<and> in_has CRAS_CH_LFE \<and>
            out_has CRAS_CH_FL \<and> out_has CRAS_CH_FR \<and> out_has CRAS_CH_FC \<and> out_has CRAS_CH_LFE \<and>
            (both CRAS_CH_RL \<or> both CRAS_CH_SL) \<and> (both CRAS_CH_RR \<or> both CRAS_CH_SR)
         then for_frames in_frames (\<lambda>i. store_frame 8 i
                (let sample = (\<lambda>ch. (out_layout ch, inp ! (6 * i + nat (in_layout ch))))
                 in [sample CRAS_CH_FL, sample CRAS_CH_FR, sample CRAS_CH_FC, sample CRAS_CH_LFE]
                    @ (if both CRAS_CH_RL then [sample CRAS_CH_RL] else [])
                    @ (if both CRAS_CH_RR then [sample CRAS_CH_RR] else [])
                    @ (if both CRAS_CH_SL then [sample CRAS_CH_SL] else [])
                    @ (if both CRAS_CH_SR then [sample CRAS_CH_SR] else []))) out
         else for_frames in_frames (\<lambda>i. store_frame 8 i
                [(0, inp ! (6 * i)), (1, inp ! (6 * i + 1)), (2, inp ! (6 * i + 2)),
                 (3, inp ! (6 * i + 3)), (4, inp ! (6 * i + 4)), (5, inp ! (6 * i + 5))]) out)"

definition s16_51_to_71 :: "channel_layout \<Rightarrow> channel_layout \<Rightarrow> int list \<Rightarrow> nat \<Rightarrow> int list \<Rightarrow> int list" where
  "s16_51_to_71 = surround_51_to_71"

definition s32_51_to_71 :: "channel_layout \<Rightarrow> channel_layout \<Rightarrow> int list \<Rightarrow> nat \<Rightarrow> int list \<Rightarrow> int list" where
  "s32_51_to_71 = surround_51_to_71"

subsection \<open>Channel converters: stereo and quad\<close>

definition stereo_to_quad :: "int \<Rightarrow> int \<Rightarrow> int list \<Rightarrow> nat \<Rightarrow> int list \<Rightarrow> int list" where
  "stereo_to_quad front_left front_right inp in_frames out =
     (let out = memset0 (4 * in_frames) out in
      if front_left \<noteq> -1 \<and> front_right \<noteq> -1 then
        for_frames in_frames (\<lambda>i. store_frame 4 i
          [(front_left, inp ! (2 * i)), (front_right, inp ! (2 * i + 1))]) out
      else
        for_frames in_frames (\<lambda>i. store_frame 4 i [(0, inp ! (2 * i)), (1, inp ! (2 * i + 1))]) out)"

definition s16_stereo_to_quad :: "int \<Rightarrow> int \<Rightarrow> int list \<Rightarrow> nat \<Rightarrow> int list \<Rightarrow> int list" where
  "s16_stereo_to_quad = stereo_to_quad"

definition s32_stereo_to_quad :: "int \<Rightarrow> int \<Rightarrow> int list \<Rightarrow> nat \<Rightarrow> int list \<Rightarrow> int list" where
  "s32_stereo_to_quad = stereo_to_quad"

definition quad_to_stereo ::
  "(int \<Rightarrow> int \<Rightarrow> int) \<Rightarrow> int \<Rightarrow> int \<Rightarrow> int \<Rightarrow> int \<Rightarrow> int list \<Rightarrow> nat \<Rightarrow> int list \<Rightarrow> int list" where
  "quad_to_stereo add_and_clip front_left front_right rear_left rear_right inp in_frames out =
     (let (fl, fr, rl, rr) =
            (if front_left = -1 \<or> front_right = -1 \<or> rear_left = -1 \<or> rear_right = -1 then (0, 1, 2, 3)
             else (front_left, front_right, rear_left, rear_right))
      in for_frames in_frames (\<lambda>i. store_frame 2 i
           [(0, add_and_clip (inp ! (4 * i + nat fl)) (inp ! (4 * i + nat rl) sdiv 4)),
            (1, add_and_clip (inp ! (4 * i + nat fr)) (inp ! (4 * i + nat rr) sdiv 4))]) out)"

definition s16_quad_to_stereo :: "int \<Rightarrow> int \<Rightarrow> int \<Rightarrow> int \<Rightarrow> int list \<Rightarrow> nat \<Rightarrow> int list \<Rightarrow> int list" where
  "s16_quad_to_stereo = quad_to_stereo s16_add_and_clip"

definition s32_quad_to_stereo :: "int \<Rightarrow> int \<Rightarrow> int \<Rightarrow> int \<Rightarrow> int list \<Rightarrow> nat \<Rightarrow> int list \<Rightarrow> int list" where
  "s32_quad_to_stereo = quad_to_stereo s32_add_and_clip"

subsection \<open>Channel converters: any to any\<close>

text \<open>\<open>sum\<close> is twice as wide as a sample: \<open>w\<close> bits in \<open>default_all_to_all\<close> for samples of \<open>v\<close> bits.
  The unsigned index arithmetic does not wrap for buffers that fit in memory.\<close>

definition default_all_to_all :: "nat \<Rightarrow> nat \<Rightarrow> nat \<Rightarrow> nat \<Rightarrow> int list \<Rightarrow> nat \<Rightarrow> int list \<Rightarrow> int list" where
  "default_all_to_all w v num_in_ch num_out_ch inp in_frames out =
     for_frames in_frames (\<lambda>i out.
       let sum = for_frames num_in_ch (\<lambda>in_ch sum. wrap_s w (sum + inp ! (in_ch + i * num_in_ch))) 0;
           sum = sum sdiv wrap_s w (int num_in_ch)
       in for_frames num_out_ch (\<lambda>out_ch out. out[out_ch + i * num_out_ch := wrap_s v sum]) out) out"

definition s16_default_all_to_all :: "nat \<Rightarrow> nat \<Rightarrow> int list \<Rightarrow> nat \<Rightarrow> int list \<Rightarrow> int list" where
  "s16_default_all_to_all = default_all_to_all 32 16"

definition s32_default_all_to_all :: "nat \<Rightarrow> nat \<Rightarrow> int list \<Rightarrow> nat \<Rightarrow> int list \<Rightarrow> int list" where
  "s32_default_all_to_all = default_all_to_all 64 32"

text \<open>\<open>out_fmt_frame\<close> is the size of a frame of \<open>out_fmt\<close> in samples (\<open>cras_get_format_bytes\<close> divided
  by the size of a sample); \<open>memcpy\<close> copies \<open>num_copy_ch\<close> samples.\<close>

definition some_to_some :: "nat \<Rightarrow> nat \<Rightarrow> nat \<Rightarrow> int list \<Rightarrow> nat \<Rightarrow> int list \<Rightarrow> int list" where
  "some_to_some out_fmt_frame num_in_ch num_out_ch inp frame_count out =
     (let num_copy_ch = min num_in_ch num_out_ch in
      for_frames frame_count (\<lambda>i. store_frame num_out_ch i
          (map (\<lambda>c. (int c, inp ! (num_in_ch * i + c))) [0..<num_copy_ch]))
        (memset0 (frame_count * out_fmt_frame) out))"

definition s16_some_to_some :: "nat \<Rightarrow> nat \<Rightarrow> nat \<Rightarrow> int list \<Rightarrow> nat \<Rightarrow> int list \<Rightarrow> int list" where
  "s16_some_to_some = some_to_some"

definition s32_some_to_some :: "nat \<Rightarrow> nat \<Rightarrow> nat \<Rightarrow> int list \<Rightarrow> nat \<Rightarrow> int list \<Rightarrow> int list" where
  "s32_some_to_some = some_to_some"

section \<open>Loops over frames\<close>

definition frame :: "nat \<Rightarrow> nat \<Rightarrow> 'a list \<Rightarrow> 'a list" where
  "frame k i xs = take k (drop (k * i) xs)"

named_theorems frame_simps "loops over frames"

lemma for_frames_0 [simp]: "for_frames 0 body out = out"
  by (simp add: for_frames_def)

lemma for_frames_Suc [simp]: "for_frames (Suc n) body out = body n (for_frames n body out)"
  by (simp add: for_frames_def)

lemma length_store_frame [simp]: "length (store_frame k i ws out) = length out"
  unfolding store_frame_def by (induction ws arbitrary: out) auto

lemma store_frame_Nil [simp]: "store_frame k i [] out = out"
  by (simp add: store_frame_def)

lemma store_frame_Cons [simp]:
  "store_frame k i ((c, v) # ws) out = store_frame k i ws (out[k * i + nat c := v])"
  by (simp add: store_frame_def)

lemma length_for_frames [simp]:
  "(\<And>i m. length (body i m) = length m) \<Longrightarrow> length (for_frames n body out) = length out"
  by (induction n) auto

lemma length_memset0 [simp]: "n \<le> length out \<Longrightarrow> length (memset0 n out) = length out"
  by (simp add: memset0_def)

lemma length_frame [simp]: "k * i + k \<le> length xs \<Longrightarrow> length (frame k i xs) = k"
  by (simp add: frame_def)

lemma nth_frame: "c < k \<Longrightarrow> k * i + k \<le> length xs \<Longrightarrow> frame k i xs ! c = xs ! (k * i + c)"
  by (simp add: frame_def)

lemma frame_bound: "i < n \<Longrightarrow> k * n \<le> length xs \<Longrightarrow> k * i + k \<le> length xs" for k :: nat
  by (metis Suc_leI add.commute le_trans mult_Suc_right mult_le_mono2)

lemma length_concat_frames:
  "(\<And>i. i < n \<Longrightarrow> length (f i) = k) \<Longrightarrow> length (concat (map f [0..<n])) = k * n"
  by (induction n) auto

text \<open>The stores of one frame change that frame only.\<close>

abbreviation stores_ok :: "nat \<Rightarrow> (int \<times> 'a) list \<Rightarrow> bool" where
  "stores_ok k ws \<equiv> list_all (\<lambda>(c, v). 0 \<le> c \<and> c < int k) ws"

lemma store_frame_split:
  assumes "stores_ok k ws" "k * i + k \<le> length out"
  shows "store_frame k i ws out
    = take (k * i) out @ store_frame k 0 ws (frame k i out) @ drop (k * i + k) out"
  using assms
proof (induction ws arbitrary: out)
  case Nil
  have "drop (k * i) out = take k (drop (k * i) out) @ drop (k * i + k) out"
    by (metis add.commute append_take_drop_id drop_drop)
  then show ?case by (simp add: frame_def)
next
  case (Cons cv ws)
  obtain c v where cv: "cv = (c, v)" by (cases cv)
  with Cons.prems have c: "nat c < k" by auto
  have "frame k i (out[k * i + nat c := v]) = (frame k i out)[nat c := v]"
    using c by (simp add: frame_def drop_update_swap take_update_swap)
  with Cons.IH [of "out[k * i + nat c := v]"] Cons.prems c cv show ?case by auto
qed

text \<open>Hence the loop works frame by frame, and leaves everything behind the frames alone.\<close>

lemma for_frames_concat:
  assumes "\<And>i. i < n \<Longrightarrow> stores_ok k (ws i)" "k * n \<le> length out"
  shows "for_frames n (\<lambda>i. store_frame k i (ws i)) out
    = concat (map (\<lambda>i. store_frame k 0 (ws i) (frame k i out)) [0..<n]) @ drop (k * n) out"
  using assms
proof (induction n)
  case 0
  then show ?case by simp
next
  case (Suc n)
  let ?pre = "concat (map (\<lambda>i. store_frame k 0 (ws i) (frame k i out)) [0..<n])"
  have IH: "for_frames n (\<lambda>i. store_frame k i (ws i)) out = ?pre @ drop (k * n) out"
    using Suc.IH Suc.prems by simp
  have len: "length ?pre = k * n"
    using Suc.prems(2) by (intro length_concat_frames) (simp add: frame_bound)
  have "frame k n (?pre @ drop (k * n) out) = frame k n out"
    unfolding frame_def [of k n] by (simp add: len)
  moreover have "drop (k * n + k) (?pre @ drop (k * n) out) = drop (k * Suc n) out"
    by (simp add: len add.commute)
  moreover have "store_frame k n (ws n) (?pre @ drop (k * n) out)
      = take (k * n) (?pre @ drop (k * n) out) @ store_frame k 0 (ws n) (frame k n (?pre @ drop (k * n) out))
        @ drop (k * n + k) (?pre @ drop (k * n) out)"
    using Suc.prems len by (intro store_frame_split) auto
  ultimately show ?case by (simp add: IH len)
qed

lemma frame_concat:
  assumes "\<And>i. i < n \<Longrightarrow> length (f i) = k" "i < n"
  shows "frame k i (concat (map f [0..<n]) @ rest) = f i"
  using assms
proof (induction n arbitrary: rest)
  case (Suc n)
  have len: "length (concat (map f [0..<n])) = k * n"
    using Suc.prems(1) by (intro length_concat_frames) simp
  show ?case
  proof (cases "i = n")
    case True
    then show ?thesis using Suc.prems(1) [of n] len by (simp add: frame_def)
  next
    case False
    then show ?thesis using Suc by simp
  qed
qed simp

lemma frame_for_frames [frame_simps]:
  assumes "\<And>i. i < n \<Longrightarrow> stores_ok k (ws i)" "k * n \<le> length out" "i < n"
  shows "frame k i (for_frames n (\<lambda>i. store_frame k i (ws i)) out) = store_frame k 0 (ws i) (frame k i out)"
proof -
  have "frame k i (for_frames n (\<lambda>i. store_frame k i (ws i)) out)
      = frame k i (concat (map (\<lambda>i. store_frame k 0 (ws i) (frame k i out)) [0..<n]) @ drop (k * n) out)"
    using assms(1,2) by (simp add: for_frames_concat)
  also have "\<dots> = store_frame k 0 (ws i) (frame k i out)"
    using assms(2,3) by (intro frame_concat) (simp_all add: frame_bound)
  finally show ?thesis .
qed

lemma drop_for_frames [frame_simps]:
  assumes "\<And>i. i < n \<Longrightarrow> stores_ok k (ws i)" "k * n \<le> length out"
  shows "drop (k * n) (for_frames n (\<lambda>i. store_frame k i (ws i)) out) = drop (k * n) out"
proof -
  let ?pre = "concat (map (\<lambda>i. store_frame k 0 (ws i) (frame k i out)) [0..<n])"
  have "length ?pre = k * n"
    using assms(2) by (intro length_concat_frames) (simp add: frame_bound)
  then show ?thesis using assms by (simp add: for_frames_concat)
qed

lemma frame_memset0 [frame_simps]: "i < n \<Longrightarrow> frame k i (memset0 (k * n) out) = replicate k 0"
proof -
  assume "i < n"
  then have "k * i + k \<le> k * n" by (metis Suc_leI add.commute mult_Suc_right mult_le_mono2)
  then show ?thesis by (simp add: frame_def memset0_def)
qed

lemma drop_memset0 [frame_simps]: "drop n (memset0 n out) = drop n out"
  by (simp add: memset0_def)

lemma frame_upmix:
  assumes "\<And>i. i < n \<Longrightarrow> stores_ok k (ws i)" "k * n \<le> length out" "i < n"
  shows "frame k i (for_frames n (\<lambda>i. store_frame k i (ws i)) (memset0 (k * n) out))
    = store_frame k 0 (ws i) (replicate k 0)"
  using assms by (simp add: frame_for_frames frame_memset0)

text \<open>Two buffers with the same frames and the same rest are equal.\<close>

lemma frames_eqI:
  assumes "length xs = length ys" "k * n \<le> length xs" "\<And>i. i < n \<Longrightarrow> frame k i xs = frame k i ys"
    and "drop (k * n) xs = drop (k * n) ys"
  shows "xs = ys"
proof (intro nth_equalityI assms(1))
  fix j assume j: "j < length xs"
  show "xs ! j = ys ! j"
  proof (cases "j < k * n")
    case True
    then have k: "0 < k" by (cases k) auto
    have i: "j div k < n" using True by (simp add: div_less_iff_less_mult k mult.commute)
    note b = frame_bound [OF i assms(2)]
    have "frame k (j div k) xs ! (j mod k) = frame k (j div k) ys ! (j mod k)" using assms(3) [OF i] by simp
    then show ?thesis using b assms(1) k by (simp add: nth_frame)
  next
    case False
    then have "drop (k * n) xs ! (j - k * n) = drop (k * n) ys ! (j - k * n)" using assms(4) by simp
    then show ?thesis using False j assms(1) by simp
  qed
qed

lemma convert_samples_prefix:
  "n \<le> length out \<Longrightarrow> convert_samples f inp n out = map (\<lambda>i. f (inp ! i)) [0..<n] @ drop n out"
  unfolding convert_samples_def
proof (induction n)
  case (Suc n)
  then have "drop n out = out ! n # drop (Suc n) out" by (simp add: Cons_nth_drop_Suc)
  with Suc show ?case by (simp add: list_update_append)
qed simp

lemma convert_samples_eq [simp]:
  assumes "n = length inp" "n \<le> length out"
  shows "convert_samples f inp n out = map f inp @ drop n out"
proof -
  have "map (\<lambda>i. f (inp ! i)) [0..<length inp] = map f (map ((!) inp) [0..<length inp])" by simp
  also have "\<dots> = map f inp" by (simp only: map_nth)
  finally have "map (\<lambda>i. f (inp ! i)) [0..<length inp] = map f inp" .
  with assms show ?thesis by (simp add: convert_samples_prefix)
qed

section \<open>Format conversions\<close>

text \<open>Widening a 16 bit sample and narrowing the result.\<close>

lemma s24_of_s16: "s16 (s32 (u32 x * 256) mod 16777216 div 256) = s16 x"
proof -
  have low: "y mod 2 ^ 24 = z mod 2 ^ 24" if "y mod 2 ^ 32 = z mod 2 ^ 32" for y z :: int
    using mod_mod_cancel [of "2 ^ 24" "2 ^ 32" y] mod_mod_cancel [of "2 ^ 24" "2 ^ 32" z] that by simp
  have "s32 (u32 x * 2 ^ 8) mod 2 ^ 24 = x * 2 ^ 8 mod 2 ^ 24"
    using wrap_u_wrap_s [of 32 "u32 x * 2 ^ 8"] by (intro low) (simp add: wrap_u_def mod_mult_left_eq)
  also have "\<dots> = x mod 2 ^ 16 * 2 ^ 8" using mult_mod_left [of x "2 ^ 16" "2 ^ 8"] by simp
  finally show ?thesis using wrap_s_mod [of 16 x] by simp
qed

lemma s32_of_s16: "s32 (u32 x * 65536) div 65536 = s16 x"
proof -
  have "s32 (u32 x * 2 ^ 16) = s32 (x * 2 ^ 16)"
    using wrap_s_wrap_u [of 32 "u32 x * 2 ^ 16"] wrap_s_wrap_u [of 32 "x * 2 ^ 16"]
    by (simp add: wrap_u_def mod_mult_left_eq)
  also have "\<dots> = (x + 2 ^ 15) * 2 ^ 16 mod (2 ^ 16 * 2 ^ 16) - 2 ^ 15 * 2 ^ 16"
    by (simp add: wrap_s_def algebra_simps)
  also have "\<dots> = s16 x * 2 ^ 16"
    unfolding mult_mod_left [symmetric] by (simp add: wrap_s_def algebra_simps)
  finally show ?thesis by simp
qed

lemma s16_of_u8: "in_u 8 x \<Longrightarrow> u8 (u8 (s16 (u16 (x - 128) * 256) div 256) + 128) = x"
proof -
  assume x: "in_u 8 x"
  have "s16 (u16 (x - 128) * 256) = s16 ((x - 128) * 256)"
    using wrap_s_wrap_u [of 16 "u16 (x - 128) * 256"] wrap_s_wrap_u [of 16 "(x - 128) * 256"]
    by (simp add: wrap_u_def mod_mult_left_eq)
  also have "\<dots> = (x - 128) * 256" using x by (intro wrap_s_id) (auto simp: in_u_def)
  finally show ?thesis using x by (simp add: wrap_u_def mod_add_left_eq in_u_def)
qed


lemma f32_of_s16:
  assumes "in_s 16 x"
  shows "s16 (c_trunc (max (min (real_of_int x / 32768 * 32768) (real_of_int SHRT_MAX)) (real_of_int SHRT_MIN))) = x"
proof -
  have "max (min (real_of_int x / 32768 * 32768) (real_of_int SHRT_MAX)) (real_of_int SHRT_MIN) = real_of_int x"
    using assms by (auto simp: in_s_def SHRT_MAX_def SHRT_MIN_def)
  with assms show ?thesis by (simp add: in_s_wrap_id)
qed

text \<open>The packed 24 bit samples of \<open>n\<close> 16 bit samples, seen frame by frame.\<close>

lemma s243_of_s16:
  assumes "i < n" "3 * n \<le> length out"
  shows "frame 3 i (convert_s16le_to_s243le inp n out) = [0, u16 (inp ! i) mod 256, u16 (inp ! i) div 256]"
proof -
  have "length (frame 3 i out) = 3" using assms by (simp add: frame_bound)
  then obtain a b c where "frame 3 i out = [a, b, c]" by (auto simp: numeral_eq_Suc length_Suc_conv)
  with assms show ?thesis
    unfolding convert_s16le_to_s243le_def
    by (subst frame_for_frames) (simp_all add: le16_bytes_def numeral_eq_Suc)
qed

lemma length_convert_s16le_to_s243le [simp]: "length (convert_s16le_to_s243le inp n out) = length out"
  by (simp add: convert_s16le_to_s243le_def)

text \<open>The narrowing loop reads samples through their frames.\<close>

lemma convert_s243le_to_s16le_eq:
  assumes "3 * n \<le> length inp" "n \<le> length out"
  shows "convert_s243le_to_s16le inp n out
    = map (\<lambda>i. frame 3 i inp ! 1 + 256 * frame 3 i inp ! 2) [0..<n] @ drop n out"
  using assms
proof (induction n)
  case (Suc n)
  then have "drop n out = out ! n # drop (Suc n) out" by (simp add: Cons_nth_drop_Suc)
  with Suc show ?case by (simp add: convert_s243le_to_s16le_def list_update_append nth_frame)
qed (simp add: convert_s243le_to_s16le_def)

lemma s16_via_s243le:
  assumes "length pmid = 3 * length xs" "length out = length xs" "\<forall>x\<in>set xs. in_s 16 x"
  shows "map s16 (convert_s243le_to_s16le (convert_s16le_to_s243le xs (length xs) pmid) (length xs) out) = xs"
proof (rule nth_equalityI)
  fix i assume "i < length (map s16 (convert_s243le_to_s16le (convert_s16le_to_s243le xs (length xs) pmid) (length xs) out))"
  then have i: "i < length xs" using assms by (simp add: convert_s243le_to_s16le_eq)
  then have "in_s 16 (xs ! i)" using assms(3) by simp
  then show "map s16 (convert_s243le_to_s16le (convert_s16le_to_s243le xs (length xs) pmid) (length xs) out) ! i = xs ! i"
    using i assms by (simp add: convert_s243le_to_s16le_eq s243_of_s16 in_s_wrap_id)
qed (use assms in \<open>simp add: convert_s243le_to_s16le_eq\<close>)

text \<open>A 16 bit stream is carried without loss by every wider format: converting to S24_LE, S32_LE,
  packed S24_3LE or float and back (each buffer read at the width the next converter casts it to)
  gives the samples again, and 8 bit samples survive the 16 bit format.\<close>

lemma format_widening_roundtrip:
  assumes "\<forall>x\<in>set xs. in_s 16 x" and "\<forall>x\<in>set us. in_u 8 x" "length us = length xs"
    and "length mid = length xs" "length fmid = length xs" "length pmid = 3 * length xs" "length out = length xs"
  shows "map s16 (convert_s24le_to_s16le (map s32 (convert_s16le_to_s24le xs (length xs) mid)) (length xs) out) = xs
    \<and> map s16 (convert_s32le_to_s16le (map s32 (convert_s16le_to_s32le xs (length xs) mid)) (length xs) out) = xs
    \<and> map s16 (convert_s243le_to_s16le (convert_s16le_to_s243le xs (length xs) pmid) (length xs) out) = xs
    \<and> convert_f32le_to_s16le (convert_s16le_to_f32le xs (length xs) fmid) (length xs) out = xs
    \<and> convert_s16le_to_u8 (map s16 (convert_u8_to_s16le us (length xs) mid)) (length xs) out = us"
proof (intro conjI)
  let ?n = "length xs"
  show "map s16 (convert_s24le_to_s16le (map s32 (convert_s16le_to_s24le xs ?n mid)) ?n out) = xs"
    using assms
    by (simp add: convert_s24le_to_s16le_def convert_s16le_to_s24le_def s24_of_s16 map_idI in_s_wrap_id)
  show "map s16 (convert_s32le_to_s16le (map s32 (convert_s16le_to_s32le xs ?n mid)) ?n out) = xs"
    using assms
    by (simp add: convert_s32le_to_s16le_def convert_s16le_to_s32le_def s32_of_s16 map_idI in_s_wrap_id)
  show "map s16 (convert_s243le_to_s16le (convert_s16le_to_s243le xs ?n pmid) ?n out) = xs"
    using assms by (intro s16_via_s243le)
  show "convert_f32le_to_s16le (convert_s16le_to_f32le xs ?n fmid) ?n out = xs"
    using assms f32_of_s16
    by (simp add: convert_f32le_to_s16le_def convert_s16le_to_f32le_def map_idI)
  show "convert_s16le_to_u8 (map s16 (convert_u8_to_s16le us ?n mid)) ?n out = us"
    using assms s16_of_u8
    by (simp add: convert_s16le_to_u8_def convert_u8_to_s16le_def map_idI)
qed

section \<open>Saturating sums\<close>

text \<open>What the mixing converters rely on: a sum that saturates at the bounds of the sample type.\<close>

locale sample_sum =
  fixes lo hi :: int and add_and_clip :: "int \<Rightarrow> int \<Rightarrow> int"
  assumes bounds: "lo \<le> 0" "0 \<le> hi"
    and add_and_clip: "lo \<le> a \<Longrightarrow> a \<le> hi \<Longrightarrow> lo \<le> b \<Longrightarrow> b \<le> hi \<Longrightarrow> add_and_clip a b = clip lo hi (a + b)"
begin

lemma stereo_to_mono_mixes:
  assumes "\<forall>x\<in>set inp. lo \<le> x \<and> x \<le> hi" "2 * n \<le> length inp" "n \<le> length out" "i < n"
  shows "stereo_to_mono add_and_clip inp n out ! i = clip lo hi (inp ! (2 * i) + inp ! (2 * i + 1))"
proof -
  have "length (frame 1 i out) = 1" using assms(3,4) by simp
  then obtain a where "frame 1 i out = [a]" by (auto simp: length_Suc_conv)
  then have "frame 1 i (stereo_to_mono add_and_clip inp n out) = [add_and_clip (inp ! (2 * i)) (inp ! (2 * i + 1))]"
    using assms(3,4) unfolding stereo_to_mono_def by (subst frame_for_frames) simp_all
  moreover have "length (stereo_to_mono add_and_clip inp n out) = length out"
    by (simp add: stereo_to_mono_def)
  ultimately show ?thesis
    using assms nth_frame [of 0 1 i "stereo_to_mono add_and_clip inp n out"] by (simp add: add_and_clip)
qed

text \<open>Front channels of a quad frame whose rear channels are silent.\<close>

lemma quad_of_stereo_frame:
  assumes "distinct [fl, fr, rl, rr]" "\<forall>c\<in>{fl, fr, rl, rr}. 0 \<le> c \<and> c < 4" "4 * n \<le> length mid" "i < n"
  shows "stereo_to_quad fl fr inp n mid ! (4 * i + nat fl) = inp ! (2 * i)"
    "stereo_to_quad fl fr inp n mid ! (4 * i + nat fr) = inp ! (2 * i + 1)"
    "stereo_to_quad fl fr inp n mid ! (4 * i + nat rl) = 0"
    "stereo_to_quad fl fr inp n mid ! (4 * i + nat rr) = 0"
proof -
  let ?q = "stereo_to_quad fl fr inp n mid"
  have c: "0 \<le> fl" "fl < 4" "0 \<le> fr" "fr < 4" using assms(2) by simp_all
  then have "?q = for_frames n (\<lambda>i. store_frame 4 i [(fl, inp ! (2 * i)), (fr, inp ! (2 * i + 1))]) (memset0 (4 * n) mid)"
    by (simp add: stereo_to_quad_def Let_def)
  then have fr: "frame 4 i ?q = (replicate 4 0)[nat fl := inp ! (2 * i), nat fr := inp ! (2 * i + 1)]"
    using assms(3,4) c by (simp add: frame_upmix)
  have "length ?q = length mid" using assms(3) by (simp add: stereo_to_quad_def Let_def)
  then have nth: "?q ! (4 * i + nat c) = frame 4 i ?q ! nat c" if "c \<in> {fl, fr, rl, rr}" for c
    using that assms(2,3,4) frame_bound [of i n 4 ?q] by (intro nth_frame [symmetric]) auto
  show "?q ! (4 * i + nat fl) = inp ! (2 * i)" "?q ! (4 * i + nat fr) = inp ! (2 * i + 1)"
    "?q ! (4 * i + nat rl) = 0" "?q ! (4 * i + nat rr) = 0"
    using assms(1,2) by (simp_all add: nth fr nth_list_update eq_nat_nat_iff nat_less_iff)
qed

lemma stereo_quad_stereo:
  assumes "\<forall>x\<in>set inp. lo \<le> x \<and> x \<le> hi" "length inp = 2 * n" "4 * n \<le> length mid" "length out = 2 * n"
    and "distinct [fl, fr, rl, rr]" "\<forall>c\<in>{fl, fr, rl, rr}. 0 \<le> c \<and> c < 4"
  shows "quad_to_stereo add_and_clip fl fr rl rr (stereo_to_quad fl fr inp n mid) n out = inp"
proof (rule frames_eqI [where k = 2 and n = n])
  let ?q = "stereo_to_quad fl fr inp n mid"
  have "fl \<noteq> -1" "fr \<noteq> -1" "rl \<noteq> -1" "rr \<noteq> -1" using assms(6) by auto
  then have eq: "quad_to_stereo add_and_clip fl fr rl rr ?q n out = for_frames n (\<lambda>i. store_frame 2 i
      [(0, add_and_clip (?q ! (4 * i + nat fl)) (?q ! (4 * i + nat rl) sdiv 4)),
       (1, add_and_clip (?q ! (4 * i + nat fr)) (?q ! (4 * i + nat rr) sdiv 4))]) out"
    by (simp add: quad_to_stereo_def)
  show "length (quad_to_stereo add_and_clip fl fr rl rr ?q n out) = length inp"
    using assms by (simp add: eq)
  then show "2 * n \<le> length (quad_to_stereo add_and_clip fl fr rl rr ?q n out)"
    "drop (2 * n) (quad_to_stereo add_and_clip fl fr rl rr ?q n out) = drop (2 * n) inp"
    using assms by simp_all
  fix i assume i: "i < n"
  have "length (frame 2 i out) = 2" "length (frame 2 i inp) = 2" using i assms by (simp_all add: frame_bound)
  then obtain a b c d where fr: "frame 2 i out = [a, b]" "frame 2 i inp = [c, d]"
    by (auto simp: length_Suc_conv numeral_2_eq_2)
  have io: "c = inp ! (2 * i)" "d = inp ! (2 * i + 1)"
    using nth_frame [of 0 2 i inp] nth_frame [of 1 2 i inp] i assms(2) fr(2) by simp_all
  have sum0: "add_and_clip x 0 = x" if "lo \<le> x" "x \<le> hi" for x
    using that add_and_clip [of x 0] bounds by (simp add: clip_id)
  have "c \<in> set inp" "d \<in> set inp" using i assms(2) io by simp_all
  then have "add_and_clip c 0 = c" "add_and_clip d 0 = d" using assms(1) sum0 by auto
  then have "frame 2 i (quad_to_stereo add_and_clip fl fr rl rr ?q n out) = [c, d]"
    unfolding eq using i assms(4) fr(1) io
    by (subst frame_for_frames) (simp_all add: quad_of_stereo_frame [OF assms(5,6,3) i])
  then show "frame 2 i (quad_to_stereo add_and_clip fl fr rl rr ?q n out) = frame 2 i inp" using fr by simp
qed

end

interpretation s16_sum: sample_sum SHRT_MIN SHRT_MAX s16_add_and_clip
proof
  fix a b assume "SHRT_MIN \<le> a" "a \<le> SHRT_MAX" "SHRT_MIN \<le> b" "b \<le> SHRT_MAX"
  then show "s16_add_and_clip a b = clip SHRT_MIN SHRT_MAX (a + b)"
    by (simp add: s16_add_and_clip_def clip_def Let_def SHRT_MIN_def SHRT_MAX_def wrap_s_id)
qed (simp_all add: SHRT_MIN_def SHRT_MAX_def)

interpretation s32_sum: sample_sum INT32_MIN INT32_MAX s32_add_and_clip
proof
  fix a b assume "INT32_MIN \<le> a" "a \<le> INT32_MAX" "INT32_MIN \<le> b" "b \<le> INT32_MAX"
  then show "s32_add_and_clip a b = clip INT32_MIN INT32_MAX (a + b)"
    by (simp add: s32_add_and_clip_def clip_def Let_def INT32_MIN_def INT32_MAX_def wrap_s_id)
qed (simp_all add: INT32_MIN_def INT32_MAX_def)

lemma in_s_16_iff: "in_s 16 x \<longleftrightarrow> SHRT_MIN \<le> x \<and> x \<le> SHRT_MAX"
  by (auto simp: in_s_def SHRT_MIN_def SHRT_MAX_def)

lemma in_s_32_iff: "in_s 32 x \<longleftrightarrow> INT32_MIN \<le> x \<and> x \<le> INT32_MAX"
  by (auto simp: in_s_def INT32_MIN_def INT32_MAX_def)

text \<open>Down-mixing stereo to mono adds the two channels and saturates at the bounds of the sample
  type, for every pair of samples: no wrap-around at 16 or at 32 bits.\<close>

lemma stereo_to_mono_saturates:
  assumes "\<forall>x\<in>set inp. in_s 16 x" "\<forall>x\<in>set inp32. in_s 32 x"
    and "2 * n \<le> length inp" "2 * n \<le> length inp32" "n \<le> length out" "i < n"
  shows "s16_stereo_to_mono inp n out ! i = clip SHRT_MIN SHRT_MAX (inp ! (2 * i) + inp ! (2 * i + 1))
    \<and> s32_stereo_to_mono inp32 n out ! i = clip INT32_MIN INT32_MAX (inp32 ! (2 * i) + inp32 ! (2 * i + 1))"
  using assms s16_sum.stereo_to_mono_mixes s32_sum.stereo_to_mono_mixes
  by (simp add: s16_stereo_to_mono_def s32_stereo_to_mono_def in_s_16_iff in_s_32_iff)

text \<open>Stereo to quad and back is the identity on every buffer and for every quad layout that names
  four different channels: the up-mix puts left and right on the front channels of each frame and
  silence on the rear ones, so the quarter of the rear that the down-mix adds is zero.\<close>

lemma stereo_quad_roundtrip:
  assumes "\<forall>x\<in>set inp. in_s 16 x" "\<forall>x\<in>set inp32. in_s 32 x"
    and "length inp = 2 * n" "length inp32 = 2 * n" "4 * n \<le> length mid" "length out = 2 * n"
    and "distinct [fl, fr, rl, rr]" "\<forall>c\<in>{fl, fr, rl, rr}. 0 \<le> c \<and> c < 4"
  shows "s16_quad_to_stereo fl fr rl rr (s16_stereo_to_quad fl fr inp n mid) n out = inp
    \<and> s32_quad_to_stereo fl fr rl rr (s32_stereo_to_quad fl fr inp32 n mid) n out = inp32"
  unfolding s16_quad_to_stereo_def s16_stereo_to_quad_def s32_quad_to_stereo_def s32_stereo_to_quad_def
  using assms by (intro conjI s16_sum.stereo_quad_stereo s32_sum.stereo_quad_stereo)
    (simp_all add: in_s_16_iff in_s_32_iff)

section \<open>Up-mixing\<close>

text \<open>The output frame an up-mix describes: each listed channel holds its sample, the others silence.\<close>

definition upmix_frame :: "nat \<Rightarrow> (int \<times> int) list \<Rightarrow> int list" where
  "upmix_frame k ws = map (\<lambda>c. case map_of ws (int c) of Some v \<Rightarrow> v | None \<Rightarrow> 0) [0..<k]"

lemma nth_store_frame:
  assumes "distinct (map fst ws)" "stores_ok k ws" "c < k" "length xs = k"
  shows "store_frame k 0 ws xs ! c = (case map_of ws (int c) of Some v \<Rightarrow> v | None \<Rightarrow> xs ! c)"
  using assms
proof (induction ws arbitrary: xs)
  case (Cons cv ws)
  obtain d v where cv: "cv = (d, v)" by (cases cv)
  show ?case
  proof (cases "int c = d")
    case True
    then have "map_of ws (int c) = None" using Cons.prems(1) cv by (simp add: map_of_eq_None_iff)
    with Cons cv True show ?thesis by auto
  next
    case False
    then have "nat d \<noteq> c" using Cons.prems(2) cv by auto
    with Cons cv False show ?thesis by (auto split: option.split)
  qed
qed simp

lemma store_frame_silence:
  assumes "distinct (map fst ws)" "stores_ok k ws"
  shows "store_frame k 0 ws (replicate k 0) = upmix_frame k ws"
  using assms by (intro nth_equalityI) (auto simp: upmix_frame_def nth_store_frame split: option.splits)

text \<open>A channel index that is either missing or inside a frame of \<open>k\<close> samples.\<close>

abbreviation channel_ok :: "nat \<Rightarrow> int \<Rightarrow> bool" where
  "channel_ok k c \<equiv> c = -1 \<or> 0 \<le> c \<and> c < int k"

text \<open>Where a stereo frame goes in a surround frame.\<close>

definition stereo_placement :: "(int \<Rightarrow> int \<Rightarrow> int) \<Rightarrow> int \<Rightarrow> int \<Rightarrow> int \<Rightarrow> int \<Rightarrow> int \<Rightarrow> (int \<times> int) list" where
  "stereo_placement mix left right center l r =
     (if left \<noteq> -1 \<and> right \<noteq> -1 then [(left, l), (right, r)]
      else if center \<noteq> -1 then [(center, mix l r)] else [(0, l), (1, r)])"

lemma stereo_to_surround_frame:
  assumes "channel_ok k left" "channel_ok k right" "channel_ok k center" "left = right \<longrightarrow> left = -1"
    and "2 \<le> k" "k * n \<le> length out" "i < n"
  shows "frame k i (stereo_to_surround mix k left right center inp n out)
    = upmix_frame k (stereo_placement mix left right center (inp ! (2 * i)) (inp ! (2 * i + 1)))"
  using assms unfolding stereo_to_surround_def stereo_placement_def Let_def
  by (auto simp: frame_upmix store_frame_silence simp del: store_frame_Cons)

lemma stereo_to_surround_rest:
  assumes "channel_ok k left" "channel_ok k right" "channel_ok k center" "2 \<le> k" "k * n \<le> length out"
  shows "drop (k * n) (stereo_to_surround mix k left right center inp n out) = drop (k * n) out"
  using assms unfolding stereo_to_surround_def Let_def
  by (auto simp: drop_for_frames drop_memset0)

text \<open>Stereo to 5.1 and to 7.1, for every layout: in each output frame the two samples are on the
  front left and front right channels, or their saturated sum on the centre when one of these is
  missing, or on the first two channels when that is missing too; all other channels are silent,
  and nothing behind the last frame is written.\<close>

lemma stereo_to_surround_correct:
  assumes "\<forall>c\<in>{left, right, center}. channel_ok 6 c" "left = right \<longrightarrow> left = -1"
    and "6 * n \<le> length out" "8 * n \<le> length out71" "i < n"
  shows "frame 6 i (s16_stereo_to_51 left right center inp n out)
      = upmix_frame 6 (stereo_placement s16_add_and_clip left right center (inp ! (2 * i)) (inp ! (2 * i + 1)))
    \<and> frame 8 i (s32_stereo_to_71 left right center inp n out71)
      = upmix_frame 8 (stereo_placement s32_add_and_clip left right center (inp ! (2 * i)) (inp ! (2 * i + 1)))
    \<and> drop (6 * n) (s16_stereo_to_51 left right center inp n out) = drop (6 * n) out
    \<and> drop (8 * n) (s32_stereo_to_71 left right center inp n out71) = drop (8 * n) out71"
proof -
  have c6: "channel_ok 6 left" "channel_ok 6 right" "channel_ok 6 center" using assms(1) by simp_all
  then have c8: "channel_ok 8 left" "channel_ok 8 right" "channel_ok 8 center" by auto
  show ?thesis
    unfolding s16_stereo_to_51_def s32_stereo_to_71_def
    using stereo_to_surround_frame [OF c6 assms(2)] stereo_to_surround_frame [OF c8 assms(2)]
      stereo_to_surround_rest [OF c6] stereo_to_surround_rest [OF c8] assms(3-5) by simp
qed

subsection \<open>5.1 to 7.1\<close>

text \<open>A layout gives different channels different places in a frame of \<open>k\<close> samples.\<close>

definition layout_ok :: "nat \<Rightarrow> channel_layout \<Rightarrow> bool" where
  "layout_ok k layout \<longleftrightarrow> (\<forall>ch. channel_ok k (layout ch)) \<and> inj_on layout {ch. layout ch \<noteq> -1}"

definition common_channels :: "channel_layout \<Rightarrow> channel_layout \<Rightarrow> cras_channel list" where
  "common_channels in_layout out_layout =
     [CRAS_CH_FL, CRAS_CH_FR, CRAS_CH_FC, CRAS_CH_LFE]
     @ filter (\<lambda>ch. in_layout ch \<noteq> -1 \<and> out_layout ch \<noteq> -1) [CRAS_CH_RL, CRAS_CH_RR, CRAS_CH_SL, CRAS_CH_SR]"

definition has_51_channels :: "channel_layout \<Rightarrow> channel_layout \<Rightarrow> bool" where
  "has_51_channels in_layout out_layout \<longleftrightarrow>
     (\<forall>ch\<in>{CRAS_CH_FL, CRAS_CH_FR, CRAS_CH_FC, CRAS_CH_LFE}. in_layout ch \<noteq> -1 \<and> out_layout ch \<noteq> -1) \<and>
     (\<exists>ch\<in>{CRAS_CH_RL, CRAS_CH_SL}. in_layout ch \<noteq> -1 \<and> out_layout ch \<noteq> -1) \<and>
     (\<exists>ch\<in>{CRAS_CH_RR, CRAS_CH_SR}. in_layout ch \<noteq> -1 \<and> out_layout ch \<noteq> -1)"

lemma distinct_common_channels: "distinct (common_channels in_layout out_layout)"
  by (simp add: common_channels_def)

lemma common_channels_set:
  "has_51_channels in_layout out_layout \<Longrightarrow>
   set (common_channels in_layout out_layout)
     = {CRAS_CH_FL, CRAS_CH_FR, CRAS_CH_FC, CRAS_CH_LFE, CRAS_CH_RL, CRAS_CH_RR, CRAS_CH_SL, CRAS_CH_SR}
       \<inter> {ch. in_layout ch \<noteq> -1 \<and> out_layout ch \<noteq> -1}"
  unfolding common_channels_def has_51_channels_def by auto

lemma surround_51_to_71_eq:
  assumes "has_51_channels in_layout out_layout"
  shows "surround_51_to_71 in_layout out_layout inp n out =
    for_frames n (\<lambda>i. store_frame 8 i (map (\<lambda>ch. (out_layout ch, inp ! (6 * i + nat (in_layout ch))))
      (common_channels in_layout out_layout))) (memset0 (8 * n) out)"
proof -
  have guard: "in_layout CRAS_CH_FL \<noteq> -1 \<and> in_layout CRAS_CH_FR \<noteq> -1 \<and> in_layout CRAS_CH_FC \<noteq> -1 \<and>
    in_layout CRAS_CH_LFE \<noteq> -1 \<and> out_layout CRAS_CH_FL \<noteq> -1 \<and> out_layout CRAS_CH_FR \<noteq> -1 \<and>
    out_layout CRAS_CH_FC \<noteq> -1 \<and> out_layout CRAS_CH_LFE \<noteq> -1 \<and>
    (in_layout CRAS_CH_RL \<noteq> -1 \<and> out_layout CRAS_CH_RL \<noteq> -1 \<or> in_layout CRAS_CH_SL \<noteq> -1 \<and> out_layout CRAS_CH_SL \<noteq> -1) \<and>
    (in_layout CRAS_CH_RR \<noteq> -1 \<and> out_layout CRAS_CH_RR \<noteq> -1 \<or> in_layout CRAS_CH_SR \<noteq> -1 \<and> out_layout CRAS_CH_SR \<noteq> -1)"
    using assms unfolding has_51_channels_def by simp
  show ?thesis unfolding surround_51_to_71_def Let_def if_P [OF guard]
    by (intro arg_cong [where f = "\<lambda>b. for_frames n b _"] ext arg_cong [where f = "\<lambda>ws. store_frame 8 _ ws _"])
      (simp add: common_channels_def)
qed

lemma surround_51_to_71_frame:
  assumes "has_51_channels in_layout out_layout" "layout_ok 8 out_layout" "8 * n \<le> length out" "i < n"
  shows "frame 8 i (surround_51_to_71 in_layout out_layout inp n out)
    = upmix_frame 8 (map (\<lambda>ch. (out_layout ch, inp ! (6 * i + nat (in_layout ch))))
        (common_channels in_layout out_layout))"
    (is "_ = upmix_frame 8 (?ws i)")
proof -
  note set = common_channels_set [OF assms(1)]
  have ok: "stores_ok 8 (?ws j)" for j
    unfolding list_all_iff using assms(2) by (auto simp: layout_ok_def set)
  have "inj_on out_layout (set (common_channels in_layout out_layout))"
    using assms(2) unfolding layout_ok_def by (auto simp: set elim!: inj_on_subset)
  then have dist: "distinct (map fst (?ws i))" by (simp add: o_def distinct_map distinct_common_channels)
  have "frame 8 i (surround_51_to_71 in_layout out_layout inp n out) = store_frame 8 0 (?ws i) (replicate 8 0)"
    unfolding surround_51_to_71_eq [OF assms(1)] using ok assms(3,4) by (rule frame_upmix)
  also have "\<dots> = upmix_frame 8 (?ws i)" using dist ok by (rule store_frame_silence)
  finally show ?thesis .
qed

text \<open>5.1 to 7.1, for every pair of layouts that both have the six channels (surrounds at the rear
  or at the side): each channel of the input that the output has too keeps its sample, frame by
  frame, and every other output channel is silent.\<close>

lemma surround_51_to_71_correct:
  assumes "has_51_channels in_layout out_layout" "layout_ok 8 out_layout"
    and "8 * n \<le> length out" "i < n" "ch \<in> set (common_channels in_layout out_layout)"
    and "c < 8" "\<forall>ch\<in>set (common_channels in_layout out_layout). out_layout ch \<noteq> int c"
  shows "frame 8 i (s16_51_to_71 in_layout out_layout inp n out) ! nat (out_layout ch)
      = inp ! (6 * i + nat (in_layout ch))
    \<and> frame 8 i (s16_51_to_71 in_layout out_layout inp n out) ! c = 0
    \<and> s32_51_to_71 in_layout out_layout inp n out = s16_51_to_71 in_layout out_layout inp n out"
proof -
  let ?ws = "map (\<lambda>ch. (out_layout ch, inp ! (6 * i + nat (in_layout ch)))) (common_channels in_layout out_layout)"
  note set = common_channels_set [OF assms(1)]
  have "inj_on out_layout (set (common_channels in_layout out_layout))"
    using assms(2) unfolding layout_ok_def by (auto simp: set elim!: inj_on_subset)
  then have "distinct (map fst ?ws)" by (simp add: o_def distinct_map distinct_common_channels)
  moreover have "(out_layout ch, inp ! (6 * i + nat (in_layout ch))) \<in> set ?ws" using assms(5) by auto
  ultimately have there: "map_of ?ws (out_layout ch) = Some (inp ! (6 * i + nat (in_layout ch)))"
    by (rule map_of_is_SomeI)
  have "int c \<notin> fst ` set ?ws" using assms(7) by auto
  then have silent: "map_of ?ws (int c) = None" by (simp only: map_of_eq_None_iff not_False_eq_True)
  have "0 \<le> out_layout ch" "out_layout ch < 8" using assms(2,5) set by (auto simp: layout_ok_def)
  with there silent assms(6) show ?thesis
    unfolding s16_51_to_71_def s32_51_to_71_def surround_51_to_71_frame [OF assms(1-4)]
    by (simp add: upmix_frame_def nat_less_iff)
qed

definition layout_71 :: channel_layout where
  "layout_71 ch = (case ch of CRAS_CH_FL \<Rightarrow> 0 | CRAS_CH_FR \<Rightarrow> 1 | CRAS_CH_FC \<Rightarrow> 2 | CRAS_CH_LFE \<Rightarrow> 3
     | CRAS_CH_RL \<Rightarrow> 4 | CRAS_CH_RR \<Rightarrow> 5 | CRAS_CH_SL \<Rightarrow> 6 | CRAS_CH_SR \<Rightarrow> 7 | _ \<Rightarrow> -1)"

definition layout_51_side :: channel_layout where
  "layout_51_side ch = (case ch of CRAS_CH_FL \<Rightarrow> 0 | CRAS_CH_FR \<Rightarrow> 1 | CRAS_CH_FC \<Rightarrow> 2 | CRAS_CH_LFE \<Rightarrow> 3
     | CRAS_CH_SL \<Rightarrow> 4 | CRAS_CH_SR \<Rightarrow> 5 | _ \<Rightarrow> -1)"

section \<open>Any number of channels\<close>

lemma store_frame_upt:
  "store_frame k i (map (\<lambda>c. (int c, f c)) [0..<m]) = for_frames m (\<lambda>c out. out[c + i * k := f c])"
  by (rule ext) (simp add: store_frame_def for_frames_def foldl_map mult.commute add.commute)

lemma frame_eq_map: "k * i + k \<le> length xs \<Longrightarrow> frame k i xs = map (\<lambda>c. xs ! (c + i * k)) [0..<k]"
  by (intro nth_equalityI) (simp_all add: nth_frame mult.commute add.commute)

text \<open>The running sum of a frame does not wrap.\<close>

lemma frame_sum_no_wrap:
  assumes "0 < v" "v < w" "m \<le> 2 ^ (w - v)" "\<forall>x\<in>set inp. in_s v x" "i * m + m \<le> length inp"
  shows "for_frames m (\<lambda>c sum. wrap_s w (sum + inp ! (c + i * m))) 0 = sum_list (frame m i inp)
    \<and> int m * - (2 ^ (v - 1)) \<le> sum_list (frame m i inp)
    \<and> sum_list (frame m i inp) \<le> int m * (2 ^ (v - 1) - 1)"
proof -
  define P where "P = (2 :: int) ^ (v - 1)"
  have PM: "int m * P \<le> 2 ^ (w - 1)"
  proof -
    have "int m * P \<le> 2 ^ (w - v) * P" using assms(3) by (intro mult_right_mono) (auto simp: P_def)
    also have "\<dots> = 2 ^ (w - 1)" using assms(1,2) by (simp add: P_def flip: power_add)
    finally show ?thesis .
  qed
  have P: "0 < P" by (simp add: P_def)
  have "for_frames j (\<lambda>c sum. wrap_s w (sum + inp ! (c + i * m))) 0 = (\<Sum>c<j. inp ! (c + i * m))
    \<and> int j * - P \<le> (\<Sum>c<j. inp ! (c + i * m)) \<and> (\<Sum>c<j. inp ! (c + i * m)) \<le> int j * (P - 1)"
    if "j \<le> m" for j using that
  proof (induction j)
    case (Suc j)
    then have "inp ! (j + i * m) \<in> set inp" using assms(5) by (intro nth_mem) (simp add: mult.commute)
    then have x: "- P \<le> inp ! (j + i * m)" "inp ! (j + i * m) \<le> P - 1"
      using assms(4) unfolding in_s_def P_def by fastforce+
    have "int (Suc j) * P \<le> int m * P" using Suc.prems P by (intro mult_right_mono) auto
    with PM have b: "int (Suc j) * P \<le> 2 ^ (w - 1)" by simp
    let ?s = "(\<Sum>c<j. inp ! (c + i * m)) + inp ! (j + i * m)"
    have s: "int (Suc j) * - P \<le> ?s" "?s \<le> int (Suc j) * (P - 1)"
      using Suc x by (simp_all add: algebra_simps)
    have "wrap_s w ?s = ?s"
      using s b assms(1,2) by (intro wrap_s_id) (auto simp: algebra_simps)
    with Suc s show ?case by simp
  qed simp
  from this [of m] have "for_frames m (\<lambda>c sum. wrap_s w (sum + inp ! (c + i * m))) 0 = (\<Sum>c<m. inp ! (c + i * m))
    \<and> int m * - P \<le> (\<Sum>c<m. inp ! (c + i * m)) \<and> (\<Sum>c<m. inp ! (c + i * m)) \<le> int m * (P - 1)" by simp
  moreover have "sum_list (frame m i inp) = (\<Sum>c<m. inp ! (c + i * m))"
    using assms(5) by (simp add: frame_eq_map mult.commute sum_list_distinct_conv_sum_set atLeast0LessThan)
  ultimately show ?thesis by (simp add: P_def)
qed

lemma default_all_to_all_frame:
  assumes "0 < v" "v < w" "0 < m" "m \<le> 2 ^ (w - v)" "int m < 2 ^ (w - 1)"
    and "\<forall>x\<in>set inp. in_s v x" "n * m \<le> length inp" "k * n \<le> length out" "i < n"
  shows "frame k i (default_all_to_all w v m k inp n out) = replicate k (sum_list (frame m i inp) sdiv int m)
    \<and> in_s v (sum_list (frame m i inp) sdiv int m)"
proof -
  let ?sum = "\<lambda>i. for_frames m (\<lambda>c sum. wrap_s w (sum + inp ! (c + i * m))) 0"
  let ?mean = "\<lambda>i. wrap_s v (?sum i sdiv wrap_s w (int m))"
  have "i * m + m \<le> length inp" using frame_bound [of i n m inp] assms(7,9) by (simp add: mult.commute)
  note sum = frame_sum_no_wrap [OF assms(1,2,4,6) this]
  have wm: "wrap_s w (int m) = int m" using assms(1-3,5) by (intro wrap_s_id) (auto intro: order_trans [of _ 0])
  have mean: "- (2 ^ (v - 1)) \<le> sum_list (frame m i inp) sdiv int m
      \<and> sum_list (frame m i inp) sdiv int m \<le> 2 ^ (v - 1) - 1"
    using sum assms(3) by (intro sdiv_mean_bounds) auto
  then have in_range: "in_s v (sum_list (frame m i inp) sdiv int m)" by (auto simp: in_s_def)
  have "default_all_to_all w v m k inp n out
      = for_frames n (\<lambda>i. store_frame k i (map (\<lambda>c. (int c, ?mean i)) [0..<k])) out"
    by (simp add: default_all_to_all_def Let_def store_frame_upt)
  then have "frame k i (default_all_to_all w v m k inp n out)
      = store_frame k 0 (map (\<lambda>c. (int c, ?mean i)) [0..<k]) (frame k i out)"
    using assms(8,9) by (simp add: frame_for_frames list_all_iff)
  also have "\<dots> = replicate k (?mean i)"
  proof (rule nth_equalityI)
    have len: "length (frame k i out) = k" using assms(8,9) by (simp add: frame_bound)
    then show "length (store_frame k 0 (map (\<lambda>c. (int c, ?mean i)) [0..<k]) (frame k i out)) = length (replicate k (?mean i))"
      by simp
    fix c assume "c < length (store_frame k 0 (map (\<lambda>c. (int c, ?mean i)) [0..<k]) (frame k i out))"
    then have c: "c < k" using len by simp
    have d: "distinct (map fst (map (\<lambda>c. (int c, ?mean i)) [0..<k]))" by (simp add: o_def distinct_map)
    have "map_of (map (\<lambda>c. (int c, ?mean i)) [0..<k]) (int c) = Some (?mean i)"
      using c by (intro map_of_is_SomeI [OF d]) auto
    then show "store_frame k 0 (map (\<lambda>c. (int c, ?mean i)) [0..<k]) (frame k i out) ! c = replicate k (?mean i) ! c"
      using c len by (subst nth_store_frame [OF d]) (auto simp: list_all_iff)
  qed
  also have "?mean i = sum_list (frame m i inp) sdiv int m"
    using sum in_range assms(1) by (simp add: wm in_s_wrap_id)
  finally show ?thesis using in_range by simp
qed

text \<open>The default conversion between channel counts writes the truncated mean of an input frame to
  every channel of the output frame. Up to 32768 channels the sum does not overflow its
  accumulator, and the mean always fits the sample type, so the cast without clipping loses nothing.\<close>

lemma default_all_to_all_mean:
  assumes "0 < m" "m \<le> 2 ^ 15" "\<forall>x\<in>set inp. in_s 16 x" "\<forall>x\<in>set inp32. in_s 32 x"
    and "n * m \<le> length inp" "n * m \<le> length inp32" "k * n \<le> length out" "i < n"
  shows "frame k i (s16_default_all_to_all m k inp n out) = replicate k (sum_list (frame m i inp) sdiv int m)
    \<and> in_s 16 (sum_list (frame m i inp) sdiv int m)
    \<and> frame k i (s32_default_all_to_all m k inp32 n out) = replicate k (sum_list (frame m i inp32) sdiv int m)
    \<and> in_s 32 (sum_list (frame m i inp32) sdiv int m)"
  using default_all_to_all_frame [of 16 32 m inp n k out i] default_all_to_all_frame [of 32 64 m inp32 n k out i] assms
  by (simp add: s16_default_all_to_all_def s32_default_all_to_all_def)

text \<open>Copying between channel counts keeps the channels the two formats share and silences the
  output channels beyond them; input channels that do not fit are dropped.\<close>

lemma some_to_some_copies:
  assumes "n * m \<le> length inp" "k * n \<le> length out" "i < n"
  shows "frame k i (s16_some_to_some k m k inp n out) = take k (frame m i inp) @ replicate (k - m) 0
    \<and> drop (k * n) (s16_some_to_some k m k inp n out) = drop (k * n) out"
proof -
  let ?ws = "\<lambda>i. map (\<lambda>c. (int c, inp ! (m * i + c))) [0..<min m k]"
  have ok: "stores_ok k (?ws j)" for j by (auto simp: list_all_iff)
  have d: "distinct (map fst (?ws i))" by (simp add: o_def distinct_map)
  have eq: "s16_some_to_some k m k inp n out = for_frames n (\<lambda>i. store_frame k i (?ws i)) (memset0 (k * n) out)"
    by (simp add: s16_some_to_some_def some_to_some_def Let_def mult.commute)
  have b: "m * i + m \<le> length inp" using frame_bound [of i n m inp] assms(1,3) by (simp add: mult.commute)
  have "frame k i (s16_some_to_some k m k inp n out) = upmix_frame k (?ws i)"
    unfolding eq store_frame_silence [OF d ok, symmetric] using ok assms(2,3) by (rule frame_upmix)
  also have "\<dots> = take k (frame m i inp) @ replicate (k - m) 0"
  proof (rule nth_equalityI)
    show "length (upmix_frame k (?ws i)) = length (take k (frame m i inp) @ replicate (k - m) 0)"
      using b by (simp add: upmix_frame_def)
    fix c assume "c < length (upmix_frame k (?ws i))"
    then have c: "c < k" by (simp add: upmix_frame_def)
    show "upmix_frame k (?ws i) ! c = (take k (frame m i inp) @ replicate (k - m) 0) ! c"
    proof (cases "c < m")
      case True
      then have "map_of (?ws i) (int c) = Some (inp ! (m * i + c))"
        using c by (intro map_of_is_SomeI [OF d]) auto
      then show ?thesis using True c b by (simp add: upmix_frame_def nth_append nth_frame)
    next
      case False
      then have "int c \<notin> fst ` set (?ws i)" by auto
      then have "map_of (?ws i) (int c) = None" by (simp only: map_of_eq_None_iff not_False_eq_True)
      then show ?thesis using False c b by (simp add: upmix_frame_def nth_append)
    qed
  qed
  finally show ?thesis using ok assms(2) by (simp add: eq drop_for_frames drop_memset0)
qed

end
