(* ===== verification/Cras_Expr.thy ===== *)
theory Cras_Expr
  imports Cras_Prelude
begin

text \<open>
  The expression language of the DSP configuration, \<open>cras/src/server/cras_expr.c\<close>: values, the
  environment of variables, the built-in functions, the parser and the evaluator. The DSP pipeline
  uses it to decide which plugins are disabled.

  A C string is the list of its characters before the terminating NUL. A result parameter of type
  \<open>struct cras_expr_value*\<close>, which every function clears first, is the value returned. The four
  built-in functions are the only function pointers there are. Memory management
  (\<open>cras_expr_env_free\<close>, \<open>cras_expr_expression_free\<close>) and the dump functions are left out.
\<close>

section \<open>Values and built-in functions\<close>

datatype cras_expr_function = Function_not | Function_and | Function_or | Function_equal

datatype cras_expr_value =
  Value_none
  | Value_boolean bool
  | Value_int int
  | Value_string string
  | Value_function cras_expr_function

definition function_not :: "cras_expr_value list \<Rightarrow> cras_expr_value" where
  "function_not operands =
     (if length operands \<noteq> 2 then Value_none
      else Value_boolean (operands ! 1 = Value_boolean False))"

definition function_and :: "cras_expr_value list \<Rightarrow> cras_expr_value" where
  "function_and operands =
     (let n = length operands in
      if n \<le> 1 then Value_boolean True
      else if \<exists>v\<in>set (tl operands). v = Value_boolean False then Value_boolean False
      else operands ! (n - 1))"

text \<open>The loop returns the first operand that is not \<open>#f\<close>.\<close>

fun function_or_loop :: "cras_expr_value list \<Rightarrow> cras_expr_value" where
  "function_or_loop [] = Value_boolean False"
| "function_or_loop (v # vs) = (if v \<noteq> Value_boolean False then v else function_or_loop vs)"

definition function_or :: "cras_expr_value list \<Rightarrow> cras_expr_value" where
  "function_or operands = function_or_loop (tl operands)"

text \<open>Neighbouring operands are compared: types first, then the member of the union.\<close>

fun same_value :: "cras_expr_value \<Rightarrow> cras_expr_value \<Rightarrow> bool" where
  "same_value Value_none Value_none = True"
| "same_value (Value_boolean a) (Value_boolean b) = (a = b)"
| "same_value (Value_int a) (Value_int b) = (a = b)"
| "same_value (Value_string a) (Value_string b) = (a = b)"
| "same_value (Value_function a) (Value_function b) = (a = b)"
| "same_value _ _ = False"

fun function_equal_loop :: "cras_expr_value list \<Rightarrow> bool" where
  "function_equal_loop (prev # v # vs) = (if \<not> same_value prev v then False else function_equal_loop (v # vs))"
| "function_equal_loop _ = True"

definition function_equal_real :: "cras_expr_value list \<Rightarrow> bool" where
  "function_equal_real operands = function_equal_loop (tl operands)"

definition function_equal :: "cras_expr_value list \<Rightarrow> cras_expr_value" where
  "function_equal operands = Value_boolean (function_equal_real operands)"

fun call_function :: "cras_expr_function \<Rightarrow> cras_expr_value list \<Rightarrow> cras_expr_value" where
  "call_function Function_not operands = function_not operands"
| "call_function Function_and operands = function_and operands"
| "call_function Function_or operands = function_or operands"
| "call_function Function_equal operands = function_equal operands"

section \<open>The environment\<close>

record cras_expr_env =
  keys :: "string list"
  vals :: "cras_expr_value list"

fun find_key :: "string list \<Rightarrow> nat \<Rightarrow> string \<Rightarrow> nat option" where
  "find_key [] i name = None"
| "find_key (k # ks) i name = (if k = name then Some i else find_key ks (Suc i) name)"

definition find_value :: "cras_expr_env \<Rightarrow> string \<Rightarrow> cras_expr_value option" where
  "find_value env name = map_option (\<lambda>i. vals env ! i) (find_key (keys env) 0 name)"

text \<open>The pointer to a value is its index.\<close>

definition insert_value :: "cras_expr_env \<Rightarrow> string \<Rightarrow> nat \<times> cras_expr_env" where
  "insert_value env key =
     (length (vals env), env\<lparr>keys := keys env @ [key], vals := vals env @ [Value_none]\<rparr>)"

definition find_or_insert_value :: "cras_expr_env \<Rightarrow> string \<Rightarrow> nat \<times> cras_expr_env" where
  "find_or_insert_value env key =
     (case find_key (keys env) 0 key of Some i \<Rightarrow> (i, env) | None \<Rightarrow> insert_value env key)"

definition env_set_variable :: "cras_expr_env \<Rightarrow> string \<Rightarrow> cras_expr_value \<Rightarrow> cras_expr_env" where
  "env_set_variable env name new_value =
     (let (i, env) = find_or_insert_value env name in env\<lparr>vals := (vals env)[i := new_value]\<rparr>)"

definition cras_expr_env_install_builtins :: "cras_expr_env \<Rightarrow> cras_expr_env" where
  "cras_expr_env_install_builtins env =
     (let env = env_set_variable env ''not'' (Value_function Function_not);
          env = env_set_variable env ''and'' (Value_function Function_and);
          env = env_set_variable env ''or'' (Value_function Function_or)
      in env_set_variable env ''equal?'' (Value_function Function_equal))"

definition cras_expr_env_set_variable_boolean :: "cras_expr_env \<Rightarrow> string \<Rightarrow> int \<Rightarrow> cras_expr_env" where
  "cras_expr_env_set_variable_boolean env name b =
     (let (i, env) = find_or_insert_value env name
      in env\<lparr>vals := (vals env)[i := Value_boolean (b \<noteq> 0)]\<rparr>)"

definition cras_expr_env_set_variable_integer :: "cras_expr_env \<Rightarrow> string \<Rightarrow> int \<Rightarrow> cras_expr_env" where
  "cras_expr_env_set_variable_integer env name integer =
     (let (i, env) = find_or_insert_value env name
      in env\<lparr>vals := (vals env)[i := Value_int integer]\<rparr>)"

definition cras_expr_env_set_variable_string :: "cras_expr_env \<Rightarrow> string \<Rightarrow> string \<Rightarrow> cras_expr_env" where
  "cras_expr_env_set_variable_string env name str =
     (let (i, env) = find_or_insert_value env name
      in env\<lparr>vals := (vals env)[i := Value_string str]\<rparr>)"

section \<open>Expressions\<close>

datatype cras_expr_expression =
  Expr_none
  | Expr_literal cras_expr_value
  | Expr_variable string
  | Expr_compound "cras_expr_expression list"

subsection \<open>The evaluator\<close>

fun cras_expr_expression_eval :: "cras_expr_env \<Rightarrow> cras_expr_expression \<Rightarrow> cras_expr_value" where
  "cras_expr_expression_eval env Expr_none = Value_none"
| "cras_expr_expression_eval env (Expr_literal v) = v"
| "cras_expr_expression_eval env (Expr_variable name) =
     (case find_value env name of None \<Rightarrow> Value_none | Some v \<Rightarrow> v)"
| "cras_expr_expression_eval env (Expr_compound children) =
     (let values = map (cras_expr_expression_eval env) children in
      if length values > 0 then
        (case values ! 0 of Value_function f \<Rightarrow> call_function f values | _ \<Rightarrow> Value_none)
      else Value_none)"

text \<open>The return code and what is stored on success.\<close>

definition cras_expr_expression_eval_int :: "cras_expr_expression \<Rightarrow> cras_expr_env \<Rightarrow> int \<times> int option" where
  "cras_expr_expression_eval_int expr env =
     (case cras_expr_expression_eval env expr of Value_int i \<Rightarrow> (0, Some i) | _ \<Rightarrow> (-1, None))"

definition cras_expr_expression_eval_boolean :: "cras_expr_expression \<Rightarrow> cras_expr_env \<Rightarrow> int \<times> bool option" where
  "cras_expr_expression_eval_boolean expr env =
     (case cras_expr_expression_eval env expr of Value_boolean b \<Rightarrow> (0, Some b) | _ \<Rightarrow> (-1, None))"

subsection \<open>The parser\<close>

text \<open>The character classes of \<open><ctype.h>\<close> in the C locale.\<close>

definition char_code :: "char \<Rightarrow> int" where "char_code c = int (of_char c)"

definition isspace :: "char \<Rightarrow> bool" where
  "isspace c \<longleftrightarrow> char_code c = 32 \<or> 9 \<le> char_code c \<and> char_code c \<le> 13"

definition isdigit :: "char \<Rightarrow> bool" where
  "isdigit c \<longleftrightarrow> 48 \<le> char_code c \<and> char_code c \<le> 57"

definition isalpha :: "char \<Rightarrow> bool" where
  "isalpha c \<longleftrightarrow> 65 \<le> char_code c \<and> char_code c \<le> 90 \<or> 97 \<le> char_code c \<and> char_code c \<le> 122"

definition is_identifier_char :: "char \<Rightarrow> bool" where
  "is_identifier_char c \<longleftrightarrow>
     (if isspace c then False
      else if char_code c = 0 then False
      else if isalpha c then True
      else if c = CHR ''_'' \<or> c = CHR ''-'' \<or> c = CHR ''?'' then True
      else False)"

text \<open>\<open>strtol(s, &end, 10)\<close> on a text that starts with a digit or a minus sign and a digit: the value,
  clamped to a \<open>long\<close>, and the text behind the digits.\<close>

definition LONG_MAX :: int where "LONG_MAX = 2 ^ 63 - 1"
definition LONG_MIN :: int where "LONG_MIN = - (2 ^ 63)"

definition digits_value :: "string \<Rightarrow> int" where
  "digits_value ds = foldl (\<lambda>n c. n * 10 + (char_code c - 48)) 0 ds"

definition strtol :: "string \<Rightarrow> int \<times> string" where
  "strtol s =
     (let neg = (s \<noteq> [] \<and> hd s = CHR ''-'');
          t = (if neg then tl s else s);
          n = digits_value (takeWhile isdigit t)
      in (clip LONG_MIN LONG_MAX (if neg then - n else n), dropWhile isdigit t))"

definition quote :: char where "quote = CHR 0x22"

text \<open>The literals and variables of \<open>parse_one_expr\<close>, on a text whose first character is \<open>c\<close>: the
  expression (None for NULL) and the text that is left.\<close>

definition parse_atom :: "char \<Rightarrow> string \<Rightarrow> cras_expr_expression option \<times> string" where
  "parse_atom c r =
     (if c = CHR ''#'' then
        (case r of
           d # r' \<Rightarrow> if d = CHR ''t'' \<or> d = CHR ''f''
                     then (Some (Expr_literal (Value_boolean (d = CHR ''t''))), r')
                     else (None, r)
         | [] \<Rightarrow> (None, r))
      else if isdigit c \<or> c = CHR ''-'' \<and> r \<noteq> [] \<and> isdigit (hd r) then
        (let (v, r') = strtol (c # r) in (Some (Expr_literal (Value_int (s32 v))), r'))
      else if c = quote then
        (case dropWhile (\<lambda>d. d \<noteq> quote) r of
           [] \<Rightarrow> (Some (Expr_literal (Value_string [])), r)
         | q # r' \<Rightarrow> (Some (Expr_literal (Value_string (takeWhile (\<lambda>d. d \<noteq> quote) r))), r'))
      else if is_identifier_char c then
        (Some (Expr_variable (takeWhile is_identifier_char (c # r))), dropWhile is_identifier_char (c # r))
      else (None, c # r))"

text \<open>The whole parser. The test for a compound expression comes before the others here; all of them
  are about different characters. The recursion and the loop over the sub-expressions are bounded
  by fuel; the outer None says that the fuel ran out, which does not happen with \<open>parse_fuel\<close>.\<close>

fun parse_one_expr :: "nat \<Rightarrow> string \<Rightarrow> (cras_expr_expression option \<times> string) option"
  and parse_sub_exprs :: "nat \<Rightarrow> string \<Rightarrow> (cras_expr_expression list \<times> string) option" where
  "parse_one_expr 0 str = None"
| "parse_one_expr (Suc n) str =
     (case dropWhile isspace str of
        [] \<Rightarrow> Some (None, [])
      | c # r \<Rightarrow>
          if c = CHR ''('' then
            (case parse_sub_exprs n r of
               None \<Rightarrow> None
             | Some (subs, r') \<Rightarrow>
                 if r' = [] \<or> hd r' \<noteq> CHR '')'' then Some (None, r')
                 else Some (Some (Expr_compound subs), tl r'))
          else Some (parse_atom c r))"
| "parse_sub_exprs 0 str = None"
| "parse_sub_exprs (Suc n) str =
     (case parse_one_expr n str of
        None \<Rightarrow> None
      | Some (None, r) \<Rightarrow> Some ([], r)
      | Some (Some e, r) \<Rightarrow>
          (case parse_sub_exprs n r of None \<Rightarrow> None | Some (es, r') \<Rightarrow> Some (e # es, r')))"

definition parse_fuel :: "string \<Rightarrow> nat" where
  "parse_fuel str = 2 * length str + 1"

definition cras_expr_expression_parse :: "string option \<Rightarrow> cras_expr_expression option" where
  "cras_expr_expression_parse str =
     (case str of
        None \<Rightarrow> None
      | Some s \<Rightarrow> (case parse_one_expr (parse_fuel s) s of None \<Rightarrow> None | Some (e, r) \<Rightarrow> e))"

section \<open>The parser always returns\<close>

lemma strtol_rest:
  assumes "isdigit c \<or> c = CHR ''-'' \<and> r \<noteq> [] \<and> isdigit (hd r)"
  shows "length (snd (strtol (c # r))) \<le> length r"
  using assms length_dropWhile_le [of isdigit r] by (auto simp: strtol_def Let_def)

text \<open>An expression consumes at least one character.\<close>

lemma parse_atom_progress:
  assumes "parse_atom c t = (e, r)"
  shows "length r \<le> Suc (length t) \<and> (e \<noteq> None \<longrightarrow> length r \<le> length t)"
proof -
  have q: "length u \<le> length t" if "dropWhile (\<lambda>d. d \<noteq> quote) t = d # u" for d u
    using length_dropWhile_le [of "\<lambda>d. d \<noteq> quote" t] that by simp
  have i: "length (dropWhile is_identifier_char t) \<le> length t" by (rule length_dropWhile_le)
  consider "c = CHR ''#''" | "isdigit c \<or> c = CHR ''-'' \<and> t \<noteq> [] \<and> isdigit (hd t)" "c \<noteq> CHR ''#''"
    | "c = quote" "\<not> (isdigit c \<or> c = CHR ''-'' \<and> t \<noteq> [] \<and> isdigit (hd t))" "c \<noteq> CHR ''#''"
    | "c \<noteq> quote" "\<not> (isdigit c \<or> c = CHR ''-'' \<and> t \<noteq> [] \<and> isdigit (hd t))" "c \<noteq> CHR ''#''" by blast
  then show ?thesis
  proof cases
    case 1
    then show ?thesis using assms by (auto simp: parse_atom_def split: list.splits if_splits)
  next
    case 2
    then show ?thesis using assms strtol_rest [OF 2(1)]
      by (auto simp: parse_atom_def Let_def case_prod_beta)
  next
    case 3
    then show ?thesis using assms q by (auto simp: parse_atom_def split: list.splits)
  next
    case 4
    then show ?thesis using assms i by (auto simp: parse_atom_def split: if_splits)
  qed
qed

lemma parse_progress:
  "parse_one_expr n s = Some (e, r) \<Longrightarrow> length r \<le> length s \<and> (e \<noteq> None \<longrightarrow> length r < length s)"
  "parse_sub_exprs n s = Some (es, r) \<Longrightarrow> length r \<le> length s"
proof (induction n s and n s arbitrary: e r and es r rule: parse_one_expr_parse_sub_exprs.induct)
  case (2 n str)
  show ?case
  proof (cases "dropWhile isspace str")
    case Nil
    with "2.prems" show ?thesis by simp
  next
    case (Cons c t)
    have le: "Suc (length t) \<le> length str" using length_dropWhile_le [of isspace str] Cons by simp
    show ?thesis
    proof (cases "c = CHR ''(''")
      case True
      with "2.prems" Cons obtain subs r' where sub: "parse_sub_exprs n t = Some (subs, r')"
        by (auto split: option.splits)
      then have "length r' \<le> length t" using "2.IH" [OF Cons True] by blast
      then show ?thesis using "2.prems" Cons True sub le by (auto split: if_splits)
    next
      case False
      then have "parse_atom c t = (e, r)" using "2.prems" Cons by simp
      then show ?thesis using parse_atom_progress le by fastforce
    qed
  qed
next
  case (4 n str)
  from "4.prems" obtain e1 r1 where one: "parse_one_expr n str = Some (e1, r1)"
    by (auto split: option.splits)
  then have "length r1 \<le> length str" using "4.IH"(1) by blast
  with "4.prems" one "4.IH"(2) show ?case by (cases e1) (fastforce split: option.splits)+
qed simp_all

lemma parse_fuel_enough:
  "2 * length s < n \<Longrightarrow> parse_one_expr n s \<noteq> None"
  "2 * length s + 1 < n \<Longrightarrow> parse_sub_exprs n s \<noteq> None"
proof (induction n s and n s rule: parse_one_expr_parse_sub_exprs.induct)
  case (2 n str)
  show ?case
  proof (cases "dropWhile isspace str")
    case (Cons c t)
    then have "Suc (length t) \<le> length str" using length_dropWhile_le [of isspace str] by simp
    then have "parse_sub_exprs n t \<noteq> None" if "c = CHR ''(''"
      using "2.IH" [OF Cons that] "2.prems" by simp
    then show ?thesis using Cons by (cases "c = CHR ''(''") (auto split: option.split)
  qed (simp del: dropWhile_eq_Nil_conv)
next
  case (4 n str)
  then obtain e r where one: "parse_one_expr n str = Some (e, r)" by (cases "parse_one_expr n str") auto
  show ?case
  proof (cases e)
    case (Some e')
    then have "length r < length str" using parse_progress(1) [OF one] by simp
    then have "parse_sub_exprs n r \<noteq> None" using "4.IH"(2) [OF one refl Some] "4.prems" by simp
    then show ?thesis using one Some by (auto split: option.split)
  qed (simp add: one)
qed simp_all

text \<open>More fuel does not change a result.\<close>

lemma parse_fuel_mono:
  "parse_one_expr n s = Some x \<Longrightarrow> parse_one_expr (n + k) s = Some x"
  "parse_sub_exprs n s = Some y \<Longrightarrow> parse_sub_exprs (n + k) s = Some y"
proof (induction n s and n s arbitrary: x and y rule: parse_one_expr_parse_sub_exprs.induct)
  case (2 n str)
  show ?case
  proof (cases "dropWhile isspace str")
    case (Cons c t)
    show ?thesis
    proof (cases "c = CHR ''(''")
      case True
      with "2.prems" Cons obtain y where "parse_sub_exprs n t = Some y" by (auto split: option.splits)
      then have "parse_sub_exprs n t = parse_sub_exprs (n + k) t" using "2.IH" [OF Cons True] by simp
      then show ?thesis using "2.prems" Cons True by simp
    qed (use "2.prems" Cons in simp)
  qed (use "2.prems" in \<open>simp del: dropWhile_eq_Nil_conv\<close>)
next
  case (4 n str)
  from "4.prems" obtain e r where one: "parse_one_expr n str = Some (e, r)" by (auto split: option.splits)
  then have one': "parse_one_expr (n + k) str = Some (e, r)" using "4.IH"(1) by blast
  show ?case
  proof (cases e)
    case (Some e')
    with "4.prems" one obtain es r' where "parse_sub_exprs n r = Some (es, r')" "y = (e' # es, r')"
      by (auto split: option.splits)
    moreover from this have "parse_sub_exprs (n + k) r = Some (es, r')"
      using "4.IH"(2) [OF one refl Some] by blast
    ultimately show ?thesis using Some one' by simp
  qed (use "4.prems" one one' in simp)
qed simp_all

text \<open>The parser returns on every input, without running out of fuel and without reading past the
  end of the text: it leaves a suffix no longer than its input, and a shorter one whenever it
  produces an expression.\<close>

lemma parse_returns:
  "\<exists>e r. parse_one_expr (parse_fuel str) str = Some (e, r)
     \<and> cras_expr_expression_parse (Some str) = e
     \<and> length r \<le> length str \<and> (e = None \<or> length r < length str)"
proof -
  have "parse_one_expr (parse_fuel str) str \<noteq> None" by (rule parse_fuel_enough(1)) (simp add: parse_fuel_def)
  then obtain e r where "parse_one_expr (parse_fuel str) str = Some (e, r)" by auto
  with parse_progress(1) [OF this] show ?thesis by (auto simp: cras_expr_expression_parse_def)
qed

section \<open>Printing and parsing\<close>

text \<open>The concrete syntax of the expressions the parser can produce.\<close>

fun print_nat :: "nat \<Rightarrow> string" where
  "print_nat n = (if n < 10 then [char_of (48 + n)] else print_nat (n div 10) @ [char_of (48 + n mod 10)])"

declare print_nat.simps [simp del]

fun print_value :: "cras_expr_value \<Rightarrow> string" where
  "print_value (Value_boolean b) = (if b then ''#t'' else ''#f'')"
| "print_value (Value_int i) = (if i < 0 then CHR ''-'' # print_nat (nat (- i)) else print_nat (nat i))"
| "print_value (Value_string s) = quote # s @ [quote]"
| "print_value _ = []"

fun print_expr :: "cras_expr_expression \<Rightarrow> string" where
  "print_expr (Expr_literal v) = print_value v"
| "print_expr (Expr_variable v) = v"
| "print_expr (Expr_compound es) = CHR ''('' # concat (map (\<lambda>e. print_expr e @ '' '') es) @ '')''"
| "print_expr Expr_none = []"

fun value_ok :: "cras_expr_value \<Rightarrow> bool" where
  "value_ok (Value_boolean b) = True"
| "value_ok (Value_int i) = in_s 32 i"
| "value_ok (Value_string s) = list_all (\<lambda>c. c \<noteq> quote) s"
| "value_ok _ = False"

fun expr_ok :: "cras_expr_expression \<Rightarrow> bool" where
  "expr_ok (Expr_literal v) = value_ok v"
| "expr_ok (Expr_variable v) = (v \<noteq> [] \<and> list_all is_identifier_char v)"
| "expr_ok (Expr_compound es) = list_all expr_ok es"
| "expr_ok Expr_none = False"

lemma digit_char: "d < 10 \<Longrightarrow> char_code (char_of (48 + d :: nat)) = 48 + int d"
  by (simp add: char_code_def)

lemma isdigit_char: "d < 10 \<Longrightarrow> isdigit (char_of (48 + d :: nat))"
  by (simp add: isdigit_def digit_char)

lemma print_nat_digits: "list_all isdigit (print_nat n) \<and> print_nat n \<noteq> [] \<and> digits_value (print_nat n) = int n"
proof (induction n rule: print_nat.induct)
  case (1 n)
  show ?case
  proof (cases "n < 10")
    case True
    then have "print_nat n = [char_of (48 + n)]" by (simp add: print_nat.simps)
    then show ?thesis using True by (simp add: digits_value_def digit_char isdigit_char)
  next
    case False
    then have eq: "print_nat n = print_nat (n div 10) @ [char_of (48 + n mod 10)]" by (subst print_nat.simps) simp
    have m: "n mod 10 < 10" by simp
    have "int (n div 10) * 10 + int (n mod 10) = int n"
      by (metis div_mult_mod_eq of_nat_add of_nat_mult of_nat_numeral)
    moreover have "digits_value (print_nat n) = digits_value (print_nat (n div 10)) * 10 + int (n mod 10)"
      unfolding eq digits_value_def by (simp add: digit_char [OF m])
    ultimately show ?thesis using 1 [OF False] isdigit_char [OF m] by (simp add: eq)
  qed
qed

text \<open>What may follow an expression.\<close>

abbreviation delimited :: "string \<Rightarrow> bool" where
  "delimited rest \<equiv> rest = [] \<or> isspace (hd rest) \<or> hd rest = CHR '')''"

lemmas char_class_defs = isspace_def isdigit_def isalpha_def is_identifier_char_def char_code_def quote_def

lemma not_identifier_chars:
  "\<not> is_identifier_char (CHR ''('')" "\<not> is_identifier_char (CHR ''#'')" "\<not> is_identifier_char quote"
  by (simp_all add: char_class_defs)

lemma identifier_char_classes: "is_identifier_char c \<Longrightarrow> \<not> isspace c \<and> \<not> isdigit c"
proof -
  have "\<not> isdigit (CHR ''_'')" "\<not> isdigit (CHR ''-'')" "\<not> isdigit (CHR ''?'')" by (simp_all add: char_class_defs)
  moreover have "isalpha c \<Longrightarrow> \<not> isdigit c" by (auto simp: isalpha_def isdigit_def)
  moreover assume "is_identifier_char c"
  ultimately show ?thesis by (auto simp: is_identifier_char_def split: if_splits)
qed

lemma delimited_not:
  "delimited rest \<Longrightarrow> rest = [] \<or> \<not> isdigit (hd rest) \<and> \<not> is_identifier_char (hd rest)"
  by (auto simp: char_class_defs)

lemma split_while:
  assumes "list_all P xs" "rest = [] \<or> \<not> P (hd rest)"
  shows "takeWhile P (xs @ rest) = xs" "dropWhile P (xs @ rest) = rest"
proof -
  have "takeWhile P rest = []" "dropWhile P rest = rest" using assms(2) by (cases rest; simp)+
  with assms(1) show "takeWhile P (xs @ rest) = xs" "dropWhile P (xs @ rest) = rest"
    by (simp_all add: list_all_iff)
qed

lemma strtol_print:
  assumes "in_s 32 i" "delimited rest"
  shows "strtol (print_value (Value_int i) @ rest) = (i, rest)"
proof -
  let ?ds = "print_nat (nat \<bar>i\<bar>)"
  note d = print_nat_digits [of "nat \<bar>i\<bar>"]
  have "isdigit (hd ?ds)" "?ds \<noteq> []" using d by (auto simp: list_all_iff)
  then have hd: "hd (?ds @ rest) \<noteq> CHR ''-''" by (auto simp: char_class_defs)
  have sp: "takeWhile isdigit (?ds @ rest) = ?ds" "dropWhile isdigit (?ds @ rest) = rest"
    using d delimited_not [OF assms(2)] by (auto intro!: split_while)
  have clip: "clip LONG_MIN LONG_MAX i = i"
    using assms(1) by (intro clip_id) (auto simp: in_s_def LONG_MIN_def LONG_MAX_def)
  show ?thesis
  proof (cases "i < 0")
    case True
    then have "print_value (Value_int i) = CHR ''-'' # ?ds" by simp
    then show ?thesis using d sp clip True by (simp add: strtol_def Let_def)
  next
    case False
    then have "print_value (Value_int i) = ?ds" by simp
    then show ?thesis using d sp clip False hd by (simp add: strtol_def Let_def)
  qed
qed

lemma parse_int:
  assumes "in_s 32 i" "delimited rest"
  shows "\<exists>c t. print_value (Value_int i) = c # t \<and> \<not> isspace c \<and> c \<noteq> CHR ''('' \<and>
    parse_atom c (t @ rest) = (Some (Expr_literal (Value_int i)), rest)"
proof -
  let ?ds = "print_nat (nat \<bar>i\<bar>)"
  obtain c t where ct: "print_value (Value_int i) = c # t" using print_nat_digits by (cases "print_value (Value_int i)") (auto split: if_splits)
  have ds: "?ds \<noteq> []" "isdigit (hd ?ds)" using print_nat_digits [of "nat \<bar>i\<bar>"] by (auto simp: list_all_iff)
  have num: "isdigit c \<or> c = CHR ''-'' \<and> t @ rest \<noteq> [] \<and> isdigit (hd (t @ rest))"
  proof (cases "i < 0")
    case True
    then have "c = CHR ''-''" "t = ?ds" using ct by auto
    then show ?thesis using ds by simp
  next
    case False
    then have "?ds = c # t" using ct by simp
    then show ?thesis using ds by simp
  qed
  then have c: "\<not> isspace c" "c \<noteq> CHR ''(''" "c \<noteq> CHR ''#''" by (auto simp: char_class_defs)
  have "strtol (c # t @ rest) = (i, rest)" using strtol_print [OF assms] ct by simp
  moreover have "s32 i = i" using assms(1) by (simp add: in_s_wrap_id)
  ultimately have "parse_atom c (t @ rest) = (Some (Expr_literal (Value_int i)), rest)"
    unfolding parse_atom_def using num c(3) by simp
  with ct c show ?thesis by blast
qed

lemma parse_print_atom:
  assumes "expr_ok e" "delimited rest" "\<And>es. e \<noteq> Expr_compound es"
  shows "\<exists>c t. print_expr e = c # t \<and> \<not> isspace c \<and> c \<noteq> CHR ''('' \<and> parse_atom c (t @ rest) = (Some e, rest)"
proof (cases e)
  case (Expr_literal v)
  show ?thesis
  proof (cases v)
    case (Value_boolean b)
    then show ?thesis using Expr_literal by (auto simp: parse_atom_def char_class_defs)
  next
    case (Value_int i)
    then show ?thesis using Expr_literal assms(1) parse_int [OF _ assms(2)] by simp
  next
    case (Value_string s)
    have "takeWhile (\<lambda>d. d \<noteq> quote) (s @ quote # rest) = s" "dropWhile (\<lambda>d. d \<noteq> quote) (s @ quote # rest) = quote # rest"
      using split_while [of "\<lambda>d. d \<noteq> quote" s "quote # rest"] assms(1) Expr_literal Value_string by simp_all
    moreover have "\<not> isdigit quote" "quote \<noteq> CHR ''#''" "quote \<noteq> CHR ''-''" "quote \<noteq> CHR ''(''" "\<not> isspace quote"
      by (auto simp: char_class_defs)
    ultimately show ?thesis using Expr_literal Value_string by (auto simp: parse_atom_def)
  qed (use assms(1) Expr_literal in simp_all)
next
  case (Expr_variable v)
  then obtain c t where v: "v = c # t" "is_identifier_char c" "list_all is_identifier_char v"
    using assms(1) by (cases v) auto
  then have c: "\<not> isspace c" "c \<noteq> CHR ''(''" "c \<noteq> CHR ''#''" "c \<noteq> quote" "\<not> isdigit c"
    using not_identifier_chars identifier_char_classes by auto
  have nd: "\<not> (t @ rest \<noteq> [] \<and> isdigit (hd (t @ rest)))"
    using v(1,3) delimited_not [OF assms(2)] identifier_char_classes by (cases t) auto
  note sp = split_while [OF v(3), of rest]
  have "parse_atom c (t @ rest) = (Some (Expr_variable v), rest)"
    unfolding parse_atom_def using c nd v(1,2) sp delimited_not [OF assms(2)] by auto
  then show ?thesis using Expr_variable v(1) c by auto
qed (use assms in simp_all)

lemma parse_skip_space:
  "parse_one_expr n (CHR '' '' # s) = parse_one_expr n s" "parse_sub_exprs n (CHR '' '' # s) = parse_sub_exprs n s"
proof -
  show one: "parse_one_expr n (CHR '' '' # s) = parse_one_expr n s" for n
    by (cases n) (simp_all add: isspace_def char_code_def)
  show "parse_sub_exprs n (CHR '' '' # s) = parse_sub_exprs n s" by (cases n) (simp_all add: one)
qed

lemma parse_close: "\<exists>n. parse_sub_exprs n (CHR '')'' # rest) = Some ([], CHR '')'' # rest)"
proof -
  have "parse_atom (CHR '')'') rest = (None, CHR '')'' # rest)" by (simp add: parse_atom_def char_class_defs)
  then have "parse_sub_exprs (Suc (Suc 0)) (CHR '')'' # rest) = Some ([], CHR '')'' # rest)"
    by (simp add: isspace_def char_code_def)
  then show ?thesis by blast
qed

lemma parse_print_subs:
  assumes "\<And>e rest. e \<in> set es \<Longrightarrow> delimited rest \<Longrightarrow> \<exists>n. parse_one_expr n (print_expr e @ rest) = Some (Some e, rest)"
  shows "\<exists>n. parse_sub_exprs n (concat (map (\<lambda>e. print_expr e @ '' '') es) @ CHR '')'' # rest) = Some (es, CHR '')'' # rest)"
  using assms
proof (induction es)
  case Nil
  then show ?case using parse_close by simp
next
  case (Cons e es)
  let ?tail = "concat (map (\<lambda>e. print_expr e @ '' '') es) @ CHR '')'' # rest"
  from Cons obtain n1 where n1: "parse_sub_exprs n1 ?tail = Some (es, CHR '')'' # rest)" by auto
  have "delimited (CHR '' '' # ?tail)" by (simp add: isspace_def char_code_def)
  then obtain n2 where n2: "parse_one_expr n2 (print_expr e @ CHR '' '' # ?tail) = Some (Some e, CHR '' '' # ?tail)"
    using Cons.prems [of e "CHR '' '' # ?tail"] by auto
  have "parse_sub_exprs (n2 + n1) ?tail = Some (es, CHR '')'' # rest)"
    using parse_fuel_mono(2) [OF n1, of n2] by (simp add: add.commute)
  moreover have "parse_one_expr (n2 + n1) (print_expr e @ CHR '' '' # ?tail) = Some (Some e, CHR '' '' # ?tail)"
    by (rule parse_fuel_mono(1) [OF n2])
  ultimately have "parse_sub_exprs (Suc (n2 + n1)) (print_expr e @ CHR '' '' # ?tail) = Some (e # es, CHR '')'' # rest)"
    by (simp add: parse_skip_space)
  then show ?case by (intro exI [of _ "Suc (n2 + n1)"]) (simp only: list.map concat.simps append_assoc append.simps)
qed

lemma parse_print:
  "expr_ok e \<Longrightarrow> delimited rest \<Longrightarrow> \<exists>n. parse_one_expr n (print_expr e @ rest) = Some (Some e, rest)"
proof (induction e arbitrary: rest)
  case (Expr_compound es)
  then obtain n where "parse_sub_exprs n (concat (map (\<lambda>e. print_expr e @ '' '') es) @ CHR '')'' # rest)
      = Some (es, CHR '')'' # rest)" using parse_print_subs [of es rest] by (auto simp: list_all_iff)
  then have "parse_one_expr (Suc n) (print_expr (Expr_compound es) @ rest) = Some (Some (Expr_compound es), rest)"
    by (simp add: isspace_def char_code_def)
  then show ?case by blast
next
  case (Expr_literal v)
  then obtain c t where "print_expr (Expr_literal v) = c # t" "\<not> isspace c" "c \<noteq> CHR ''(''"
    "parse_atom c (t @ rest) = (Some (Expr_literal v), rest)" using parse_print_atom by blast
  then show ?case by (intro exI [of _ "Suc 0"]) simp
next
  case (Expr_variable v)
  then obtain c t where "print_expr (Expr_variable v) = c # t" "\<not> isspace c" "c \<noteq> CHR ''(''"
    "parse_atom c (t @ rest) = (Some (Expr_variable v), rest)" using parse_print_atom by blast
  then show ?case by (intro exI [of _ "Suc 0"]) simp
qed simp

text \<open>C27. The parser inverts the concrete syntax: every expression built from booleans, 32 bit integers,
  strings without a quote, identifiers and nested compounds is parsed back from its text.\<close>

theorem expr_parse_print:
  assumes "expr_ok e"
  shows "cras_expr_expression_parse (Some (print_expr e)) = Some e"
proof -
  let ?s = "print_expr e"
  obtain n where n: "parse_one_expr n ?s = Some (Some e, [])" using parse_print [OF assms, of "[]"] by auto
  obtain x where x: "parse_one_expr (parse_fuel ?s) ?s = Some x"
    using parse_fuel_enough(1) [of ?s "parse_fuel ?s"] by (auto simp: parse_fuel_def)
  have "x = (Some e, [])"
    using parse_fuel_mono(1) [OF n, of "parse_fuel ?s"] parse_fuel_mono(1) [OF x, of n] by (simp add: add.commute)
  then show ?thesis using x by (simp add: cras_expr_expression_parse_def)
qed

theorem expr_parse_print_witness:
  "cras_expr_expression_parse (Some ''(and #t (not flag ) (equal? n -12 ) ) '') \<noteq> None \<and>
   cras_expr_expression_parse (Some (print_expr (Expr_compound [Expr_variable ''not'', Expr_literal (Value_int (-12))])))
     = Some (Expr_compound [Expr_variable ''not'', Expr_literal (Value_int (-12))])"
proof -
  have "expr_ok (Expr_compound [Expr_variable ''not'', Expr_literal (Value_int (-12))])" by code_simp
  from expr_parse_print [OF this] show ?thesis by code_simp
qed

section \<open>The environment as a store\<close>

text \<open>What users of an environment rely on: a variable reads back the value last stored.\<close>

locale variable_store =
  fixes invar :: "'s \<Rightarrow> bool" and lookup :: "'s \<Rightarrow> 'k \<Rightarrow> 'v option" and update :: "'s \<Rightarrow> 'k \<Rightarrow> 'v \<Rightarrow> 's"
  assumes invar_update: "invar s \<Longrightarrow> invar (update s k v)"
    and lookup_update: "invar s \<Longrightarrow> lookup (update s k v) = (lookup s)(k \<mapsto> v)"
begin

lemma lookup_updates:
  "invar s \<Longrightarrow> invar (foldl (\<lambda>s (k, v). update s k v) s kvs)
     \<and> lookup (foldl (\<lambda>s (k, v). update s k v) s kvs) = lookup s ++ map_of (rev kvs)"
proof (induction kvs arbitrary: s)
  case (Cons kv kvs)
  obtain k v where kv: "kv = (k, v)" by (cases kv)
  show ?case
    using Cons.IH [OF invar_update [OF Cons.prems, of k v]] unfolding lookup_update [OF Cons.prems, of k v]
    by (simp add: kv) (auto simp: map_add_def fun_eq_iff split: option.split)
qed simp

end

definition env_wf :: "cras_expr_env \<Rightarrow> bool" where
  "env_wf env \<longleftrightarrow> length (keys env) = length (vals env)"

lemma find_key_zip:
  "length ks = length vs \<Longrightarrow>
   map_option (\<lambda>j. (pre @ vs) ! j) (find_key ks (length pre) name) = map_of (zip ks vs) name"
proof (induction ks vs arbitrary: pre rule: list_induct2)
  case (Cons k ks v vs)
  show ?case using Cons.IH [of "pre @ [v]"] by simp
qed simp

lemma find_value_eq: "env_wf env \<Longrightarrow> find_value env = map_of (zip (keys env) (vals env))"
  using find_key_zip [of "keys env" "vals env" "[]"] by (auto simp: env_wf_def find_value_def)

lemma find_key_update:
  "length ks = length vs \<Longrightarrow> find_key ks n k = Some i \<Longrightarrow>
   n \<le> i \<and> map_of (zip ks (vs[i - n := v])) = (map_of (zip ks vs))(k \<mapsto> v)"
proof (induction ks vs arbitrary: n rule: list_induct2)
  case (Cons k' ks v' vs)
  show ?case
  proof (cases "k' = k")
    case False
    then have "find_key ks (Suc n) k = Some i" using Cons.prems by simp
    note IH = Cons.IH [OF this]
    then have "i - n = Suc (i - Suc n)" "n \<le> i" by auto
    moreover have "map_of (zip ks (vs[i - Suc n := v])) = (map_of (zip ks vs))(k \<mapsto> v)" using IH by blast
    ultimately show ?thesis using False by (auto simp: fun_upd_twist)
  qed (use Cons.prems in auto)
qed simp

lemma find_key_None: "find_key ks n k = None \<longleftrightarrow> k \<notin> set ks"
  by (induction ks arbitrary: n) auto

lemma store_found:
  assumes "env_wf env" "find_or_insert_value env k = (i, env')"
  shows "env_wf (env'\<lparr>vals := (vals env')[i := v]\<rparr>)
    \<and> find_value (env'\<lparr>vals := (vals env')[i := v]\<rparr>) = (find_value env)(k \<mapsto> v)"
proof (cases "find_key (keys env) 0 k")
  case None
  then have e: "i = length (vals env)" "env' = env\<lparr>keys := keys env @ [k], vals := vals env @ [Value_none]\<rparr>"
    using assms(2) by (auto simp: find_or_insert_value_def insert_value_def)
  have wf: "env_wf (env'\<lparr>vals := (vals env')[i := v]\<rparr>)" using assms(1) e by (simp add: env_wf_def)
  have "map_of (zip (keys env) (vals env)) k = None" using None assms(1) by (simp add: find_key_None env_wf_def)
  then have "map_of (zip (keys env) (vals env) @ [(k, v)]) = (map_of (zip (keys env) (vals env)))(k \<mapsto> v)"
    by (auto simp: map_add_def split: option.split)
  then show ?thesis
    using wf e assms(1) by (simp add: find_value_eq) (simp add: env_wf_def)
next
  case (Some j)
  then have e: "i = j" "env' = env" using assms(2) by (auto simp: find_or_insert_value_def)
  have wf: "env_wf (env'\<lparr>vals := (vals env')[i := v]\<rparr>)" using assms(1) e by (simp add: env_wf_def)
  have "map_of (zip (keys env) ((vals env)[j := v])) = (map_of (zip (keys env) (vals env)))(k \<mapsto> v)"
    using find_key_update [OF _ Some, of "vals env" v] assms(1) by (simp add: env_wf_def)
  then show ?thesis using wf e assms(1) by (simp add: find_value_eq)
qed

interpretation env_store: variable_store env_wf find_value env_set_variable
  by unfold_locales (auto simp: env_set_variable_def case_prod_beta dest: store_found [OF _ prod.collapse [symmetric]])

text \<open>The typed setters are stores of the wrapped value.\<close>

lemma env_setters:
  "cras_expr_env_set_variable_boolean env k b = env_set_variable env k (Value_boolean (b \<noteq> 0))"
  "cras_expr_env_set_variable_integer env k i = env_set_variable env k (Value_int i)"
  "cras_expr_env_set_variable_string env k str = env_set_variable env k (Value_string str)"
  by (simp_all add: env_set_variable_def cras_expr_env_set_variable_boolean_def
      cras_expr_env_set_variable_integer_def cras_expr_env_set_variable_string_def)

text \<open>A variable evaluates to the value last stored under its name, after any sequence of stores
  in any environment, and a name that was never stored keeps its former meaning.\<close>

lemma env_last_store_wins:
  assumes "env_wf env"
  shows "find_value (foldl (\<lambda>env (k, v). env_set_variable env k v) env stores) = find_value env ++ map_of (rev stores)
    \<and> cras_expr_expression_eval (foldl (\<lambda>env (k, v). env_set_variable env k v) env stores) (Expr_variable x)
      = (case map_of (rev stores) x of Some v \<Rightarrow> v
         | None \<Rightarrow> cras_expr_expression_eval env (Expr_variable x))"
  using env_store.lookup_updates [OF assms, of stores] by (auto simp: map_add_def split: option.split)

section \<open>Boolean expressions\<close>

text \<open>The logic the configuration writer has in mind, and its rendering as an expression.\<close>

datatype bexp = Const bool | Var string | Not bexp | And "bexp list" | Or "bexp list" | Iff bexp bexp

fun bval :: "(string \<Rightarrow> bool) \<Rightarrow> bexp \<Rightarrow> bool" where
  "bval s (Const b) = b"
| "bval s (Var x) = s x"
| "bval s (Not b) = (\<not> bval s b)"
| "bval s (And bs) = (\<forall>b\<in>set bs. bval s b)"
| "bval s (Or bs) = (\<exists>b\<in>set bs. bval s b)"
| "bval s (Iff a b) = (bval s a = bval s b)"

fun bexpr :: "bexp \<Rightarrow> cras_expr_expression" where
  "bexpr (Const b) = Expr_literal (Value_boolean b)"
| "bexpr (Var x) = Expr_variable x"
| "bexpr (Not b) = Expr_compound [Expr_variable ''not'', bexpr b]"
| "bexpr (And bs) = Expr_compound (Expr_variable ''and'' # map bexpr bs)"
| "bexpr (Or bs) = Expr_compound (Expr_variable ''or'' # map bexpr bs)"
| "bexpr (Iff a b) = Expr_compound [Expr_variable ''equal?'', bexpr a, bexpr b]"

fun bvars :: "bexp \<Rightarrow> string set" where
  "bvars (Const b) = {}"
| "bvars (Var x) = {x}"
| "bvars (Not b) = bvars b"
| "bvars (And bs) = (\<Union>b\<in>set bs. bvars b)"
| "bvars (Or bs) = (\<Union>b\<in>set bs. bvars b)"
| "bvars (Iff a b) = bvars a \<union> bvars b"

text \<open>An environment with the built-ins, in which \<open>s\<close> gives the boolean variables of \<open>X\<close>.\<close>

definition env_for :: "(string \<Rightarrow> bool) \<Rightarrow> string set \<Rightarrow> cras_expr_env \<Rightarrow> bool" where
  "env_for s X env \<longleftrightarrow>
     find_value env ''not'' = Some (Value_function Function_not) \<and>
     find_value env ''and'' = Some (Value_function Function_and) \<and>
     find_value env ''or'' = Some (Value_function Function_or) \<and>
     find_value env ''equal?'' = Some (Value_function Function_equal) \<and>
     (\<forall>x\<in>X. find_value env x = Some (Value_boolean (s x)))"

lemma function_and_bool:
  "function_and (f # map Value_boolean bs) = Value_boolean (list_all id bs)"
proof (cases bs rule: rev_cases)
  case (snoc bs' b)
  then show ?thesis by (auto simp: function_and_def Let_def nth_append list_all_iff)
qed (simp add: function_and_def)

lemma function_or_bool: "function_or (f # map Value_boolean bs) = Value_boolean (list_ex id bs)"
  unfolding function_or_def by (induction bs) auto

lemma map_bexpr_eval:
  assumes "\<And>b. b \<in> set bs \<Longrightarrow> cras_expr_expression_eval env (bexpr b) = Value_boolean (bval s b)"
  shows "map (cras_expr_expression_eval env) (map bexpr bs) = map Value_boolean (map (bval s) bs)"
  using assms by (induction bs) auto

text \<open>The evaluator implements boolean logic: in an environment with the built-in functions, the
  rendering of any formula over boolean variables with not, and, or (of any number of operands) and
  equality evaluates, without error, to the truth value of the formula.\<close>

lemma eval_boolean_logic:
  assumes "env_for s (bvars b) env"
  shows "cras_expr_expression_eval_boolean (bexpr b) env = (0, Some (bval s b))"
proof -
  have "cras_expr_expression_eval env (bexpr b) = Value_boolean (bval s b)"
    using assms
  proof (induction b)
    case (And bs)
    then have m: "map (cras_expr_expression_eval env) (map bexpr bs) = map Value_boolean (map (bval s) bs)"
      by (intro map_bexpr_eval) (auto simp: env_for_def)
    have "find_value env ''and'' = Some (Value_function Function_and)" using And.prems by (simp add: env_for_def)
    then show ?case by (simp add: m function_and_bool list_all_iff del: map_map)
  next
    case (Or bs)
    then have m: "map (cras_expr_expression_eval env) (map bexpr bs) = map Value_boolean (map (bval s) bs)"
      by (intro map_bexpr_eval) (auto simp: env_for_def)
    have "find_value env ''or'' = Some (Value_function Function_or)" using Or.prems by (simp add: env_for_def)
    then show ?case by (simp add: m function_or_bool list_ex_iff del: map_map)
  qed (auto simp: env_for_def Let_def function_not_def function_equal_def function_equal_real_def)
  then show ?thesis by (simp add: cras_expr_expression_eval_boolean_def)
qed

end
