(* ===== verification/Dsp_Ini.thy ===== *)
theory Dsp_Ini
  imports Complex_Main Cras_Expr
begin

text \<open>
  The static DSP graph of \<open>cras/src/server/cras_dsp_ini.c\<close>: plugins with ports, and the flows that
  connect an output port to an input port. A pointer to a plugin is its index in the array of
  plugins, and the NULL of a flow that has no end yet is None.

  The dictionary is a parameter: \<open>dict\<close> maps a full key to its text, as \<open>iniparser_getstring\<close> of the
  third-party ini parser does, and \<open>secs\<close> lists the section names. The C library's \<open>strtof\<close> is a
  parameter too (None when no number starts the text). Memory allocation is taken to succeed.
\<close>

section \<open>Model\<close>

datatype port_direction = PORT_INPUT | PORT_OUTPUT

datatype port_type = PORT_CONTROL | PORT_AUDIO

definition INVALID_FLOW_ID :: int where "INVALID_FLOW_ID = -1"

record port =
  direction :: port_direction
  port_type :: port_type
  flow_id :: int
  init_value :: real

record plugin =
  plug_title :: string
  plug_library :: string
  plug_label :: string
  plug_purpose :: "string option"
  disable_expr :: "cras_expr_expression option"
  ports :: "port list"

record flow =
  flow_type :: port_type
  flow_name :: string
  flow_from :: "nat option"
  flow_to :: "nat option"
  from_port :: nat
  to_port :: nat

record ini =
  plugins :: "plugin list"
  flows :: "flow list"

type_synonym dictionary = "string \<Rightarrow> string option"

definition MAX_NR_PORT :: nat where "MAX_NR_PORT = 128"
definition MAX_INI_KEY_LENGTH :: nat where "MAX_INI_KEY_LENGTH = 63"
definition MAX_MOCK_INI_CH :: nat where "MAX_MOCK_INI_CH = 32"

definition getstring :: "dictionary \<Rightarrow> string \<Rightarrow> string \<Rightarrow> string option" where
  "getstring dict sec_name key = dict (take MAX_INI_KEY_LENGTH (sec_name @ '':'' @ key))"

subsection \<open>Flows\<close>

fun lookup_flow_loop :: "flow list \<Rightarrow> nat \<Rightarrow> string \<Rightarrow> int" where
  "lookup_flow_loop [] i name = INVALID_FLOW_ID"
| "lookup_flow_loop (f # fs) i name = (if flow_name f = name then int i else lookup_flow_loop fs (Suc i) name)"

definition lookup_flow :: "flow list \<Rightarrow> string \<Rightarrow> int" where
  "lookup_flow fs name = lookup_flow_loop fs 0 name"

text \<open>The zeroed element of \<open>ARRAY_APPEND_ZERO\<close>, with its name.\<close>

definition new_flow :: "string \<Rightarrow> flow" where
  "new_flow name = \<lparr>flow_type = PORT_CONTROL, flow_name = name, flow_from = None, flow_to = None,
     from_port = 0, to_port = 0\<rparr>"

definition lookup_or_add_flow :: "flow list \<Rightarrow> string \<Rightarrow> int \<times> flow list" where
  "lookup_or_add_flow fs name =
     (let i = lookup_flow fs name in
      if i \<noteq> -1 then (i, fs) else (int (length fs), fs @ [new_flow name]))"

definition add_new_flow :: "flow list \<Rightarrow> string \<Rightarrow> int \<times> flow list" where
  "add_new_flow fs name =
     (let i = lookup_flow fs name in
      if i \<noteq> -1 then (INVALID_FLOW_ID, fs) else (int (length fs), fs @ [new_flow name]))"

subsection \<open>Parsing a section\<close>

definition parse_float :: "(string \<Rightarrow> real option) \<Rightarrow> string \<Rightarrow> real" where
  "parse_float strtof str = (case strtof str of Some f \<Rightarrow> f | None \<Rightarrow> 0)"

text \<open>The text of port number \<open>i\<close>, looked up as an input and then as an output.\<close>

definition port_text :: "dictionary \<Rightarrow> string \<Rightarrow> nat \<Rightarrow> (port_direction \<times> string) option" where
  "port_text dict sec_name i =
     (case getstring dict sec_name (''input_'' @ print_nat i) of
        Some str \<Rightarrow> Some (PORT_INPUT, str)
      | None \<Rightarrow>
          (case getstring dict sec_name (''output_'' @ print_nat i) of
             Some str \<Rightarrow> Some (PORT_OUTPUT, str)
           | None \<Rightarrow> None))"

text \<open>One iteration for port number \<open>i\<close>; \<open>m\<close> iterations are left. The result is an errno or the flows
  and the ports so far.\<close>

fun parse_ports_loop ::
  "dictionary \<Rightarrow> (string \<Rightarrow> real option) \<Rightarrow> string \<Rightarrow> nat \<Rightarrow> nat \<Rightarrow> flow list \<Rightarrow> port list
     \<Rightarrow> int + flow list \<times> port list" where
  "parse_ports_loop dict strtof sec_name 0 i fs ps = Inr (fs, ps)"
| "parse_ports_loop dict strtof sec_name (Suc m) i fs ps =
     (case port_text dict sec_name i of
        None \<Rightarrow> Inr (fs, ps)
      | Some (dir, str) \<Rightarrow>
          if str = [] then Inl (- EINVAL)
          else if hd str = CHR ''<'' \<or> hd str = CHR ''{'' then
            (let (fid, fs) = lookup_or_add_flow fs str;
                 p = \<lparr>direction = dir, port_type = (if hd str = CHR ''<'' then PORT_CONTROL else PORT_AUDIO),
                      flow_id = fid, init_value = 0\<rparr>
             in parse_ports_loop dict strtof sec_name m (Suc i) fs (ps @ [p]))
          else
            (let p = \<lparr>direction = dir, port_type = PORT_CONTROL, flow_id = INVALID_FLOW_ID,
                      init_value = parse_float strtof str\<rparr>
             in parse_ports_loop dict strtof sec_name m (Suc i) fs (ps @ [p])))"

definition parse_ports ::
  "dictionary \<Rightarrow> (string \<Rightarrow> real option) \<Rightarrow> string \<Rightarrow> flow list \<Rightarrow> int + flow list \<times> port list" where
  "parse_ports dict strtof sec_name fs = parse_ports_loop dict strtof sec_name MAX_NR_PORT 0 fs []"

definition parse_plugin_section ::
  "dictionary \<Rightarrow> (string \<Rightarrow> real option) \<Rightarrow> string \<Rightarrow> flow list \<Rightarrow> int + flow list \<times> plugin" where
  "parse_plugin_section dict strtof sec_name fs =
     (let library = getstring dict sec_name ''library'';
          label = getstring dict sec_name ''label'';
          purpose = getstring dict sec_name ''purpose'';
          disable = cras_expr_expression_parse (getstring dict sec_name ''disable'')
      in case (library, label) of
           (Some lib, Some lab) \<Rightarrow>
             (case parse_ports dict strtof sec_name fs of
                Inl e \<Rightarrow> Inl (- EINVAL)
              | Inr (fs, ps) \<Rightarrow>
                  Inr (fs, \<lparr>plug_title = sec_name, plug_library = lib, plug_label = lab,
                            plug_purpose = purpose, disable_expr = disable, ports = ps\<rparr>))
         | _ \<Rightarrow> Inl (- EINVAL))"

subsection \<open>Connecting the ports\<close>

text \<open>The body of the inner loop, for port \<open>j\<close> of plugin \<open>i\<close>.\<close>

definition fill_port :: "nat \<Rightarrow> flow list \<Rightarrow> nat \<times> port \<Rightarrow> flow list" where
  "fill_port i fs jp =
     (let (j, p) = jp; fid = flow_id p in
      if fid = INVALID_FLOW_ID then fs
      else let f = (fs ! nat fid)\<lparr>flow_type := port_type p\<rparr>
           in fs[nat fid := (if direction p = PORT_INPUT then f\<lparr>flow_to := Some i, to_port := j\<rparr>
                             else f\<lparr>flow_from := Some i, from_port := j\<rparr>)])"

definition fill_flow_info :: "ini \<Rightarrow> ini" where
  "fill_flow_info g =
     g\<lparr>flows := foldl (\<lambda>fs (i, pl). foldl (fill_port i) fs (List.enumerate 0 (ports pl)))
                 (flows g) (List.enumerate 0 (plugins g))\<rparr>"

definition add_audio_port :: "plugin \<Rightarrow> int \<Rightarrow> port_direction \<Rightarrow> plugin" where
  "add_audio_port pl fid dir =
     pl\<lparr>ports := ports pl @ [\<lparr>direction = dir, port_type = PORT_AUDIO, flow_id = fid, init_value = 0\<rparr>]\<rparr>"

subsection \<open>The rotation plugin for four-channel playback\<close>

fun find_first_playback_sink_loop :: "plugin list \<Rightarrow> nat \<Rightarrow> nat option" where
  "find_first_playback_sink_loop [] i = None"
| "find_first_playback_sink_loop (p # ps) i =
     (if plug_library p \<noteq> ''builtin'' then find_first_playback_sink_loop ps (Suc i)
      else if plug_label p \<noteq> ''sink'' then find_first_playback_sink_loop ps (Suc i)
      else if plug_purpose p \<noteq> Some ''playback'' then find_first_playback_sink_loop ps (Suc i)
      else Some i)"

definition find_first_playback_sink_plugin :: "ini \<Rightarrow> nat option" where
  "find_first_playback_sink_plugin g = find_first_playback_sink_loop (plugins g) 0"

definition builtin_plugin :: "string \<Rightarrow> string \<Rightarrow> string option \<Rightarrow> plugin" where
  "builtin_plugin title label purpose =
     \<lparr>plug_title = title, plug_library = ''builtin'', plug_label = label, plug_purpose = purpose,
      disable_expr = None, ports = []\<rparr>"

definition fill_quad_rotaion_plugin :: "int list \<Rightarrow> int list \<Rightarrow> plugin" where
  "fill_quad_rotaion_plugin input_flowid output_flowid =
     (let pl = builtin_plugin ''quad_rotation'' ''quad_rotation'' (Some ''playback'');
          pl = foldl (\<lambda>pl i. add_audio_port pl (input_flowid ! i) PORT_INPUT) pl [0..<4]
      in foldl (\<lambda>pl i. add_audio_port pl (output_flowid ! i) PORT_OUTPUT) pl [0..<4])"

definition quad_flow_names :: "string list" where
  "quad_flow_names = [''{quad_rotation_0}'', ''{quad_rotation_1}'', ''{quad_rotation_2}'', ''{quad_rotation_3}'']"

text \<open>The loop that adds the four new flows; an existing name is an error.\<close>

fun add_quad_flows :: "string list \<Rightarrow> flow list \<Rightarrow> int + int list \<times> flow list" where
  "add_quad_flows [] fs = Inr ([], fs)"
| "add_quad_flows (n # ns) fs =
     (let (fid, fs) = add_new_flow fs n in
      if fid = INVALID_FLOW_ID then Inl (- EINVAL)
      else case add_quad_flows ns fs of Inl e \<Rightarrow> Inl e | Inr (fids, fs) \<Rightarrow> Inr (fid # fids, fs))"

definition insert_quad_rotation_plugin :: "ini \<Rightarrow> int + ini" where
  "insert_quad_rotation_plugin g =
     (case find_first_playback_sink_plugin g of
        None \<Rightarrow> Inr g
      | Some s \<Rightarrow>
          if length (ports (plugins g ! s)) \<noteq> 4 then Inr g
          else
            let sink_input_flowid = map flow_id (ports (plugins g ! s)) in
            case add_quad_flows quad_flow_names (flows g) of
              Inl e \<Rightarrow> Inl e
            | Inr (output_flowid, fs) \<Rightarrow>
                let g = g\<lparr>plugins := plugins g @ [fill_quad_rotaion_plugin sink_input_flowid output_flowid],
                          flows := fs\<rparr>
                in case find_first_playback_sink_plugin g of
                     None \<Rightarrow> Inr g
                   | Some s \<Rightarrow>
                       let sink = plugins g ! s;
                           ps = foldl (\<lambda>ps i. ps[i := (ps ! i)\<lparr>flow_id := output_flowid ! i\<rparr>]) (ports sink) [0..<4]
                       in Inr (g\<lparr>plugins := (plugins g)[s := sink\<lparr>ports := ps\<rparr>]\<rparr>))"

subsection \<open>Creating an ini\<close>

definition mock_flow_name :: "nat \<Rightarrow> string" where
  "mock_flow_name i = ''{tmp:'' @ print_nat i @ ''}''"

definition create_mock_ini :: "string option \<Rightarrow> nat \<Rightarrow> ini option" where
  "create_mock_ini purpose num_channels =
     (if num_channels > MAX_MOCK_INI_CH then None
      else
        let (fids, fs) = foldl (\<lambda>(ids, fs) i. let (fid, fs) = add_new_flow fs (mock_flow_name i) in (ids @ [fid], fs))
              ([], []) [0..<num_channels];
            source = foldl (\<lambda>pl i. add_audio_port pl (fids ! i) PORT_OUTPUT)
              (builtin_plugin ''source'' ''source'' purpose) [0..<num_channels];
            sink = foldl (\<lambda>pl i. add_audio_port pl (fids ! i) PORT_INPUT)
              (builtin_plugin ''sink'' ''sink'' purpose) [0..<num_channels]
        in Some (fill_flow_info \<lparr>plugins = [source, sink], flows = fs\<rparr>))"

fun parse_sections ::
  "dictionary \<Rightarrow> (string \<Rightarrow> real option) \<Rightarrow> string list \<Rightarrow> ini \<Rightarrow> ini option" where
  "parse_sections dict strtof [] g = Some g"
| "parse_sections dict strtof (sec # secs) g =
     (case parse_plugin_section dict strtof sec (flows g) of
        Inl e \<Rightarrow> None
      | Inr (fs, pl) \<Rightarrow> parse_sections dict strtof secs (g\<lparr>plugins := plugins g @ [pl], flows := fs\<rparr>))"

text \<open>\<open>loaded\<close> is what \<open>iniparser_load_wrapper\<close> returns: None when the file cannot be read.\<close>

definition cras_dsp_ini_create ::
  "(string list \<times> dictionary) option \<Rightarrow> (string \<Rightarrow> real option) \<Rightarrow> ini option" where
  "cras_dsp_ini_create loaded strtof =
     (case loaded of
        None \<Rightarrow> None
      | Some (secs, dict) \<Rightarrow>
          (case parse_sections dict strtof secs \<lparr>plugins = [], flows = []\<rparr> of
             None \<Rightarrow> None
           | Some g \<Rightarrow>
               (case insert_quad_rotation_plugin g of
                  Inl e \<Rightarrow> None
                | Inr g \<Rightarrow> Some (fill_flow_info g))))"

section \<open>The connections are consistent\<close>

text \<open>All ports of a graph with their places.\<close>

definition all_ports :: "plugin list \<Rightarrow> (nat \<times> nat \<times> port) list" where
  "all_ports pls = concat (map (\<lambda>(i, pl). map (\<lambda>(j, p). (i, j, p)) (List.enumerate 0 (ports pl))) (List.enumerate 0 pls))"

lemma in_all_ports:
  "(i, j, p) \<in> set (all_ports pls) \<longleftrightarrow> i < length pls \<and> j < length (ports (pls ! i)) \<and> p = ports (pls ! i) ! j"
  by (auto simp: all_ports_def in_set_enumerate_eq image_iff split_def intro!: bexI [of _ "(i, pls ! i)"])

text \<open>Every port refers to an existing flow, or to none.\<close>

definition flow_ids_ok :: "nat \<Rightarrow> plugin list \<Rightarrow> bool" where
  "flow_ids_ok n pls \<longleftrightarrow> (\<forall>pl\<in>set pls. \<forall>p\<in>set (ports pl). flow_id p = -1 \<or> 0 \<le> flow_id p \<and> flow_id p < int n)"

text \<open>Each end of a flow is a port that names the flow, and each port that names a flow is connected.\<close>

definition filled :: "(nat \<times> nat \<times> port) list \<Rightarrow> flow list \<Rightarrow> bool" where
  "filled L fs \<longleftrightarrow>
     (\<forall>f<length fs. (\<forall>i. flow_from (fs ! f) = Some i \<longrightarrow>
                        (\<exists>p. (i, from_port (fs ! f), p) \<in> set L \<and> direction p = PORT_OUTPUT \<and> flow_id p = int f)) \<and>
                   (\<forall>i. flow_to (fs ! f) = Some i \<longrightarrow>
                        (\<exists>p. (i, to_port (fs ! f), p) \<in> set L \<and> direction p = PORT_INPUT \<and> flow_id p = int f))) \<and>
     (\<forall>(i, j, p)\<in>set L. flow_id p \<noteq> -1 \<longrightarrow>
        (if direction p = PORT_INPUT then flow_to (fs ! nat (flow_id p)) \<noteq> None
         else flow_from (fs ! nat (flow_id p)) \<noteq> None))"

definition ini_wf :: "ini \<Rightarrow> bool" where
  "ini_wf g \<longleftrightarrow> flow_ids_ok (length (flows g)) (plugins g) \<and> filled (all_ports (plugins g)) (flows g)"

lemma foldl_concat_map: "foldl f s (concat (map h xs)) = foldl (\<lambda>s x. foldl f s (h x)) s xs"
  by (induction xs arbitrary: s) simp_all

lemma fill_flow_info_eq:
  "flows (fill_flow_info g) = foldl (\<lambda>fs (i, jp). fill_port i fs jp) (flows g) (all_ports (plugins g))"
  unfolding fill_flow_info_def all_ports_def foldl_concat_map
  by (simp add: foldl_map split_def)

lemma length_fill_port [simp]: "length (fill_port i fs jp) = length fs"
  by (simp add: fill_port_def Let_def case_prod_beta)

lemma fill_port_filled:
  assumes "filled L fs" "flow_id p = -1 \<or> 0 \<le> flow_id p \<and> flow_id p < int (length fs)"
  shows "filled (L @ [(i, j, p)]) (fill_port i fs (j, p))"
proof (cases "flow_id p = -1")
  case True
  then have "fill_port i fs (j, p) = fs" by (simp add: fill_port_def INVALID_FLOW_ID_def)
  then show ?thesis using assms(1) True unfolding filled_def by fastforce
next
  case False
  define n where "n = nat (flow_id p)"
  have n: "n < length fs" "flow_id p = int n" using assms(2) False by (auto simp: n_def)
  let ?f = "(fs ! n)\<lparr>flow_type := port_type p\<rparr>"
  let ?g = "if direction p = PORT_INPUT then ?f\<lparr>flow_to := Some i, to_port := j\<rparr> else ?f\<lparr>flow_from := Some i, from_port := j\<rparr>"
  have eq: "fill_port i fs (j, p) = fs[n := ?g]"
    using False by (simp add: fill_port_def INVALID_FLOW_ID_def n_def Let_def)
  have dir: "direction p \<noteq> PORT_INPUT \<longleftrightarrow> direction p = PORT_OUTPUT" by (cases "direction p") simp_all
  show ?thesis unfolding filled_def eq
  proof (intro conjI allI impI ballI)
    fix f k assume "f < length (fs[n := ?g])" and fr: "flow_from (fs[n := ?g] ! f) = Some k"
    then have f: "f < length fs" by simp
    then have old: "flow_from (fs ! f) = Some k \<Longrightarrow>
        \<exists>p. (k, from_port (fs ! f), p) \<in> set L \<and> direction p = PORT_OUTPUT \<and> flow_id p = int f"
      using assms(1) unfolding filled_def by blast
    show "\<exists>q. (k, from_port (fs[n := ?g] ! f), q) \<in> set (L @ [(i, j, p)]) \<and> direction q = PORT_OUTPUT \<and> flow_id q = int f"
      using fr f old n dir by (cases "f = n") (auto split: if_splits)
  next
    fix f k assume "f < length (fs[n := ?g])" and fr: "flow_to (fs[n := ?g] ! f) = Some k"
    then have f: "f < length fs" by simp
    then have old: "flow_to (fs ! f) = Some k \<Longrightarrow>
        \<exists>p. (k, to_port (fs ! f), p) \<in> set L \<and> direction p = PORT_INPUT \<and> flow_id p = int f"
      using assms(1) unfolding filled_def by blast
    show "\<exists>q. (k, to_port (fs[n := ?g] ! f), q) \<in> set (L @ [(i, j, p)]) \<and> direction q = PORT_INPUT \<and> flow_id q = int f"
      using fr f old n dir by (cases "f = n") (auto split: if_splits)
  next
    fix x assume x: "x \<in> set (L @ [(i, j, p)])"
    obtain a b q where q: "x = (a, b, q)" by (cases x)
    show "case x of (i, j, q) \<Rightarrow> flow_id q \<noteq> -1 \<longrightarrow>
       (if direction q = PORT_INPUT then flow_to (fs[n := ?g] ! nat (flow_id q)) \<noteq> None
        else flow_from (fs[n := ?g] ! nat (flow_id q)) \<noteq> None)"
    proof (cases "(a, b, q) \<in> set L")
      case True
      then have "flow_id q \<noteq> -1 \<longrightarrow> (if direction q = PORT_INPUT then flow_to (fs ! nat (flow_id q)) \<noteq> None
        else flow_from (fs ! nat (flow_id q)) \<noteq> None)"
        using assms(1) unfolding filled_def by auto
      then show ?thesis using q n(1) by (cases "nat (flow_id q) = n") auto
    next
      case False
      then have "q = p" using x q by auto
      then show ?thesis using q n by auto
    qed
  qed
qed

lemma fill_flow_info_wf:
  assumes "flow_ids_ok (length (flows g)) (plugins g)" "\<forall>f\<in>set (flows g). flow_from f = None \<and> flow_to f = None"
  shows "ini_wf (fill_flow_info g)"
proof -
  let ?step = "\<lambda>fs (i, jp). fill_port i fs jp"
  have len: "length (foldl ?step fs L) = length fs" for fs L by (induction L arbitrary: fs) (auto simp: case_prod_beta)
  have "filled L (foldl ?step (flows g) L)" if "set L \<subseteq> set (all_ports (plugins g))" for L
    using that
  proof (induction L rule: rev_induct)
    case Nil
    then show ?case using assms(2) by (auto simp: filled_def)
  next
    case (snoc x L)
    obtain i j p where x: "x = (i, j, p)" by (cases x)
    have "(i, j, p) \<in> set (all_ports (plugins g))" using snoc.prems x by auto
    then have "flow_id p = -1 \<or> 0 \<le> flow_id p \<and> flow_id p < int (length (flows g))"
      using assms(1) unfolding flow_ids_ok_def in_all_ports by (metis nth_mem)
    then show ?case using snoc x fill_port_filled [of L "foldl ?step (flows g) L" p i j] by (simp add: len)
  qed
  then have "filled (all_ports (plugins g)) (flows (fill_flow_info g))" by (simp add: fill_flow_info_eq)
  moreover have "plugins (fill_flow_info g) = plugins g" by (simp add: fill_flow_info_def)
  moreover have "length (flows (fill_flow_info g)) = length (flows g)" by (simp add: fill_flow_info_eq len)
  ultimately show ?thesis using assms(1) by (simp add: ini_wf_def)
qed

lemma lookup_flow_range: "lookup_flow fs name = -1 \<or> 0 \<le> lookup_flow fs name \<and> lookup_flow fs name < int (length fs)"
proof -
  have "lookup_flow_loop fs i name = -1 \<or> int i \<le> lookup_flow_loop fs i name \<and> lookup_flow_loop fs i name < int (i + length fs)" for i
  proof (induction fs arbitrary: i)
    case (Cons f fs)
    then show ?case using Cons.IH [of "Suc i"] by auto
  qed (simp add: INVALID_FLOW_ID_def)
  from this [of 0] show ?thesis by (simp add: lookup_flow_def)
qed

text \<open>Parsing appends unconnected flows and ports with valid flow ids.\<close>

definition fresh_flows :: "flow list \<Rightarrow> bool" where
  "fresh_flows fs \<longleftrightarrow> (\<forall>f\<in>set fs. flow_from f = None \<and> flow_to f = None)"

definition ports_ok :: "nat \<Rightarrow> port list \<Rightarrow> bool" where
  "ports_ok n ps \<longleftrightarrow> (\<forall>p\<in>set ps. flow_id p = -1 \<or> 0 \<le> flow_id p \<and> flow_id p < int n)"

lemma ports_ok_mono: "ports_ok n ps \<Longrightarrow> n \<le> m \<Longrightarrow> ports_ok m ps"
  unfolding ports_ok_def by force

lemma flow_ids_ok_mono: "flow_ids_ok n pls \<Longrightarrow> n \<le> m \<Longrightarrow> flow_ids_ok m pls"
  unfolding flow_ids_ok_def by force

lemma flow_ids_ok_iff: "flow_ids_ok n pls \<longleftrightarrow> (\<forall>pl\<in>set pls. ports_ok n (ports pl))"
  by (simp add: flow_ids_ok_def ports_ok_def)

lemma lookup_or_add_flow_ok:
  assumes "lookup_or_add_flow fs name = (fid, fs')" "fresh_flows fs"
  shows "fresh_flows fs' \<and> length fs \<le> length fs' \<and> 0 \<le> fid \<and> fid < int (length fs')"
  using assms lookup_flow_range [of fs name]
  by (auto simp: lookup_or_add_flow_def Let_def fresh_flows_def new_flow_def split: if_splits)

lemma add_new_flow_ok:
  assumes "add_new_flow fs name = (fid, fs')" "fresh_flows fs" "fid \<noteq> -1"
  shows "fresh_flows fs' \<and> length fs \<le> length fs' \<and> 0 \<le> fid \<and> fid < int (length fs')"
  using assms by (auto simp: add_new_flow_def Let_def fresh_flows_def new_flow_def INVALID_FLOW_ID_def split: if_splits)

lemma parse_ports_loop_ok:
  "parse_ports_loop dict strtof sec m i fs ps = Inr (fs', ps') \<Longrightarrow> fresh_flows fs \<Longrightarrow> ports_ok (length fs) ps \<Longrightarrow>
   fresh_flows fs' \<and> length fs \<le> length fs' \<and> ports_ok (length fs') ps'"
proof (induction m arbitrary: i fs ps)
  case (Suc m)
  show ?case
  proof (cases "port_text dict sec i")
    case None
    then show ?thesis using Suc.prems by simp
  next
    case (Some x)
    obtain dir str where x: "port_text dict sec i = Some (dir, str)" using Some by (cases x) simp
    then have ne: "str \<noteq> []" using Suc.prems(1) by (cases str) auto
    show ?thesis
    proof (cases "hd str = CHR ''<'' \<or> hd str = CHR ''{''")
      case True
      obtain fid fs1 where l: "lookup_or_add_flow fs str = (fid, fs1)" by fastforce
      note ok = lookup_or_add_flow_ok [OF l Suc.prems(2)]
      let ?p = "\<lparr>direction = dir, port_type = (if hd str = CHR ''<'' then PORT_CONTROL else PORT_AUDIO), flow_id = fid, init_value = 0\<rparr>"
      have "parse_ports_loop dict strtof sec m (Suc i) fs1 (ps @ [?p]) = Inr (fs', ps')"
        using Suc.prems(1) x ne True l by (simp add: Let_def)
      moreover have "ports_ok (length fs1) (ps @ [?p])"
        using ok ports_ok_mono [OF Suc.prems(3), of "length fs1"] by (simp add: ports_ok_def)
      ultimately show ?thesis using Suc.IH [of "Suc i" fs1 "ps @ [?p]"] ok by auto
    next
      case False
      let ?p = "\<lparr>direction = dir, port_type = PORT_CONTROL, flow_id = INVALID_FLOW_ID, init_value = parse_float strtof str\<rparr>"
      have "parse_ports_loop dict strtof sec m (Suc i) fs (ps @ [?p]) = Inr (fs', ps')"
        using Suc.prems(1) x ne False by (simp add: Let_def)
      moreover have "ports_ok (length fs) (ps @ [?p])" using Suc.prems(3) by (simp add: ports_ok_def INVALID_FLOW_ID_def)
      ultimately show ?thesis using Suc.IH [of "Suc i" fs "ps @ [?p]"] Suc.prems(2) by auto
    qed
  qed
qed simp

lemma parse_sections_ok:
  "parse_sections dict strtof secs g = Some g' \<Longrightarrow> fresh_flows (flows g) \<Longrightarrow>
   flow_ids_ok (length (flows g)) (plugins g) \<Longrightarrow> fresh_flows (flows g') \<and> flow_ids_ok (length (flows g')) (plugins g')"
proof (induction secs arbitrary: g)
  case (Cons sec secs)
  then obtain fs pl where sec: "parse_plugin_section dict strtof sec (flows g) = Inr (fs, pl)"
    by (auto split: sum.splits)
  then obtain ps where "parse_ports dict strtof sec (flows g) = Inr (fs, ps)" "ports pl = ps"
    by (auto simp: parse_plugin_section_def Let_def split: option.splits sum.splits)
  then have ok: "fresh_flows fs" "length (flows g) \<le> length fs" "ports_ok (length fs) (ports pl)"
    using parse_ports_loop_ok [of dict strtof sec MAX_NR_PORT 0 "flows g" "[]" fs ps] Cons.prems(2)
    by (auto simp: parse_ports_def ports_ok_def)
  then have "flow_ids_ok (length fs) (plugins g @ [pl])"
    using flow_ids_ok_mono [OF Cons.prems(3) ok(2)] by (simp add: flow_ids_ok_iff)
  then show ?case using Cons.IH [of "g\<lparr>plugins := plugins g @ [pl], flows := fs\<rparr>"] Cons.prems(1) sec ok(1) by simp
qed simp

lemma foldl_add_audio_port:
  "ports (foldl (\<lambda>pl i. add_audio_port pl (fids ! i) dir) pl is)
     = ports pl @ map (\<lambda>i. \<lparr>direction = dir, port_type = PORT_AUDIO, flow_id = fids ! i, init_value = 0\<rparr>) is"
  by (induction "is" arbitrary: pl) (simp_all add: add_audio_port_def)

lemma add_quad_flows_ok:
  "add_quad_flows ns fs = Inr (fids, fs') \<Longrightarrow> fresh_flows fs \<Longrightarrow>
   fresh_flows fs' \<and> length fs \<le> length fs' \<and> length fids = length ns \<and> (\<forall>fid\<in>set fids. 0 \<le> fid \<and> fid < int (length fs'))"
proof (induction ns arbitrary: fs fids)
  case (Cons n ns)
  obtain fid fs1 where a: "add_new_flow fs n = (fid, fs1)" by fastforce
  with Cons.prems obtain fids' where f: "fid \<noteq> -1" "add_quad_flows ns fs1 = Inr (fids', fs')" "fids = fid # fids'"
    by (auto simp: INVALID_FLOW_ID_def split: if_splits sum.splits)
  note ok = add_new_flow_ok [OF a Cons.prems(2) f(1)]
  then show ?case using Cons.IH [OF f(2)] f(3) by auto
qed simp

lemma foldl_set_flow_id:
  assumes "length ps = n" "ports_ok m ps" "\<forall>fid\<in>set fids. 0 \<le> fid \<and> fid < int m" "length fids = n" "set is \<subseteq> {0..<n}"
  shows "ports_ok m (foldl (\<lambda>ps i. ps[i := (ps ! i)\<lparr>flow_id := fids ! i\<rparr>]) ps is)"
  using assms(1,2,5)
proof (induction "is" arbitrary: ps)
  case (Cons i "is")
  have "0 \<le> fids ! i \<and> fids ! i < int m" using assms(3,4) Cons.prems(3) by simp
  then have "ports_ok m (ps[i := (ps ! i)\<lparr>flow_id := fids ! i\<rparr>])"
    using Cons.prems(2) unfolding ports_ok_def by (auto dest!: set_update_subset_insert [THEN subsetD])
  then show ?case using Cons by simp
qed simp

lemma find_sink_loop:
  "find_first_playback_sink_loop ps i = Some s \<Longrightarrow>
     i \<le> s \<and> s < i + length ps \<and> find_first_playback_sink_loop (ps @ qs) i = Some s"
proof (induction ps arbitrary: i)
  case (Cons p ps)
  show ?case using Cons.prems Cons.IH [of "Suc i"] by (auto split: if_splits dest: Suc_leD)
qed simp

lemma fill_quad_rotaion_ports_ok:
  assumes "\<forall>fid\<in>set a \<union> set b. fid = -1 \<or> 0 \<le> fid \<and> fid < int m" "length a = 4" "length b = 4"
  shows "ports_ok m (ports (fill_quad_rotaion_plugin a b))"
  using assms unfolding fill_quad_rotaion_plugin_def Let_def foldl_add_audio_port
  by (auto simp: ports_ok_def builtin_plugin_def)

lemma insert_quad_rotation_ok:
  assumes "insert_quad_rotation_plugin g = Inr g'" "fresh_flows (flows g)" "flow_ids_ok (length (flows g)) (plugins g)"
  shows "fresh_flows (flows g') \<and> flow_ids_ok (length (flows g')) (plugins g')"
proof (cases "g' = g")
  case False
  then obtain s fids fs where s: "find_first_playback_sink_plugin g = Some s" "length (ports (plugins g ! s)) = 4"
    and q: "add_quad_flows quad_flow_names (flows g) = Inr (fids, fs)"
    using assms(1) by (auto simp: insert_quad_rotation_plugin_def Let_def split: option.splits if_splits sum.splits)
  note ok = add_quad_flows_ok [OF q assms(2)]
  let ?old = "ports (plugins g ! s)"
  let ?pl = "fill_quad_rotaion_plugin (map flow_id ?old) fids"
  let ?ps = "foldl (\<lambda>ps i. ps[i := (ps ! i)\<lparr>flow_id := fids ! i\<rparr>]) ?old [0..<4]"
  have sl: "s < length (plugins g)" and s': "find_first_playback_sink_loop (plugins g @ [?pl]) 0 = Some s"
    using find_sink_loop [of "plugins g" 0 s "[?pl]"] s(1) by (auto simp: find_first_playback_sink_plugin_def)
  have g': "g' = g\<lparr>plugins := (plugins g @ [?pl])[s := (plugins g ! s)\<lparr>ports := ?ps\<rparr>], flows := fs\<rparr>"
    using assms(1) s q s' sl
    by (auto simp: insert_quad_rotation_plugin_def Let_def find_first_playback_sink_plugin_def nth_append)
  have len: "length fids = 4" using ok by (simp add: quad_flow_names_def)
  have old: "ports_ok (length fs) (ports pl)" if "pl \<in> set (plugins g)" for pl
    using flow_ids_ok_mono [OF assms(3)] ok that by (simp add: flow_ids_ok_iff)
  then have oldp: "ports_ok (length fs) ?old" using sl by simp
  then have "ports_ok (length fs) (ports ?pl)"
    using ok len s(2) by (intro fill_quad_rotaion_ports_ok) (auto simp: ports_ok_def)
  moreover have "ports_ok (length fs) ?ps"
    using s(2) oldp ok len by (intro foldl_set_flow_id [where n = 4]) auto
  ultimately have "flow_ids_ok (length fs) ((plugins g @ [?pl])[s := (plugins g ! s)\<lparr>ports := ?ps\<rparr>])"
    unfolding flow_ids_ok_iff using old by (auto dest!: set_update_subset_insert [THEN subsetD])
  then show ?thesis using ok by (simp add: g')
qed (use assms in simp)

lemma ini_create_consistent:
  assumes "cras_dsp_ini_create loaded strtof = Some g"
  shows "ini_wf g"
proof -
  obtain secs dict g1 g2 where p: "parse_sections dict strtof secs \<lparr>plugins = [], flows = []\<rparr> = Some g1"
    and q: "insert_quad_rotation_plugin g1 = Inr g2" and g: "g = fill_flow_info g2"
    using assms by (auto simp: cras_dsp_ini_create_def split: option.splits sum.splits)
  have "fresh_flows (flows g1) \<and> flow_ids_ok (length (flows g1)) (plugins g1)"
    by (rule parse_sections_ok [OF p]) (simp_all add: fresh_flows_def flow_ids_ok_def)
  then have "fresh_flows (flows g2) \<and> flow_ids_ok (length (flows g2)) (plugins g2)"
    using insert_quad_rotation_ok [OF q] by blast
  then show ?thesis using fill_flow_info_wf by (simp add: g fresh_flows_def)
qed

text \<open>C21. Loading a configuration yields a consistent graph, for every dictionary: each port refers to
  an existing flow or to none, each end of a flow is a port of the right direction that names the
  flow, and each port that names a flow is connected at its end. This includes the ports that the
  rotation plugin takes over from a four-channel playback sink.\<close>

theorem ini_create_wf:
  assumes "cras_dsp_ini_create loaded strtof = Some g"
  shows "ini_wf g"
  using assms by (rule ini_create_consistent)

definition example_dict :: dictionary where
  "example_dict = map_of
     [(''src:library'', ''builtin''), (''src:label'', ''source''), (''src:purpose'', ''playback''), (''src:output_0'', ''{a}''),
      (''dst:library'', ''builtin''), (''dst:label'', ''sink''), (''dst:purpose'', ''playback''), (''dst:input_0'', ''{a}'')]"

lemma example_ini:
  "map_option (\<lambda>g. map (\<lambda>f. (flow_from f, from_port f, flow_to f, to_port f)) (flows g))
     (cras_dsp_ini_create (Some ([''src'', ''dst''], example_dict)) (\<lambda>_. None)) = Some [(Some 0, 0, Some 1, 0)]"
  by code_simp

theorem ini_create_wf_witness:
  "case cras_dsp_ini_create (Some ([''src'', ''dst''], example_dict)) (\<lambda>_. None) of None \<Rightarrow> False | Some g \<Rightarrow> ini_wf g"
  using example_ini ini_create_wf [of "Some ([''src'', ''dst''], example_dict)" "\<lambda>_. None"]
  by (auto split: option.split)

end
