(* ===== verification/Dsp_Pipeline.thy ===== *)
theory Dsp_Pipeline
  imports Dsp_Ini Cras_Time
begin

text \<open>
  The dynamic DSP graph of \<open>cras/src/server/cras_dsp_pipeline.c\<close>: instances of the enabled plugins in
  dependency order, the assignment of audio buffers to ports, and the processing of a block of
  samples in chunks.

  A pointer to a plugin is its index in the ini, a pointer to an instance its index in the
  pipeline, and a pointer to a port of an instance the pair of the instance's index and the port's
  index in its array; a NULL pointer is None. The modules behind the plugins are parameters: what
  \<open>cras_dsp_module_load_builtin\<close> and \<open>get_properties\<close> give for a plugin, and \<open>get_delay\<close>.

  Where the source indexes an array out of its bounds or follows a NULL pointer, the operation has
  no result: None.
\<close>

section \<open>Model\<close>

record audio_port =
  ap_peer :: "(nat \<times> nat) option"
  ap_plugin :: nat
  ap_original_index :: nat
  buf_index :: nat

record control_port =
  cp_peer :: "(nat \<times> nat) option"
  cp_plugin :: nat
  cp_original_index :: nat
  cp_value :: real

record inst =
  inst_plugin :: nat
  input_audio_ports :: "audio_port list"
  output_audio_ports :: "audio_port list"
  input_control_ports :: "control_port list"
  output_control_ports :: "control_port list"
  has_module :: bool
  instantiated :: int
  properties :: int
  total_delay :: int

record pipeline =
  pl_purpose :: string
  pl_ini :: ini
  instances :: "inst list"
  peak_buf :: int
  source_instance :: "nat option"
  sink_instance :: "nat option"
  input_channels :: int
  output_channels :: int
  sample_rate :: int
  total_time :: int
  max_time :: int
  min_time :: int
  total_blocks :: int
  total_samples :: int
  offload_applied :: bool

definition MODULE_INPLACE_BROKEN :: int where "MODULE_INPLACE_BROKEN = 1"
definition DSP_BUFFER_SIZE :: nat where "DSP_BUFFER_SIZE = 2048"

subsection \<open>Looking up instances and ports\<close>

fun find_instance_loop :: "inst list \<Rightarrow> nat \<Rightarrow> nat \<Rightarrow> nat option" where
  "find_instance_loop [] i pl = None"
| "find_instance_loop (x # xs) i pl = (if inst_plugin x = pl then Some i else find_instance_loop xs (Suc i) pl)"

definition find_instance_by_plugin :: "inst list \<Rightarrow> nat \<Rightarrow> nat option" where
  "find_instance_by_plugin insts pl = find_instance_loop insts 0 pl"

text \<open>The number \<open>k\<close> of output ports of type \<open>t\<close> before port \<open>idx\<close>, and the \<open>k\<close>-th input port of type \<open>t\<close>.\<close>

fun count_outputs_before :: "port list \<Rightarrow> nat \<Rightarrow> port_type \<Rightarrow> nat option" where
  "count_outputs_before [] idx t = None"
| "count_outputs_before (p # ps) 0 t = Some 0"
| "count_outputs_before (p # ps) (Suc idx) t =
     map_option (\<lambda>k. if direction p = PORT_OUTPUT \<and> port_type p = t then Suc k else k)
       (count_outputs_before ps idx t)"

fun nth_input :: "port list \<Rightarrow> nat \<Rightarrow> nat \<Rightarrow> port_type \<Rightarrow> nat option" where
  "nth_input [] i k t = None"
| "nth_input (p # ps) i k t =
     (if direction p = PORT_INPUT \<and> port_type p = t
      then (if k = 0 then Some i else nth_input ps (Suc i) (k - 1) t)
      else nth_input ps (Suc i) k t)"

text \<open>The recursion goes upstream through plugins that have no instance. It does not end when they
  form a cycle, so it is bounded by fuel: the outer None says that the fuel ran out (or that a flow
  has no source plugin, which the callers rule out). The result is an errno or the origin.\<close>

fun find_origin_port :: "nat \<Rightarrow> ini \<Rightarrow> inst list \<Rightarrow> nat \<Rightarrow> nat \<Rightarrow> (int + nat \<times> nat) option" where
  "find_origin_port 0 g insts pl idx = None"
| "find_origin_port (Suc n) g insts pl idx =
     (let p = ports (plugins g ! pl) ! idx; t = port_type p; fid = flow_id p in
      if fid = INVALID_FLOW_ID then Some (Inl (- EINVAL))
      else
        let f = flows g ! nat fid in
        case flow_from f of
          None \<Rightarrow> None
        | Some pl' \<Rightarrow>
            if find_instance_by_plugin insts pl' \<noteq> None then Some (Inr (pl', from_port f))
            else
              (case count_outputs_before (ports (plugins g ! pl')) (from_port f) t of
                 None \<Rightarrow> Some (Inl (- ENOENT))
               | Some k \<Rightarrow>
                   (case nth_input (ports (plugins g ! pl')) 0 k t of
                      None \<Rightarrow> Some (Inl (- ENOENT))
                    | Some idx' \<Rightarrow> find_origin_port n g insts pl' idx')))"

fun find_port_index :: "nat list \<Rightarrow> nat \<Rightarrow> nat \<Rightarrow> nat option" where
  "find_port_index [] j idx = None"
| "find_port_index (x # xs) j idx = (if x = idx then Some j else find_port_index xs (Suc j) idx)"

definition find_output_audio_port :: "inst list \<Rightarrow> nat \<Rightarrow> nat \<Rightarrow> (nat \<times> nat) option" where
  "find_output_audio_port insts pl idx =
     (case find_instance_by_plugin insts pl of
        None \<Rightarrow> None
      | Some i \<Rightarrow> map_option (Pair i) (find_port_index (map ap_original_index (output_audio_ports (insts ! i))) 0 idx))"

definition find_output_control_port :: "inst list \<Rightarrow> nat \<Rightarrow> nat \<Rightarrow> (nat \<times> nat) option" where
  "find_output_control_port insts pl idx =
     (case find_instance_by_plugin insts pl of
        None \<Rightarrow> None
      | Some i \<Rightarrow> map_option (Pair i) (find_port_index (map cp_original_index (output_control_ports (insts ! i))) 0 idx))"

definition is_disabled :: "plugin \<Rightarrow> cras_expr_env \<Rightarrow> bool" where
  "is_disabled pl env =
     (case disable_expr pl of
        None \<Rightarrow> False
      | Some e \<Rightarrow> cras_expr_expression_eval_boolean e env = (0, Some True))"

subsection \<open>Building the instances\<close>

definition new_instance :: "nat \<Rightarrow> inst" where
  "new_instance pl = \<lparr>inst_plugin = pl, input_audio_ports = [], output_audio_ports = [],
     input_control_ports = [], output_control_ports = [], has_module = False, instantiated = 0,
     properties = 0, total_delay = 0\<rparr>"

definition update_inst :: "nat \<Rightarrow> (inst \<Rightarrow> inst) \<Rightarrow> inst list \<Rightarrow> inst list" where
  "update_inst i f insts = insts[i := f (insts ! i)]"

text \<open>Appending a port to instance \<open>me\<close> and, when it has an origin, linking the two ports to each other.\<close>

definition add_audio :: "nat \<Rightarrow> nat \<Rightarrow> nat \<Rightarrow> port \<Rightarrow> (nat \<times> nat) option \<Rightarrow> inst list \<Rightarrow> int + inst list" where
  "add_audio me pl i p origin insts =
     (let ap = \<lparr>ap_peer = None, ap_plugin = pl, ap_original_index = i, buf_index = 0\<rparr> in
      if direction p = PORT_INPUT then
        let j = length (input_audio_ports (insts ! me));
            insts1 = update_inst me (\<lambda>x. x\<lparr>input_audio_ports := input_audio_ports x @ [ap]\<rparr>) insts
        in case origin of
             None \<Rightarrow> Inr insts1
           | Some (opl, oidx) \<Rightarrow>
               (case find_output_audio_port insts1 opl oidx of
                  None \<Rightarrow> Inl (- ENOENT)
                | Some (oi, oj) \<Rightarrow>
                    Inr (update_inst me
                          (\<lambda>x. x\<lparr>input_audio_ports := (input_audio_ports x)[j := ap\<lparr>ap_peer := Some (oi, oj)\<rparr>]\<rparr>)
                          (update_inst oi
                            (\<lambda>x. x\<lparr>output_audio_ports :=
                                   (output_audio_ports x)[oj := (output_audio_ports x ! oj)\<lparr>ap_peer := Some (me, j)\<rparr>]\<rparr>)
                            insts1)))
      else Inr (update_inst me (\<lambda>x. x\<lparr>output_audio_ports := output_audio_ports x @ [ap]\<rparr>) insts))"

definition add_control :: "nat \<Rightarrow> nat \<Rightarrow> nat \<Rightarrow> port \<Rightarrow> (nat \<times> nat) option \<Rightarrow> inst list \<Rightarrow> int + inst list" where
  "add_control me pl i p origin insts =
     (let cp = \<lparr>cp_peer = None, cp_plugin = pl, cp_original_index = i, cp_value = init_value p\<rparr> in
      if direction p = PORT_INPUT then
        let j = length (input_control_ports (insts ! me));
            insts1 = update_inst me (\<lambda>x. x\<lparr>input_control_ports := input_control_ports x @ [cp]\<rparr>) insts
        in case origin of
             None \<Rightarrow> Inr insts1
           | Some (opl, oidx) \<Rightarrow>
               (case find_output_control_port insts1 opl oidx of
                  None \<Rightarrow> Inl (- ENOENT)
                | Some (oi, oj) \<Rightarrow>
                    Inr (update_inst me
                          (\<lambda>x. x\<lparr>input_control_ports := (input_control_ports x)[j := cp\<lparr>cp_peer := Some (oi, oj)\<rparr>]\<rparr>)
                          (update_inst oi
                            (\<lambda>x. x\<lparr>output_control_ports :=
                                   (output_control_ports x)[oj := (output_control_ports x ! oj)\<lparr>cp_peer := Some (me, j)\<rparr>]\<rparr>)
                            insts1)))
      else Inr (update_inst me (\<lambda>x. x\<lparr>output_control_ports := output_control_ports x @ [cp]\<rparr>) insts))"

text \<open>The loop over the ports of the new instance \<open>me\<close> of plugin \<open>pl\<close>, from port \<open>i\<close> on.\<close>

fun construct_ports :: "nat \<Rightarrow> ini \<Rightarrow> nat \<Rightarrow> nat \<Rightarrow> nat \<Rightarrow> port list \<Rightarrow> inst list \<Rightarrow> (int + inst list) option" where
  "construct_ports n g me pl i [] insts = Some (Inr insts)"
| "construct_ports n g me pl i (p # ps) insts =
     (let need_connect = (flow_id p \<noteq> INVALID_FLOW_ID \<and> direction p = PORT_INPUT);
          add = (\<lambda>origin. case (if port_type p = PORT_AUDIO then add_audio else add_control) me pl i p origin insts of
                   Inl e \<Rightarrow> Some (Inl e)
                 | Inr insts \<Rightarrow> construct_ports n g me pl (Suc i) ps insts)
      in if need_connect then
           (case find_origin_port n g insts pl i of
              None \<Rightarrow> None
            | Some (Inl e) \<Rightarrow> Some (Inl e)
            | Some (Inr origin) \<Rightarrow> add (Some origin))
         else add None)"

text \<open>Depth-first over the sources of all connected ports, then the instance of \<open>pl\<close> itself. The depth
  is bounded by fuel \<open>n\<close>; \<open>m\<close> is the fuel of \<open>find_origin_port\<close>.\<close>

fun topological_sort ::
  "nat \<Rightarrow> nat \<Rightarrow> ini \<Rightarrow> cras_expr_env \<Rightarrow> nat \<Rightarrow> bool list \<times> inst list \<Rightarrow> (int + bool list \<times> inst list) option"
  and sort_sources ::
  "nat \<Rightarrow> nat \<Rightarrow> ini \<Rightarrow> cras_expr_env \<Rightarrow> port list \<Rightarrow> bool list \<times> inst list \<Rightarrow> (int + bool list \<times> inst list) option" where
  "topological_sort 0 m g env pl st = None"
| "topological_sort (Suc n) m g env pl st =
     (case st of (visited, insts) \<Rightarrow>
      if visited ! pl then Some (Inr st)
      else
        (case sort_sources n m g env (ports (plugins g ! pl)) (visited[pl := True], insts) of
           None \<Rightarrow> None
         | Some (Inl e) \<Rightarrow> Some (Inl e)
         | Some (Inr (visited, insts)) \<Rightarrow>
             if is_disabled (plugins g ! pl) env then Some (Inr (visited, insts))
             else
               (case construct_ports m g (length insts) pl 0 (ports (plugins g ! pl)) (insts @ [new_instance pl]) of
                  None \<Rightarrow> None
                | Some (Inl e) \<Rightarrow> Some (Inl e)
                | Some (Inr insts) \<Rightarrow> Some (Inr (visited, insts)))))"
| "sort_sources n m g env [] st = Some (Inr st)"
| "sort_sources n m g env (p # ps) st =
     (if flow_id p = INVALID_FLOW_ID then sort_sources n m g env ps st
      else
        (case flow_from (flows g ! nat (flow_id p)) of
           None \<Rightarrow> Some (Inl (- EINVAL))
         | Some src \<Rightarrow>
             (case topological_sort n m g env src st of
                None \<Rightarrow> None
              | Some (Inl e) \<Rightarrow> Some (Inl e)
              | Some (Inr st) \<Rightarrow> sort_sources n m g env ps st)))"

fun find_enabled_loop :: "plugin list \<Rightarrow> nat \<Rightarrow> string \<Rightarrow> string \<Rightarrow> cras_expr_env \<Rightarrow> nat option \<Rightarrow> nat option" where
  "find_enabled_loop [] i label purpose env found = found"
| "find_enabled_loop (p # ps) i label purpose env found =
     (if plug_library p \<noteq> ''builtin'' then find_enabled_loop ps (Suc i) label purpose env found
      else if plug_label p \<noteq> label then find_enabled_loop ps (Suc i) label purpose env found
      else if plug_purpose p \<noteq> Some purpose then find_enabled_loop ps (Suc i) label purpose env found
      else if is_disabled p env then find_enabled_loop ps (Suc i) label purpose env found
      else if found \<noteq> None then None
      else find_enabled_loop ps (Suc i) label purpose env (Some i))"

definition find_enabled_builtin_plugin :: "ini \<Rightarrow> string \<Rightarrow> string \<Rightarrow> cras_expr_env \<Rightarrow> nat option" where
  "find_enabled_builtin_plugin g label purpose env = find_enabled_loop (plugins g) 0 label purpose env None"

text \<open>The inner option is the pipeline or NULL.\<close>

definition cras_dsp_pipeline_create :: "nat \<Rightarrow> ini \<Rightarrow> cras_expr_env \<Rightarrow> string \<Rightarrow> pipeline option option" where
  "cras_dsp_pipeline_create fuel g env purpose =
     (case (find_enabled_builtin_plugin g ''source'' purpose env, find_enabled_builtin_plugin g ''sink'' purpose env) of
        (Some source, Some sink) \<Rightarrow>
          (case topological_sort (Suc (length (plugins g))) fuel g env sink (replicate (length (plugins g)) False, []) of
             None \<Rightarrow> None
           | Some (Inl e) \<Rightarrow> Some None
           | Some (Inr (visited, insts)) \<Rightarrow>
               (case (find_instance_by_plugin insts source, find_instance_by_plugin insts sink) of
                  (Some so, Some si) \<Rightarrow>
                    let nin = int (length (output_audio_ports (insts ! so)));
                        nout = int (length (input_audio_ports (insts ! si)))
                    in if nout > nin then Some None
                       else Some (Some \<lparr>pl_purpose = purpose, pl_ini = g, instances = insts, peak_buf = 0,
                         source_instance = Some so, sink_instance = Some si,
                         input_channels = nin, output_channels = nout, sample_rate = 0, total_time = 0,
                         max_time = 0, min_time = 0, total_blocks = 0, total_samples = 0, offload_applied = False\<rparr>)
                | _ \<Rightarrow> Some None))
      | _ \<Rightarrow> Some None)"

subsection \<open>Buffers\<close>

text \<open>\<open>while (busy[k]) k++\<close>: None when the index leaves the array.\<close>

function first_free :: "bool list \<Rightarrow> nat \<Rightarrow> nat option" where
  "first_free busy k =
     (if k \<ge> length busy then None else if busy ! k then first_free busy (Suc k) else Some k)"
  by pat_completeness auto
termination
  by (relation "measure (\<lambda>(busy, k). length busy - k)") auto

declare first_free.simps [simp del]

fun use_buffers_loop :: "nat \<Rightarrow> bool list \<Rightarrow> audio_port list \<Rightarrow> (bool list \<times> audio_port list) option" where
  "use_buffers_loop k busy [] = Some (busy, [])"
| "use_buffers_loop k busy (p # ps) =
     (case first_free busy k of
        None \<Rightarrow> None
      | Some k \<Rightarrow>
          (case use_buffers_loop k (busy[k := True]) ps of
             None \<Rightarrow> None
           | Some (busy', ps') \<Rightarrow> Some (busy', p\<lparr>buf_index := k\<rparr> # ps')))"

definition use_buffers :: "bool list \<Rightarrow> audio_port list \<Rightarrow> (bool list \<times> audio_port list) option" where
  "use_buffers busy audio_ports = use_buffers_loop 0 busy audio_ports"

fun unuse_buffers :: "bool list \<Rightarrow> audio_port list \<Rightarrow> bool list option" where
  "unuse_buffers busy [] = Some busy"
| "unuse_buffers busy (p # ps) =
     (if buf_index p < length busy then unuse_buffers (busy[buf_index p := False]) ps else None)"

definition inplace_broken :: "inst \<Rightarrow> bool" where
  "inplace_broken x \<longleftrightarrow> properties x mod 2 = MODULE_INPLACE_BROKEN"

text \<open>One step of the count: the buffers needed behind the instance, and the peak.\<close>

definition count_buffers :: "int \<times> int \<Rightarrow> inst \<Rightarrow> int \<times> int" where
  "count_buffers np x =
     (let (need, peak) = np;
          nin = int (length (input_audio_ports x)); nout = int (length (output_audio_ports x))
      in if inplace_broken x then (need + nout - nin, max peak (need + nout))
         else (need + (nout - nin), max peak (need + (nout - nin))))"

definition collect_inputs :: "inst list \<Rightarrow> audio_port list \<Rightarrow> audio_port list option" where
  "collect_inputs insts ps =
     those (map (\<lambda>p. case ap_peer p of
         None \<Rightarrow> None
       | Some (i, j) \<Rightarrow> Some (p\<lparr>buf_index := buf_index (output_audio_ports (insts ! i) ! j)\<rparr>)) ps)"

text \<open>One iteration of the assignment, for instance \<open>i\<close>.\<close>

definition assign_instance :: "bool list \<times> inst list \<Rightarrow> nat \<Rightarrow> (bool list \<times> inst list) option" where
  "assign_instance st i =
     (let (busy, insts) = st; x = insts ! i in
      case collect_inputs insts (input_audio_ports x) of
        None \<Rightarrow> None
      | Some ins \<Rightarrow>
          (if inplace_broken x then
             (case use_buffers busy (output_audio_ports x) of
                None \<Rightarrow> None
              | Some (busy, outs) \<Rightarrow>
                  (case unuse_buffers busy ins of
                     None \<Rightarrow> None
                   | Some busy \<Rightarrow> Some (busy, insts[i := x\<lparr>input_audio_ports := ins, output_audio_ports := outs\<rparr>])))
           else
             (case unuse_buffers busy ins of
                None \<Rightarrow> None
              | Some busy \<Rightarrow>
                  (case use_buffers busy (output_audio_ports x) of
                     None \<Rightarrow> None
                   | Some (busy, outs) \<Rightarrow> Some (busy, insts[i := x\<lparr>input_audio_ports := ins, output_audio_ports := outs\<rparr>])))))"

fun assign_loop :: "nat list \<Rightarrow> bool list \<times> inst list \<Rightarrow> (bool list \<times> inst list) option" where
  "assign_loop [] st = Some st"
| "assign_loop (i # is) st = (case assign_instance st i of None \<Rightarrow> None | Some st \<Rightarrow> assign_loop is st)"

definition allocate_buffers :: "bool \<Rightarrow> pipeline \<Rightarrow> (int + pipeline) option" where
  "allocate_buffers calloc_ok pl =
     (let (need, peak) = foldl count_buffers (0, 0) (instances pl) in
      if peak \<le> 0 then Some (Inl (- EINVAL))
      else if \<not> calloc_ok then Some (Inl (- ENOMEM))
      else
        (case assign_loop [0..<length (instances pl)] (replicate (nat peak) False, instances pl) of
           None \<Rightarrow> None
         | Some (busy, insts) \<Rightarrow> Some (Inr (pl\<lparr>peak_buf := peak, instances := insts\<rparr>))))"

text \<open>\<open>load\<close> stands for the module loader: None when there is no such module, else its properties.\<close>

definition load_module :: "(plugin \<Rightarrow> int option) \<Rightarrow> plugin \<Rightarrow> inst \<Rightarrow> int + inst" where
  "load_module load plugin x =
     (case load plugin of None \<Rightarrow> Inl (- ENOENT) | Some props \<Rightarrow> Inr (x\<lparr>has_module := True, properties := props\<rparr>))"

fun load_modules :: "(plugin \<Rightarrow> int option) \<Rightarrow> plugin list \<Rightarrow> inst list \<Rightarrow> int + inst list" where
  "load_modules load pls [] = Inr []"
| "load_modules load pls (x # xs) =
     (case load_module load (pls ! inst_plugin x) x of
        Inl e \<Rightarrow> Inl e
      | Inr x \<Rightarrow> (case load_modules load pls xs of Inl e \<Rightarrow> Inl e | Inr xs \<Rightarrow> Inr (x # xs)))"

definition cras_dsp_pipeline_load :: "(plugin \<Rightarrow> int option) \<Rightarrow> bool \<Rightarrow> pipeline \<Rightarrow> (int + pipeline) option" where
  "cras_dsp_pipeline_load load calloc_ok pl =
     (case load_modules load (plugins (pl_ini pl)) (instances pl) of
        Inl e \<Rightarrow> Some (Inl e)
      | Inr insts \<Rightarrow> allocate_buffers calloc_ok (pl\<lparr>instances := insts\<rparr>))"

subsection \<open>Delay\<close>

text \<open>\<open>get_delay\<close> stands for the module's function. An input port without a peer is a NULL access.\<close>

fun max_input_delay :: "inst list \<Rightarrow> audio_port list \<Rightarrow> int \<Rightarrow> int option" where
  "max_input_delay insts [] delay = Some delay"
| "max_input_delay insts (p # ps) delay =
     (case ap_peer p of
        None \<Rightarrow> None
      | Some (i, j) \<Rightarrow>
          (case find_instance_by_plugin insts (ap_plugin (output_audio_ports (insts ! i) ! j)) of
             None \<Rightarrow> None
           | Some u \<Rightarrow> max_input_delay insts ps (max (total_delay (insts ! u)) delay)))"

fun delay_loop :: "(nat \<Rightarrow> int) \<Rightarrow> nat list \<Rightarrow> inst list \<Rightarrow> inst list option" where
  "delay_loop get_delay [] insts = Some insts"
| "delay_loop get_delay (i # is) insts =
     (case max_input_delay insts (input_audio_ports (insts ! i)) 0 of
        None \<Rightarrow> None
      | Some delay \<Rightarrow> delay_loop get_delay is
          (insts[i := (insts ! i)\<lparr>total_delay := delay + get_delay (inst_plugin (insts ! i))\<rparr>]))"

definition calculate_audio_delay :: "(nat \<Rightarrow> int) \<Rightarrow> pipeline \<Rightarrow> pipeline option" where
  "calculate_audio_delay get_delay pl =
     map_option (\<lambda>insts. pl\<lparr>instances := insts\<rparr>)
       (delay_loop get_delay [0..<length (instances pl)] (instances pl))"

definition cras_dsp_pipeline_get_delay :: "pipeline \<Rightarrow> int option" where
  "cras_dsp_pipeline_get_delay pl = map_option (\<lambda>i. total_delay (instances pl ! i)) (sink_instance pl)"

section \<open>Buffer allocation\<close>

subsection \<open>Taking and releasing buffers\<close>

definition busy_set :: "bool list \<Rightarrow> nat set" where
  "busy_set busy = {k. k < length busy \<and> busy ! k}"

lemma finite_busy_set [simp]: "finite (busy_set busy)"
  by (simp add: busy_set_def)

lemma busy_set_update:
  "k < length busy \<Longrightarrow> busy_set (busy[k := b]) = (if b then insert k (busy_set busy) else busy_set busy - {k})"
  by (auto simp: busy_set_def nth_list_update)

lemma first_free_Some:
  "first_free busy k = Some j \<Longrightarrow> k \<le> j \<and> j < length busy \<and> \<not> busy ! j \<and> (\<forall>l. k \<le> l \<and> l < j \<longrightarrow> busy ! l)"
proof (induction busy k rule: first_free.induct)
  case (1 busy k)
  show ?case
  proof (cases "k < length busy \<and> busy ! k")
    case True
    then have "first_free busy (Suc k) = Some j" using "1.prems" by (simp add: first_free.simps [of busy k])
    then have "Suc k \<le> j \<and> j < length busy \<and> \<not> busy ! j \<and> (\<forall>l. Suc k \<le> l \<and> l < j \<longrightarrow> busy ! l)"
      using "1.IH" True by simp
    then show ?thesis using True by (metis Suc_leI le_neq_implies_less less_imp_le Suc_le_lessD)
  next
    case False
    then show ?thesis using "1.prems" by (auto simp: first_free.simps [of busy k] split: if_splits)
  qed
qed

lemma first_free_None: "first_free busy k = None \<Longrightarrow> k \<le> l \<Longrightarrow> l < length busy \<Longrightarrow> busy ! l"
proof (induction busy k rule: first_free.induct)
  case (1 busy k)
  then have k: "k < length busy" by simp
  then have b: "busy ! k" "first_free busy (Suc k) = None" using "1.prems"(1) by (auto simp: first_free.simps [of busy k] split: if_splits)
  then show ?case using "1.IH" k "1.prems" by (cases "l = k") auto
qed

text \<open>The port with its buffer number masked out.\<close>

abbreviation mask_port :: "audio_port \<Rightarrow> audio_port" where
  "mask_port p \<equiv> p\<lparr>buf_index := 0\<rparr>"

text \<open>As long as enough buffers are free, every port gets a free one of its own.\<close>

lemma use_buffers_loop_ok:
  assumes "\<forall>l<k. l < length busy \<longrightarrow> busy ! l" "length ps + card (busy_set busy) \<le> length busy"
  shows "\<exists>busy' ps'. use_buffers_loop k busy ps = Some (busy', ps') \<and> length busy' = length busy
    \<and> map mask_port ps' = map mask_port ps \<and> distinct (map buf_index ps')
    \<and> set (map buf_index ps') \<subseteq> {..<length busy} - busy_set busy
    \<and> busy_set busy' = busy_set busy \<union> set (map buf_index ps')"
  using assms
proof (induction ps arbitrary: k busy)
  case (Cons p ps)
  have "first_free busy k \<noteq> None"
  proof
    assume "first_free busy k = None"
    then have "busy ! l" if "l < length busy" for l
      using first_free_None Cons.prems(1) that by (cases "l < k") auto
    then have "busy_set busy = {..<length busy}" by (auto simp: busy_set_def)
    then show False using Cons.prems(2) by simp
  qed
  then obtain j where j: "first_free busy k = Some j" by auto
  note f = first_free_Some [OF j]
  have below: "\<forall>l<j. l < length (busy[j := True]) \<longrightarrow> busy[j := True] ! l"
    using f Cons.prems(1) by (metis length_list_update not_less nth_list_update_neq order_less_irrefl)
  have fresh: "j \<notin> busy_set busy" using f by (simp add: busy_set_def)
  have set: "busy_set (busy[j := True]) = insert j (busy_set busy)" using f by (simp add: busy_set_update)
  have "length ps + card (busy_set (busy[j := True])) \<le> length (busy[j := True])"
    using Cons.prems(2) fresh by (simp add: set)
  then obtain busy' ps' where IH: "use_buffers_loop j (busy[j := True]) ps = Some (busy', ps')" "length busy' = length busy"
    "map mask_port ps' = map mask_port ps" "distinct (map buf_index ps')"
    "set (map buf_index ps') \<subseteq> {..<length busy} - insert j (busy_set busy)"
    "busy_set busy' = insert j (busy_set busy) \<union> set (map buf_index ps')"
    using Cons.IH [OF below] set by auto
  have "use_buffers_loop k busy (p # ps) = Some (busy', p\<lparr>buf_index := j\<rparr> # ps')" using j IH(1) by simp
  moreover have "distinct (map buf_index (p\<lparr>buf_index := j\<rparr> # ps'))" using IH(4,5) by auto
  moreover have "set (map buf_index (p\<lparr>buf_index := j\<rparr> # ps')) \<subseteq> {..<length busy} - busy_set busy"
    using IH(5) f fresh by auto
  ultimately show ?case using IH(2,3,6) by auto
qed simp

lemma unuse_buffers_ok:
  assumes "set (map buf_index ps) \<subseteq> {..<length busy}"
  shows "\<exists>busy'. unuse_buffers busy ps = Some busy' \<and> length busy' = length busy
    \<and> busy_set busy' = busy_set busy - set (map buf_index ps)"
  using assms
proof (induction ps arbitrary: busy)
  case (Cons p ps)
  then show ?case using Cons.IH [of "busy[buf_index p := False]"] by (auto simp: busy_set_update)
qed simp

lemma those_map_Some: "(\<And>x. x \<in> set xs \<Longrightarrow> f x = Some (g x)) \<Longrightarrow> those (map f xs) = Some (map g xs)"
  by (induction xs) auto

subsection \<open>Live ports\<close>

text \<open>The output port an input port reads, the output ports of the first \<open>n\<close> instances that have been
  read by one of them, and those that have not.\<close>

definition peers :: "inst list \<Rightarrow> nat \<Rightarrow> (nat \<times> nat) list" where
  "peers insts i = map (\<lambda>p. the (ap_peer p)) (input_audio_ports (insts ! i))"

definition consumed :: "inst list \<Rightarrow> nat \<Rightarrow> (nat \<times> nat) list" where
  "consumed insts n = concat (map (peers insts) [0..<n])"

definition live :: "inst list \<Rightarrow> nat \<Rightarrow> (nat \<times> nat) set" where
  "live insts n = (SIGMA a:{..<n}. {..<length (output_audio_ports (insts ! a))}) - set (consumed insts n)"

text \<open>Inputs read outputs of earlier instances, and no output is read twice.\<close>

definition links_ok :: "inst list \<Rightarrow> bool" where
  "links_ok insts \<longleftrightarrow>
     (\<forall>i<length insts. \<forall>p\<in>set (input_audio_ports (insts ! i)).
        \<exists>a b. ap_peer p = Some (a, b) \<and> a < i \<and> b < length (output_audio_ports (insts ! a))) \<and>
     distinct (consumed insts (length insts))"

definition buf_of :: "inst list \<Rightarrow> nat \<times> nat \<Rightarrow> nat" where
  "buf_of insts q = buf_index (output_audio_ports (insts ! fst q) ! snd q)"

lemma consumed_Suc: "consumed insts (Suc n) = consumed insts n @ peers insts n"
  by (simp add: consumed_def)

lemma links_peers:
  assumes "links_ok insts" "n < length insts"
  shows "set (peers insts n) \<subseteq> live insts n" "distinct (peers insts n)"
proof -
  obtain d where d: "length insts = Suc n + d" using assms(2) by (metis Suc_leI le_iff_add)
  have "consumed insts (length insts) = consumed insts (Suc n) @ concat (map (peers insts) [Suc n..<Suc n + d])"
    unfolding consumed_def d using upt_add_eq_append [of 0 "Suc n" d] by (simp del: upt_Suc)
  then have "distinct (consumed insts (Suc n))" using assms(1) by (simp add: links_ok_def)
  then have d: "distinct (peers insts n)" "set (consumed insts n) \<inter> set (peers insts n) = {}" by (auto simp: consumed_Suc)
  then show "distinct (peers insts n)" by blast
  show "set (peers insts n) \<subseteq> live insts n"
  proof
    fix q assume q: "q \<in> set (peers insts n)"
    then obtain a b where "q = (a, b)" "a < n" "b < length (output_audio_ports (insts ! a))"
      using assms unfolding links_ok_def peers_def by fastforce
    then show "q \<in> live insts n" using d q by (auto simp: live_def)
  qed
qed

lemma finite_live [simp]: "finite (live insts n)"
  by (simp add: live_def)

lemma live_Suc:
  assumes "links_ok insts" "n < length insts"
  shows "live insts (Suc n) = (live insts n - set (peers insts n)) \<union> Pair n ` {..<length (output_audio_ports (insts ! n))}"
    "live insts n \<inter> Pair n ` {..<length (output_audio_ports (insts ! n))} = {}"
proof -
  have "a < n" if q: "(a, b) \<in> set (consumed insts (Suc n))" for a b
  proof -
    obtain i where "i < Suc n" "(a, b) \<in> set (peers insts i)" using q by (auto simp: consumed_def simp del: upt_Suc)
    then show ?thesis using links_peers(1) [OF assms(1), of i] assms(2) by (fastforce simp: live_def)
  qed
  then have "Pair n ` {..<length (output_audio_ports (insts ! n))} \<inter> set (consumed insts (Suc n)) = {}" by fastforce
  then show "live insts (Suc n) = (live insts n - set (peers insts n)) \<union> Pair n ` {..<length (output_audio_ports (insts ! n))}"
    by (fastforce simp: live_def consumed_Suc less_Suc_eq)
  show "live insts n \<inter> Pair n ` {..<length (output_audio_ports (insts ! n))} = {}" by (auto simp: live_def)
qed

lemma card_live_Suc:
  assumes "links_ok insts" "n < length insts"
  shows "int (card (live insts (Suc n)))
    = int (card (live insts n)) - int (length (input_audio_ports (insts ! n))) + int (length (output_audio_ports (insts ! n)))"
    "length (input_audio_ports (insts ! n)) \<le> card (live insts n)"
proof -
  note p = links_peers [OF assms] and l = live_Suc [OF assms]
  have c: "card (set (peers insts n)) = length (input_audio_ports (insts ! n))"
    using p(2) by (simp add: distinct_card) (simp add: peers_def)
  then show le: "length (input_audio_ports (insts ! n)) \<le> card (live insts n)"
    using p(1) card_mono [OF finite_live p(1)] by simp
  have "card (live insts (Suc n)) = card (live insts n - set (peers insts n)) + length (output_audio_ports (insts ! n))"
    using l by (subst l(1), subst card_Un_disjoint) (auto simp: card_image inj_on_def)
  then show "int (card (live insts (Suc n)))
    = int (card (live insts n)) - int (length (input_audio_ports (insts ! n))) + int (length (output_audio_ports (insts ! n)))"
    using c le p(1) by (simp add: card_Diff_subset)
qed

subsection \<open>The count is the number of live ports\<close>

lemma count_buffers_live:
  assumes "links_ok insts" "n \<le> length insts"
  shows "fst (foldl count_buffers (0, 0) (take n insts)) = int (card (live insts n))"
  using assms(2)
proof (induction n)
  case 0
  then show ?case by (simp add: live_def)
next
  case (Suc n)
  then have "take (Suc n) insts = take n insts @ [insts ! n]" by (simp add: take_Suc_conv_app_nth)
  then show ?case using Suc card_live_Suc(1) [OF assms(1), of n]
    by (auto simp: count_buffers_def Let_def case_prod_beta)
qed

lemma count_buffers_peak_mono: "snd np \<le> snd (foldl count_buffers np xs)"
proof (induction xs arbitrary: np)
  case (Cons x xs)
  have "snd np \<le> snd (count_buffers np x)" by (simp add: count_buffers_def Let_def case_prod_beta)
  then show ?case using Cons [of "count_buffers np x"] by simp
qed simp

lemma peak_bound:
  assumes "links_ok insts" "n < length insts"
  shows "int (card (live insts n)) + int (length (output_audio_ports (insts ! n)))
      - (if inplace_broken (insts ! n) then 0 else int (length (input_audio_ports (insts ! n))))
    \<le> snd (foldl count_buffers (0, 0) insts)"
proof -
  have split: "insts = take n insts @ insts ! n # drop (Suc n) insts" using assms(2) by (rule id_take_nth_drop)
  let ?np = "foldl count_buffers (0, 0) (take n insts)"
  have "snd (count_buffers ?np (insts ! n)) \<le> snd (foldl count_buffers (0, 0) insts)"
    by (subst (3) split) (simp add: count_buffers_peak_mono)
  moreover have "fst ?np = int (card (live insts n))" using assms by (intro count_buffers_live) auto
  ultimately show ?thesis by (auto simp: count_buffers_def Let_def case_prod_beta)
qed

subsection \<open>The assignment\<close>

text \<open>An instance up to the buffer numbers of its ports.\<close>

definition mask_inst :: "inst \<Rightarrow> inst" where
  "mask_inst x = x\<lparr>input_audio_ports := map mask_port (input_audio_ports x),
                  output_audio_ports := map mask_port (output_audio_ports x)\<rparr>"

lemma mask_inst_eqD:
  assumes "mask_inst x = mask_inst y"
  shows "map mask_port (input_audio_ports x) = map mask_port (input_audio_ports y)"
    "map mask_port (output_audio_ports x) = map mask_port (output_audio_ports y)"
    "length (input_audio_ports x) = length (input_audio_ports y)"
    "length (output_audio_ports x) = length (output_audio_ports y)"
    "inplace_broken x = inplace_broken y"
    "map ap_peer (input_audio_ports x) = map ap_peer (input_audio_ports y)"
proof -
  show 1: "map mask_port (input_audio_ports x) = map mask_port (input_audio_ports y)"
    using arg_cong [OF assms, of input_audio_ports] by (simp add: mask_inst_def)
  show 2: "map mask_port (output_audio_ports x) = map mask_port (output_audio_ports y)"
    using arg_cong [OF assms, of output_audio_ports] by (simp add: mask_inst_def)
  show "length (input_audio_ports x) = length (input_audio_ports y)" using arg_cong [OF 1, of length] by simp
  show "length (output_audio_ports x) = length (output_audio_ports y)" using arg_cong [OF 2, of length] by simp
  show "inplace_broken x = inplace_broken y"
    using arg_cong [OF assms, of properties] by (simp add: mask_inst_def inplace_broken_def)
  show "map ap_peer (input_audio_ports x) = map ap_peer (input_audio_ports y)"
    using arg_cong [OF 1, of "map ap_peer"] by (simp add: o_def)
qed

text \<open>After the first \<open>n\<close> instances: exactly the buffers of the live ports are busy, each live port has
  a buffer of its own, every assigned number is in range, inputs use the buffers of the outputs
  they read, and no instance writes a buffer whose contents are still needed.\<close>

definition assigned :: "inst list \<Rightarrow> inst list \<Rightarrow> nat \<Rightarrow> nat \<Rightarrow> bool" where
  "assigned orig insts peak m \<longleftrightarrow>
     distinct (map buf_index (output_audio_ports (insts ! m))) \<and>
     (\<forall>p\<in>set (output_audio_ports (insts ! m)). buf_index p < peak \<and>
        (\<forall>q\<in>live orig m. inplace_broken (orig ! m) \<or> q \<notin> set (peers orig m) \<longrightarrow> buf_index p \<noteq> buf_of insts q)) \<and>
     (\<forall>p\<in>set (input_audio_ports (insts ! m)). buf_index p = buf_of insts (the (ap_peer p)))"

definition alloc_inv :: "inst list \<Rightarrow> nat \<Rightarrow> nat \<Rightarrow> bool list \<times> inst list \<Rightarrow> bool" where
  "alloc_inv orig peak n st \<longleftrightarrow>
     (case st of (busy, insts) \<Rightarrow>
        map mask_inst insts = map mask_inst orig \<and> length busy = peak \<and>
        busy_set busy = buf_of insts ` live orig n \<and> inj_on (buf_of insts) (live orig n) \<and>
        (\<forall>m<n. assigned orig insts peak m))"

lemma buf_of_update_other: "fst q \<noteq> n \<Longrightarrow> buf_of (insts[n := x]) q = buf_of insts q"
  by (simp add: buf_of_def)

lemma live_fst: "q \<in> live orig n \<Longrightarrow> fst q < n"
  by (auto simp: live_def)

lemma masked_peers:
  assumes "map mask_inst insts = map mask_inst orig" "m < length orig"
  shows "peers insts m = peers orig m" "mask_inst (insts ! m) = mask_inst (orig ! m)"
proof -
  have "length insts = length orig" using arg_cong [OF assms(1), of length] by simp
  then show e: "mask_inst (insts ! m) = mask_inst (orig ! m)" using assms by (metis nth_map)
  have "peers insts m = map the (map ap_peer (input_audio_ports (insts ! m)))" by (simp add: peers_def o_def)
  also have "\<dots> = peers orig m" unfolding mask_inst_eqD(6) [OF e] by (simp add: peers_def o_def)
  finally show "peers insts m = peers orig m" .
qed

text \<open>Both orders of taking and releasing leave the live ports' buffers busy.\<close>

lemma assign_buffers:
  assumes B: "busy_set busy = f ` L" "inj_on f L" and P: "P \<subseteq> L" "set (map buf_index ins) = f ` P"
    and room: "length outs + (if broken then card L else card (L - P)) \<le> length busy" and fin: "finite L"
  shows "\<exists>busy' outs'.
    (if broken then (case use_buffers busy outs of None \<Rightarrow> None | Some (b, os) \<Rightarrow>
         (case unuse_buffers b ins of None \<Rightarrow> None | Some b \<Rightarrow> Some (b, os)))
     else (case unuse_buffers busy ins of None \<Rightarrow> None | Some b \<Rightarrow> use_buffers b outs)) = Some (busy', outs')
    \<and> length busy' = length busy \<and> map mask_port outs' = map mask_port outs \<and> distinct (map buf_index outs')
    \<and> set (map buf_index outs') \<subseteq> {..<length busy} - f ` (if broken then L else L - P)
    \<and> busy_set busy' = f ` (L - P) \<union> set (map buf_index outs')"
proof -
  have sub: "f ` P \<subseteq> {..<length busy}" using B(1) P(1) by (auto simp: busy_set_def image_iff set_eq_iff)
  have card: "card (f ` S) = card S" if "S \<subseteq> L" for S using B(2) that by (meson card_image inj_on_subset)
  have diff: "f ` L - f ` P = f ` (L - P)" using inj_on_image_set_diff [OF B(2) _ P(1), of L] by simp
  show ?thesis
  proof (cases broken)
    case True
    then have "length outs + card (busy_set busy) \<le> length busy" using room B(1) card [of L] by simp
    then obtain b os where u: "use_buffers_loop 0 busy outs = Some (b, os)" "length b = length busy"
      "map mask_port os = map mask_port outs" "distinct (map buf_index os)"
      "set (map buf_index os) \<subseteq> {..<length busy} - busy_set busy" "busy_set b = busy_set busy \<union> set (map buf_index os)"
      using use_buffers_loop_ok [of 0 busy outs] by auto
    obtain b' where r: "unuse_buffers b ins = Some b'" "length b' = length b" "busy_set b' = busy_set b - set (map buf_index ins)"
      using unuse_buffers_ok [of ins b] sub P(2) u(2) by auto
    have "f ` P \<subseteq> f ` L" using P(1) by auto
    then have "busy_set b' = f ` (L - P) \<union> set (map buf_index os)"
      unfolding r(3) u(6) B(1) P(2) using u(5) B(1) diff by blast
    then show ?thesis using True u r B(1) by (simp add: use_buffers_def)
  next
    case False
    obtain b where r: "unuse_buffers busy ins = Some b" "length b = length busy" "busy_set b = busy_set busy - set (map buf_index ins)"
      using unuse_buffers_ok [of ins busy] sub P(2) by auto
    then have bs: "busy_set b = f ` (L - P)" using B(1) P(2) diff by simp
    then have "length outs + card (busy_set b) \<le> length b" using room False r(2) card [of "L - P"] by simp
    then obtain b' os where u: "use_buffers_loop 0 b outs = Some (b', os)" "length b' = length b"
      "map mask_port os = map mask_port outs" "distinct (map buf_index os)"
      "set (map buf_index os) \<subseteq> {..<length b} - busy_set b" "busy_set b' = busy_set b \<union> set (map buf_index os)"
      using use_buffers_loop_ok [of 0 b outs] by auto
    then show ?thesis using False r bs by (simp add: use_buffers_def)
  qed
qed

lemma assign_instance_eq:
  assumes "collect_inputs insts (input_audio_ports (insts ! i)) = Some ins"
  shows "assign_instance (busy, insts) i = map_option (\<lambda>(b, outs).
      (b, insts[i := (insts ! i)\<lparr>input_audio_ports := ins, output_audio_ports := outs\<rparr>]))
    (if inplace_broken (insts ! i) then (case use_buffers busy (output_audio_ports (insts ! i)) of None \<Rightarrow> None | Some (b, os) \<Rightarrow>
         (case unuse_buffers b ins of None \<Rightarrow> None | Some b \<Rightarrow> Some (b, os)))
     else (case unuse_buffers busy ins of None \<Rightarrow> None | Some b \<Rightarrow> use_buffers b (output_audio_ports (insts ! i))))"
  using assms by (simp add: assign_instance_def Let_def split: option.split prod.split)

lemma collect_inputs_ok:
  assumes "links_ok orig" "map mask_inst insts = map mask_inst orig" "n < length orig"
  shows "collect_inputs insts (input_audio_ports (insts ! n))
    = Some (map (\<lambda>p. p\<lparr>buf_index := buf_of insts (the (ap_peer p))\<rparr>) (input_audio_ports (insts ! n)))"
    "\<forall>p\<in>set (input_audio_ports (insts ! n)). fst (the (ap_peer p)) < n"
proof -
  have eq: "map ap_peer (input_audio_ports (insts ! n)) = map ap_peer (input_audio_ports (orig ! n))"
    using mask_inst_eqD(6) [OF masked_peers(2) [OF assms(2,3)]] .
  have peer: "\<exists>a b. ap_peer p = Some (a, b) \<and> a < n" if "p \<in> set (input_audio_ports (insts ! n))" for p
  proof -
    have "ap_peer p \<in> set (map ap_peer (input_audio_ports (orig ! n)))" unfolding eq [symmetric] using that by simp
    then obtain p' where "p' \<in> set (input_audio_ports (orig ! n))" "ap_peer p = ap_peer p'" by auto
    then show ?thesis using assms(1,3) unfolding links_ok_def by fastforce
  qed
  then show "\<forall>p\<in>set (input_audio_ports (insts ! n)). fst (the (ap_peer p)) < n" by fastforce
  show "collect_inputs insts (input_audio_ports (insts ! n))
    = Some (map (\<lambda>p. p\<lparr>buf_index := buf_of insts (the (ap_peer p))\<rparr>) (input_audio_ports (insts ! n)))"
    unfolding collect_inputs_def
  proof (rule those_map_Some)
    fix p assume "p \<in> set (input_audio_ports (insts ! n))"
    from peer [OF this] show "(case ap_peer p of None \<Rightarrow> None
        | Some (i, j) \<Rightarrow> Some (p\<lparr>buf_index := buf_index (output_audio_ports (insts ! i) ! j)\<rparr>))
      = Some (p\<lparr>buf_index := buf_of insts (the (ap_peer p))\<rparr>)" by (auto simp: buf_of_def)
  qed
qed

text \<open>The result of one iteration keeps the invariant.\<close>

lemma alloc_inv_step:
  assumes links: "links_ok orig" and n: "n < length orig" and inv: "alloc_inv orig peak n (busy, insts)"
    and ins: "ins = map (\<lambda>p. p\<lparr>buf_index := buf_of insts (the (ap_peer p))\<rparr>) (input_audio_ports (insts ! n))"
    and outs: "map mask_port outs = map mask_port (output_audio_ports (insts ! n))" "distinct (map buf_index outs)"
      "set (map buf_index outs) \<subseteq> {..<peak} - buf_of insts ` (if inplace_broken (orig ! n) then live orig n else live orig n - set (peers orig n))"
    and busy': "length busy' = peak" "busy_set busy' = buf_of insts ` (live orig n - set (peers orig n)) \<union> set (map buf_index outs)"
  shows "alloc_inv orig peak (Suc n) (busy', insts[n := (insts ! n)\<lparr>input_audio_ports := ins, output_audio_ports := outs\<rparr>])"
proof -
  let ?x = "(insts ! n)\<lparr>input_audio_ports := ins, output_audio_ports := outs\<rparr>"
  let ?insts = "insts[n := ?x]" and ?L = "live orig n" and ?P = "set (peers orig n)"
  have mask: "map mask_inst insts = map mask_inst orig" and inj: "inj_on (buf_of insts) ?L"
    and prev: "\<forall>m<n. assigned orig insts peak m" using inv by (auto simp: alloc_inv_def)
  have len: "length insts = length orig" using arg_cong [OF mask, of length] by simp
  have "mask_inst ?x = mask_inst (insts ! n)" using outs(1) by (simp add: mask_inst_def ins o_def)
  then have mask': "map mask_inst ?insts = map mask_inst orig" using mask n len masked_peers(2) [OF mask n]
    by (simp add: map_update list_update_same_conv)
  have old: "buf_of ?insts q = buf_of insts q" if "fst q < n" for q
    using that by (intro buf_of_update_other) simp
  have oldL: "buf_of ?insts q = buf_of insts q" if "q \<in> live orig m" "m \<le> n" for q m
    using that live_fst old by (meson less_le_trans)
  have lo: "length outs = length (output_audio_ports (orig ! n))"
    using arg_cong [OF outs(1), of length] mask_inst_eqD(4) [OF masked_peers(2) [OF mask n]] by simp
  have new: "buf_of ?insts (n, b) = map buf_index outs ! b" if "b < length outs" for b
    using that n len by (simp add: buf_of_def)
  note live = live_Suc [OF links n]
  have newset: "buf_of ?insts ` (Pair n ` {..<length outs}) = set (map buf_index outs)"
    by (auto simp: image_image new set_conv_nth image_iff) (metis nth_map)
  have oldset: "buf_of ?insts ` (?L - ?P) = buf_of insts ` (?L - ?P)" using oldL by (intro image_cong) auto
  have disj: "buf_of insts ` (?L - ?P) \<inter> set (map buf_index outs) = {}" using outs(3) by (auto split: if_splits)
  have "busy_set busy' = buf_of ?insts ` live orig (Suc n)"
    unfolding live(1) image_Un lo [symmetric] newset oldset busy'(2) ..
  moreover have "inj_on (buf_of ?insts) (live orig (Suc n))"
  proof -
    have "inj_on (buf_of ?insts) (?L - ?P)"
      using inj oldL [of _ n] by (auto simp: inj_on_def)
    moreover have "inj_on (buf_of ?insts) (Pair n ` {..<length outs})"
      using outs(2) by (auto simp: inj_on_def new intro: distinct_map_nth_eq [of buf_index outs])
    moreover have "buf_of ?insts ` (?L - ?P) \<inter> buf_of ?insts ` (Pair n ` {..<length outs}) = {}"
      unfolding newset oldset by (rule disj)
    ultimately show ?thesis unfolding live(1) lo [symmetric] inj_on_Un by blast
  qed
  moreover have "assigned orig ?insts peak m" if m: "m < Suc n" for m
  proof (cases "m = n")
    case True
    have peer: "\<forall>p\<in>set (input_audio_ports (insts ! n)). fst (the (ap_peer p)) < n"
      using collect_inputs_ok(2) [OF links mask n] .
    have "\<forall>p\<in>set ins. buf_index p = buf_of ?insts (the (ap_peer p))" using peer old by (auto simp: ins)
    moreover have "\<forall>p\<in>set outs. buf_index p < peak \<and>
        (\<forall>q\<in>?L. inplace_broken (orig ! n) \<or> q \<notin> ?P \<longrightarrow> buf_index p \<noteq> buf_of ?insts q)"
      using outs(3) oldL [of _ n] by (auto split: if_splits)
    ultimately show ?thesis using True n len outs(2) by (simp add: assigned_def)
  next
    case False
    then have mn: "m < n" using m by simp
    have peer: "\<forall>p\<in>set (input_audio_ports (insts ! m)). fst (the (ap_peer p)) < m"
      using collect_inputs_ok(2) [OF links mask, of m] mn n by simp
    have "assigned orig insts peak m" using prev mn by simp
    moreover have "?insts ! m = insts ! m" using mn by simp
    moreover have "\<forall>q\<in>live orig m. buf_of ?insts q = buf_of insts q" using oldL mn by simp
    moreover have "\<forall>p\<in>set (input_audio_ports (insts ! m)). buf_of ?insts (the (ap_peer p)) = buf_of insts (the (ap_peer p))"
      using peer mn by (intro ballI old) (meson less_trans)
    ultimately show ?thesis unfolding assigned_def by simp
  qed
  ultimately show ?thesis using mask' busy'(1) by (simp add: alloc_inv_def)
qed

lemma assign_instance_ok:
  assumes links: "links_ok orig" and n: "n < length orig" and inv: "alloc_inv orig peak n (busy, insts)"
    and room: "int (card (live orig n)) + int (length (output_audio_ports (orig ! n)))
      - (if inplace_broken (orig ! n) then 0 else int (length (input_audio_ports (orig ! n)))) \<le> int peak"
  shows "\<exists>st. assign_instance (busy, insts) n = Some st \<and> alloc_inv orig peak (Suc n) st"
proof -
  have mask: "map mask_inst insts = map mask_inst orig" and lb: "length busy = peak"
    and B: "busy_set busy = buf_of insts ` live orig n" and inj: "inj_on (buf_of insts) (live orig n)"
    using inv by (auto simp: alloc_inv_def)
  note m = mask_inst_eqD [OF masked_peers(2) [OF mask n]] and p = links_peers [OF links n]
  let ?ins = "map (\<lambda>p. p\<lparr>buf_index := buf_of insts (the (ap_peer p))\<rparr>) (input_audio_ports (insts ! n))"
  have bufs: "map buf_index ?ins = map (buf_of insts) (peers orig n)"
    unfolding masked_peers(1) [OF mask n, symmetric] by (simp add: peers_def o_def)
  have "card (live orig n - set (peers orig n)) + length (input_audio_ports (orig ! n)) = card (live orig n)"
    using p card_live_Suc(2) [OF links n] by (simp add: card_Diff_subset distinct_card) (simp add: peers_def)
  then have r: "length (output_audio_ports (insts ! n)) + (if inplace_broken (insts ! n) then card (live orig n)
      else card (live orig n - set (peers orig n))) \<le> length busy"
    using room lb m(4,5) by (auto split: if_splits)
  have pset: "set (map buf_index ?ins) = buf_of insts ` set (peers orig n)" unfolding bufs by simp
  from assign_buffers [OF B inj p(1) pset r finite_live] obtain busy' outs where
    res: "assign_instance (busy, insts) n = Some (busy', insts[n := (insts ! n)\<lparr>input_audio_ports := ?ins, output_audio_ports := outs\<rparr>])"
    and "length busy' = length busy" "map mask_port outs = map mask_port (output_audio_ports (insts ! n))" "distinct (map buf_index outs)"
      "set (map buf_index outs) \<subseteq> {..<length busy} - buf_of insts ` (if inplace_broken (insts ! n) then live orig n else live orig n - set (peers orig n))"
      "busy_set busy' = buf_of insts ` (live orig n - set (peers orig n)) \<union> set (map buf_index outs)"
    unfolding assign_instance_eq [OF collect_inputs_ok(1) [OF links mask n]] by auto
  then show ?thesis using alloc_inv_step [OF links n inv refl] lb m(5) by simp
qed

lemma assign_loop_ok:
  assumes links: "links_ok orig" and peak: "int peak = snd (foldl count_buffers (0, 0) orig)"
  shows "n \<le> k \<Longrightarrow> k = length orig \<Longrightarrow> alloc_inv orig peak n st \<Longrightarrow>
    \<exists>st'. assign_loop [n..<k] st = Some st' \<and> alloc_inv orig peak k st'"
proof (induction n arbitrary: st rule: inc_induct)
  case base
  then show ?case by simp
next
  case (step n)
  obtain busy insts where st: "st = (busy, insts)" by (cases st)
  have n: "n < length orig" using step.hyps step.prems(1) by simp
  obtain st1 where "assign_instance st n = Some st1" "alloc_inv orig peak (Suc n) st1"
    using assign_instance_ok [OF links n, of peak busy insts] peak_bound [OF links n] step.prems(2) peak st by auto
  then show ?case using step.IH [of st1] step.hyps step.prems(1) by (simp add: upt_conv_Cons)
qed

lemma buffers_assigned:
  assumes "links_ok (instances pl)" "snd (foldl count_buffers (0, 0) (instances pl)) > 0"
  shows "\<exists>pl'. allocate_buffers True pl = Some (Inr pl')
    \<and> map mask_inst (instances pl') = map mask_inst (instances pl)
    \<and> (\<forall>m<length (instances pl). assigned (instances pl) (instances pl') (nat (peak_buf pl')) m)"
proof -
  let ?orig = "instances pl" and ?peak = "snd (foldl count_buffers (0, 0) (instances pl))"
  have "busy_set (replicate (nat ?peak) False) = {}" by (auto simp: busy_set_def)
  then have "alloc_inv ?orig (nat ?peak) 0 (replicate (nat ?peak) False, ?orig)" by (simp add: alloc_inv_def live_def)
  then obtain busy insts where "assign_loop [0..<length ?orig] (replicate (nat ?peak) False, ?orig) = Some (busy, insts)"
    "alloc_inv ?orig (nat ?peak) (length ?orig) (busy, insts)"
    using assign_loop_ok [OF assms(1), of "nat ?peak" 0 "length ?orig" "(replicate (nat ?peak) False, ?orig)"] assms(2)
    by auto
  then show ?thesis using assms(2) by (auto simp: allocate_buffers_def case_prod_beta alloc_inv_def)
qed

text \<open>C18. Buffer allocation is safe and exact. When every input port reads an output of an earlier
  instance and no output is read twice, the peak that the first loop counts suffices: the search for
  a free buffer never leaves the array, every port gets a number below the peak, an input uses the
  buffer of the output it reads, the outputs of an instance get different buffers, and no instance
  is given an output buffer that holds data some later instance still has to read (or that it reads
  itself, if it cannot work in place).\<close>

theorem allocate_buffers_safe:
  assumes "links_ok (instances pl)" "snd (foldl count_buffers (0, 0) (instances pl)) > 0"
  shows "\<exists>pl'. allocate_buffers True pl = Some (Inr pl')
    \<and> map mask_inst (instances pl') = map mask_inst (instances pl)
    \<and> (\<forall>m<length (instances pl). assigned (instances pl) (instances pl') (nat (peak_buf pl')) m)"
  using assms by (rule buffers_assigned)

definition example_port :: "(nat \<times> nat) option \<Rightarrow> nat \<Rightarrow> audio_port" where
  "example_port peer i = \<lparr>ap_peer = peer, ap_plugin = 0, ap_original_index = i, buf_index = 0\<rparr>"

definition example_inst :: "nat \<Rightarrow> (nat \<times> nat) list \<Rightarrow> nat \<Rightarrow> int \<Rightarrow> inst" where
  "example_inst pl ins nout props = (new_instance pl)\<lparr>input_audio_ports := map (\<lambda>q. example_port (Some q) 0) ins,
     output_audio_ports := map (example_port None) [0..<nout], properties := props\<rparr>"

definition example_pipeline :: "inst list \<Rightarrow> pipeline" where
  "example_pipeline insts = \<lparr>pl_purpose = ''playback'', pl_ini = \<lparr>plugins = [], flows = []\<rparr>, instances = insts, peak_buf = 0,
     source_instance = Some 0, sink_instance = Some (length insts - 1), input_channels = 2, output_channels = 2, sample_rate = 0,
     total_time = 0, max_time = 0, min_time = 0, total_blocks = 0, total_samples = 0, offload_applied = False\<rparr>"

text \<open>A stereo source, a module that cannot work in place, and a sink: three buffers are needed.\<close>

definition example_insts :: "inst list" where
  "example_insts = [example_inst 0 [] 2 0, example_inst 1 [(0, 0)] 1 1, example_inst 2 [(1, 0), (0, 1)] 0 0]"

theorem allocate_buffers_safe_witness:
  "\<exists>pl'. allocate_buffers True (example_pipeline example_insts) = Some (Inr pl')
     \<and> (\<forall>m<3. assigned example_insts (instances pl') (nat (peak_buf pl')) m)"
proof -
  have "links_ok example_insts"
    by (auto simp: links_ok_def example_insts_def example_inst_def example_port_def consumed_def peers_def
        new_instance_def less_Suc_eq numeral_3_eq_3)
  moreover have "snd (foldl count_buffers (0, 0) example_insts) > 0" by code_simp
  moreover have "instances (example_pipeline example_insts) = example_insts" "length example_insts = 3"
    by (simp_all add: example_pipeline_def example_insts_def)
  ultimately show ?thesis using allocate_buffers_safe [of "example_pipeline example_insts"] by auto
qed

text \<open>A configuration in which a plugin reads the source's first channel on both of its inputs.\<close>

definition double_reader_dict :: dictionary where
  "double_reader_dict = map_of
     [(''s:library'', ''builtin''), (''s:label'', ''source''), (''s:purpose'', ''playback''),
      (''s:output_0'', ''{x}''), (''s:output_1'', ''{w}''),
      (''m:library'', ''builtin''), (''m:label'', ''mix_stereo''),
      (''m:input_0'', ''{x}''), (''m:input_1'', ''{x}''), (''m:output_2'', ''{y}''), (''m:output_3'', ''{z}''),
      (''d:library'', ''builtin''), (''d:label'', ''sink''), (''d:purpose'', ''playback''),
      (''d:input_0'', ''{y}''), (''d:input_1'', ''{z}'')]"

definition double_reader_run :: "(int + pipeline) option option" where
  "double_reader_run =
     (case cras_dsp_ini_create (Some ([''s'', ''m'', ''d''], double_reader_dict)) (\<lambda>_. None) of
        None \<Rightarrow> None
      | Some g \<Rightarrow>
          (case cras_dsp_pipeline_create 9 g \<lparr>keys = [], vals = []\<rparr> ''playback'' of
             Some (Some pl) \<Rightarrow> Some (cras_dsp_pipeline_load (\<lambda>_. Some 0) True pl)
           | _ \<Rightarrow> None))"

text \<open>The condition that no output is read twice is needed, and nothing in the code establishes it:
  a configuration in which a plugin reads one channel of the source on both of its inputs is
  accepted and its pipeline is built, but the count of buffers is then too low, and the search for a
  free buffer in \<open>use_buffers\<close> runs off the end of the array.\<close>

lemma double_reader_overflows: "double_reader_run = Some None"
  by code_simp

section \<open>Going upstream through disabled plugins\<close>

text \<open>A disabled plugin whose output feeds its own input, in front of a sink.\<close>

definition loop_port :: "port_direction \<Rightarrow> port" where
  "loop_port dir = \<lparr>direction = dir, port_type = PORT_AUDIO, flow_id = 0, init_value = 0\<rparr>"

definition loop_ini :: ini where
  "loop_ini = \<lparr>plugins =
     [(builtin_plugin ''eq'' ''eq'' None)\<lparr>disable_expr := Some (Expr_literal (Value_boolean True)),
        ports := [loop_port PORT_INPUT, loop_port PORT_OUTPUT]\<rparr>,
      (builtin_plugin ''sink'' ''sink'' (Some ''playback''))\<lparr>ports := [loop_port PORT_INPUT]\<rparr>],
     flows = [\<lparr>flow_type = PORT_AUDIO, flow_name = ''{d}'', flow_from = Some 0, flow_to = Some 1, from_port = 1, to_port = 0\<rparr>]\<rparr>"

lemma loop_simps:
  "ports (plugins loop_ini ! 0) = [loop_port PORT_INPUT, loop_port PORT_OUTPUT]"
  "ports (plugins loop_ini ! Suc 0) = [loop_port PORT_INPUT]"
  "is_disabled (plugins loop_ini ! 0) env" "\<not> is_disabled (plugins loop_ini ! Suc 0) env"
  "flow_id (loop_port d) = 0" "direction (loop_port d) = d" "port_type (loop_port d) = PORT_AUDIO"
  "flow_from (flows loop_ini ! 0) = Some 0"
  by (simp_all add: loop_ini_def loop_port_def builtin_plugin_def is_disabled_def cras_expr_expression_eval_boolean_def)

lemma loop_never_ends: "find_origin_port n loop_ini [x] 0 0 = None" if "inst_plugin x = 1"
  using that
  by (induction n) (simp_all add: loop_ini_def loop_port_def builtin_plugin_def INVALID_FLOW_ID_def Let_def
      find_instance_by_plugin_def numeral_2_eq_2)

text \<open>Building a pipeline does not terminate when disabled plugins form a cycle: for a graph with a
  disabled plugin that feeds itself, \<open>find_origin_port\<close> and with it \<open>topological_sort\<close> have no result
  for any amount of fuel, although every plugin is visited once.\<close>

lemma disabled_cycle_diverges:
  "\<forall>n. topological_sort 3 n loop_ini \<lparr>keys = [], vals = []\<rparr> 1 ([False, False], []) = None"
proof
  fix n
  have "find_origin_port n loop_ini [new_instance 1] 1 0 = None"
  proof (cases n)
    case (Suc m)
    then show ?thesis using loop_never_ends [of "new_instance 1" m]
      by (simp add: loop_ini_def loop_port_def builtin_plugin_def INVALID_FLOW_ID_def Let_def
          find_instance_by_plugin_def new_instance_def)
  qed simp
  then show "topological_sort 3 n loop_ini \<lparr>keys = [], vals = []\<rparr> 1 ([False, False], []) = None"
    by (simp add: numeral_3_eq_3 loop_simps INVALID_FLOW_ID_def)
qed

section \<open>The instances and their links\<close>

lemma find_instance_loop_Some:
  "find_instance_loop insts i pl = Some j \<Longrightarrow> i \<le> j \<and> j < i + length insts \<and> inst_plugin (insts ! (j - i)) = pl"
proof (induction insts arbitrary: i)
  case (Cons x xs)
  show ?case
  proof (cases "inst_plugin x = pl")
    case False
    then have "Suc i \<le> j \<and> j < Suc i + length xs \<and> inst_plugin (xs ! (j - Suc i)) = pl"
      using Cons.prems Cons.IH [of "Suc i"] by simp
    moreover from this have "j - i = Suc (j - Suc i)" by auto
    ultimately show ?thesis by simp
  qed (use Cons.prems in simp)
qed simp

lemma find_instance_Some:
  "find_instance_by_plugin insts pl = Some j \<Longrightarrow> j < length insts \<and> inst_plugin (insts ! j) = pl"
  using find_instance_loop_Some [of insts 0 pl j] by (simp add: find_instance_by_plugin_def)

lemma find_port_index_Some: "find_port_index xs i idx = Some j \<Longrightarrow> i \<le> j \<and> j < i + length xs"
proof (induction xs arbitrary: i)
  case (Cons x xs)
  show ?case using Cons.prems Cons.IH [of "Suc i"] by (cases "x = idx") (auto dest: Suc_leD)
qed simp

lemma find_output_audio_port_Some:
  "find_output_audio_port insts pl idx = Some (i, j) \<Longrightarrow> i < length insts \<and> j < length (output_audio_ports (insts ! i))"
  by (auto simp: find_output_audio_port_def dest!: find_instance_Some find_port_index_Some split: option.splits)

text \<open>Each input port is linked to an output port of this or an earlier instance.\<close>

definition linked :: "inst list \<Rightarrow> bool" where
  "linked insts \<longleftrightarrow>
     (\<forall>i<length insts. \<forall>p\<in>set (input_audio_ports (insts ! i)).
        \<exists>a b. ap_peer p = Some (a, b) \<and> a \<le> i \<and> b < length (output_audio_ports (insts ! a)))"

lemma linkedD:
  "linked insts \<Longrightarrow> i < length insts \<Longrightarrow> p \<in> set (input_audio_ports (insts ! i)) \<Longrightarrow>
   \<exists>a b. ap_peer p = Some (a, b) \<and> a \<le> i \<and> b < length (output_audio_ports (insts ! a))"
  unfolding linked_def by blast

lemma length_update_inst [simp]: "length (update_inst i f insts) = length insts"
  by (simp add: update_inst_def)

lemma nth_update_inst:
  "i < length insts \<Longrightarrow> update_inst i f insts ! j = (if j = i then f (insts ! i) else insts ! j)"
  by (simp add: update_inst_def nth_list_update)

lemma map_update_inst: "(\<And>x. g (f x) = g x) \<Longrightarrow> map g (update_inst i f insts) = map g insts"
  unfolding update_inst_def by (metis list_update_id map_update nth_map list_update_beyond not_le)

text \<open>Growing or relabelling output ports keeps links valid.\<close>

lemma linked_mono:
  assumes "linked insts" "length insts' = length insts"
    and "\<And>i. i < length insts \<Longrightarrow> set (map ap_peer (input_audio_ports (insts' ! i))) \<subseteq> set (map ap_peer (input_audio_ports (insts ! i)))"
    and "\<And>i. i < length insts \<Longrightarrow> length (output_audio_ports (insts ! i)) \<le> length (output_audio_ports (insts' ! i))"
  shows "linked insts'"
  unfolding linked_def
proof (intro allI impI ballI)
  fix i p assume i: "i < length insts'" and p: "p \<in> set (input_audio_ports (insts' ! i))"
  then have "ap_peer p \<in> set (map ap_peer (input_audio_ports (insts ! i)))" using assms(2) assms(3) [of i] by auto
  then obtain q where "q \<in> set (input_audio_ports (insts ! i))" "ap_peer p = ap_peer q" by auto
  then obtain a b where "ap_peer p = Some (a, b)" "a \<le> i" "b < length (output_audio_ports (insts ! a))"
    using assms(1,2) i unfolding linked_def by fastforce
  then show "\<exists>a b. ap_peer p = Some (a, b) \<and> a \<le> i \<and> b < length (output_audio_ports (insts' ! a))"
    using assms(4) [of a] assms(2) i by fastforce
qed

text \<open>Control ports do not matter for the audio links.\<close>

definition audio_view :: "inst \<Rightarrow> audio_port list \<times> audio_port list \<times> nat" where
  "audio_view x = (input_audio_ports x, output_audio_ports x, inst_plugin x)"

lemma audio_view_control [simp]:
  "audio_view (x\<lparr>input_control_ports := cs\<rparr>) = audio_view x" "audio_view (x\<lparr>output_control_ports := cs\<rparr>) = audio_view x"
  by (simp_all add: audio_view_def)

lemma add_control_view:
  "add_control me pl i p origin insts = Inr insts' \<Longrightarrow> map audio_view insts' = map audio_view insts"
  unfolding add_control_def Let_def
  by (cases "direction p = PORT_INPUT"; cases origin)
    (auto simp: map_update_inst split: option.splits)

lemma add_control_linked:
  assumes "add_control me pl i p origin insts = Inr insts'" "linked insts"
  shows "linked insts' \<and> length insts' = length insts \<and> map inst_plugin insts' = map inst_plugin insts"
proof -
  note audio = add_control_view [OF assms(1)]
  then have len: "length insts' = length insts" by (metis length_map)
  have nth: "audio_view (insts' ! k) = audio_view (insts ! k)" if "k < length insts" for k
    using audio len that by (metis nth_map)
  have "map inst_plugin insts' = map inst_plugin insts"
    using len nth by (intro nth_equalityI) (auto simp: audio_view_def)
  moreover have "linked insts'"
    by (rule linked_mono [OF assms(2) len]) (use nth in \<open>auto simp: audio_view_def\<close>)
  ultimately show ?thesis using len by simp
qed

lemma add_audio_linked:
  assumes "add_audio me pl i p origin insts = Inr insts'" "linked insts" "Suc me = length insts"
    and "direction p = PORT_INPUT \<longrightarrow> origin \<noteq> None"
  shows "linked insts' \<and> length insts' = length insts \<and> map inst_plugin insts' = map inst_plugin insts"
proof (cases "direction p = PORT_INPUT")
  case False
  let ?f = "\<lambda>x. x\<lparr>output_audio_ports := output_audio_ports x @ [\<lparr>ap_peer = None, ap_plugin = pl, ap_original_index = i, buf_index = 0\<rparr>]\<rparr>"
  have eq: "insts' = update_inst me ?f insts" using assms(1) False by (simp add: add_audio_def Let_def)
  have "linked insts'" by (rule linked_mono [OF assms(2)]) (use assms(3) in \<open>auto simp: eq nth_update_inst\<close>)
  then show ?thesis by (simp add: eq map_update_inst)
next
  case True
  let ?ap = "\<lparr>ap_peer = None, ap_plugin = pl, ap_original_index = i, buf_index = 0\<rparr>"
  let ?j = "length (input_audio_ports (insts ! me))"
  let ?insts1 = "update_inst me (\<lambda>x. x\<lparr>input_audio_ports := input_audio_ports x @ [?ap]\<rparr>) insts"
  from assms(4) True obtain opl oidx where origin: "origin = Some (opl, oidx)" by auto
  from assms(1) obtain oi oj where o: "find_output_audio_port ?insts1 opl oidx = Some (oi, oj)"
    unfolding add_audio_def Let_def if_P [OF True] origin
    by (cases "find_output_audio_port ?insts1 opl oidx") (auto simp only: option.case prod.case sum.distinct)
  have eq: "insts' = update_inst me (\<lambda>x. x\<lparr>input_audio_ports := (input_audio_ports x)[?j := ?ap\<lparr>ap_peer := Some (oi, oj)\<rparr>]\<rparr>)
      (update_inst oi (\<lambda>x. x\<lparr>output_audio_ports := (output_audio_ports x)[oj := (output_audio_ports x ! oj)\<lparr>ap_peer := Some (me, ?j)\<rparr>]\<rparr>) ?insts1)"
    using assms(1) unfolding add_audio_def Let_def if_P [OF True] origin
    by (simp only: option.case prod.case o sum.inject)
  have oi: "oi < length insts" "oj < length (output_audio_ports (?insts1 ! oi))" using find_output_audio_port_Some [OF o] by auto
  have me: "me < length insts" using assms(3) by simp
  have ins: "input_audio_ports (insts' ! k) = (if k = me then input_audio_ports (insts ! me) @ [?ap\<lparr>ap_peer := Some (oi, oj)\<rparr>]
      else input_audio_ports (insts ! k))" if "k < length insts" for k
    using that me oi(1) by (simp add: eq nth_update_inst)
  have outs: "length (output_audio_ports (insts' ! k)) = length (output_audio_ports (insts ! k))" if "k < length insts" for k
    using that me oi(1) by (simp add: eq nth_update_inst)
  have len: "length insts' = length insts" by (simp add: eq)
  have oj: "oj < length (output_audio_ports (insts ! oi))" using oi me by (simp add: nth_update_inst split: if_splits)
  have "linked insts'"
    unfolding linked_def
  proof (intro allI impI ballI)
    fix k q assume k: "k < length insts'" and q: "q \<in> set (input_audio_ports (insts' ! k))"
    consider (new) "k = me" "q = ?ap\<lparr>ap_peer := Some (oi, oj)\<rparr>" | (old) "q \<in> set (input_audio_ports (insts ! k))"
      using q ins [of k] k len by (auto split: if_splits)
    then show "\<exists>a b. ap_peer q = Some (a, b) \<and> a \<le> k \<and> b < length (output_audio_ports (insts' ! a))"
    proof cases
      case new
      then show ?thesis using oi(1) oj outs [of oi] assms(3) by simp
    next
      case old
      then obtain a b where ab: "ap_peer q = Some (a, b)" "a \<le> k" "b < length (output_audio_ports (insts ! a))"
        using linkedD [OF assms(2), of k q] k len by auto
      then have "a < length insts" using k len by simp
      then show ?thesis using ab outs by auto
    qed
  qed
  then show ?thesis using len by (simp add: eq map_update_inst)
qed

text \<open>Audio ports always carry a flow: \<open>parse_ports\<close> makes a port an audio port only for a flow name.\<close>

definition audio_connected :: "port list \<Rightarrow> bool" where
  "audio_connected ps \<longleftrightarrow> (\<forall>p\<in>set ps. port_type p = PORT_AUDIO \<longrightarrow> flow_id p \<noteq> INVALID_FLOW_ID)"

lemma construct_ports_linked:
  "construct_ports n g me pl i ps insts = Some (Inr insts') \<Longrightarrow> linked insts \<Longrightarrow> Suc me = length insts \<Longrightarrow>
   audio_connected ps \<Longrightarrow>
   linked insts' \<and> length insts' = length insts \<and> map inst_plugin insts' = map inst_plugin insts"
proof (induction ps arbitrary: i insts)
  case (Cons p ps)
  have "\<exists>origin insts1. (direction p = PORT_INPUT \<and> port_type p = PORT_AUDIO \<longrightarrow> origin \<noteq> None) \<and>
      (if port_type p = PORT_AUDIO then add_audio else add_control) me pl i p origin insts = Inr insts1 \<and>
      construct_ports n g me pl (Suc i) ps insts1 = Some (Inr insts')"
  proof (cases "flow_id p \<noteq> INVALID_FLOW_ID \<and> direction p = PORT_INPUT")
    case True
    then show ?thesis using Cons.prems(1) by (fastforce simp: Let_def split: option.splits sum.splits)
  next
    case False
    then have "direction p = PORT_INPUT \<and> port_type p = PORT_AUDIO \<longrightarrow> False"
      using Cons.prems(4) by (auto simp: audio_connected_def)
    then show ?thesis using Cons.prems(1) False
      by (intro exI [of _ None]) (auto simp: Let_def split: sum.splits)
  qed
  then obtain origin insts1 where o: "direction p = PORT_INPUT \<and> port_type p = PORT_AUDIO \<longrightarrow> origin \<noteq> None"
    and add: "(if port_type p = PORT_AUDIO then add_audio else add_control) me pl i p origin insts = Inr insts1"
    and rest: "construct_ports n g me pl (Suc i) ps insts1 = Some (Inr insts')" by blast
  have one: "linked insts1 \<and> length insts1 = length insts \<and> map inst_plugin insts1 = map inst_plugin insts"
    using add add_audio_linked [OF _ Cons.prems(2,3), of pl i p origin insts1] o
      add_control_linked [OF _ Cons.prems(2), of me pl i p origin insts1] by (auto split: if_splits)
  then show ?case using Cons.IH [OF rest] Cons.prems(3,4) by (auto simp: audio_connected_def)
qed simp

lemma linked_snoc: "linked insts \<Longrightarrow> linked (insts @ [new_instance pl])"
  unfolding linked_def
proof (intro allI impI ballI)
  fix i p assume l: "\<forall>i<length insts. \<forall>p\<in>set (input_audio_ports (insts ! i)).
      \<exists>a b. ap_peer p = Some (a, b) \<and> a \<le> i \<and> b < length (output_audio_ports (insts ! a))"
    and i: "i < length (insts @ [new_instance pl])" and p: "p \<in> set (input_audio_ports ((insts @ [new_instance pl]) ! i))"
  then have "i < length insts" by (auto simp: nth_append new_instance_def split: if_splits)
  moreover from this p l obtain a b where "ap_peer p = Some (a, b)" "a \<le> i" "b < length (output_audio_ports (insts ! a))"
    by (auto simp: nth_append) blast
  ultimately show "\<exists>a b. ap_peer p = Some (a, b) \<and> a \<le> i \<and> b < length (output_audio_ports ((insts @ [new_instance pl]) ! a))"
    by (auto simp: nth_append)
qed

text \<open>What a run of the sort from one state to another does: it marks plugins and appends instances
  of enabled plugins that were not marked before, each once.\<close>

definition sort_run :: "ini \<Rightarrow> cras_expr_env \<Rightarrow> bool list \<times> inst list \<Rightarrow> bool list \<times> inst list \<Rightarrow> bool" where
  "sort_run g env st st' \<longleftrightarrow>
     (case (st, st') of ((v, insts), (v', insts')) \<Rightarrow>
        length v' = length v \<and> (\<forall>k<length v. v ! k \<longrightarrow> v' ! k) \<and> (linked insts \<longrightarrow> linked insts') \<and>
        (\<exists>pls. map inst_plugin insts' = map inst_plugin insts @ pls \<and> distinct pls \<and>
           (\<forall>k\<in>set pls. k < length v \<and> \<not> v ! k \<and> v' ! k \<and> \<not> is_disabled (plugins g ! k) env)))"

lemma sort_run_refl: "sort_run g env st st"
  by (cases st) (simp add: sort_run_def)

lemma sort_run_trans:
  assumes "sort_run g env st1 st2" "sort_run g env st2 st3"
  shows "sort_run g env st1 st3"
proof -
  obtain v1 i1 v2 i2 v3 i3 where st: "st1 = (v1, i1)" "st2 = (v2, i2)" "st3 = (v3, i3)" by (cases st1, cases st2, cases st3) auto
  from assms(1) obtain p1 where p1: "length v2 = length v1" "\<forall>k<length v1. v1 ! k \<longrightarrow> v2 ! k" "linked i1 \<longrightarrow> linked i2"
    "map inst_plugin i2 = map inst_plugin i1 @ p1" "distinct p1"
    "\<forall>k\<in>set p1. k < length v1 \<and> \<not> v1 ! k \<and> v2 ! k \<and> \<not> is_disabled (plugins g ! k) env"
    unfolding sort_run_def st by auto
  from assms(2) obtain p2 where p2: "length v3 = length v2" "\<forall>k<length v2. v2 ! k \<longrightarrow> v3 ! k" "linked i2 \<longrightarrow> linked i3"
    "map inst_plugin i3 = map inst_plugin i2 @ p2" "distinct p2"
    "\<forall>k\<in>set p2. k < length v2 \<and> \<not> v2 ! k \<and> v3 ! k \<and> \<not> is_disabled (plugins g ! k) env"
    unfolding sort_run_def st by auto
  have "distinct (p1 @ p2)" using p1(5,6) p2(5,6) by auto
  moreover have "\<forall>k\<in>set (p1 @ p2). k < length v1 \<and> \<not> v1 ! k \<and> v3 ! k \<and> \<not> is_disabled (plugins g ! k) env"
    using p1(1,2,6) p2(2,6) by auto
  moreover have "map inst_plugin i3 = map inst_plugin i1 @ (p1 @ p2)" using p1(4) p2(4) by simp
  ultimately show ?thesis unfolding sort_run_def st using p1(1-3) p2(1-3) by auto
qed

text \<open>The static graph as the ini file gives it.\<close>

definition graph_ok :: "ini \<Rightarrow> bool" where
  "graph_ok g \<longleftrightarrow> flow_ids_ok (length (flows g)) (plugins g) \<and>
     (\<forall>pl\<in>set (plugins g). audio_connected (ports pl)) \<and>
     (\<forall>f\<in>set (flows g). case flow_from f of None \<Rightarrow> True | Some i \<Rightarrow> i < length (plugins g))"

lemma graph_ok_source:
  assumes "graph_ok g" "ports_ok (length (flows g)) (p # ps)" "flow_id p \<noteq> INVALID_FLOW_ID"
    and "flow_from (flows g ! nat (flow_id p)) = Some src"
  shows "src < length (plugins g)"
proof -
  have "nat (flow_id p) < length (flows g)" using assms(2,3) by (auto simp: ports_ok_def INVALID_FLOW_ID_def)
  then have "flows g ! nat (flow_id p) \<in> set (flows g)" by simp
  then show ?thesis using assms(1,4) unfolding graph_ok_def by fastforce
qed

lemma sort_sources_run:
  assumes g: "graph_ok g"
    and IH: "\<And>pl st st'. topological_sort n m g env pl st = Some (Inr st') \<Longrightarrow> pl < length (plugins g) \<Longrightarrow>
      length (fst st) = length (plugins g) \<Longrightarrow> linked (snd st) \<Longrightarrow> sort_run g env st st'"
  shows "sort_sources n m g env ps st = Some (Inr st') \<Longrightarrow> ports_ok (length (flows g)) ps \<Longrightarrow>
    length (fst st) = length (plugins g) \<Longrightarrow> linked (snd st) \<Longrightarrow> sort_run g env st st'"
proof (induction ps arbitrary: st)
  case Nil
  then show ?case by (simp add: sort_run_refl)
next
  case (Cons p ps)
  have ps: "ports_ok (length (flows g)) ps" using Cons.prems(2) by (simp add: ports_ok_def)
  show ?case
  proof (cases "flow_id p = INVALID_FLOW_ID")
    case True
    then show ?thesis using Cons.IH [OF _ ps Cons.prems(3,4)] Cons.prems(1) by simp
  next
    case False
    then obtain src st1 where src: "flow_from (flows g ! nat (flow_id p)) = Some src"
      and one: "topological_sort n m g env src st = Some (Inr st1)" and rest: "sort_sources n m g env ps st1 = Some (Inr st')"
      using Cons.prems(1) by (auto split: option.splits sum.splits)
    have run: "sort_run g env st st1"
      using IH [OF one graph_ok_source [OF g Cons.prems(2) False src] Cons.prems(3,4)] .
    then have "length (fst st1) = length (plugins g)" "linked (snd st1)"
      using Cons.prems(3,4) by (auto simp: sort_run_def split: prod.splits)
    then show ?thesis using sort_run_trans [OF run] Cons.IH [OF rest ps] by blast
  qed
qed

lemma topological_sort_run:
  assumes g: "graph_ok g"
  shows "topological_sort n m g env pl st = Some (Inr st') \<Longrightarrow> pl < length (plugins g) \<Longrightarrow>
    length (fst st) = length (plugins g) \<Longrightarrow> linked (snd st) \<Longrightarrow> sort_run g env st st'"
proof (induction n arbitrary: pl st st')
  case (Suc n)
  obtain v insts where st: "st = (v, insts)" by (cases st)
  show ?case
  proof (cases "v ! pl")
    case True
    then show ?thesis using Suc.prems(1) st sort_run_refl by simp
  next
    case False
    let ?ps = "ports (plugins g ! pl)"
    obtain v1 insts1 where src: "sort_sources n m g env ?ps (v[pl := True], insts) = Some (Inr (v1, insts1))"
      using Suc.prems(1) st False by (auto split: option.splits sum.splits)
    have "plugins g ! pl \<in> set (plugins g)" using Suc.prems(2) by simp
    then have ok: "ports_ok (length (flows g)) ?ps" "audio_connected ?ps"
      using g unfolding graph_ok_def flow_ids_ok_iff by blast+
    have "sort_run g env (v[pl := True], insts) (v1, insts1)"
      using sort_sources_run [OF g Suc.IH src ok(1)] Suc.prems(3,4) st by simp
    then obtain pls where run: "length v1 = length v" "\<forall>k<length v. v[pl := True] ! k \<longrightarrow> v1 ! k" "linked insts \<longrightarrow> linked insts1"
      "map inst_plugin insts1 = map inst_plugin insts @ pls" "distinct pls"
      "\<forall>k\<in>set pls. k < length v \<and> \<not> v[pl := True] ! k \<and> v1 ! k \<and> \<not> is_disabled (plugins g ! k) env"
      by (auto simp: sort_run_def)
    have pl: "pl < length v" using Suc.prems(2,3) st by simp
    have mono: "\<forall>k<length v. v ! k \<longrightarrow> v1 ! k"
    proof (intro allI impI)
      fix k assume "k < length v" "v ! k"
      then show "v1 ! k" using run(2) [rule_format, of k] by (cases "k = pl") auto
    qed
    have fresh: "\<forall>k\<in>set pls. k < length v \<and> \<not> v ! k \<and> v1 ! k \<and> \<not> is_disabled (plugins g ! k) env \<and> k \<noteq> pl"
      using run(6) pl by (auto simp: nth_list_update split: if_splits)
    have v1: "v1 ! pl" using run(2) pl by simp
    show ?thesis
    proof (cases "is_disabled (plugins g ! pl) env")
      case True
      then have "st' = (v1, insts1)" using Suc.prems(1) st False src by simp
      then show ?thesis unfolding sort_run_def st using run(1,3-5) mono fresh by auto
    next
      case enabled: False
      then obtain insts2 where c: "construct_ports m g (length insts1) pl 0 ?ps (insts1 @ [new_instance pl]) = Some (Inr insts2)"
        and st': "st' = (v1, insts2)" using Suc.prems(1) st False src by (auto split: option.splits sum.splits)
      have l: "linked insts2" "map inst_plugin insts2 = map inst_plugin insts @ (pls @ [pl])"
        using construct_ports_linked [OF c] linked_snoc run(3,4) ok(2) Suc.prems(4) st by (auto simp: new_instance_def)
      moreover have "distinct (pls @ [pl])" using run(5) fresh by auto
      moreover have "\<forall>k\<in>set (pls @ [pl]). k < length v \<and> \<not> v ! k \<and> v1 ! k \<and> \<not> is_disabled (plugins g ! k) env"
        using fresh pl False v1 enabled by auto
      ultimately show ?thesis unfolding sort_run_def st st' using run(1) mono by blast
    qed
  qed
qed simp

lemma find_enabled_bound:
  assumes "find_enabled_builtin_plugin g label purpose env = Some k"
  shows "k < length (plugins g)"
proof -
  have "find_enabled_loop ps i label purpose env f = Some k \<Longrightarrow> f = Some k \<or> i \<le> k \<and> k < i + length ps" for ps i f
  proof (induction ps arbitrary: i f)
    case (Cons x ps)
    then show ?case using Cons.IH [of "Suc i" f] Cons.IH [of "Suc i" "Some i"] by (fastforce split: if_splits)
  qed simp
  from this [of "plugins g" 0] show ?thesis using assms by (fastforce simp: find_enabled_builtin_plugin_def)
qed

text \<open>A successful creation is a successful sort from the sink.\<close>

lemma pipeline_create_sort:
  assumes "graph_ok g" "cras_dsp_pipeline_create fuel g env purpose = Some (Some pl)"
  shows "\<exists>sink v so. sink < length (plugins g) \<and>
    topological_sort (Suc (length (plugins g))) fuel g env sink (replicate (length (plugins g)) False, []) = Some (Inr (v, instances pl)) \<and>
    sort_run g env (replicate (length (plugins g)) False, []) (v, instances pl) \<and>
    find_instance_by_plugin (instances pl) so = source_instance pl \<and> find_instance_by_plugin (instances pl) sink = sink_instance pl \<and>
    source_instance pl \<noteq> None \<and> sink_instance pl \<noteq> None \<and>
    input_channels pl = int (length (output_audio_ports (instances pl ! the (source_instance pl)))) \<and>
    output_channels pl = int (length (input_audio_ports (instances pl ! the (sink_instance pl)))) \<and> output_channels pl \<le> input_channels pl \<and>
    pl_ini pl = g"
proof -
  let ?st = "(replicate (length (plugins g)) False, [])"
  from assms(2) obtain so0 si0 v insts so si where
    sink: "find_enabled_builtin_plugin g ''sink'' purpose env = Some si0"
    and sort: "topological_sort (Suc (length (plugins g))) fuel g env si0 ?st = Some (Inr (v, insts))"
    and so: "find_instance_by_plugin insts so0 = Some so" and si: "find_instance_by_plugin insts si0 = Some si"
    and pl: "instances pl = insts" "source_instance pl = Some so" "sink_instance pl = Some si" "pl_ini pl = g"
      "input_channels pl = int (length (output_audio_ports (insts ! so)))"
      "output_channels pl = int (length (input_audio_ports (insts ! si)))" "output_channels pl \<le> input_channels pl"
    unfolding cras_dsp_pipeline_create_def
    by (auto simp: Let_def split: option.splits sum.splits if_splits prod.splits)
  have si0: "si0 < length (plugins g)" using sink by (rule find_enabled_bound)
  then have "sort_run g env ?st (v, insts)" using topological_sort_run [OF assms(1) sort] by (simp add: linked_def)
  then show ?thesis using si0 sort so si pl by (intro exI [of _ si0] exI [of _ v] exI [of _ so0]) simp
qed

lemma sort_run_instances:
  assumes "sort_run g env (replicate n False, []) (v, insts)"
  shows "linked insts" "distinct (map inst_plugin insts)"
    "\<forall>x\<in>set insts. inst_plugin x < n \<and> \<not> is_disabled (plugins g ! inst_plugin x) env"
  using assms by (auto simp: sort_run_def linked_def)

text \<open>The pipeline that \<open>cras_dsp_pipeline_create\<close> returns has one instance for each needed plugin, in
  dependency order: no plugin occurs twice, none of them is disabled, every audio input is linked to
  an existing output of this or an earlier instance, source and sink are among the instances, and
  there are no more output channels than input channels.\<close>

lemma pipeline_create_structure:
  assumes "graph_ok g" "cras_dsp_pipeline_create fuel g env purpose = Some (Some pl)"
  shows "distinct (map inst_plugin (instances pl))
    \<and> (\<forall>x\<in>set (instances pl). inst_plugin x < length (plugins g) \<and> \<not> is_disabled (plugins g ! inst_plugin x) env)
    \<and> linked (instances pl)
    \<and> (\<exists>so si. source_instance pl = Some so \<and> so < length (instances pl) \<and> sink_instance pl = Some si \<and> si < length (instances pl)
        \<and> input_channels pl = int (length (output_audio_ports (instances pl ! so)))
        \<and> output_channels pl = int (length (input_audio_ports (instances pl ! si))))
    \<and> output_channels pl \<le> input_channels pl"
  using pipeline_create_sort [OF assms] sort_run_instances [of g env "length (plugins g)" _ "instances pl"]
  by (auto simp del: topological_sort.simps dest!: find_instance_Some)

definition example_graph :: ini where
  "example_graph = the (cras_dsp_ini_create (Some ([''src'', ''dst''], example_dict)) (\<lambda>_. None))"

definition empty_env :: cras_expr_env where "empty_env = \<lparr>keys = [], vals = []\<rparr>"

lemma example_graph_ok: "graph_ok example_graph"
  by code_simp

lemma example_graph_created:
  "\<exists>pl. cras_dsp_pipeline_create 5 example_graph empty_env ''playback'' = Some (Some pl)"
proof -
  have "(case cras_dsp_pipeline_create 5 example_graph empty_env ''playback'' of Some (Some pl) \<Rightarrow> True | _ \<Rightarrow> False) = True"
    by code_simp
  then show ?thesis by (auto split: option.splits)
qed

section \<open>Termination for acyclic graphs\<close>

text \<open>\<open>rank\<close> decreases from the plugin of an input port to the plugin that feeds it.\<close>

definition acyclic_by :: "(nat \<Rightarrow> nat) \<Rightarrow> ini \<Rightarrow> bool" where
  "acyclic_by rank g \<longleftrightarrow>
     (\<forall>i<length (plugins g). \<forall>p\<in>set (ports (plugins g ! i)). direction p = PORT_INPUT \<longrightarrow> flow_id p \<noteq> INVALID_FLOW_ID \<longrightarrow>
        (case flow_from (flows g ! nat (flow_id p)) of None \<Rightarrow> False | Some src \<Rightarrow> rank src < rank i))"

lemma nth_input_Some:
  "nth_input ps i k t = Some j \<Longrightarrow> i \<le> j \<and> j < i + length ps \<and> direction (ps ! (j - i)) = PORT_INPUT"
proof (induction ps arbitrary: i k)
  case (Cons p ps)
  show ?case
  proof (cases "j = i")
    case True
    have "i < j" if "nth_input ps (Suc i) k' t = Some j" for k' using Cons.IH [OF that] by simp
    then show ?thesis using Cons.prems True by (auto split: if_splits)
  next
    case False
    then obtain k' where "nth_input ps (Suc i) k' t = Some j" using Cons.prems by (auto split: if_splits)
    from Cons.IH [OF this] have "Suc i \<le> j \<and> j < Suc i + length ps \<and> direction (ps ! (j - Suc i)) = PORT_INPUT" .
    moreover from this have "j - i = Suc (j - Suc i)" by auto
    ultimately show ?thesis by simp
  qed
qed simp

lemma find_origin_terminates:
  assumes g: "graph_ok g" and ac: "acyclic_by rank g"
  shows "rank pl < n \<Longrightarrow> pl < length (plugins g) \<Longrightarrow> idx < length (ports (plugins g ! pl)) \<Longrightarrow>
    direction (ports (plugins g ! pl) ! idx) = PORT_INPUT \<Longrightarrow> find_origin_port n g insts pl idx \<noteq> None"
proof (induction n arbitrary: pl idx)
  case (Suc n)
  let ?p = "ports (plugins g ! pl) ! idx"
  have p: "?p \<in> set (ports (plugins g ! pl))" using Suc.prems(3) by simp
  show ?case
  proof (cases "flow_id ?p = INVALID_FLOW_ID")
    case False
    then obtain src where src: "flow_from (flows g ! nat (flow_id ?p)) = Some src" "rank src < rank pl"
      using ac p Suc.prems(2,4) unfolding acyclic_by_def by (auto split: option.splits)
    have "plugins g ! pl \<in> set (plugins g)" using Suc.prems(2) by simp
    then have "ports_ok (length (flows g)) [?p]"
      using g p unfolding graph_ok_def flow_ids_ok_iff ports_ok_def by auto
    then have sl: "src < length (plugins g)" using graph_ok_source [OF g _ False src(1)] by blast
    have up: "find_origin_port n g insts src j \<noteq> None" if "nth_input (ports (plugins g ! src)) 0 k (port_type ?p) = Some j" for j k
      using Suc.IH [of src j] src(2) Suc.prems(1) sl nth_input_Some [OF that] by simp
    show ?thesis using False src(1) up by (auto simp: Let_def split: option.split)
  qed (simp add: Let_def)
qed simp

lemma construct_ports_terminates:
  assumes g: "graph_ok g" "acyclic_by rank g" "rank pl < n" "pl < length (plugins g)"
  shows "ps = drop i (ports (plugins g ! pl)) \<Longrightarrow> construct_ports n g me pl i ps insts \<noteq> None"
proof (induction ps arbitrary: i insts)
  case (Cons p ps)
  then have i: "i < length (ports (plugins g ! pl))" "ports (plugins g ! pl) ! i = p" "ps = drop (Suc i) (ports (plugins g ! pl))"
    by (metis drop_all list.discI not_less, metis nth_via_drop, metis drop_Suc list.sel(3) tl_drop)
  have rest: "construct_ports n g me pl (Suc i) ps insts' \<noteq> None" for insts' using Cons.IH [OF i(3)] .
  have add: "(case (if port_type p = PORT_AUDIO then add_audio else add_control) me pl i p origin insts of
      Inl e \<Rightarrow> Some (Inl e) | Inr insts \<Rightarrow> construct_ports n g me pl (Suc i) ps insts) \<noteq> None" for origin
    using rest by (auto split: sum.split)
  show ?case
  proof (cases "flow_id p \<noteq> INVALID_FLOW_ID \<and> direction p = PORT_INPUT")
    case True
    then obtain r where r: "find_origin_port n g insts pl i = Some r"
      using find_origin_terminates [OF g(1,2,3,4) i(1)] i(2) by auto
    show ?thesis
    proof (cases r)
      case (Inl e)
      then show ?thesis using True r by (simp add: Let_def)
    next
      case (Inr origin)
      then show ?thesis using True r add [of "Some origin"] by (simp add: Let_def)
    qed
  next
    case False
    then show ?thesis using add [of None] unfolding construct_ports.simps Let_def by (simp only: if_False not_False_eq_True)
  qed
qed simp

definition unvisited :: "bool list \<Rightarrow> nat set" where
  "unvisited v = {k. k < length v \<and> \<not> v ! k}"

lemma finite_unvisited [simp]: "finite (unvisited v)"
  by (simp add: unvisited_def)

lemma unvisited_mark: "k < length v \<Longrightarrow> \<not> v ! k \<Longrightarrow> card (unvisited v) = Suc (card (unvisited (v[k := True])))"
proof -
  assume "k < length v" "\<not> v ! k"
  then have "unvisited v = insert k (unvisited (v[k := True]))" "k \<notin> unvisited (v[k := True])"
    by (auto simp: unvisited_def nth_list_update)
  then show ?thesis by simp
qed

lemma sort_run_unvisited: "sort_run g env (v, insts) (v', insts') \<Longrightarrow> card (unvisited v') \<le> card (unvisited v)"
  by (intro card_mono) (auto simp: sort_run_def unvisited_def)

lemma sort_sources_terminates:
  assumes g: "graph_ok g"
    and IH: "\<And>pl v insts. card (unvisited v) < n \<Longrightarrow> pl < length (plugins g) \<Longrightarrow> length v = length (plugins g) \<Longrightarrow>
      linked insts \<Longrightarrow> topological_sort n m g env pl (v, insts) \<noteq> None"
  shows "card (unvisited v) < n \<Longrightarrow> ports_ok (length (flows g)) ps \<Longrightarrow> length v = length (plugins g) \<Longrightarrow> linked insts \<Longrightarrow>
    sort_sources n m g env ps (v, insts) \<noteq> None"
proof (induction ps arbitrary: v insts)
  case (Cons p ps)
  have ps: "ports_ok (length (flows g)) ps" using Cons.prems(2) by (simp add: ports_ok_def)
  show ?case
  proof (cases "flow_id p = INVALID_FLOW_ID")
    case True
    then show ?thesis using Cons.IH [OF Cons.prems(1) ps Cons.prems(3,4)] by simp
  next
    case False
    show ?thesis
    proof (cases "flow_from (flows g ! nat (flow_id p))")
      case (Some src)
      have sl: "src < length (plugins g)" using graph_ok_source [OF g Cons.prems(2) False Some] .
      then obtain r where r: "topological_sort n m g env src (v, insts) = Some r" using IH [OF Cons.prems(1) _ Cons.prems(3,4)] by auto
      show ?thesis
      proof (cases r)
        case (Inr st)
        obtain v1 insts1 where st: "st = (v1, insts1)" by (cases st)
        have run: "sort_run g env (v, insts) (v1, insts1)"
          using topological_sort_run [OF g, of n m env src "(v, insts)" "(v1, insts1)"] r Inr st sl Cons.prems(3,4) by simp
        then have "length v1 = length (plugins g)" "linked insts1" using Cons.prems(3,4) by (auto simp: sort_run_def)
        then have "sort_sources n m g env ps (v1, insts1) \<noteq> None"
          using Cons.IH [OF _ ps] sort_run_unvisited [OF run] Cons.prems(1) by simp
        then show ?thesis using False Some r Inr st by simp
      qed (use False Some r in simp)
    qed (use False in simp)
  qed
qed simp

lemma topological_sort_terminates:
  assumes g: "graph_ok g" "acyclic_by rank g" and m: "\<forall>k<length (plugins g). rank k < m"
  shows "card (unvisited v) < n \<Longrightarrow> pl < length (plugins g) \<Longrightarrow> length v = length (plugins g) \<Longrightarrow> linked insts \<Longrightarrow>
    topological_sort n m g env pl (v, insts) \<noteq> None"
proof (induction n arbitrary: pl v insts)
  case (Suc n)
  show ?case
  proof (cases "v ! pl")
    case False
    let ?ps = "ports (plugins g ! pl)"
    have "plugins g ! pl \<in> set (plugins g)" using Suc.prems(2) by simp
    then have ok: "ports_ok (length (flows g)) ?ps" using g(1) unfolding graph_ok_def flow_ids_ok_iff by blast
    have c: "card (unvisited (v[pl := True])) < n" using unvisited_mark [of pl v] False Suc.prems(1-3) by simp
    have l: "length (v[pl := True]) = length (plugins g)" using Suc.prems(3) by simp
    obtain r where r: "sort_sources n m g env ?ps (v[pl := True], insts) = Some r"
      using sort_sources_terminates [OF g(1) Suc.IH c ok l Suc.prems(4)] by blast
    show ?thesis
    proof (cases r)
      case (Inr st)
      obtain v1 insts1 where st: "st = (v1, insts1)" by (cases st)
      have "construct_ports m g (length insts1) pl 0 ?ps (insts1 @ [new_instance pl]) \<noteq> None"
        using construct_ports_terminates [OF g(1,2), of pl m ?ps 0] m Suc.prems(2) by simp
      then obtain c where "construct_ports m g (length insts1) pl 0 ?ps (insts1 @ [new_instance pl]) = Some c" by auto
      then show ?thesis using False r Inr st by (cases c) simp_all
    qed (use False r in simp)
  qed simp
qed simp



end
