(* ===== verification/Dsp_Safety.thy ===== *)
theory Dsp_Safety
  imports Dsp_Pipeline
begin

text \<open>
  From a configuration to its buffers. When every flow of an acyclic graph connects one output to one
  input of the same type, the links of the instances that \<open>cras_dsp_pipeline_create\<close> builds satisfy
  the conditions under which the buffer assignment of \<open>cras_dsp_pipeline_load\<close> is safe. The origin of an
  input port is described without the search of the code: \<open>feeds\<close> follows the flows through disabled
  plugins, and two input ports of enabled plugins never have the same origin.
\<close>

section \<open>The graph\<close>

text \<open>Ports that share a flow have the same type, and there is one of each direction.\<close>

definition point_to_point :: "ini \<Rightarrow> bool" where
  "point_to_point g \<longleftrightarrow>
     (\<forall>(i, j, p)\<in>set (all_ports (plugins g)). \<forall>(i', j', p')\<in>set (all_ports (plugins g)).
        flow_id p = flow_id p' \<longrightarrow> flow_id p \<noteq> INVALID_FLOW_ID \<longrightarrow>
        port_type p = port_type p' \<and> (direction p = direction p' \<longrightarrow> i = i' \<and> j = j'))"

abbreviation port_at :: "ini \<Rightarrow> nat \<times> nat \<Rightarrow> port" where
  "port_at g a \<equiv> ports (plugins g ! fst a) ! snd a"

abbreviation is_port :: "ini \<Rightarrow> nat \<times> nat \<Rightarrow> bool" where
  "is_port g a \<equiv> fst a < length (plugins g) \<and> snd a < length (ports (plugins g ! fst a))"

definition in_port :: "ini \<Rightarrow> nat \<times> nat \<Rightarrow> bool" where
  "in_port g a \<longleftrightarrow> is_port g a \<and> direction (port_at g a) = PORT_INPUT \<and> flow_id (port_at g a) \<noteq> INVALID_FLOW_ID"

lemma is_port_all_ports: "is_port g a \<Longrightarrow> (fst a, snd a, port_at g a) \<in> set (all_ports (plugins g))"
  by (simp add: in_all_ports)

lemma point_to_pointD:
  assumes "point_to_point g" "is_port g a" "is_port g b" "flow_id (port_at g a) = flow_id (port_at g b)"
    "flow_id (port_at g a) \<noteq> INVALID_FLOW_ID"
  shows "port_type (port_at g a) = port_type (port_at g b)"
    and "direction (port_at g a) = direction (port_at g b) \<Longrightarrow> a = b"
  using assms is_port_all_ports [of a g] is_port_all_ports [of b g]
  unfolding point_to_point_def by (fastforce simp: prod_eq_iff)+

text \<open>The output port at the other end of the flow of an input port.\<close>

definition source_of :: "ini \<Rightarrow> nat \<times> nat \<Rightarrow> (nat \<times> nat) option" where
  "source_of g a = (let f = flows g ! nat (flow_id (port_at g a)) in map_option (\<lambda>s. (s, from_port f)) (flow_from f))"

lemma ini_wf_flow:
  assumes "ini_wf g" "in_port g a"
  shows "0 \<le> flow_id (port_at g a) \<and> nat (flow_id (port_at g a)) < length (flows g)"
  using assms nth_mem [of "fst a" "plugins g"] nth_mem [of "snd a" "ports (plugins g ! fst a)"]
  unfolding ini_wf_def flow_ids_ok_def in_port_def INVALID_FLOW_ID_def by fastforce

lemma filled_from:
  "filled L fs \<Longrightarrow> f < length fs \<Longrightarrow> flow_from (fs ! f) = Some i \<Longrightarrow>
   \<exists>p. (i, from_port (fs ! f), p) \<in> set L \<and> direction p = PORT_OUTPUT \<and> flow_id p = int f"
  by (simp add: filled_def)

lemma source_of_port:
  assumes "ini_wf g" "in_port g a" "source_of g a = Some b"
  shows "is_port g b \<and> direction (port_at g b) = PORT_OUTPUT \<and> flow_id (port_at g b) = flow_id (port_at g a)"
proof -
  let ?f = "nat (flow_id (port_at g a))"
  note f = ini_wf_flow [OF assms(1,2)]
  have "flow_from (flows g ! ?f) = Some (fst b)" "from_port (flows g ! ?f) = snd b"
    using assms(3) by (auto simp: source_of_def Let_def)
  then obtain p where "(fst b, snd b, p) \<in> set (all_ports (plugins g))" "direction p = PORT_OUTPUT" "flow_id p = int ?f"
    using filled_from [of "all_ports (plugins g)" "flows g" ?f "fst b"] assms(1) f by (auto simp: ini_wf_def)
  then show ?thesis using f by (simp add: in_all_ports)
qed

lemma source_of_inj:
  assumes "ini_wf g" "point_to_point g" "in_port g a" "in_port g b" "source_of g a = Some s" "source_of g b = Some s"
  shows "a = b"
  using point_to_pointD(2) [OF assms(2), of a b] source_of_port [OF assms(1,3,5)] source_of_port [OF assms(1,4,6)] assms(3,4)
  by (simp add: in_port_def)

section \<open>Through disabled plugins\<close>

lemma nth_input_port:
  assumes "nth_input ps 0 k t = Some j"
  shows "j < length ps \<and> direction (ps ! j) = PORT_INPUT \<and> port_type (ps ! j) = t"
proof -
  have "nth_input ps i k t = Some j \<Longrightarrow> i \<le> j \<and> j < i + length ps \<and> direction (ps ! (j - i)) = PORT_INPUT \<and> port_type (ps ! (j - i)) = t" for i
  proof (induction ps arbitrary: i k)
    case (Cons p ps)
    show ?case
    proof (cases "\<exists>k'. nth_input ps (Suc i) k' t = Some j")
      case True
      then have "Suc i \<le> j \<and> j < Suc i + length ps \<and> direction (ps ! (j - Suc i)) = PORT_INPUT \<and> port_type (ps ! (j - Suc i)) = t"
        using Cons.IH by blast
      moreover from this have "j - i = Suc (j - Suc i)" by auto
      ultimately show ?thesis by simp
    next
      case False
      then show ?thesis using Cons.prems by (auto split: if_splits)
    qed
  qed simp
  from this [of 0] show ?thesis using assms by simp
qed

lemma nth_input_inj: "nth_input ps i k t = Some j \<Longrightarrow> nth_input ps i k' t = Some j \<Longrightarrow> k = k'"
proof (induction ps arbitrary: i k k')
  case (Cons p ps)
  have *: "nth_input ps (Suc i) m t \<noteq> Some i" for m
    using nth_input_Some [of ps "Suc i" m t i] by auto
  show ?case
  proof (cases "direction p = PORT_INPUT \<and> port_type p = t")
    case True
    then show ?thesis using Cons.prems Cons.IH [of "Suc i" "k - 1" "k' - 1"] * [of "k - 1"] * [of "k' - 1"]
      by (auto split: if_splits)
  next
    case False
    then show ?thesis using Cons.prems Cons.IH [of "Suc i" k k'] by (auto split: if_splits)
  qed
qed simp

lemma count_outputs_le:
  "count_outputs_before ps j t = Some k \<Longrightarrow> direction (ps ! j) = PORT_OUTPUT \<Longrightarrow> port_type (ps ! j) = t \<Longrightarrow>
   count_outputs_before ps j' t = Some k' \<Longrightarrow> j < j' \<Longrightarrow> k < k'"
proof (induction ps j t arbitrary: k j' k' rule: count_outputs_before.induct)
  case (2 p ps t)
  then show ?case by (cases j') (auto split: if_splits)
next
  case (3 p ps idx t)
  then show ?case by (cases j') (auto split: if_splits)
qed simp

lemma count_outputs_inj:
  assumes "count_outputs_before ps j t = Some k" "count_outputs_before ps j' t = Some k"
    "direction (ps ! j) = PORT_OUTPUT" "port_type (ps ! j) = t" "direction (ps ! j') = PORT_OUTPUT" "port_type (ps ! j') = t"
  shows "j = j'"
  using count_outputs_le [OF assms(1,3,4,2)] count_outputs_le [OF assms(2,5,6,1)] by (metis linorder_neqE_nat less_irrefl)

text \<open>One step of the search: from an input port, through the disabled plugin that feeds it, to the
  input port of that plugin with the same rank among the ports of this type.\<close>

definition hop :: "ini \<Rightarrow> cras_expr_env \<Rightarrow> nat \<times> nat \<Rightarrow> nat \<times> nat \<Rightarrow> bool" where
  "hop g env a c \<longleftrightarrow> in_port g a \<and>
     (\<exists>j k. source_of g a = Some (fst c, j) \<and> is_disabled (plugins g ! fst c) env \<and>
       count_outputs_before (ports (plugins g ! fst c)) j (port_type (port_at g a)) = Some k \<and>
       nth_input (ports (plugins g ! fst c)) 0 k (port_type (port_at g a)) = Some (snd c))"

lemma hop_inj:
  assumes g: "ini_wf g" "point_to_point g" and a: "hop g env a c" and b: "hop g env b c"
  shows "a = b"
proof -
  let ?ps = "ports (plugins g ! fst c)"
  from a obtain j k where a: "in_port g a" "source_of g a = Some (fst c, j)"
    "count_outputs_before ?ps j (port_type (port_at g a)) = Some k" "nth_input ?ps 0 k (port_type (port_at g a)) = Some (snd c)"
    by (auto simp: hop_def)
  from b obtain j' k' where b: "in_port g b" "source_of g b = Some (fst c, j')"
    "count_outputs_before ?ps j' (port_type (port_at g b)) = Some k'" "nth_input ?ps 0 k' (port_type (port_at g b)) = Some (snd c)"
    by (auto simp: hop_def)
  have t: "port_type (port_at g b) = port_type (port_at g a)" using nth_input_port [OF a(4)] nth_input_port [OF b(4)] by simp
  have k: "k' = k" using nth_input_inj [OF a(4)] b(4) t by simp
  note sa = source_of_port [OF g(1) a(1,2)] and sb = source_of_port [OF g(1) b(1,2)]
  have "port_type (?ps ! j) = port_type (port_at g a)" "port_type (?ps ! j') = port_type (port_at g b)"
    using point_to_pointD(1) [OF g(2), of "(fst c, j)" a] point_to_pointD(1) [OF g(2), of "(fst c, j')" b] sa sb a(1) b(1)
    by (simp_all add: in_port_def)
  then have "j' = j" using count_outputs_inj [OF a(3)] b(3) t k sa sb by simp
  then show ?thesis using source_of_inj [OF g a(1) b(1) a(2)] b(2) by simp
qed

text \<open>\<open>feeds g env q a\<close>: the samples that input port \<open>a\<close> receives come from output port \<open>q\<close> of an enabled plugin.\<close>

inductive feeds :: "ini \<Rightarrow> cras_expr_env \<Rightarrow> nat \<times> nat \<Rightarrow> nat \<times> nat \<Rightarrow> bool" for g env q where
  direct: "in_port g a \<Longrightarrow> source_of g a = Some q \<Longrightarrow> \<not> is_disabled (plugins g ! fst q) env \<Longrightarrow> feeds g env q a"
| through: "hop g env a c \<Longrightarrow> feeds g env q c \<Longrightarrow> feeds g env q a"

lemma feeds_linear:
  assumes g: "ini_wf g" "point_to_point g"
  shows "feeds g env q a \<Longrightarrow> feeds g env q b \<Longrightarrow> (hop g env)\<^sup>*\<^sup>* a b \<or> (hop g env)\<^sup>*\<^sup>* b a"
proof (induction arbitrary: b rule: feeds.induct)
  case (direct a)
  from direct.prems show ?case
  proof (induction rule: feeds.induct)
    case inner: (direct b)
    then show ?case using source_of_inj [OF g direct.hyps(1) inner.hyps(1) direct.hyps(2)] by simp
  next
    case inner: (through b c)
    have "\<not> (hop g env)\<^sup>*\<^sup>* a c \<or> a = c"
    proof (rule ccontr)
      assume "\<not> ?thesis"
      then obtain d where "hop g env a d" by (metis converse_rtranclpE)
      then show False using direct.hyps(2,3) by (auto simp: hop_def)
    qed
    then show ?case using inner by (auto intro: converse_rtranclp_into_rtranclp)
  qed
next
  case (through a c)
  from through.IH [OF through.prems] show ?case
  proof
    assume "(hop g env)\<^sup>*\<^sup>* c b"
    then show ?thesis using through.hyps(1) by (auto intro: converse_rtranclp_into_rtranclp)
  next
    assume "(hop g env)\<^sup>*\<^sup>* b c"
    then show ?thesis
    proof (cases rule: rtranclp.cases)
      case rtrancl_refl
      then show ?thesis using through.hyps(1) by auto
    next
      case (rtrancl_into_rtrancl d)
      then have "d = a" using hop_inj [OF g] through.hyps(1) by blast
      then show ?thesis using rtrancl_into_rtrancl by simp
    qed
  qed
qed

lemma feeds_inj:
  assumes g: "ini_wf g" "point_to_point g" and f: "feeds g env q a" "feeds g env q b"
    and e: "\<not> is_disabled (plugins g ! fst a) env" "\<not> is_disabled (plugins g ! fst b) env"
  shows "a = b"
proof -
  have "b = a \<or> is_disabled (plugins g ! fst b) env" if "(hop g env)\<^sup>*\<^sup>* a b" for a b
    using that by (cases rule: rtranclp.cases) (auto simp: hop_def)
  then show ?thesis using feeds_linear [OF g f] e by metis
qed

section \<open>The search in a sorted state\<close>

text \<open>Plugins that have been visited and are not on the stack \<open>S\<close> of the sort are finished: they have an
  instance exactly when they are enabled, and the sources of their inputs have been visited.\<close>

definition sources_visited :: "ini \<Rightarrow> bool list \<Rightarrow> nat \<Rightarrow> bool" where
  "sources_visited g v k \<longleftrightarrow>
     (\<forall>j. in_port g (k, j) \<longrightarrow> (\<exists>s. source_of g (k, j) = Some s \<and> v ! fst s))"

definition finished :: "ini \<Rightarrow> cras_expr_env \<Rightarrow> nat set \<Rightarrow> bool list \<times> inst list \<Rightarrow> bool" where
  "finished g env S st \<longleftrightarrow>
     (\<forall>k<length (plugins g). fst st ! k \<longrightarrow> k \<notin> S \<longrightarrow>
        (k \<in> inst_plugin ` set (snd st) \<longleftrightarrow> \<not> is_disabled (plugins g ! k) env) \<and> sources_visited g (fst st) k)"

lemma find_instance_loop_None: "find_instance_loop insts i pl = None \<longleftrightarrow> pl \<notin> inst_plugin ` set insts"
  by (induction insts arbitrary: i) auto

lemma find_instance_None: "find_instance_by_plugin insts pl = None \<longleftrightarrow> pl \<notin> inst_plugin ` set insts"
  by (simp add: find_instance_by_plugin_def find_instance_loop_None)

lemma acyclic_source:
  assumes "acyclic_by rank g" "in_port g a" "source_of g a = Some b"
  shows "rank (fst b) < rank (fst a)"
  using assms nth_mem [of "snd a" "ports (plugins g ! fst a)"]
  unfolding acyclic_by_def in_port_def source_of_def Let_def by (fastforce split: option.splits)

lemma find_origin_feeds:
  assumes g: "ini_wf g" "acyclic_by rank g"
  shows "find_origin_port n g insts pl i = Some (Inr q) \<Longrightarrow> in_port g (pl, i) \<Longrightarrow> sources_visited g v pl \<Longrightarrow>
    finished g env S (v, insts) \<Longrightarrow> \<forall>k\<in>S. rank pl \<le> rank k \<Longrightarrow> feeds g env q (pl, i)"
proof (induction n arbitrary: pl i)
  case (Suc n)
  let ?p = "ports (plugins g ! pl) ! i"
  have fid: "flow_id ?p \<noteq> INVALID_FLOW_ID" using Suc.prems(2) by (simp add: in_port_def)
  obtain s j where s: "source_of g (pl, i) = Some (s, j)" "v ! s"
    using Suc.prems(2,3) unfolding sources_visited_def by fastforce
  then have f: "flow_from (flows g ! nat (flow_id ?p)) = Some s" "from_port (flows g ! nat (flow_id ?p)) = j"
    by (auto simp: source_of_def Let_def)
  have rank: "rank s < rank pl" using acyclic_source [OF g(2) Suc.prems(2) s(1)] by simp
  have port: "is_port g (s, j)" using source_of_port [OF g(1) Suc.prems(2) s(1)] by blast
  have "s \<notin> S" using Suc.prems(5) rank by fastforce
  then have fin: "s \<in> inst_plugin ` set insts \<longleftrightarrow> \<not> is_disabled (plugins g ! s) env" "sources_visited g v s"
    using Suc.prems(4) port s(2) unfolding finished_def by auto
  show ?case
  proof (cases "is_disabled (plugins g ! s) env")
    case False
    then have "find_instance_by_plugin insts s \<noteq> None" using fin(1) by (simp add: find_instance_None)
    then have "q = (s, j)" using Suc.prems(1) fid f by (auto simp: Let_def split: if_splits)
    then show ?thesis using False feeds.direct [OF Suc.prems(2) s(1)] by simp
  next
    case True
    then have "find_instance_by_plugin insts s = None" using fin(1) by (simp add: find_instance_None)
    then obtain k i' where k: "count_outputs_before (ports (plugins g ! s)) j (port_type ?p) = Some k"
      "nth_input (ports (plugins g ! s)) 0 k (port_type ?p) = Some i'"
      and rest: "find_origin_port n g insts s i' = Some (Inr q)"
      using Suc.prems(1) fid f by (auto simp: Let_def split: option.splits)
    have hop: "hop g env (pl, i) (s, i')" using Suc.prems(2) s(1) True k by (auto simp: hop_def)
    have "flow_id (port_at g (s, i')) \<noteq> INVALID_FLOW_ID"
      using rest by (cases n) (auto simp: Let_def split: if_splits)
    then have "in_port g (s, i')" using nth_input_port [OF k(2)] port by (simp add: in_port_def)
    moreover have "\<forall>k\<in>S. rank s \<le> rank k" using Suc.prems(5) rank by auto
    ultimately show ?thesis using Suc.IH [OF rest _ fin(2) Suc.prems(4)] feeds.through [OF hop] by blast
  qed
qed simp

section \<open>The wiring of the instances\<close>

text \<open>The plugin of an instance, its input ports with what they read, and its output ports.\<close>

type_synonym wires = "nat \<times> ((nat \<times> nat) option \<times> nat) list \<times> nat list"

definition wire :: "inst \<Rightarrow> wires" where
  "wire x = (inst_plugin x, map (\<lambda>p. (ap_peer p, ap_original_index p)) (input_audio_ports x),
             map ap_original_index (output_audio_ports x))"

text \<open>Every input reads the output port that feeds it.\<close>

definition wired :: "ini \<Rightarrow> cras_expr_env \<Rightarrow> wires list \<Rightarrow> bool" where
  "wired g env ws \<longleftrightarrow>
     (\<forall>(pl, ins, outs)\<in>set ws. distinct (map snd ins) \<and>
        (\<forall>(peer, i)\<in>set ins. \<exists>a b. peer = Some (a, b) \<and> a < length ws \<and> b < length (snd (snd (ws ! a))) \<and>
           feeds g env (fst (ws ! a), snd (snd (ws ! a)) ! b) (pl, i)))"

lemma wire_control [simp]:
  "wire (x\<lparr>input_control_ports := cs\<rparr>) = wire x" "wire (x\<lparr>output_control_ports := cs\<rparr>) = wire x"
  by (simp_all add: wire_def)

lemma add_control_wire: "add_control me pl i p origin insts = Inr insts' \<Longrightarrow> map wire insts' = map wire insts"
  unfolding add_control_def Let_def
  by (cases "direction p = PORT_INPUT"; cases origin) (auto simp: map_update_inst split: option.splits)

lemma add_audio_wire_output:
  assumes "add_audio me pl i p origin insts = Inr insts'" "direction p \<noteq> PORT_INPUT" "me < length insts"
  shows "map wire insts' = (map wire insts)[me := (fst (wire (insts ! me)), fst (snd (wire (insts ! me))), snd (snd (wire (insts ! me))) @ [i])]"
  using assms by (auto simp: add_audio_def Let_def update_inst_def map_update wire_def)

lemma find_port_index_nth: "find_port_index xs k idx = Some j \<Longrightarrow> k \<le> j \<and> j < k + length xs \<and> xs ! (j - k) = idx"
proof (induction xs arbitrary: k)
  case (Cons x xs)
  show ?case
  proof (cases "x = idx")
    case False
    then have "Suc k \<le> j \<and> j < Suc k + length xs \<and> xs ! (j - Suc k) = idx" using Cons.prems Cons.IH [of "Suc k"] by simp
    moreover from this have "j - k = Suc (j - Suc k)" by auto
    ultimately show ?thesis by simp
  qed (use Cons.prems in simp)
qed simp

lemma find_output_audio_port_wire:
  assumes "find_output_audio_port insts opl oidx = Some (a, b)"
  shows "a < length insts \<and> fst (wire (insts ! a)) = opl \<and> b < length (snd (snd (wire (insts ! a)))) \<and> snd (snd (wire (insts ! a))) ! b = oidx"
  using assms find_port_index_nth [of "map ap_original_index (output_audio_ports (insts ! a))" 0 oidx b]
  by (auto simp: find_output_audio_port_def wire_def dest: find_instance_Some split: option.splits)

lemma map_relabel: "(\<And>x. f (h x) = f x) \<Longrightarrow> map f (xs[j := h (xs ! j)]) = map f xs"
  by (cases "j < length xs") (simp_all add: map_update list_update_same_conv list_update_beyond)

lemma map_wire_update_inst: "me < length insts \<Longrightarrow> map wire (update_inst me f insts) = (map wire insts)[me := wire (f (insts ! me))]"
  by (simp add: update_inst_def map_update)

lemma add_audio_wire_input:
  assumes add: "add_audio me pl i p (Some (opl, oidx)) insts = Inr insts'" and dir: "direction p = PORT_INPUT" and me: "me < length insts"
  shows "\<exists>a b. a < length insts \<and> fst (wire (insts ! a)) = opl \<and> b < length (snd (snd (wire (insts ! a)))) \<and>
    snd (snd (wire (insts ! a))) ! b = oidx \<and>
    map wire insts' = (map wire insts)
      [me := (fst (wire (insts ! me)), fst (snd (wire (insts ! me))) @ [(Some (a, b), i)], snd (snd (wire (insts ! me))))]"
proof -
  let ?ap = "\<lparr>ap_peer = None, ap_plugin = pl, ap_original_index = i, buf_index = 0\<rparr>"
  let ?j = "length (input_audio_ports (insts ! me))"
  let ?insts1 = "update_inst me (\<lambda>x. x\<lparr>input_audio_ports := input_audio_ports x @ [?ap]\<rparr>) insts"
  obtain a b where o: "find_output_audio_port ?insts1 opl oidx = Some (a, b)"
    using add dir unfolding add_audio_def Let_def by (cases "find_output_audio_port ?insts1 opl oidx") auto
  let ?mid = "update_inst a (\<lambda>x. x\<lparr>output_audio_ports :=
      (output_audio_ports x)[b := (output_audio_ports x ! b)\<lparr>ap_peer := Some (me, ?j)\<rparr>]\<rparr>) ?insts1"
  have eq: "insts' = update_inst me (\<lambda>x. x\<lparr>input_audio_ports := (input_audio_ports x)[?j := ?ap\<lparr>ap_peer := Some (a, b)\<rparr>]\<rparr>) ?mid"
    using add dir o by (simp add: add_audio_def Let_def)
  have a: "a < length insts" using find_output_audio_port_wire [OF o] by simp
  have "wire (?insts1 ! k) = (fst (wire (insts ! k)),
      (if k = me then fst (snd (wire (insts ! me))) @ [(None, i)] else fst (snd (wire (insts ! k)))), snd (snd (wire (insts ! k))))" for k
    using me by (simp add: nth_update_inst wire_def)
  then have q: "fst (wire (insts ! a)) = opl" "b < length (snd (snd (wire (insts ! a))))" "snd (snd (wire (insts ! a))) ! b = oidx"
    using find_output_audio_port_wire [OF o] by simp_all
  have relabel: "wire (x\<lparr>output_audio_ports := (output_audio_ports x)[b := (output_audio_ports x ! b)\<lparr>ap_peer := r\<rparr>]\<rparr>) = wire x" for x r
    using map_relabel [of ap_original_index "\<lambda>p. p\<lparr>ap_peer := r\<rparr>"] by (simp add: wire_def)
  have "map wire ?mid = map wire ?insts1" using map_update_inst [of wire, OF relabel] .
  then have "map wire insts' = (map wire ?insts1)[me := wire ((?mid ! me)\<lparr>input_audio_ports :=
      (input_audio_ports (?mid ! me))[?j := ?ap\<lparr>ap_peer := Some (a, b)\<rparr>]\<rparr>)]"
    using me by (simp only: eq map_wire_update_inst length_update_inst)
  moreover have "input_audio_ports (?mid ! me) = input_audio_ports (insts ! me) @ [?ap]"
    "inst_plugin (?mid ! me) = inst_plugin (insts ! me)"
    using me a by (auto simp: nth_update_inst)
  moreover have "map ap_original_index (output_audio_ports (?mid ! me)) = map ap_original_index (output_audio_ports (insts ! me))"
    using me a map_relabel [of ap_original_index "\<lambda>p. p\<lparr>ap_peer := Some (me, ?j)\<rparr>"] by (auto simp: nth_update_inst)
  ultimately have "map wire insts' = (map wire ?insts1)[me := (fst (wire (insts ! me)), fst (snd (wire (insts ! me))) @ [(Some (a, b), i)],
      snd (snd (wire (insts ! me))))]"
    by (simp add: wire_def)
  also have "\<dots> = (map wire insts)[me := (fst (wire (insts ! me)), fst (snd (wire (insts ! me))) @ [(Some (a, b), i)],
      snd (snd (wire (insts ! me))))]"
    using me by (simp only: map_wire_update_inst list_update_overwrite)
  finally show ?thesis using a q by blast
qed

text \<open>Adding an output or a connected input to the last instance keeps the wiring right.\<close>

lemma wired_add_output:
  assumes "wired g env ws" "me < length ws" "ws ! me = (pl, ins, outs)"
  shows "wired g env (ws[me := (pl, ins, outs @ [i])])"
proof -
  let ?ws = "ws[me := (pl, ins, outs @ [i])]"
  have same: "a < length ws \<Longrightarrow> b < length (snd (snd (ws ! a))) \<Longrightarrow>
      fst (?ws ! a) = fst (ws ! a) \<and> b < length (snd (snd (?ws ! a))) \<and> snd (snd (?ws ! a)) ! b = snd (snd (ws ! a)) ! b" for a b
    using assms(2,3) by (cases "a = me") (auto simp: nth_append)
  have "distinct (map snd ins') \<and> (\<forall>(peer, i)\<in>set ins'. \<exists>a b. peer = Some (a, b) \<and> a < length ?ws \<and> b < length (snd (snd (?ws ! a))) \<and>
      feeds g env (fst (?ws ! a), snd (snd (?ws ! a)) ! b) (pl', i))" if mem: "(pl', ins', outs') \<in> set ?ws" for pl' ins' outs'
  proof -
    have "(pl, ins, outs) \<in> set ws" using assms(2,3) by (metis nth_mem)
    then obtain outs'' where "(pl', ins', outs'') \<in> set ws"
      using set_update_subset_insert [THEN subsetD, OF mem] by auto
    then have old: "distinct (map snd ins')" "\<forall>(peer, i)\<in>set ins'. \<exists>a b. peer = Some (a, b) \<and> a < length ws \<and>
        b < length (snd (snd (ws ! a))) \<and> feeds g env (fst (ws ! a), snd (snd (ws ! a)) ! b) (pl', i)"
      using assms(1) unfolding wired_def by auto
    show ?thesis using old same by fastforce
  qed
  then show ?thesis unfolding wired_def by blast
qed

lemma wired_add_input:
  assumes w: "wired g env ws" and me: "me < length ws" "ws ! me = (pl, ins, outs)" and i: "i \<notin> snd ` set ins"
    and q: "a < length ws" "b < length (snd (snd (ws ! a)))" "feeds g env (fst (ws ! a), snd (snd (ws ! a)) ! b) (pl, i)"
  shows "wired g env (ws[me := (pl, ins @ [(Some (a, b), i)], outs)])"
proof -
  let ?ws = "ws[me := (pl, ins @ [(Some (a, b), i)], outs)]"
  have same: "fst (?ws ! k) = fst (ws ! k) \<and> snd (snd (?ws ! k)) = snd (snd (ws ! k))" for k
    using me by (cases "k = me") auto
  have ins: "(pl, ins, outs) \<in> set ws" using me by (metis nth_mem)
  have "distinct (map snd ins') \<and> (\<forall>(peer, i)\<in>set ins'. \<exists>a b. peer = Some (a, b) \<and> a < length ?ws \<and> b < length (snd (snd (?ws ! a))) \<and>
      feeds g env (fst (?ws ! a), snd (snd (?ws ! a)) ! b) (pl', i))" if "(pl', ins', outs') \<in> set ?ws" for pl' ins' outs'
  proof (cases "(pl', ins', outs') \<in> set ws")
    case True
    then show ?thesis using w same unfolding wired_def by fastforce
  next
    case False
    then have "pl' = pl" "ins' = ins @ [(Some (a, b), i)]" using that set_update_subset_insert by fastforce+
    then show ?thesis using w same ins i q unfolding wired_def by fastforce
  qed
  then show ?thesis unfolding wired_def by blast
qed

lemma wired_snoc: "wired g env ws \<Longrightarrow> wired g env (ws @ [(pl, [], outs)])"
  unfolding wired_def by (fastforce simp: nth_append)

lemma construct_ports_wired:
  assumes g: "ini_wf g" "acyclic_by rank g" and pl: "pl < length (plugins g)" "audio_connected (ports (plugins g ! pl))"
    "sources_visited g v pl" "\<forall>k\<in>S. rank pl \<le> rank k"
  shows "construct_ports n g me pl i ps insts = Some (Inr insts') \<Longrightarrow> ps = drop i (ports (plugins g ! pl)) \<Longrightarrow>
    me < length insts \<Longrightarrow> inst_plugin (insts ! me) = pl \<Longrightarrow> (\<forall>j\<in>snd ` set (fst (snd (wire (insts ! me)))). j < i) \<Longrightarrow>
    finished g env S (v, insts) \<Longrightarrow> wired g env (map wire insts) \<Longrightarrow>
    wired g env (map wire insts') \<and> map inst_plugin insts' = map inst_plugin insts"
proof (induction ps arbitrary: i insts)
  case (Cons p ps)
  have i: "i < length (ports (plugins g ! pl))" "ports (plugins g ! pl) ! i = p" "ps = drop (Suc i) (ports (plugins g ! pl))"
    using Cons.prems(2) by (metis drop_all list.discI not_less, metis nth_via_drop, metis drop_Suc list.sel(3) tl_drop)
  obtain ins outs where me: "map wire insts ! me = (pl, ins, outs)" "wire (insts ! me) = (pl, ins, outs)"
    using Cons.prems(3,4) by (simp add: wire_def)
  have step: ?case if w: "wired g env (map wire insts1)"
    and view: "map (fst \<circ> wire) insts1 = map (fst \<circ> wire) insts" "\<forall>j\<in>snd ` set (fst (snd (wire (insts1 ! me)))). j < Suc i"
    and rest: "construct_ports n g me pl (Suc i) ps insts1 = Some (Inr insts')" for insts1
  proof -
    have plug: "map inst_plugin insts1 = map inst_plugin insts" using view(1) by (simp add: wire_def comp_def)
    then have "length insts1 = length insts" "inst_plugin (insts1 ! me) = pl"
      using Cons.prems(3,4) by (metis length_map, metis length_map nth_map)
    moreover have "inst_plugin ` set insts1 = inst_plugin ` set insts" using arg_cong [OF plug, of set] by simp
    then have "finished g env S (v, insts1)" using Cons.prems(6) by (simp add: finished_def)
    ultimately show ?thesis using Cons.IH [OF rest i(3)] Cons.prems(3) view(2) w plug by simp
  qed
  show ?case
  proof (cases "port_type p = PORT_AUDIO")
    case False
    then obtain origin insts1 where c: "add_control me pl i p origin insts = Inr insts1"
      and rest: "construct_ports n g me pl (Suc i) ps insts1 = Some (Inr insts')"
      using Cons.prems(1) by (auto simp: Let_def split: option.splits sum.splits if_splits)
    note ws = add_control_wire [OF c]
    have "wire (insts1 ! me) = wire (insts ! me)" using ws Cons.prems(3) by (metis length_map nth_map)
    moreover have "map (fst \<circ> wire) insts1 = map (fst \<circ> wire) insts" using arg_cong [OF ws, of "map fst"] by simp
    moreover have "wired g env (map wire insts1)" using Cons.prems(7) ws by simp
    ultimately show ?thesis using step [OF _ _ _ rest] Cons.prems(5) by (auto intro: less_SucI)
  next
    case audio: True
    show ?thesis
    proof (cases "direction p = PORT_INPUT")
      case False
      then obtain insts1 where c: "add_audio me pl i p None insts = Inr insts1"
        and rest: "construct_ports n g me pl (Suc i) ps insts1 = Some (Inr insts')"
        using Cons.prems(1) audio by (auto simp: Let_def split: sum.splits)
      note ws = add_audio_wire_output [OF c False Cons.prems(3)]
      have w: "wired g env (map wire insts1)"
        using wired_add_output [OF Cons.prems(7) _ me(1)] Cons.prems(3) ws me(2) by simp
      have len: "length insts1 = length insts" using arg_cong [OF ws, of length] by simp
      have "wire (insts1 ! me) = (pl, ins, outs @ [i])"
        using arg_cong [OF ws, of "\<lambda>l. l ! me"] Cons.prems(3) me(2) len by simp
      moreover have "map (fst \<circ> wire) insts1 = map (fst \<circ> wire) insts"
        using arg_cong [OF ws, of "map fst"] map_relabel [of fst "\<lambda>w. (fst w, fst (snd w), snd (snd w) @ [i])" "map wire insts" me]
          Cons.prems(3) by simp
      ultimately show ?thesis using step [OF w _ _ rest] Cons.prems(5) me(2) by fastforce
    next
      case input: True
      then have fid: "flow_id p \<noteq> INVALID_FLOW_ID" using pl(2) audio i(1,2) nth_mem [of i "ports (plugins g ! pl)"]
        by (auto simp: audio_connected_def)
      then obtain opl oidx insts1 where o: "find_origin_port n g insts pl i = Some (Inr (opl, oidx))"
        and c: "add_audio me pl i p (Some (opl, oidx)) insts = Inr insts1"
        and rest: "construct_ports n g me pl (Suc i) ps insts1 = Some (Inr insts')"
        using Cons.prems(1) audio input by (fastforce simp: Let_def split: option.splits sum.splits)
      have "in_port g (pl, i)" using pl(1) i(1,2) input fid by (simp add: in_port_def)
      then have feeds: "feeds g env (opl, oidx) (pl, i)" using find_origin_feeds [OF g o _ pl(3) Cons.prems(6) pl(4)] by simp
      obtain a b where a: "a < length insts" "fst (wire (insts ! a)) = opl" "b < length (snd (snd (wire (insts ! a))))"
        "snd (snd (wire (insts ! a))) ! b = oidx" "map wire insts1 = (map wire insts)[me := (pl, ins @ [(Some (a, b), i)], outs)]"
        using add_audio_wire_input [OF c input Cons.prems(3)] me(2) by auto
      have w: "wired g env (map wire insts1)"
        unfolding a(5) by (rule wired_add_input [OF Cons.prems(7) _ me(1)]) (use Cons.prems(3,5) me(2) a feeds in auto)
      have len: "length insts1 = length insts" using arg_cong [OF a(5), of length] by simp
      have "wire (insts1 ! me) = (pl, ins @ [(Some (a, b), i)], outs)"
        using arg_cong [OF a(5), of "\<lambda>l. l ! me"] Cons.prems(3) len by simp
      moreover have "map (fst \<circ> wire) insts1 = map (fst \<circ> wire) insts"
        using arg_cong [OF a(5), of "map fst"] map_relabel [of fst "\<lambda>w. (fst w, ins @ [(Some (a, b), i)], outs)" "map wire insts" me]
          Cons.prems(3) me(2) by simp
      ultimately show ?thesis using step [OF w _ _ rest] Cons.prems(5) me(2) by fastforce
    qed
  qed
qed simp

section \<open>The sort\<close>

text \<open>The state of the sort: finished plugins off the stack, right wiring, and instances only of plugins
  that have been visited.\<close>

definition sort_inv :: "ini \<Rightarrow> cras_expr_env \<Rightarrow> nat set \<Rightarrow> bool list \<times> inst list \<Rightarrow> bool" where
  "sort_inv g env S st \<longleftrightarrow> finished g env S st \<and> wired g env (map wire (snd st)) \<and> linked (snd st) \<and>
     length (fst st) = length (plugins g) \<and>
     (\<forall>k\<in>inst_plugin ` set (snd st). k < length (plugins g) \<and> fst st ! k)"

text \<open>The static conditions on a graph.\<close>

definition simple_graph :: "(nat \<Rightarrow> nat) \<Rightarrow> ini \<Rightarrow> bool" where
  "simple_graph rank g \<longleftrightarrow> ini_wf g \<and> graph_ok g \<and> point_to_point g \<and> acyclic_by rank g"

lemma output_flow_from:
  assumes g: "ini_wf g" "point_to_point g" and a: "is_port g a" "direction (port_at g a) = PORT_OUTPUT"
    "flow_id (port_at g a) \<noteq> INVALID_FLOW_ID" and src: "flow_from (flows g ! nat (flow_id (port_at g a))) = Some s"
  shows "s = fst a"
proof -
  let ?f = "nat (flow_id (port_at g a))"
  have f: "0 \<le> flow_id (port_at g a) \<and> ?f < length (flows g)"
    using g(1) a(1,3) nth_mem [of "fst a" "plugins g"] nth_mem [of "snd a" "ports (plugins g ! fst a)"]
    unfolding ini_wf_def flow_ids_ok_def INVALID_FLOW_ID_def by fastforce
  then obtain p where "(s, from_port (flows g ! ?f), p) \<in> set (all_ports (plugins g))" "direction p = PORT_OUTPUT" "flow_id p = int ?f"
    using filled_from [OF _ _ src] g(1) by (auto simp: ini_wf_def)
  then have "(s, from_port (flows g ! ?f)) = a"
    using point_to_pointD(2) [OF g(2), of "(s, from_port (flows g ! ?f))" a] a f by (auto simp: in_all_ports)
  then show ?thesis by (metis fst_conv)
qed

lemma sort_sources_inv:
  assumes g: "simple_graph rank g"
    and IH: "\<And>src S st st'. topological_sort n m g env src st = Some (Inr st') \<Longrightarrow> src < length (plugins g) \<Longrightarrow>
      \<forall>k\<in>S. rank src < rank k \<Longrightarrow> sort_inv g env S st \<Longrightarrow> sort_inv g env S st' \<and> fst st' ! src"
    and pl: "pl < length (plugins g)"
  shows "sort_sources n m g env ps st = Some (Inr st') \<Longrightarrow> ps = drop i (ports (plugins g ! pl)) \<Longrightarrow> fst st ! pl \<Longrightarrow>
    \<forall>k\<in>S. rank pl \<le> rank k \<Longrightarrow> sort_inv g env S st \<Longrightarrow>
    sort_inv g env S st' \<and> sort_run g env st st' \<and>
      (\<forall>j\<ge>i. in_port g (pl, j) \<longrightarrow> (\<exists>s. source_of g (pl, j) = Some s \<and> fst st' ! fst s))"
proof (induction ps arbitrary: i st)
  case Nil
  then have "\<not> in_port g (pl, j)" if "j \<ge> i" for j using that by (auto simp: in_port_def)
  then show ?case using Nil by (simp add: sort_run_refl)
next
  case (Cons p ps)
  have gs: "ini_wf g" "graph_ok g" "point_to_point g" "acyclic_by rank g" using g by (auto simp: simple_graph_def)
  have i: "i < length (ports (plugins g ! pl))" "ports (plugins g ! pl) ! i = p" "ps = drop (Suc i) (ports (plugins g ! pl))"
    using Cons.prems(2) by (metis drop_all list.discI not_less, metis nth_via_drop, metis drop_Suc list.sel(3) tl_drop)
  have port: "is_port g (pl, i)" using pl i(1) by simp
  have split: "(\<forall>j\<ge>i. P j) \<longleftrightarrow> P i \<and> (\<forall>j\<ge>Suc i. P j)" for P by (metis Suc_le_eq le_eq_less_or_eq order_refl Suc_leD)
  show ?case
  proof (cases "flow_id p = INVALID_FLOW_ID")
    case True
    then have "\<not> in_port g (pl, i)" using i(2) by (simp add: in_port_def)
    then show ?thesis using Cons.IH [OF _ i(3) Cons.prems(3-5)] Cons.prems(1) True split by simp
  next
    case False
    then obtain src st1 where src: "flow_from (flows g ! nat (flow_id p)) = Some src"
      and one: "topological_sort n m g env src st = Some (Inr st1)" and rest: "sort_sources n m g env ps st1 = Some (Inr st')"
      using Cons.prems(1) by (auto split: option.splits sum.splits)
    have so: "source_of g (pl, i) = Some (src, from_port (flows g ! nat (flow_id p)))" using src i(2) by (simp add: source_of_def Let_def)
    have "plugins g ! pl \<in> set (plugins g)" "p \<in> set (ports (plugins g ! pl))" using pl i by (auto simp: in_set_conv_nth)
    then have "ports_ok (length (flows g)) [p]" using gs(2) unfolding graph_ok_def flow_ids_ok_iff ports_ok_def by auto
    then have sl: "src < length (plugins g)" using graph_ok_source [OF gs(2) _ False src] by blast
    have inv: "length (fst st) = length (plugins g)" "linked (snd st)" using Cons.prems(5) by (auto simp: sort_inv_def)
    have run: "sort_run g env st st1" using topological_sort_run [OF gs(2) one sl inv] .
    have st1: "sort_inv g env S st1 \<and> fst st1 ! src"
    proof (cases "direction p = PORT_INPUT")
      case True
      then have "in_port g (pl, i)" using port i(2) False by (simp add: in_port_def)
      then have "rank src < rank pl" using acyclic_source [OF gs(4) _ so] by simp
      then show ?thesis using IH [OF one sl _ Cons.prems(5)] Cons.prems(4) by fastforce
    next
      case out: False
      then have "src = pl" using output_flow_from [OF gs(1,3) port] i(2) False src by (cases "direction p") auto
      then have "st1 = st" using one Cons.prems(3) by (cases n; cases st) auto
      then show ?thesis using Cons.prems(3,5) \<open>src = pl\<close> by simp
    qed
    have mono: "fst st1 ! k" if "fst st ! k" "k < length (plugins g)" for k
      using run that inv(1) by (auto simp: sort_run_def split: prod.splits)
    have pl1: "fst st1 ! pl" using mono Cons.prems(3) pl by blast
    note IH' = Cons.IH [OF rest i(3) pl1 Cons.prems(4)]
    have ih: "sort_inv g env S st'" "sort_run g env st1 st'"
      "\<forall>j\<ge>Suc i. in_port g (pl, j) \<longrightarrow> (\<exists>s. source_of g (pl, j) = Some s \<and> fst st' ! fst s)" using IH' st1 by blast+
    have "fst st' ! src" using ih(2) st1 sl by (auto simp: sort_run_def sort_inv_def split: prod.splits)
    then show ?thesis using ih sort_run_trans [OF run ih(2)] split so by auto
  qed
qed

lemma sources_visited_mono:
  "sources_visited g v k \<Longrightarrow> (\<And>s. s < length (plugins g) \<Longrightarrow> v ! s \<Longrightarrow> v' ! s) \<Longrightarrow> ini_wf g \<Longrightarrow> sources_visited g v' k"
  unfolding sources_visited_def by (meson source_of_port)

lemma topological_sort_inv:
  assumes g: "simple_graph rank g"
  shows "topological_sort n m g env pl st = Some (Inr st') \<Longrightarrow> pl < length (plugins g) \<Longrightarrow> \<forall>k\<in>S. rank pl < rank k \<Longrightarrow>
    sort_inv g env S st \<Longrightarrow> sort_inv g env S st' \<and> fst st' ! pl"
proof (induction n arbitrary: pl S st st')
  case (Suc n)
  have gs: "ini_wf g" "graph_ok g" "point_to_point g" "acyclic_by rank g" using g by (auto simp: simple_graph_def)
  obtain v insts where st: "st = (v, insts)" by (cases st)
  have inv: "length v = length (plugins g)" "linked insts" "finished g env S (v, insts)" "wired g env (map wire insts)"
    "\<forall>k\<in>inst_plugin ` set insts. k < length (plugins g) \<and> v ! k" using Suc.prems(4) st by (auto simp: sort_inv_def)
  show ?case
  proof (cases "v ! pl")
    case True
    then show ?thesis using Suc.prems(1,4) st by auto
  next
    case False
    let ?ps = "ports (plugins g ! pl)" and ?v = "v[pl := True]" and ?S = "insert pl S"
    obtain v1 insts1 where src: "sort_sources n m g env ?ps (?v, insts) = Some (Inr (v1, insts1))"
      using Suc.prems(1) st False by (auto split: option.splits sum.splits)
    have "sources_visited g ?v k" if "sources_visited g v k" for k
      by (rule sources_visited_mono [OF that _ gs(1)]) (use inv(1) Suc.prems(2) in \<open>simp add: nth_list_update\<close>)
    then have "finished g env ?S (?v, insts)" using inv(3) by (auto simp: finished_def)
    then have pre: "sort_inv g env ?S (?v, insts)" using inv Suc.prems(2) by (auto simp: sort_inv_def nth_list_update)
    have low: "\<forall>k\<in>?S. rank pl \<le> rank k" using Suc.prems(3) by auto
    note r = sort_sources_inv [where i = 0, OF g Suc.IH Suc.prems(2) src _ _ low pre]
    have r: "sort_inv g env ?S (v1, insts1)" "sort_run g env (?v, insts) (v1, insts1)" "sources_visited g v1 pl"
      using r Suc.prems(2) inv(1) by (auto simp: sources_visited_def)
    have v1: "v1 ! pl" using r(2) Suc.prems(2) inv(1) by (auto simp: sort_run_def)
    have new: "pl \<notin> inst_plugin ` set insts1"
    proof -
      obtain pls where "map inst_plugin insts1 = map inst_plugin insts @ pls" "\<forall>k\<in>set pls. k < length ?v \<and> \<not> ?v ! k"
        using r(2) by (auto simp: sort_run_def)
      moreover from this(1) have "inst_plugin ` set insts1 = inst_plugin ` set insts \<union> set pls"
        by (metis list.set_map set_append)
      ultimately show ?thesis using inv(5) False Suc.prems(2) inv(1) by auto
    qed
    show ?thesis
    proof (cases "is_disabled (plugins g ! pl) env")
      case True
      then have "st' = (v1, insts1)" using Suc.prems(1) st False src by simp
      moreover have "finished g env S (v1, insts1)"
        using r(1,3) new True unfolding sort_inv_def finished_def by auto
      ultimately show ?thesis using r(1) v1 by (simp add: sort_inv_def)
    next
      case enabled: False
      then obtain insts2 where c: "construct_ports m g (length insts1) pl 0 ?ps (insts1 @ [new_instance pl]) = Some (Inr insts2)"
        and st': "st' = (v1, insts2)" using Suc.prems(1) st False src by (auto split: option.splits sum.splits)
      have "plugins g ! pl \<in> set (plugins g)" using Suc.prems(2) by simp
      then have ac: "audio_connected ?ps" using gs(2) unfolding graph_ok_def by blast
      have l: "linked insts2" using construct_ports_linked [OF c linked_snoc _ ac] r(1) by (simp add: sort_inv_def)
      have fin: "finished g env ?S (v1, insts1 @ [new_instance pl])"
        using r(1) unfolding sort_inv_def finished_def by (auto simp: new_instance_def)
      have "wired g env (map wire (insts1 @ [new_instance pl]))"
        using r(1) wired_snoc by (simp add: sort_inv_def wire_def new_instance_def)
      then have w: "wired g env (map wire insts2)" "map inst_plugin insts2 = map inst_plugin insts1 @ [pl]"
        using construct_ports_wired [OF gs(1,4) Suc.prems(2) ac r(3) low c _ _ _ _ fin]
        by (auto simp: new_instance_def wire_def)
      then have set: "inst_plugin ` set insts2 = insert pl (inst_plugin ` set insts1)"
        by (metis Un_insert_right list.set_map list.simps(15) set_append sup_bot.right_neutral list.set(1))
      have "finished g env S (v1, insts2)"
        using r(1,3) enabled set unfolding sort_inv_def finished_def by auto
      then show ?thesis using r(1) v1 st' w(1) l set Suc.prems(2) by (simp add: sort_inv_def)
    qed
  qed
qed simp

section \<open>From the configuration to the buffers\<close>

lemma feeds_rank:
  assumes "ini_wf g" "acyclic_by rank g"
  shows "feeds g env q a \<Longrightarrow> rank (fst q) < rank (fst a)"
proof (induction rule: feeds.induct)
  case (direct a)
  then show ?case using acyclic_source [OF assms(2)] by blast
next
  case (through a c)
  then obtain j where "in_port g a" "source_of g a = Some (fst c, j)" by (auto simp: hop_def)
  then have "rank (fst c) < rank (fst a)" using acyclic_source [OF assms(2)] by fastforce
  then show ?case using through.IH by simp
qed

lemma wired_port:
  assumes w: "wired g env (map wire insts)" and i: "i < length insts" "p \<in> set (input_audio_ports (insts ! i))"
  shows "\<exists>a b. ap_peer p = Some (a, b) \<and> a < length insts \<and> b < length (output_audio_ports (insts ! a)) \<and>
    feeds g env (inst_plugin (insts ! a), ap_original_index (output_audio_ports (insts ! a) ! b)) (inst_plugin (insts ! i), ap_original_index p)"
proof -
  have "wire (insts ! i) \<in> set (map wire insts)" using i(1) by simp
  moreover have "(ap_peer p, ap_original_index p) \<in> set (fst (snd (wire (insts ! i))))" using i(2) by (auto simp: wire_def)
  ultimately have "\<exists>a b. ap_peer p = Some (a, b) \<and> a < length insts \<and> b < length (snd (snd (wire (insts ! a)))) \<and>
      feeds g env (fst (wire (insts ! a)), snd (snd (wire (insts ! a))) ! b) (fst (wire (insts ! i)), ap_original_index p)"
    using w unfolding wired_def by (fastforce simp: split_beta)
  then show ?thesis by (auto simp: wire_def)
qed

lemma distinct_concat_upt:
  "(\<And>i. i < n \<Longrightarrow> distinct (f i)) \<Longrightarrow> (\<And>i j. i < j \<Longrightarrow> j < n \<Longrightarrow> set (f i) \<inter> set (f j) = {}) \<Longrightarrow> distinct (concat (map f [0..<n]))"
proof (induction n)
  case (Suc n)
  have "set (concat (map f [0..<n])) \<inter> set (f n) = {}" using Suc.prems(2) [of _ n] by fastforce
  moreover have "distinct (concat (map f [0..<n]))" using Suc by simp
  ultimately show ?case using Suc.prems(1) [of n] by simp
qed simp

lemma wired_links_ok:
  assumes g: "simple_graph rank g" and w: "wired g env (map wire insts)" and l: "linked insts"
    and d: "distinct (map inst_plugin insts)" and e: "\<forall>x\<in>set insts. \<not> is_disabled (plugins g ! inst_plugin x) env"
  shows "links_ok insts"
proof -
  have gs: "ini_wf g" "point_to_point g" "acyclic_by rank g" using g by (auto simp: simple_graph_def)
  have peer: "\<exists>a b. ap_peer p = Some (a, b) \<and> a < i \<and> b < length (output_audio_ports (insts ! a))"
    if p: "i < length insts" "p \<in> set (input_audio_ports (insts ! i))" for i p
  proof -
    obtain a b where ab: "ap_peer p = Some (a, b)" "b < length (output_audio_ports (insts ! a))"
      "rank (inst_plugin (insts ! a)) < rank (inst_plugin (insts ! i))"
      using wired_port [OF w p] feeds_rank [OF gs(1,3)] by fastforce
    moreover have "a \<le> i" using linkedD [OF l p] ab(1) by simp
    moreover have "a \<noteq> i" using ab(3) by auto
    ultimately show ?thesis by auto
  qed
  have same: "i = i' \<and> ap_original_index p = ap_original_index p'"
    if p: "i < length insts" "p \<in> set (input_audio_ports (insts ! i))" and p': "i' < length insts" "p' \<in> set (input_audio_ports (insts ! i'))"
      and eq: "the (ap_peer p) = the (ap_peer p')" for i i' p p'
  proof -
    obtain q where q: "feeds g env q (inst_plugin (insts ! i), ap_original_index p)"
        "feeds g env q (inst_plugin (insts ! i'), ap_original_index p')"
      using wired_port [OF w p] wired_port [OF w p'] eq by auto
    have "(inst_plugin (insts ! i), ap_original_index p) = (inst_plugin (insts ! i'), ap_original_index p')"
      by (rule feeds_inj [OF gs(1,2) q]) (use e p(1) p'(1) in auto)
    then show ?thesis using d p(1) p'(1) by (auto simp: distinct_conv_nth)
  qed
  have "distinct (peers insts i)" if i: "i < length insts" for i
  proof -
    have "wire (insts ! i) \<in> set (map wire insts)" using i by simp
    then have "distinct (map snd (fst (snd (wire (insts ! i)))))" using w unfolding wired_def by (auto simp: split_beta)
    then have "distinct (map ap_original_index (input_audio_ports (insts ! i)))" by (simp add: wire_def comp_def)
    then have d: "distinct (input_audio_ports (insts ! i))" "inj_on ap_original_index (set (input_audio_ports (insts ! i)))"
      by (simp_all add: distinct_map)
    moreover have "inj_on (\<lambda>p. the (ap_peer p)) (set (input_audio_ports (insts ! i)))"
      using same [OF i _ i] by (intro inj_onI inj_onD [OF d(2)]) blast+
    ultimately show ?thesis by (simp add: peers_def distinct_map)
  qed
  moreover have "set (peers insts i) \<inter> set (peers insts j) = {}" if ij: "i < j" "j < length insts" for i j
  proof (rule ccontr)
    assume "\<not> ?thesis"
    then obtain p p' where "p \<in> set (input_audio_ports (insts ! i))" "p' \<in> set (input_audio_ports (insts ! j))"
      "the (ap_peer p) = the (ap_peer p')" unfolding peers_def by fastforce
    then show False using same [of i p j p'] ij by simp
  qed
  ultimately have "distinct (consumed insts (length insts))"
    unfolding consumed_def by (rule distinct_concat_upt)
  then show ?thesis using peer unfolding links_ok_def by blast
qed

lemma ini_wf_graph_ok:
  assumes "ini_wf g" "\<forall>pl\<in>set (plugins g). audio_connected (ports pl)"
  shows "graph_ok g"
proof -
  have "i < length (plugins g)" if "f < length (flows g)" "flow_from (flows g ! f) = Some i" for f i
    using filled_from [OF _ that, of "all_ports (plugins g)"] assms(1) by (auto simp: ini_wf_def in_all_ports)
  then show ?thesis using assms unfolding graph_ok_def ini_wf_def by (auto simp: in_set_conv_nth split: option.split)
qed

lemma load_modules_view:
  "load_modules load pls insts = Inr insts' \<Longrightarrow>
   map (\<lambda>x. (input_audio_ports x, output_audio_ports x)) insts' = map (\<lambda>x. (input_audio_ports x, output_audio_ports x)) insts"
proof (induction insts arbitrary: insts')
  case (Cons x xs)
  then show ?case by (auto simp: load_module_def split: option.splits sum.splits)
qed simp

lemma links_ok_view:
  assumes "map (\<lambda>x. (input_audio_ports x, output_audio_ports x)) insts' = map (\<lambda>x. (input_audio_ports x, output_audio_ports x)) insts"
  shows "links_ok insts' = links_ok insts"
proof -
  have len: "length insts' = length insts" using assms by (rule map_eq_imp_length_eq)
  have nth: "input_audio_ports (insts' ! i) = input_audio_ports (insts ! i)" "output_audio_ports (insts' ! i) = output_audio_ports (insts ! i)"
    if "i < length insts" for i
    using arg_cong [OF assms, of "\<lambda>l. l ! i"] that len by simp_all
  have consumed: "consumed insts' (length insts) = consumed insts (length insts)"
    unfolding consumed_def peers_def using len nth by (auto intro!: arg_cong [of _ _ concat])
  have peer: "(\<exists>a b. ap_peer p = Some (a, b) \<and> a < i \<and> b < length (output_audio_ports (insts' ! a))) \<longleftrightarrow>
      (\<exists>a b. ap_peer p = Some (a, b) \<and> a < i \<and> b < length (output_audio_ports (insts ! a)))" if i: "i < length insts" for i p
  proof -
    have "output_audio_ports (insts' ! a) = output_audio_ports (insts ! a)" if "a < i" for a using nth(2) i that by simp
    then show ?thesis by (intro ex_cong1) auto
  qed
  have "(\<forall>i<length insts. \<forall>p\<in>set (input_audio_ports (insts' ! i)). \<exists>a b. ap_peer p = Some (a, b) \<and> a < i \<and> b < length (output_audio_ports (insts' ! a)))
    = (\<forall>i<length insts. \<forall>p\<in>set (input_audio_ports (insts ! i)). \<exists>a b. ap_peer p = Some (a, b) \<and> a < i \<and> b < length (output_audio_ports (insts ! a)))"
    by (rule all_cong) (simp only: nth(1) peer)
  then show ?thesis unfolding links_ok_def by (simp only: len consumed)
qed

lemma created_links_ok:
  assumes g: "simple_graph rank g" and create: "cras_dsp_pipeline_create fuel g env purpose = Some (Some pl)"
  shows "links_ok (instances pl)"
proof -
  let ?st = "(replicate (length (plugins g)) False, [])"
  have ok: "graph_ok g" using g by (simp add: simple_graph_def)
  obtain sink v where sink: "sink < length (plugins g)"
    and sort: "topological_sort (Suc (length (plugins g))) fuel g env sink ?st = Some (Inr (v, instances pl))"
    and run: "sort_run g env ?st (v, instances pl)"
    using pipeline_create_sort [OF ok create] by blast
  have "sort_inv g env {} ?st" by (auto simp: sort_inv_def finished_def wired_def linked_def)
  then have "wired g env (map wire (instances pl))"
    using topological_sort_inv [OF g sort sink, of "{}"] by (simp add: sort_inv_def)
  then show ?thesis using wired_links_ok [OF g] sort_run_instances [OF run] by simp
qed

text \<open>C8. From the ini file to the audio buffers, nothing is accessed out of bounds. For every configuration
  in which each flow connects one output to one input of the same type, audio ports carry a flow and
  there is no cycle, whatever plugins are disabled: loading the pipeline that was created returns, and
  when it succeeds the buffers are assigned safely: every port has a buffer within the peak, an input
  has the buffer of the output that feeds it, and no instance overwrites samples that are still needed.\<close>

theorem dsp_configuration_safe:
  assumes ini: "cras_dsp_ini_create loaded strtof = Some g" and audio: "\<forall>pl\<in>set (plugins g). audio_connected (ports pl)"
    and p2p: "point_to_point g" and acyclic: "acyclic_by rank g"
    and create: "cras_dsp_pipeline_create fuel g env purpose = Some (Some pl)"
  shows "\<exists>r. cras_dsp_pipeline_load load calloc_ok pl = Some r \<and>
    (\<forall>pl'. r = Inr pl' \<longrightarrow> (\<exists>insts. load_modules load (plugins (pl_ini pl)) (instances pl) = Inr insts \<and>
       map mask_inst (instances pl') = map mask_inst insts \<and>
       (\<forall>m<length insts. assigned insts (instances pl') (nat (peak_buf pl')) m)))"
proof (cases "load_modules load (plugins (pl_ini pl)) (instances pl)")
  case (Inl e)
  then show ?thesis by (simp add: cras_dsp_pipeline_load_def)
next
  case (Inr insts)
  have g: "simple_graph rank g"
    using ini_create_consistent [OF ini] ini_wf_graph_ok audio p2p acyclic by (simp add: simple_graph_def)
  have "links_ok (instances pl)" using created_links_ok [OF g create] .
  then have links: "links_ok insts" using links_ok_view [OF load_modules_view [OF Inr]] by simp
  show ?thesis
  proof (cases "snd (foldl count_buffers (0, 0) insts) > 0 \<and> calloc_ok")
    case True
    then show ?thesis
      using buffers_assigned [of "pl\<lparr>instances := insts\<rparr>"] links Inr by (auto simp: cras_dsp_pipeline_load_def)
  next
    case False
    then show ?thesis using Inr by (auto simp: cras_dsp_pipeline_load_def allocate_buffers_def case_prod_beta)
  qed
qed

text \<open>A stereo configuration whose middle plugin is disabled: the sink reads the source directly.\<close>

definition bypass_dict :: dictionary where
  "bypass_dict = map_of
     [(''s:library'', ''builtin''), (''s:label'', ''source''), (''s:purpose'', ''playback''),
      (''s:output_0'', ''{a}''), (''s:output_1'', ''{b}''),
      (''m:library'', ''builtin''), (''m:label'', ''eq''), (''m:disable'', ''#t''),
      (''m:input_0'', ''{a}''), (''m:output_1'', ''{c}''),
      (''d:library'', ''builtin''), (''d:label'', ''sink''), (''d:purpose'', ''playback''),
      (''d:input_0'', ''{c}''), (''d:input_1'', ''{b}'')]"

definition bypass_graph :: ini where
  "bypass_graph = the (cras_dsp_ini_create (Some ([''s'', ''m'', ''d''], bypass_dict)) (\<lambda>_. None))"

lemma bypass_created:
  "cras_dsp_ini_create (Some ([''s'', ''m'', ''d''], bypass_dict)) (\<lambda>_. None) = Some bypass_graph"
proof -
  have "cras_dsp_ini_create (Some ([''s'', ''m'', ''d''], bypass_dict)) (\<lambda>_. None) \<noteq> None" by code_simp
  then show ?thesis by (auto simp: bypass_graph_def)
qed

lemma bypass_simple:
  "\<forall>pl\<in>set (plugins bypass_graph). audio_connected (ports pl)" "point_to_point bypass_graph" "acyclic_by id bypass_graph"
  by code_simp+

lemma bypass_pipeline:
  "map_option (map_option (\<lambda>pl. map (\<lambda>x. map ap_peer (input_audio_ports x)) (instances pl)))
     (cras_dsp_pipeline_create 3 bypass_graph empty_env ''playback'') = Some (Some [[], [Some (0, 0), Some (0, 1)]])"
  by code_simp

theorem dsp_configuration_safe_witness:
  "\<exists>pl r. cras_dsp_pipeline_create 3 bypass_graph empty_env ''playback'' = Some (Some pl) \<and>
     cras_dsp_pipeline_load (\<lambda>_. Some 0) True pl = Some r"
proof -
  obtain pl where pl: "cras_dsp_pipeline_create 3 bypass_graph empty_env ''playback'' = Some (Some pl)"
    using bypass_pipeline by (auto simp: map_option_case split: option.splits)
  then show ?thesis
    using dsp_configuration_safe [OF bypass_created bypass_simple pl, of "\<lambda>_. Some 0" True] by blast
qed

end
