(* ===== verification/Cras_Utf8.thy ===== *)
theory Cras_Utf8
  imports Cras_Prelude
begin

text \<open>
  \<open>valid_utf8_string\<close> (\<open>cras/src/server/cras_utf8.c\<close>), which checks names that clients send. The state of its
  loop is the position, the number of bytes of the byte order mark that have been matched, and the
  ranges of the continuation bytes that have to follow (\<open>range\<close>; the empty list for a null pointer or
  the terminator of a table). The specification is the encoding of Unicode scalar values
  of RFC 3629.
\<close>

section \<open>Model\<close>

definition kUTF8ByteOrderMask :: "int list" where
  "kUTF8ByteOrderMask = [0xef, 0xbb, 0xbf]"

definition kUTF8TwoByteSeq :: "(int \<times> int) list" where
  "kUTF8TwoByteSeq = [(0xc2, 0xdf), (0x80, 0xbf)]"

definition kUTF8ByteSeqE0 :: "(int \<times> int) list" where
  "kUTF8ByteSeqE0 = [(0xe0, 0xe0), (0xa0, 0xbf), (0x80, 0xbf)]"

definition kUTF8ByteSeqE1EC :: "(int \<times> int) list" where
  "kUTF8ByteSeqE1EC = [(0xe1, 0xec), (0x80, 0xbf), (0x80, 0xbf)]"

definition kUTF8ByteSeqED :: "(int \<times> int) list" where
  "kUTF8ByteSeqED = [(0xed, 0xed), (0x80, 0x9f), (0x80, 0xbf)]"

definition kUTF8ByteSeqEEEF :: "(int \<times> int) list" where
  "kUTF8ByteSeqEEEF = [(0xee, 0xef), (0x80, 0xbf), (0x80, 0xbf)]"

definition kUTF8ByteSeqF0 :: "(int \<times> int) list" where
  "kUTF8ByteSeqF0 = [(0xf0, 0xf0), (0x90, 0xbf), (0x80, 0xbf), (0x80, 0xbf)]"

definition kUTF8ByteSeqF1F3 :: "(int \<times> int) list" where
  "kUTF8ByteSeqF1F3 = [(0xf1, 0xf3), (0x80, 0xbf), (0x80, 0xbf), (0x80, 0xbf)]"

definition kUTF8ByteSeqF4 :: "(int \<times> int) list" where
  "kUTF8ByteSeqF4 = [(0xf4, 0xf4), (0x80, 0x8f), (0x80, 0xbf), (0x80, 0xbf)]"

definition kUTF8Sequences :: "(int \<times> int) list list" where
  "kUTF8Sequences = [kUTF8TwoByteSeq, kUTF8ByteSeqE0, kUTF8ByteSeqE1EC, kUTF8ByteSeqED, kUTF8ByteSeqEEEF,
     kUTF8ByteSeqF0, kUTF8ByteSeqF1F3, kUTF8ByteSeqF4]"

text \<open>The search for the sequence whose first range holds the byte; the ranges after it.\<close>

fun find_sequence :: "(int \<times> int) list list \<Rightarrow> int \<Rightarrow> (int \<times> int) list option" where
  "find_sequence [] byte = None"
| "find_sequence (ranges # seqs) byte =
     (if byte \<ge> fst (hd ranges) \<and> byte \<le> snd (hd ranges) then Some (tl ranges) else find_sequence seqs byte)"

text \<open>A string is the list of its bytes; the byte behind the last one is the terminating 0.\<close>

definition byte_at :: "int list \<Rightarrow> nat \<Rightarrow> int" where
  "byte_at s pos = (if pos < length s then s ! pos else 0)"

text \<open>The result: the return value and \<open>*bad_pos\<close>. A byte that does not match the byte order mark
  makes the loop start again from the beginning.\<close>

function utf8_loop :: "int list \<Rightarrow> nat \<Rightarrow> nat \<Rightarrow> (int \<times> int) list \<Rightarrow> int \<times> nat" where
  "utf8_loop s pos bom_chars rs =
     (let byte = byte_at s pos in
      if byte = 0 then (if rs \<noteq> [] then 0 else 1, pos)
      else
        case rs of
          [] \<Rightarrow>
            if byte < 128 then utf8_loop s (pos + 1) bom_chars []
            else if bom_chars < length kUTF8ByteOrderMask then
              (if byte = kUTF8ByteOrderMask ! bom_chars then utf8_loop s (pos + 1) (bom_chars + 1) []
               else utf8_loop s 0 (length kUTF8ByteOrderMask) [])
            else
              (case find_sequence kUTF8Sequences byte of
                 None \<Rightarrow> (0, pos)
               | Some rs \<Rightarrow> utf8_loop s (pos + 1) bom_chars rs)
        | (lo, hi) # rs \<Rightarrow>
            if byte \<ge> lo \<and> byte \<le> hi then utf8_loop s (pos + 1) bom_chars rs else (0, pos))"
  by pat_completeness auto
termination
  by (relation "measures [\<lambda>(s, pos, bom_chars, rs). length kUTF8ByteOrderMask - bom_chars, \<lambda>(s, pos, bom_chars, rs). length s - pos]")
    (auto simp: byte_at_def split: if_splits)

declare utf8_loop.simps [simp del]

text \<open>For a null pointer \<open>pos - string - 1\<close> is the \<open>size_t\<close> of -1.\<close>

definition valid_utf8_string :: "int list option \<Rightarrow> int \<times> int" where
  "valid_utf8_string string =
     (case string of None \<Rightarrow> (0, u64 (- 1)) | Some s \<Rightarrow> (let (ret, pos) = utf8_loop s 0 0 [] in (ret, int pos)))"

section \<open>Unicode scalar values and their encoding\<close>

definition scalar :: "int \<Rightarrow> bool" where
  "scalar c \<longleftrightarrow> 0 < c \<and> c \<le> 0x10ffff \<and> \<not> (0xd800 \<le> c \<and> c \<le> 0xdfff)"

definition utf8_encode :: "int \<Rightarrow> int list" where
  "utf8_encode c =
     (if c < 0x80 then [c]
      else if c < 0x800 then [0xc0 + c div 64, 0x80 + c mod 64]
      else if c < 0x10000 then [0xe0 + c div 4096, 0x80 + c div 64 mod 64, 0x80 + c mod 64]
      else [0xf0 + c div 262144, 0x80 + c div 4096 mod 64, 0x80 + c div 64 mod 64, 0x80 + c mod 64])"

definition utf8_text :: "int list \<Rightarrow> bool" where
  "utf8_text s \<longleftrightarrow> (\<exists>cs. (\<forall>c\<in>set cs. scalar c) \<and> s = concat (map utf8_encode cs))"

text \<open>The automaton of the loop once the byte order mark is out of the way.\<close>

fun accepts :: "(int \<times> int) list \<Rightarrow> int list \<Rightarrow> bool" where
  "accepts rs [] \<longleftrightarrow> rs = []"
| "accepts [] (b # bs) \<longleftrightarrow>
     (if b < 128 then accepts [] bs
      else case find_sequence kUTF8Sequences b of None \<Rightarrow> False | Some rs \<Rightarrow> accepts rs bs)"
| "accepts ((lo, hi) # rs) (b # bs) \<longleftrightarrow> lo \<le> b \<and> b \<le> hi \<and> accepts rs bs"

lemma utf8_loop_accepts:
  "length kUTF8ByteOrderMask \<le> bom \<Longrightarrow> pos \<le> length s \<Longrightarrow> \<forall>b\<in>set s. b \<noteq> 0 \<Longrightarrow>
   fst (utf8_loop s pos bom rs) = (if accepts rs (drop pos s) then 1 else 0)"
proof (induction "length s - pos" arbitrary: pos rs)
  case 0
  then have "drop pos s = []" "byte_at s pos = 0" by (auto simp: byte_at_def)
  then show ?case by (subst utf8_loop.simps) simp
next
  case (Suc n)
  then have pos: "pos < length s" by simp
  then have d: "drop pos s = s ! pos # drop (pos + 1) s" "byte_at s pos = s ! pos" by (simp_all add: Cons_nth_drop_Suc byte_at_def)
  have nz: "s ! pos \<noteq> 0" using Suc.prems(3) pos by auto
  have IH: "fst (utf8_loop s (pos + 1) bom r) = (if accepts r (drop (pos + 1) s) then 1 else 0)" for r
    using Suc.hyps(1) [of "pos + 1" r] Suc.hyps(2) Suc.prems pos by simp
  show ?case
  proof (cases rs)
    case Nil
    then show ?thesis using d nz IH Suc.prems(1)
      by (subst utf8_loop.simps) (auto simp: Let_def split: option.split)
  next
    case (Cons lh rs')
    obtain lo hi where "lh = (lo, hi)" by (cases lh)
    then show ?thesis using Cons d nz IH by (subst utf8_loop.simps) (auto simp: Let_def)
  qed
qed

section \<open>The automaton accepts exactly the encodings\<close>

lemmas utf8_tables = kUTF8Sequences_def kUTF8TwoByteSeq_def kUTF8ByteSeqE0_def kUTF8ByteSeqE1EC_def kUTF8ByteSeqED_def
  kUTF8ByteSeqEEEF_def kUTF8ByteSeqF0_def kUTF8ByteSeqF1F3_def kUTF8ByteSeqF4_def

lemma mod64 [simp]: "0 \<le> x mod (64::int)" "x mod (64::int) \<le> 63"
  using pos_mod_bound [of 64 x] by simp_all

lemma div_bounds: "lo * m \<le> c \<Longrightarrow> c < hi * m \<Longrightarrow> 0 < m \<Longrightarrow> lo \<le> c div m \<and> c div m < hi" for lo hi m c :: int
proof -
  assume m: "lo * m \<le> c" "c < hi * m" "0 < m"
  have "c div m * m \<le> c" using div_mult_mod_eq [of c m] pos_mod_sign [of m c] m(3) by linarith
  then have "c div m * m < hi * m" using m(2) by linarith
  then show ?thesis using m zdiv_mono1 [of "lo * m" c m] by (simp add: mult_less_cancel_right)
qed

lemma divmod64: "0 \<le> y \<Longrightarrow> y < 64 \<Longrightarrow> (x * 64 + y) div 64 = x \<and> (x * 64 + y) mod 64 = (y::int)"
  by simp

lemma accepts_encode: "scalar c \<Longrightarrow> accepts [] (utf8_encode c @ bs) = accepts [] bs"
proof -
  assume c: "scalar c"
  consider "c < 0x80" | "0x80 \<le> c" "c < 0x800" | "0x800 \<le> c" "c < 0x1000" | "0x1000 \<le> c" "c < 0xd000"
    | "0xd000 \<le> c" "c < 0xd800" | "0xe000 \<le> c" "c < 0x10000"
    | "0x10000 \<le> c" "c < 0x40000" | "0x40000 \<le> c" "c < 0x100000" | "0x100000 \<le> c" "c \<le> 0x10ffff"
    using c unfolding scalar_def by fastforce
  then show ?thesis
  proof cases
    case 1
    then show ?thesis by (simp add: utf8_encode_def)
  next
    case 2
    then have "2 \<le> c div 64" "c div 64 \<le> 31" using div_bounds [of 2 64 c 32] by simp_all
    then show ?thesis using 2 by (simp add: utf8_encode_def utf8_tables)
  next
    case 3
    then have "c div 4096 = 0" "32 \<le> c div 64" "c div 64 \<le> 63" using div_bounds [of 0 4096 c 1] div_bounds [of 32 64 c 64] by simp_all
    then show ?thesis using 3 by (simp add: utf8_encode_def utf8_tables)
  next
    case 4
    then have "1 \<le> c div 4096" "c div 4096 \<le> 12" using div_bounds [of 1 4096 c 13] by simp_all
    then show ?thesis using 4 by (simp add: utf8_encode_def utf8_tables)
  next
    case 5
    then have "c div 4096 = 13" "c div 64 = 13 * 64 + (c div 64 - 832)" "832 \<le> c div 64" "c div 64 < 864"
      using div_bounds [of 13 4096 c 14] div_bounds [of 832 64 c 864] by simp_all
    moreover from this have "c div 64 mod 64 \<le> 31" using divmod64 [of "c div 64 - 832" 13] by simp
    ultimately have "c div 4096 = 13" "c div 64 mod 64 \<le> 31" by simp_all
    then show ?thesis using 5 by (simp add: utf8_encode_def utf8_tables)
  next
    case 6
    then have "14 \<le> c div 4096" "c div 4096 \<le> 15" using div_bounds [of 14 4096 c 16] by simp_all
    then show ?thesis using 6 by (simp add: utf8_encode_def utf8_tables)
  next
    case 7
    then have "c div 262144 = 0" "16 \<le> c div 4096" "c div 4096 < 64"
      using div_bounds [of 0 262144 c 1] div_bounds [of 16 4096 c 64] by simp_all
    then have "c div 262144 = 0" "16 \<le> c div 4096 mod 64" "c div 4096 \<le> 63" by simp_all
    then show ?thesis using 7 by (simp add: utf8_encode_def utf8_tables)
  next
    case 8
    then have "1 \<le> c div 262144" "c div 262144 \<le> 3" using div_bounds [of 1 262144 c 4] by simp_all
    then show ?thesis using 8 by (simp add: utf8_encode_def utf8_tables)
  next
    case 9
    then have "c div 262144 = 4" "256 \<le> c div 4096" "c div 4096 < 272"
      using div_bounds [of 4 262144 c 5] div_bounds [of 256 4096 c 272] by simp_all
    moreover from this have "c div 4096 mod 64 \<le> 15" using divmod64 [of "c div 4096 - 256" 4] by simp
    ultimately have "c div 262144 = 4" "c div 4096 mod 64 \<le> 15" by simp_all
    then show ?thesis using 9 by (simp add: utf8_encode_def utf8_tables)
  qed
qed

lemma accepts_text: "\<forall>c\<in>set cs. scalar c \<Longrightarrow> accepts [] (concat (map utf8_encode cs) @ bs) = accepts [] bs"
  by (induction cs) (simp_all add: accepts_encode)

lemma encode_2: "0xc2 \<le> a \<Longrightarrow> a \<le> 0xdf \<Longrightarrow> 0x80 \<le> b \<Longrightarrow> b \<le> 0xbf \<Longrightarrow> \<exists>c. scalar c \<and> utf8_encode c = [a, b]"
proof (rule exI [of _ "(a - 0xc0) * 64 + (b - 0x80)"])
  assume b: "0xc2 \<le> a" "a \<le> 0xdf" "0x80 \<le> b" "b \<le> 0xbf"
  define c where "c = (a - 0xc0) * 64 + (b - 0x80)"
  have "c div 64 = a - 0xc0" "c mod 64 = b - 0x80" using b divmod64 [of "b - 0x80" "a - 0xc0"] unfolding c_def by simp_all
  moreover have "0x80 \<le> c" "c < 0x800" using b by (auto simp: c_def)
  ultimately show "scalar ((a - 0xc0) * 64 + (b - 0x80)) \<and> utf8_encode ((a - 0xc0) * 64 + (b - 0x80)) = [a, b]"
    unfolding c_def [symmetric] by (simp add: scalar_def utf8_encode_def)
qed

lemma encode_3:
  assumes b: "0xe0 \<le> a" "a \<le> 0xef" "0x80 \<le> b" "b \<le> 0xbf" "0x80 \<le> d" "d \<le> 0xbf" "a = 0xe0 \<longrightarrow> 0xa0 \<le> b" "a = 0xed \<longrightarrow> b \<le> 0x9f"
  shows "\<exists>c. scalar c \<and> utf8_encode c = [a, b, d]"
proof (rule exI [of _ "(a - 0xe0) * 4096 + (b - 0x80) * 64 + (d - 0x80)"])
  define c where "c = (a - 0xe0) * 4096 + (b - 0x80) * 64 + (d - 0x80)"
  have d: "c div 64 = (a - 0xe0) * 64 + (b - 0x80)" "c mod 64 = d - 0x80"
    using b divmod64 [of "d - 0x80" "(a - 0xe0) * 64 + (b - 0x80)"] unfolding c_def by (simp_all add: algebra_simps)
  have "c div 4096 = c div 64 div 64" by (simp add: zdiv_zmult2_eq [symmetric])
  moreover have "((a - 0xe0) * 64 + (b - 0x80)) div 64 = a - 0xe0" "((a - 0xe0) * 64 + (b - 0x80)) mod 64 = b - 0x80"
    using b divmod64 [of "b - 0x80" "a - 0xe0"] by simp_all
  moreover consider "a = 0xe0" | "0xe1 \<le> a" "a \<le> 0xec" | "a = 0xed" | "0xee \<le> a" using b(1) by linarith
  then have "0x800 \<le> c \<and> c < 0x10000 \<and> \<not> (0xd800 \<le> c \<and> c \<le> 0xdfff)"
    using b unfolding c_def by cases auto
  ultimately show "scalar ((a - 0xe0) * 4096 + (b - 0x80) * 64 + (d - 0x80)) \<and>
      utf8_encode ((a - 0xe0) * 4096 + (b - 0x80) * 64 + (d - 0x80)) = [a, b, d]"
    unfolding c_def [symmetric] using d by (simp add: scalar_def utf8_encode_def)
qed

lemma encode_4:
  assumes b: "0xf0 \<le> a" "a \<le> 0xf4" "0x80 \<le> b" "b \<le> 0xbf" "0x80 \<le> d" "d \<le> 0xbf" "0x80 \<le> e" "e \<le> 0xbf"
    "a = 0xf0 \<longrightarrow> 0x90 \<le> b" "a = 0xf4 \<longrightarrow> b \<le> 0x8f"
  shows "\<exists>c. scalar c \<and> utf8_encode c = [a, b, d, e]"
proof (rule exI [of _ "(a - 0xf0) * 262144 + (b - 0x80) * 4096 + (d - 0x80) * 64 + (e - 0x80)"])
  define c where "c = (a - 0xf0) * 262144 + (b - 0x80) * 4096 + (d - 0x80) * 64 + (e - 0x80)"
  have d: "c div 64 = (a - 0xf0) * 4096 + (b - 0x80) * 64 + (d - 0x80)" "c mod 64 = e - 0x80"
    using b divmod64 [of "e - 0x80" "(a - 0xf0) * 4096 + (b - 0x80) * 64 + (d - 0x80)"] unfolding c_def by (simp_all add: algebra_simps)
  have d2: "c div 64 div 64 = (a - 0xf0) * 64 + (b - 0x80)" "c div 64 mod 64 = d - 0x80"
    using b divmod64 [of "d - 0x80" "(a - 0xf0) * 64 + (b - 0x80)"] unfolding d(1) by (simp_all add: algebra_simps)
  have d3: "c div 64 div 64 div 64 = a - 0xf0" "c div 64 div 64 mod 64 = b - 0x80"
    using b divmod64 [of "b - 0x80" "a - 0xf0"] unfolding d2(1) by simp_all
  have e: "c div 4096 = c div 64 div 64" "c div 262144 = c div 64 div 64 div 64" by simp_all
  have q: "c div 262144 = a - 0xf0" "c div 4096 mod 64 = b - 0x80" "c div 64 mod 64 = d - 0x80"
    unfolding e d2(2) d3 by simp_all
  consider "a = 0xf0" | "0xf1 \<le> a" "a \<le> 0xf3" | "a = 0xf4" using b(1,2) by linarith
  then have "0x10000 \<le> c \<and> c \<le> 0x10ffff" using b unfolding c_def by cases auto
  then show "scalar ((a - 0xf0) * 262144 + (b - 0x80) * 4096 + (d - 0x80) * 64 + (e - 0x80)) \<and>
      utf8_encode ((a - 0xf0) * 262144 + (b - 0x80) * 4096 + (d - 0x80) * 64 + (e - 0x80)) = [a, b, d, e]"
    unfolding c_def [symmetric] using d(2) q by (simp add: scalar_def utf8_encode_def)
qed

text \<open>What the automaton accepts starts with the encoding of one character.\<close>

lemma accepts_split:
  assumes "accepts [] (b # bs)" "0 < b"
  shows "\<exists>c rest. scalar c \<and> b # bs = utf8_encode c @ rest \<and> accepts [] rest"
proof (cases "b < 128")
  case True
  then show ?thesis using assms by (intro exI [of _ b] exI [of _ bs]) (simp add: scalar_def utf8_encode_def)
next
  case False
  have uncons: "\<exists>x xs. ys = x # xs \<and> lo \<le> x \<and> x \<le> hi \<and> accepts rs xs" if "accepts ((lo, hi) # rs) ys" for lo hi rs ys
    using that by (cases ys) auto
  have "find_sequence kUTF8Sequences b \<noteq> None" using assms False by (auto split: option.splits)
  then consider "0xc2 \<le> b" "b \<le> 0xdf" "find_sequence kUTF8Sequences b = Some [(0x80, 0xbf)]"
    | lo hi where "0xe0 \<le> b" "b \<le> 0xef" "find_sequence kUTF8Sequences b = Some [(lo, hi), (0x80, 0xbf)]"
        "0x80 \<le> lo" "hi \<le> 0xbf" "b = 0xe0 \<longrightarrow> lo = 0xa0" "b = 0xed \<longrightarrow> hi = 0x9f"
    | lo hi where "0xf0 \<le> b" "b \<le> 0xf4" "find_sequence kUTF8Sequences b = Some [(lo, hi), (0x80, 0xbf), (0x80, 0xbf)]"
        "0x80 \<le> lo" "hi \<le> 0xbf" "b = 0xf0 \<longrightarrow> lo = 0x90" "b = 0xf4 \<longrightarrow> hi = 0x8f"
    by (auto simp: utf8_tables split: if_splits)
  then show ?thesis
  proof cases
    case 1
    then obtain b1 rest where "bs = b1 # rest" "0x80 \<le> b1" "b1 \<le> 0xbf" "accepts [] rest"
      using assms False uncons [of "0x80" "0xbf" "[]" bs] by auto
    then show ?thesis using encode_2 [OF 1(1,2)] by fastforce
  next
    case 2
    then obtain b1 b2 rest where "bs = b1 # b2 # rest" "lo \<le> b1" "b1 \<le> hi" "0x80 \<le> b2" "b2 \<le> 0xbf" "accepts [] rest"
      using assms False uncons [of lo hi "[(0x80, 0xbf)]" bs] uncons [of "0x80" "0xbf" "[]"] by fastforce
    moreover obtain c where "scalar c" "utf8_encode c = [b, b1, b2]"
      using encode_3 [of b b1 b2] 2 calculation by auto
    ultimately show ?thesis by (intro exI [of _ c] exI [of _ rest]) simp
  next
    case 3
    then obtain b1 b2 b3 rest where "bs = b1 # b2 # b3 # rest" "lo \<le> b1" "b1 \<le> hi" "0x80 \<le> b2" "b2 \<le> 0xbf"
      "0x80 \<le> b3" "b3 \<le> 0xbf" "accepts [] rest"
      using assms False uncons [of lo hi "[(0x80, 0xbf), (0x80, 0xbf)]" bs] uncons [of "0x80" "0xbf" "[(0x80, 0xbf)]"]
        uncons [of "0x80" "0xbf" "[]"] by fastforce
    moreover obtain c where "scalar c" "utf8_encode c = [b, b1, b2, b3]"
      using encode_4 [of b b1 b2 b3] 3 calculation by auto
    ultimately show ?thesis by (intro exI [of _ c] exI [of _ rest]) simp
  qed
qed

lemma utf8_encode_nonempty: "utf8_encode c \<noteq> []"
  by (simp add: utf8_encode_def)

lemma accepts_iff: "\<forall>b\<in>set s. 0 < b \<Longrightarrow> accepts [] s \<longleftrightarrow> utf8_text s"
proof
  assume "\<forall>b\<in>set s. 0 < b" "accepts [] s"
  then show "utf8_text s"
  proof (induction "length s" arbitrary: s rule: less_induct)
    case less
    show ?case
    proof (cases s)
      case Nil
      then show ?thesis by (auto simp: utf8_text_def intro!: exI [of _ "[]"])
    next
      case (Cons b bs)
      then obtain c rest where c: "scalar c" "s = utf8_encode c @ rest" "accepts [] rest"
        using accepts_split [of b bs] less.prems by auto
      moreover have "length rest < length s" using c(2) utf8_encode_nonempty [of c] by (cases "utf8_encode c") auto
      ultimately obtain cs where "\<forall>c\<in>set cs. scalar c" "rest = concat (map utf8_encode cs)"
        using less.hyps [of rest] less.prems(1) by (auto simp: utf8_text_def)
      then show ?thesis unfolding utf8_text_def using c by (intro exI [of _ "c # cs"]) simp
    qed
  qed
next
  show "utf8_text s \<Longrightarrow> accepts [] s" using accepts_text [of _ "[]"] by (auto simp: utf8_text_def)
qed

section \<open>The byte order mark\<close>

text \<open>The ranges that are still open when \<open>bom\<close> bytes of the mark have been read.\<close>

definition mark_ranges :: "nat \<Rightarrow> (int \<times> int) list" where
  "mark_ranges bom = (if bom = 1 then [(0x80, 0xbf), (0x80, 0xbf)] else if bom = 2 then [(0x80, 0xbf)] else [])"

lemma utf8_loop_mark:
  assumes nz: "\<forall>b\<in>set s. 0 < b" and all: "accepts [] s"
  shows "bom \<le> 3 \<Longrightarrow> pos \<le> length s \<Longrightarrow> accepts (mark_ranges bom) (drop pos s) \<Longrightarrow> fst (utf8_loop s pos bom []) = 1"
proof (induction "length s - pos" arbitrary: pos bom)
  case 0
  then have "byte_at s pos = 0" by (auto simp: byte_at_def)
  then show ?case by (subst utf8_loop.simps) simp
next
  case (Suc n)
  have nz': "\<forall>b\<in>set s. b \<noteq> 0" using nz by auto
  show ?case
  proof (cases "bom = 3")
    case True
    then show ?thesis using utf8_loop_accepts [of bom pos s "[]"] nz' Suc.prems by (simp add: kUTF8ByteOrderMask_def mark_ranges_def)
  next
    case False
    have pos: "pos < length s" using Suc.hyps(2) by simp
    then have d: "drop pos s = s ! pos # drop (pos + 1) s" "byte_at s pos = s ! pos" "s ! pos \<noteq> 0"
      using nz' by (auto simp: Cons_nth_drop_Suc byte_at_def)
    have IH: "fst (utf8_loop s (pos + 1) b []) = 1" if "b \<le> 3" "accepts (mark_ranges b) (drop (pos + 1) s)" for b
      using Suc.hyps that pos by simp
    have rewind: "fst (utf8_loop s 0 (length kUTF8ByteOrderMask) []) = 1"
      using utf8_loop_accepts [of "length kUTF8ByteOrderMask" 0 s "[]"] nz' all by simp
    from False Suc.prems(1) consider "bom = 0" | "bom = 1" | "bom = 2" by linarith
    then show ?thesis
    proof cases
      case 1
      have acc: "accepts [] (s ! pos # drop (pos + 1) s)" using Suc.prems(3) d(1) 1 by (simp add: mark_ranges_def)
      then have "s ! pos < 128 \<Longrightarrow> fst (utf8_loop s (pos + 1) 0 []) = 1" using IH [of 0] by (simp add: mark_ranges_def)
      moreover have "s ! pos = 0xef \<Longrightarrow> fst (utf8_loop s (pos + 1) 1 []) = 1"
        using IH [of 1] acc by (simp add: mark_ranges_def utf8_tables)
      ultimately show ?thesis using 1 d(2,3) rewind by (subst utf8_loop.simps) (simp add: Let_def kUTF8ByteOrderMask_def)
    next
      case 2
      then have acc: "0x80 \<le> s ! pos" "accepts [(0x80, 0xbf)] (drop (pos + 1) s)" using Suc.prems(3) d(1) by (simp_all add: mark_ranges_def)
      then show ?thesis using 2 d(2,3) rewind IH [of "Suc 1"]
        by (subst utf8_loop.simps) (simp add: Let_def kUTF8ByteOrderMask_def mark_ranges_def)
    next
      case 3
      then have acc: "0x80 \<le> s ! pos" "accepts [] (drop (pos + 1) s)" using Suc.prems(3) d(1) by (simp_all add: mark_ranges_def)
      then show ?thesis using 3 d(2,3) rewind IH [of 3]
        by (subst utf8_loop.simps) (simp add: Let_def kUTF8ByteOrderMask_def mark_ranges_def)
    qed
  qed
qed

text \<open>A text that does not start, after any ASCII characters, with the first byte of the mark.\<close>

definition no_mark :: "int list \<Rightarrow> bool" where
  "no_mark s \<longleftrightarrow> (case dropWhile (\<lambda>b. b < 128) s of [] \<Rightarrow> True | b # _ \<Rightarrow> b \<noteq> 0xef)"

lemma accepts_ascii: "\<forall>b\<in>set as. b < 128 \<Longrightarrow> accepts [] (as @ bs) = accepts [] bs"
  by (induction as) auto

lemma utf8_loop_no_mark:
  assumes nz: "\<forall>b\<in>set s. b \<noteq> 0" and nm: "no_mark s"
  shows "pos \<le> length s \<Longrightarrow> \<forall>b\<in>set (take pos s). b < 128 \<Longrightarrow> fst (utf8_loop s pos 0 []) = (if accepts [] s then 1 else 0)"
proof (induction "length s - pos" arbitrary: pos)
  case 0
  then have "byte_at s pos = 0" "accepts [] s" using accepts_ascii [of s "[]"] by (auto simp: byte_at_def)
  then show ?case by (subst utf8_loop.simps) simp
next
  case (Suc n)
  have pos: "pos < length s" using Suc.hyps(2) by simp
  then have d: "byte_at s pos = s ! pos" "s ! pos \<noteq> 0" using nz by (auto simp: byte_at_def)
  show ?case
  proof (cases "s ! pos < 128")
    case True
    then have "\<forall>b\<in>set (take (pos + 1) s). b < 128" using Suc.prems(2) pos by (auto simp: take_Suc_conv_app_nth)
    then have "fst (utf8_loop s (pos + 1) 0 []) = (if accepts [] s then 1 else 0)" using Suc.hyps pos by simp
    then show ?thesis using True d by (subst utf8_loop.simps) (simp add: Let_def)
  next
    case False
    have c: "drop pos s = s ! pos # drop (Suc pos) s" using pos by (simp add: Cons_nth_drop_Suc)
    have "dropWhile (\<lambda>b. b < 128) (take pos s @ drop pos s) = dropWhile (\<lambda>b. b < 128) (drop pos s)"
      using Suc.prems(2) by (intro dropWhile_append2) auto
    also have "\<dots> = drop pos s" using False by (subst (1 2) c) simp
    finally have "dropWhile (\<lambda>b. b < 128) s = drop pos s" by (simp only: append_take_drop_id)
    then have "s ! pos \<noteq> 0xef" using nm pos by (simp add: no_mark_def Cons_nth_drop_Suc [symmetric])
    moreover have "fst (utf8_loop s 0 (length kUTF8ByteOrderMask) []) = (if accepts [] s then 1 else 0)"
      using utf8_loop_accepts [of "length kUTF8ByteOrderMask" 0 s "[]"] nz by simp
    ultimately show ?thesis using False d by (subst utf8_loop.simps) (simp add: Let_def kUTF8ByteOrderMask_def)
  qed
qed

text \<open>C38. The check of names accepts every valid UTF-8 text, with or without a byte order mark. For texts
  whose first non-ASCII byte is not the first byte of the mark it accepts nothing else: it is the
  membership test for the encodings of RFC 3629 (no overlong forms, no surrogates, nothing above
  U+10FFFF).\<close>

theorem valid_utf8_exact:
  assumes "\<forall>b\<in>set s. 0 < b"
  shows "(utf8_text s \<longrightarrow> fst (valid_utf8_string (Some s)) = 1) \<and>
    (no_mark s \<longrightarrow> (fst (valid_utf8_string (Some s)) = 1 \<longleftrightarrow> utf8_text s))"
proof -
  have "\<forall>b\<in>set s. b \<noteq> 0" using assms by auto
  then show ?thesis
    using utf8_loop_mark [OF assms, of 0 0] utf8_loop_no_mark [of s 0] accepts_iff [OF assms]
    by (simp add: valid_utf8_string_def case_prod_beta mark_ranges_def)
qed

theorem valid_utf8_exact_witness:
  "fst (valid_utf8_string (Some [0x41, 0xc3, 0xa9])) = 1 \<and> utf8_text [0x41, 0xc3, 0xa9]
    \<and> fst (valid_utf8_string (Some [0xed, 0xa0, 0x80])) = 0 \<and> \<not> utf8_text [0xed, 0xa0, 0x80]"
proof -
  have "fst (valid_utf8_string (Some [0x41, 0xc3, 0xa9])) = 1" "fst (valid_utf8_string (Some [0xed, 0xa0, 0x80])) = 0"
    "no_mark [0x41, 0xc3, 0xa9]" "no_mark [0xed, 0xa0, 0x80]" by code_simp+
  then show ?thesis using valid_utf8_exact [of "[0x41, 0xc3, 0xa9]"] valid_utf8_exact [of "[0xed, 0xa0, 0x80]"] by simp
qed

text \<open>The other texts are not all checked: bytes of the mark are skipped wherever they occur before the first
  other non-ASCII byte, so a truncated mark, or a mark torn apart by ASCII characters, passes although
  it is no UTF-8.\<close>

lemma torn_mark_accepted:
  "fst (valid_utf8_string (Some [0xef])) = 1 \<and> \<not> utf8_text [0xef]
    \<and> fst (valid_utf8_string (Some [0x41, 0xef, 0x42, 0xbb, 0x43])) = 1 \<and> \<not> utf8_text [0x41, 0xef, 0x42, 0xbb, 0x43]"
proof -
  have "fst (valid_utf8_string (Some [0xef])) = 1" "fst (valid_utf8_string (Some [0x41, 0xef, 0x42, 0xbb, 0x43])) = 1"
    "\<not> accepts [] [0xef]" "\<not> accepts [] [0x41, 0xef, 0x42, 0xbb, 0x43]" by code_simp+
  then show ?thesis using accepts_iff [of "[0xef]"] accepts_iff [of "[0x41, 0xef, 0x42, 0xbb, 0x43]"] by simp
qed

end
