(* ===== verification/Cras_Tm.thy ===== *)
theory Cras_Tm
  imports Cras_Time
begin

text \<open>
  The timer manager (\<open>cras/src/server/cras_tm.c\<close>). A timer is known by its address (\<open>t_ptr\<close>); the manager
  is the list of active timers in the order of \<open>DL_APPEND\<close>. The loop that calls the callbacks walks the
  list by pointers and reads the successor again after each callback, because a callback may add
  and cancel timers. A callback is a function on the rest of the server's state (type \<open>'w\<close>) and
  the list; what the loop needs of it is the locale \<open>timer_callbacks\<close>.
\<close>

section \<open>Model\<close>

record 'd cras_timer =
  t_ptr :: nat
  t_ts :: timespec
  t_data :: 'd

definition add_ms_ts :: "timespec \<Rightarrow> int \<Rightarrow> timespec" where
  "add_ms_ts ts ms =
     (let (sec, ms) = (if ms \<ge> 1000 then (tv_sec ts + ms div 1000, ms mod 1000) else (tv_sec ts, ms));
          nsec = tv_nsec ts + ms * 1000000
      in if nsec \<ge> 1000000000 then \<lparr>tv_sec = sec + nsec div 1000000000, tv_nsec = nsec mod 1000000000\<rparr>
         else \<lparr>tv_sec = sec, tv_nsec = nsec\<rparr>)"

definition timespec_sooner :: "timespec \<Rightarrow> timespec \<Rightarrow> bool" where
  "timespec_sooner a b \<longleftrightarrow> tv_sec a < tv_sec b \<or> (tv_sec a = tv_sec b \<and> tv_nsec a \<le> tv_nsec b)"

text \<open>\<open>ptr\<close> is the address that \<open>calloc\<close> returns, None when it fails; \<open>now\<close> is the clock.\<close>

definition cras_tm_create_timer ::
  "'d cras_timer list \<Rightarrow> timespec \<Rightarrow> nat option \<Rightarrow> int \<Rightarrow> 'd \<Rightarrow> nat option \<times> 'd cras_timer list" where
  "cras_tm_create_timer timers now ptr ms data =
     (case ptr of
        None \<Rightarrow> (None, timers)
      | Some p \<Rightarrow> (Some p, timers @ [\<lparr>t_ptr = p, t_ts = add_ms_ts now ms, t_data = data\<rparr>]))"

definition cras_tm_cancel_timer :: "'d cras_timer list \<Rightarrow> nat \<Rightarrow> 'd cras_timer list" where
  "cras_tm_cancel_timer timers p = filter (\<lambda>t. t_ptr t \<noteq> p) timers"

definition cras_tm_init :: "'d cras_timer list" where
  "cras_tm_init = []"

text \<open>The return value and \<open>*ts\<close>, which stays as it was when there is no timer.\<close>

definition cras_tm_get_next_timeout :: "'d cras_timer list \<Rightarrow> timespec \<Rightarrow> timespec \<Rightarrow> int \<times> timespec" where
  "cras_tm_get_next_timeout timers now ts =
     (case timers of
        [] \<Rightarrow> (0, ts)
      | t0 # _ \<Rightarrow>
          let m = foldl (\<lambda>m t. if timespec_sooner (t_ts t) m then t_ts t else m) (t_ts t0) timers
          in if timespec_sooner m now then (1, \<lparr>tv_sec = 0, tv_nsec = 0\<rparr>)
             else (1, subtract_timespecs m now))"

text \<open>The successor of a timer, and the timer at an address.\<close>

fun next_timer :: "'d cras_timer list \<Rightarrow> nat \<Rightarrow> nat option" where
  "next_timer [] p = None"
| "next_timer (t # ts) p =
     (if t_ptr t = p then (case ts of [] \<Rightarrow> None | u # _ \<Rightarrow> Some (t_ptr u)) else next_timer ts p)"

fun timer_at :: "'d cras_timer list \<Rightarrow> nat \<Rightarrow> 'd cras_timer option" where
  "timer_at [] p = None"
| "timer_at (t # ts) p = (if t_ptr t = p then Some t else timer_at ts p)"

definition first_timer :: "'d cras_timer list \<Rightarrow> nat option" where
  "first_timer timers = (case timers of [] \<Rightarrow> None | t # _ \<Rightarrow> Some (t_ptr t))"

text \<open>The loop from the timer at \<open>t\<close>. The last component of the result are the timers whose
  callbacks were called. It has no result when the fuel runs out, or when the timer has been freed
  by its own callback.\<close>

fun callbacks_loop ::
  "nat \<Rightarrow> ('d cras_timer \<Rightarrow> 'w \<times> 'd cras_timer list \<Rightarrow> 'w \<times> 'd cras_timer list) \<Rightarrow> timespec \<Rightarrow> nat option \<Rightarrow>
   'w \<times> 'd cras_timer list \<Rightarrow> ('w \<times> 'd cras_timer list \<times> 'd cras_timer list) option" where
  "callbacks_loop n run now None (w, timers) = Some (w, timers, [])"
| "callbacks_loop 0 run now (Some p) (w, timers) = None"
| "callbacks_loop (Suc n) run now (Some p) (w, timers) =
     (case timer_at timers p of
        None \<Rightarrow> None
      | Some t \<Rightarrow>
          if timespec_sooner (t_ts t) now then
            let (w1, timers1) = run t (w, timers) in
            if timer_at timers1 p = None then None
            else map_option (\<lambda>(w', timers', fired). (w', timers', t # fired))
                   (callbacks_loop n run now (next_timer timers1 p) (w1, cras_tm_cancel_timer timers1 p))
          else callbacks_loop n run now (next_timer timers p) (w, timers))"

definition cras_tm_call_callbacks ::
  "nat \<Rightarrow> ('d cras_timer \<Rightarrow> 'w \<times> 'd cras_timer list \<Rightarrow> 'w \<times> 'd cras_timer list) \<Rightarrow> timespec \<Rightarrow>
   'w \<times> 'd cras_timer list \<Rightarrow> ('w \<times> 'd cras_timer list \<times> 'd cras_timer list) option" where
  "cras_tm_call_callbacks n run now st = callbacks_loop n run now (first_timer (snd st)) st"

section \<open>Deadlines\<close>

lemma add_ms_ts_ns:
  assumes "0 \<le> ms" "ts_normal ts"
  shows "ts_ns (add_ms_ts ts ms) = ts_ns ts + ms * 1000000 \<and> ts_normal (add_ms_ts ts ms)"
proof -
  have "ms mod 1000 * 1000000 + ms div 1000 * 1000000000 = ms * 1000000" using mult_div_mod_eq [of 1000 ms] by linarith
  moreover have "n div 1000000000 * 1000000000 + n mod 1000000000 = n" for n :: int by simp
  moreover have "0 \<le> ms mod 1000" "ms mod 1000 < 1000" by simp_all
  ultimately show ?thesis using assms
    by (auto simp: add_ms_ts_def ts_ns_def ts_normal_def Let_def algebra_simps split: prod.split)
qed

lemma timespec_sooner_ns: "ts_normal a \<Longrightarrow> ts_normal b \<Longrightarrow> timespec_sooner a b \<longleftrightarrow> ts_ns a \<le> ts_ns b"
  by (auto simp: timespec_sooner_def ts_normal_def ts_ns_def)

lemma earliest_fold:
  assumes "\<forall>t\<in>set timers. ts_normal (t_ts t)" "ts_normal m"
  shows "let r = foldl (\<lambda>m t. if timespec_sooner (t_ts t) m then t_ts t else m) m timers in
    ts_normal r \<and> ts_ns r \<le> ts_ns m \<and> (\<forall>t\<in>set timers. ts_ns r \<le> ts_ns (t_ts t)) \<and> (r = m \<or> r \<in> t_ts ` set timers)"
  using assms
proof (induction timers arbitrary: m)
  case (Cons t timers)
  let ?m = "if timespec_sooner (t_ts t) m then t_ts t else m"
  have "ts_normal ?m" "ts_ns ?m \<le> ts_ns m" "ts_ns ?m \<le> ts_ns (t_ts t)" "?m = m \<or> ?m = t_ts t"
    using Cons.prems timespec_sooner_ns [of "t_ts t" m] by auto
  then show ?case using Cons.IH [of ?m] Cons.prems(1) by (auto simp: Let_def)
qed (simp add: Let_def)

text \<open>The server sleeps exactly until the earliest timer: \<open>cras_tm_get_next_timeout\<close> reports the time
  from now to the earliest deadline, and zero when that has passed. A loop that waits for it neither
  oversleeps a timer nor wakes before one is due.\<close>

lemma next_timeout_exact:
  assumes "timers \<noteq> []" "\<forall>t\<in>set timers. ts_normal (t_ts t)" "ts_normal now"
    and "cras_tm_get_next_timeout timers now ts = (r, timeout)"
  shows "r = 1 \<and> ts_normal timeout \<and> ts_ns timeout = max 0 (Min (ts_ns ` t_ts ` set timers) - ts_ns now)"
proof -
  obtain t0 rest where t0: "timers = t0 # rest" using assms(1) by (cases timers) auto
  define m where "m = foldl (\<lambda>m t. if timespec_sooner (t_ts t) m then t_ts t else m) (t_ts t0) timers"
  have m: "ts_normal m" "\<forall>t\<in>set timers. ts_ns m \<le> ts_ns (t_ts t)" "m \<in> t_ts ` set timers"
    using earliest_fold [OF assms(2), of "t_ts t0"] assms(2) t0 by (auto simp: Let_def m_def)
  then have min: "Min (ts_ns ` t_ts ` set timers) = ts_ns m" by (intro Min_eqI) auto
  have "cras_tm_get_next_timeout timers now ts =
      (if timespec_sooner m now then (1, \<lparr>tv_sec = 0, tv_nsec = 0\<rparr>) else (1, subtract_timespecs m now))"
    by (simp add: cras_tm_get_next_timeout_def t0 m_def Let_def)
  then show ?thesis
    using assms(3,4) min timespec_sooner_ns [OF m(1) assms(3)] subtract_timespecs_ns [of m now] subtract_timespecs_normal [OF m(1) assms(3)]
    by (auto simp: ts_normal_def ts_ns_def split: if_splits)
qed

definition timers_example :: "unit cras_timer list" where
  "timers_example = [\<lparr>t_ptr = 1, t_ts = \<lparr>tv_sec = 5, tv_nsec = 100\<rparr>, t_data = ()\<rparr>, \<lparr>t_ptr = 2, t_ts = \<lparr>tv_sec = 3, tv_nsec = 7\<rparr>, t_data = ()\<rparr>]"

section \<open>The loop over the callbacks\<close>

lemma timer_at_mid: "t_ptr t \<notin> t_ptr ` set pre \<Longrightarrow> timer_at (pre @ t # rest) (t_ptr t) = Some t"
  by (induction pre) auto

lemma next_timer_mid: "t_ptr t \<notin> t_ptr ` set pre \<Longrightarrow> next_timer (pre @ t # rest) (t_ptr t) = first_timer rest"
  by (induction pre) (auto simp: first_timer_def)

lemma cancel_mid:
  "distinct (map t_ptr (pre @ t # rest)) \<Longrightarrow> cras_tm_cancel_timer (pre @ t # rest) (t_ptr t) = pre @ rest"
proof -
  assume d: "distinct (map t_ptr (pre @ t # rest))"
  have "filter (\<lambda>u. t_ptr u \<noteq> t_ptr t) pre = pre" "filter (\<lambda>u. t_ptr u \<noteq> t_ptr t) rest = rest"
    unfolding filter_id_conv using d by (auto simp: image_iff)
  then show ?thesis by (simp add: cras_tm_cancel_timer_def)
qed

text \<open>More fuel does not change the result.\<close>

lemma callbacks_loop_mono:
  "callbacks_loop n run now p (w, timers) = Some r \<Longrightarrow> callbacks_loop (n + k) run now p (w, timers) = Some r"
proof (induction n arbitrary: p w timers r)
  case 0
  then show ?case by (cases p; cases k) auto
next
  case (Suc n)
  show ?case
  proof (cases p)
    case None
    then show ?thesis using Suc.prems by simp
  next
    case (Some q)
    then obtain t where t: "timer_at timers q = Some t" using Suc.prems by (auto split: option.splits)
    show ?thesis
    proof (cases "timespec_sooner (t_ts t) now")
      case False
      then show ?thesis using Suc.prems Suc.IH Some t by simp
    next
      case True
      obtain w1 timers1 where run: "run t (w, timers) = (w1, timers1)" by fastforce
      then obtain r1 where "callbacks_loop n run now (next_timer timers1 q) (w1, cras_tm_cancel_timer timers1 q) = Some r1"
        using Suc.prems Some t True by (auto split: if_splits)
      with Suc.IH [OF this] show ?thesis using Suc.prems Some t True run by (simp split: if_splits)
    qed
  qed
qed

lemma call_callbacks_unique:
  assumes "cras_tm_call_callbacks n run now st = Some r" "cras_tm_call_callbacks m run now st = Some r'"
  shows "r = r'"
  using callbacks_loop_mono [of n run now "first_timer (snd st)" "fst st" "snd st" r m]
    callbacks_loop_mono [of m run now "first_timer (snd st)" "fst st" "snd st" r' n] assms
  by (simp add: cras_tm_call_callbacks_def add.commute)

text \<open>What a callback may do to the list: cancel timers, but not the one that is running, and append
  timers that are not due yet. \<open>inv\<close> is the client's invariant; it holds between callbacks.\<close>

locale timer_callbacks =
  fixes run :: "'d cras_timer \<Rightarrow> 'w \<times> 'd cras_timer list \<Rightarrow> 'w \<times> 'd cras_timer list"
    and now :: timespec
    and inv :: "'w \<Rightarrow> 'd cras_timer list \<Rightarrow> bool"
  assumes inv_distinct: "inv w timers \<Longrightarrow> distinct (map t_ptr timers)"
    and run_keeps: "inv w timers \<Longrightarrow> t \<in> set timers \<Longrightarrow> timespec_sooner (t_ts t) now \<Longrightarrow> run t (w, timers) = (w', timers') \<Longrightarrow>
      \<exists>K new. timers' = filter K timers @ new \<and> K t \<and> (\<forall>u\<in>set new. \<not> timespec_sooner (t_ts u) now) \<and>
        distinct (map t_ptr timers') \<and> inv w' (cras_tm_cancel_timer timers' (t_ptr t))"
begin

abbreviation due :: "'d cras_timer \<Rightarrow> bool" where
  "due t \<equiv> timespec_sooner (t_ts t) now"

text \<open>The state of the loop: the timers before the current one are not due.\<close>

lemma loop_fires:
  "length (filter due rest) = k \<Longrightarrow> inv w (pre @ rest) \<Longrightarrow> \<forall>t\<in>set pre. \<not> due t \<Longrightarrow>
   \<exists>n w' timers' fired. callbacks_loop n run now (first_timer rest) (w, pre @ rest) = Some (w', timers', fired) \<and>
     inv w' timers' \<and> (\<forall>t\<in>set timers'. \<not> due t) \<and> set fired \<subseteq> {t \<in> set rest. due t} \<and> distinct fired"
proof (induction k arbitrary: w pre rest rule: less_induct)
  case outer: (less k)
  from outer.prems show ?case
  proof (induction rest arbitrary: pre)
    case Nil
    then show ?case by (intro exI [of _ 0] exI [of _ w] exI [of _ pre] exI [of _ "[]"]) (simp add: first_timer_def)
  next
    case (Cons t rest)
    have d: "distinct (map t_ptr (pre @ t # rest))" using inv_distinct [OF Cons.prems(2)] .
    have at: "timer_at (pre @ t # rest) (t_ptr t) = Some t" using d by (intro timer_at_mid) auto
    show ?case
    proof (cases "due t")
      case False
      then obtain n w' timers' fired where "callbacks_loop n run now (first_timer rest) (w, (pre @ [t]) @ rest) = Some (w', timers', fired)"
        "inv w' timers'" "\<forall>t\<in>set timers'. \<not> due t" "set fired \<subseteq> {t \<in> set rest. due t}" "distinct fired"
        using Cons.IH [of "pre @ [t]"] Cons.prems by auto
      moreover have "next_timer (pre @ t # rest) (t_ptr t) = first_timer rest" using d by (intro next_timer_mid) auto
      ultimately show ?thesis using False at
        by (intro exI [of _ "Suc n"] exI [of _ w'] exI [of _ timers'] exI [of _ fired]) (auto simp: first_timer_def)
    next
      case True
      obtain w1 timers1 where run: "run t (w, pre @ t # rest) = (w1, timers1)" by fastforce
      then obtain K new where K: "timers1 = filter K (pre @ t # rest) @ new" "K t" "\<forall>u\<in>set new. \<not> due u"
        "distinct (map t_ptr timers1)" "inv w1 (cras_tm_cancel_timer timers1 (t_ptr t))"
        using run_keeps [OF Cons.prems(2) _ True] by fastforce
      let ?pre = "filter K pre" and ?rest = "filter K rest @ new"
      have t1: "timers1 = ?pre @ t # ?rest" using K(1,2) by simp
      have at1: "timer_at timers1 (t_ptr t) = Some t" "next_timer timers1 (t_ptr t) = first_timer ?rest"
        using K(4) unfolding t1 by (auto intro!: timer_at_mid next_timer_mid)
      have c: "cras_tm_cancel_timer timers1 (t_ptr t) = ?pre @ ?rest" using K(4) unfolding t1 by (rule cancel_mid)
      have "filter due new = []" using K(3) by (simp add: filter_empty_conv)
      then have "length (filter due ?rest) \<le> length (filter due rest)" by (simp add: filter_filter length_filter_conv_card Collect_mono card_mono)
      then have "length (filter due ?rest) < k" using Cons.prems(1) True by simp
      then obtain n w' timers' fired where ih: "callbacks_loop n run now (first_timer ?rest) (w1, ?pre @ ?rest) = Some (w', timers', fired)"
        "inv w' timers'" "\<forall>t\<in>set timers'. \<not> due t" "set fired \<subseteq> {t \<in> set ?rest. due t}" "distinct fired"
        using outer.IH [of "length (filter due ?rest)" ?rest w1 ?pre] K(5) Cons.prems(3) c by auto
      have "set fired \<subseteq> {t \<in> set rest. due t}" using ih(4) K(3) by auto
      moreover have "t \<notin> set rest" using d by auto
      ultimately have "set (t # fired) \<subseteq> {u \<in> set (t # rest). due u}" "distinct (t # fired)" using True ih(5) by auto
      then show ?thesis using ih at at1 c run True
        by (intro exI [of _ "Suc n"] exI [of _ w'] exI [of _ timers'] exI [of _ "t # fired"]) (auto simp: first_timer_def Let_def)
    qed
  qed
qed

text \<open>The loop ends, leaves no timer that is due, and calls each callback at most once and only when due.\<close>

lemma call_callbacks_fires:
  assumes "inv w timers"
  shows "\<exists>n w' timers' fired. cras_tm_call_callbacks n run now (w, timers) = Some (w', timers', fired) \<and>
    inv w' timers' \<and> (\<forall>t\<in>set timers'. \<not> due t) \<and> set fired \<subseteq> {t \<in> set timers. due t} \<and> distinct fired"
  using loop_fires [of timers _ w "[]"] assms by (simp add: cras_tm_call_callbacks_def)

end

end
