(* ===== verification/Audio_Format.thy ===== *)
theory Audio_Format
  imports Complex_Main Cras_Prelude
begin

text \<open>
  Audio formats (\<open>cras/include/cras_audio_format.h\<close>, \<open>cras/src/common/cras_audio_format.c\<close>): the channel
  layout, the packed form that travels in messages, and the matrix that routes the channels of one
  format to the channels of another. The width of a sample format is ALSA's
  \<open>snd_pcm_format_physical_width\<close>, a parameter of the operations that use it. Allocation succeeds;
  a store outside the matrix is the result \<open>OutOfBounds\<close>.
\<close>

section \<open>Model\<close>

definition SND_PCM_FORMAT_U8 :: int where "SND_PCM_FORMAT_U8 = 1"
definition SND_PCM_FORMAT_S16_LE :: int where "SND_PCM_FORMAT_S16_LE = 2"
definition SND_PCM_FORMAT_S24_LE :: int where "SND_PCM_FORMAT_S24_LE = 6"
definition SND_PCM_FORMAT_S32_LE :: int where "SND_PCM_FORMAT_S32_LE = 10"

lemmas pcm_formats = SND_PCM_FORMAT_U8_def SND_PCM_FORMAT_S16_LE_def SND_PCM_FORMAT_S24_LE_def SND_PCM_FORMAT_S32_LE_def

text \<open>The channels are numbered as in \<open>enum CRAS_CHANNEL\<close>; some have names of their own here.\<close>

definition CRAS_CH_FL :: nat where "CRAS_CH_FL = 0"
definition CRAS_CH_FR :: nat where "CRAS_CH_FR = 1"
definition CRAS_CH_FC :: nat where "CRAS_CH_FC = 4"
definition CRAS_CH_MAX :: nat where "CRAS_CH_MAX = 11"

record cras_audio_format =
  format :: int
  frame_rate :: int
  num_channels :: int
  channel_layout :: "int list"

record cras_audio_format_packed =
  p_format :: int
  p_frame_rate :: int
  p_num_channels :: int
  p_channel_layout :: "int list"

definition pack_cras_audio_format :: "cras_audio_format \<Rightarrow> cras_audio_format_packed" where
  "pack_cras_audio_format src =
     \<lparr>p_format = s32 (format src), p_frame_rate = u32 (frame_rate src), p_num_channels = u32 (num_channels src),
      p_channel_layout = channel_layout src\<rparr>"

definition unpack_cras_audio_format :: "cras_audio_format_packed \<Rightarrow> cras_audio_format" where
  "unpack_cras_audio_format src =
     \<lparr>format = p_format src, frame_rate = p_frame_rate src, num_channels = p_num_channels src,
      channel_layout = p_channel_layout src\<rparr>"

definition cras_get_format_bytes :: "(int \<Rightarrow> int) \<Rightarrow> cras_audio_format \<Rightarrow> int" where
  "cras_get_format_bytes width fmt = u64 (u64 (width (format fmt) sdiv 8) * num_channels fmt)"

definition cras_audio_format_set_default_channel_layout :: "cras_audio_format \<Rightarrow> cras_audio_format" where
  "cras_audio_format_set_default_channel_layout fmt =
     fmt\<lparr>channel_layout := map (\<lambda>i. if int i < num_channels fmt then int i else - 1) [0..<CRAS_CH_MAX]\<rparr>"

definition cras_audio_format_create :: "int \<Rightarrow> int \<Rightarrow> int \<Rightarrow> cras_audio_format" where
  "cras_audio_format_create fmt rate channels =
     \<lparr>format = fmt, frame_rate = rate, num_channels = channels,
      channel_layout = map (\<lambda>i. if int i < channels then int i else - 1) [0..<CRAS_CH_MAX]\<rparr>"

definition cras_audio_format_set_channel_layout :: "cras_audio_format \<Rightarrow> int list \<Rightarrow> int \<times> cras_audio_format" where
  "cras_audio_format_set_channel_layout fmt layout =
     (if list_ex (\<lambda>i. layout ! i < - 1 \<or> layout ! i \<ge> s32 (num_channels fmt)) [0..<CRAS_CH_MAX] then (- EINVAL, fmt)
      else (0, fmt\<lparr>channel_layout := foldl (\<lambda>l i. l[i := layout ! i]) (channel_layout fmt) [0..<CRAS_CH_MAX]\<rparr>))"

definition cras_audio_format_valid :: "cras_audio_format \<Rightarrow> bool" where
  "cras_audio_format_valid fmt \<longleftrightarrow>
     \<not> list_ex (\<lambda>i. channel_layout fmt ! i < - 1 \<or> channel_layout fmt ! i \<ge> s32 (num_channels fmt)) [0..<CRAS_CH_MAX]"

definition cras_audio_format_get_least_num_channels :: "cras_audio_format \<Rightarrow> int" where
  "cras_audio_format_get_least_num_channels fmt =
     foldl (\<lambda>m i. if u64 (channel_layout fmt ! i + 1) > m then u64 (channel_layout fmt ! i + 1) else m) 0 [0..<CRAS_CH_MAX]"

subsection \<open>The conversion matrix\<close>

definition channel_alt :: "int list list" where
  "channel_alt =
    [[0, 0, 0, 0, 0, 0, 0, 0, 0, 0, 0],
     [0, 0, 0, 0, 0, 0, 0, 0, 0, 0, 0],
     [0, 0, 0, 0, 0, 0, 1, 0, 0, 0, 0],
     [0, 0, 0, 0, 0, 0, 0, 1, 0, 0, 0],
     [0, 0, 0, 0, 0, 0, 0, 0, 0, 0, 0],
     [0, 0, 0, 0, 0, 0, 0, 0, 0, 0, 0],
     [0, 0, 1, 0, 0, 0, 0, 0, 0, 0, 0],
     [0, 0, 0, 1, 0, 0, 0, 0, 0, 0, 0],
     [0, 0, 0, 0, 0, 0, 0, 0, 0, 0, 0],
     [0, 0, 0, 0, 0, 0, 0, 0, 0, 0, 0],
     [0, 0, 0, 0, 0, 0, 0, 0, 0, 0, 0]]"

type_synonym matrix = "real list list"

datatype conv_result = Matrix matrix | NoMatrix | OutOfBounds

definition cras_channel_conv_matrix_alloc :: "int \<Rightarrow> int \<Rightarrow> matrix" where
  "cras_channel_conv_matrix_alloc in_ch out_ch = replicate (nat out_ch) (replicate (nat in_ch) 0)"

text \<open>\<open>mtx[r][c] = 1\<close>\<close>

definition matrix_set :: "matrix \<Rightarrow> int \<Rightarrow> int \<Rightarrow> conv_result" where
  "matrix_set m r c =
     (if 0 \<le> r \<and> r < int (length m) \<and> 0 \<le> c \<and> c < int (length (m ! nat r))
      then Matrix (m[nat r := (m ! nat r)[nat c := 1]]) else OutOfBounds)"

text \<open>One iteration of the loop over the channels, with the loop over the alternatives in it.\<close>

definition conv_channel :: "int list \<Rightarrow> int list \<Rightarrow> nat \<Rightarrow> matrix \<Rightarrow> conv_result" where
  "conv_channel lin lout i m =
     (if lin ! i = - 1 \<and> lout ! i = - 1 then Matrix m
      else if lin ! i \<noteq> - 1 \<and> lout ! i \<noteq> - 1 then matrix_set m (lout ! i) (lin ! i)
      else if lin ! i \<noteq> - 1 then
        (case List.find (\<lambda>alt. channel_alt ! i ! alt \<noteq> 0 \<and> lin ! alt = - 1 \<and> lout ! alt \<noteq> - 1) [0..<CRAS_CH_MAX] of
           Some alt \<Rightarrow> matrix_set m (lout ! alt) (lin ! i)
         | None \<Rightarrow> if i = CRAS_CH_FC then NoMatrix else Matrix m)
      else Matrix m)"

fun conv_loop :: "int list \<Rightarrow> int list \<Rightarrow> nat list \<Rightarrow> matrix \<Rightarrow> conv_result" where
  "conv_loop lin lout [] m = Matrix m"
| "conv_loop lin lout (i # is) m =
     (case conv_channel lin lout i m of Matrix m' \<Rightarrow> conv_loop lin lout is m' | r \<Rightarrow> r)"

definition cras_channel_conv_matrix_create :: "cras_audio_format \<Rightarrow> cras_audio_format \<Rightarrow> conv_result" where
  "cras_channel_conv_matrix_create fin fout =
     (if list_ex (\<lambda>i. channel_layout fin ! i \<ge> s32 (num_channels fin) \<or> channel_layout fout ! i \<ge> s32 (num_channels fout))
           [0..<CRAS_CH_MAX]
      then NoMatrix
      else conv_loop (channel_layout fin) (channel_layout fout) [0..<CRAS_CH_MAX]
             (cras_channel_conv_matrix_alloc (num_channels fin) (num_channels fout)))"

section \<open>Formats\<close>

text \<open>The C types of the fields.\<close>

definition fmt_typed :: "cras_audio_format \<Rightarrow> bool" where
  "fmt_typed fmt \<longleftrightarrow> in_s 32 (format fmt) \<and> in_u 64 (frame_rate fmt) \<and> in_u 64 (num_channels fmt) \<and>
     length (channel_layout fmt) = CRAS_CH_MAX \<and> (\<forall>c\<in>set (channel_layout fmt). in_s 8 c)"

lemma format_valid_iff:
  "cras_audio_format_valid fmt \<longleftrightarrow>
   (\<forall>i<CRAS_CH_MAX. - 1 \<le> channel_layout fmt ! i \<and> channel_layout fmt ! i < s32 (num_channels fmt))"
  by (auto simp: cras_audio_format_valid_def list_ex_iff not_le not_less)

lemma pack_unpack:
  assumes "in_s 32 (format fmt)" "in_u 32 (frame_rate fmt)" "in_u 32 (num_channels fmt)"
  shows "unpack_cras_audio_format (pack_cras_audio_format fmt) = fmt"
  using assms by (simp add: unpack_cras_audio_format_def pack_cras_audio_format_def in_u_wrap_id in_s_wrap_id)

lemma set_layout_store:
  "n \<le> length l \<Longrightarrow> n \<le> length layout \<Longrightarrow> foldl (\<lambda>l i. l[i := layout ! i]) l [0..<n] = take n layout @ drop n l"
proof (induction n)
  case (Suc n)
  then show ?case
    by (simp add: list_update_append take_Suc_conv_app_nth Cons_nth_drop_Suc [symmetric, of n l])
qed simp

lemma set_channel_layout_valid:
  assumes "length (channel_layout fmt) = CRAS_CH_MAX" "length layout = CRAS_CH_MAX"
  shows "cras_audio_format_set_channel_layout fmt layout =
    (if cras_audio_format_valid (fmt\<lparr>channel_layout := layout\<rparr>) then (0, fmt\<lparr>channel_layout := layout\<rparr>) else (- EINVAL, fmt))"
  using assms set_layout_store [of CRAS_CH_MAX "channel_layout fmt" layout]
  by (simp add: cras_audio_format_set_channel_layout_def cras_audio_format_valid_def)

lemma create_valid: "0 \<le> n \<Longrightarrow> in_s 32 n \<Longrightarrow> cras_audio_format_valid (cras_audio_format_create f r n)"
  by (auto simp: format_valid_iff cras_audio_format_create_def in_s_wrap_id)

section \<open>Routing\<close>

text \<open>The channel of the output that a channel of the input goes to: the same one, or the one that stands in for it.\<close>

definition route :: "int list \<Rightarrow> int list \<Rightarrow> nat \<Rightarrow> nat option" where
  "route lin lout i =
     (if lout ! i \<noteq> - 1 then Some i
      else List.find (\<lambda>alt. channel_alt ! i ! alt \<noteq> 0 \<and> lin ! alt = - 1 \<and> lout ! alt \<noteq> - 1) [0..<CRAS_CH_MAX])"

definition routed :: "int list \<Rightarrow> int list \<Rightarrow> nat \<Rightarrow> int \<Rightarrow> int \<Rightarrow> bool" where
  "routed lin lout i r c \<longleftrightarrow> lin ! i = c \<and> c \<noteq> - 1 \<and> (\<exists>d. route lin lout i = Some d \<and> lout ! d = r)"

definition matrix_shape :: "nat \<Rightarrow> nat \<Rightarrow> matrix \<Rightarrow> bool" where
  "matrix_shape rows cols m \<longleftrightarrow> length m = rows \<and> (\<forall>row\<in>set m. length row = cols)"

definition layout_ok :: "int list \<Rightarrow> nat \<Rightarrow> bool" where
  "layout_ok l n \<longleftrightarrow> (\<forall>i<CRAS_CH_MAX. - 1 \<le> l ! i \<and> l ! i < int n)"

lemma route_Some: "route lin lout i = Some d \<Longrightarrow> i < CRAS_CH_MAX \<Longrightarrow> d < CRAS_CH_MAX \<and> lout ! d \<noteq> - 1"
  by (auto simp: route_def find_Some_iff split: if_splits)

lemma conv_channel_route:
  "conv_channel lin lout i m =
     (if lin ! i = - 1 then Matrix m
      else case route lin lout i of
             Some d \<Rightarrow> matrix_set m (lout ! d) (lin ! i)
           | None \<Rightarrow> if i = CRAS_CH_FC then NoMatrix else Matrix m)"
  by (simp add: conv_channel_def route_def)

lemma matrix_set_nth:
  assumes "matrix_shape rows cols m" "0 \<le> r" "r < int rows" "0 \<le> c" "c < int cols"
  shows "\<exists>m'. matrix_set m r c = Matrix m' \<and> matrix_shape rows cols m' \<and>
    (\<forall>a b. 0 \<le> a \<and> a < int rows \<and> 0 \<le> b \<and> b < int cols \<longrightarrow>
      m' ! nat a ! nat b = (if a = r \<and> b = c then 1 else m ! nat a ! nat b))"
proof -
  have len: "length m = rows" "length (m ! nat r) = cols" using assms(1-3) by (auto simp: matrix_shape_def)
  define m' where "m' = m[nat r := (m ! nat r)[nat c := 1]]"
  have "set m' \<subseteq> insert ((m ! nat r)[nat c := 1]) (set m)" unfolding m'_def by (rule set_update_subset_insert)
  then have shape: "matrix_shape rows cols m'" using assms(1) len by (auto simp: matrix_shape_def m'_def)
  have "m' ! nat a ! nat b = (if a = r \<and> b = c then 1 else m ! nat a ! nat b)"
    if "0 \<le> a" "a < int rows" "0 \<le> b" "b < int cols" for a b
  proof (cases "a = r")
    case True
    then have "m' ! nat a = (m ! nat r)[nat c := 1]" using assms len by (simp add: m'_def)
    then show ?thesis using True that assms len by (simp add: nth_list_update nat_eq_iff)
  next
    case False
    then have "m' ! nat a = m ! nat a" using that assms(2) by (simp add: m'_def)
    then show ?thesis using False by simp
  qed
  moreover have "matrix_set m r c = Matrix m'" using assms len by (simp add: matrix_set_def m'_def)
  ultimately show ?thesis using shape by blast
qed

lemma matrix_shape_alloc: "matrix_shape (nat r) (nat c) (cras_channel_conv_matrix_alloc c r)"
  by (auto simp: matrix_shape_def cras_channel_conv_matrix_alloc_def)

lemma conv_loop_routes:
  assumes "layout_ok lin cols" "layout_ok lout rows" "matrix_shape rows cols m" "set is \<subseteq> {..<CRAS_CH_MAX}"
  shows "case conv_loop lin lout is m of
      OutOfBounds \<Rightarrow> False
    | NoMatrix \<Rightarrow> CRAS_CH_FC \<in> set is \<and> lin ! CRAS_CH_FC \<noteq> - 1 \<and> route lin lout CRAS_CH_FC = None
    | Matrix m' \<Rightarrow> (CRAS_CH_FC \<in> set is \<longrightarrow> lin ! CRAS_CH_FC = - 1 \<or> route lin lout CRAS_CH_FC \<noteq> None) \<and>
        matrix_shape rows cols m' \<and>
        (\<forall>r c. 0 \<le> r \<and> r < int rows \<and> 0 \<le> c \<and> c < int cols \<longrightarrow>
          m' ! nat r ! nat c = (if \<exists>i\<in>set is. routed lin lout i r c then 1 else m ! nat r ! nat c))"
  using assms(3,4)
proof (induction "is" arbitrary: m)
  case (Cons i "is")
  show ?case
  proof (cases "lin ! i \<noteq> - 1 \<and> route lin lout i \<noteq> None")
    case False
    then have "\<not> routed lin lout i r c" for r c by (auto simp: routed_def)
    moreover have "conv_loop lin lout (i # is) m =
        (if lin ! i \<noteq> - 1 \<and> i = CRAS_CH_FC then NoMatrix else conv_loop lin lout is m)"
      using False by (auto simp: conv_channel_route)
    moreover have "set is \<subseteq> {..<CRAS_CH_MAX}" using Cons.prems(2) by simp
    ultimately show ?thesis using False Cons.IH [OF Cons.prems(1)]
      by (cases "conv_loop lin lout is m") (auto split: if_splits)
  next
    case True
    then obtain d where d: "route lin lout i = Some d" by auto
    then have dd: "d < CRAS_CH_MAX" "lout ! d \<noteq> - 1" using route_Some Cons.prems(2) by auto
    have rc: "0 \<le> lout ! d" "lout ! d < int rows" "0 \<le> lin ! i" "lin ! i < int cols"
      using assms(1,2) dd True Cons.prems(2) by (force simp: layout_ok_def)+
    obtain m' where m': "matrix_set m (lout ! d) (lin ! i) = Matrix m'" "matrix_shape rows cols m'"
      "\<And>a b. 0 \<le> a \<Longrightarrow> a < int rows \<Longrightarrow> 0 \<le> b \<Longrightarrow> b < int cols \<Longrightarrow>
        m' ! nat a ! nat b = (if a = lout ! d \<and> b = lin ! i then 1 else m ! nat a ! nat b)"
      using matrix_set_nth [OF Cons.prems(1) rc] by blast
    have "routed lin lout i r c \<longleftrightarrow> r = lout ! d \<and> c = lin ! i" if "0 \<le> c" for r c
      using that True d by (auto simp: routed_def)
    moreover have "conv_loop lin lout (i # is) m = conv_loop lin lout is m'"
      using True d m'(1) by (simp add: conv_channel_route)
    moreover have "set is \<subseteq> {..<CRAS_CH_MAX}" using Cons.prems(2) by simp
    ultimately show ?thesis using m'(3) d Cons.IH [OF m'(2)]
      by (cases "conv_loop lin lout is m'") auto
  qed
qed simp

lemma channel_alt_FC: "alt < CRAS_CH_MAX \<Longrightarrow> channel_alt ! CRAS_CH_FC ! alt = 0"
  by (auto simp: CRAS_CH_MAX_def CRAS_CH_FC_def channel_alt_def nth_Cons' )

lemma route_FC: "route lin lout CRAS_CH_FC = None \<longleftrightarrow> lout ! CRAS_CH_FC = - 1"
  using channel_alt_FC by (auto simp: route_def find_None_iff)

text \<open>For two valid formats the conversion matrix is exactly the routing of the channels: the sample
  of input channel \<open>c\<close> goes to output channel \<open>r\<close> when they carry the same position, or when \<open>r\<close>
  carries the position that stands in for a missing one (rear for side, or side for rear). No store
  is outside the matrix, and the only conversion that is refused is one that would lose the front
  centre, which carries the dialogue.\<close>

lemma conv_matrix_spec:
  assumes "cras_audio_format_valid fin" "cras_audio_format_valid fout"
    and "0 \<le> num_channels fin" "num_channels fin < 2 ^ 31" "0 \<le> num_channels fout" "num_channels fout < 2 ^ 31"
  shows "case cras_channel_conv_matrix_create fin fout of
      OutOfBounds \<Rightarrow> False
    | NoMatrix \<Rightarrow> channel_layout fin ! CRAS_CH_FC \<noteq> - 1 \<and> channel_layout fout ! CRAS_CH_FC = - 1
    | Matrix m \<Rightarrow> (channel_layout fin ! CRAS_CH_FC = - 1 \<or> channel_layout fout ! CRAS_CH_FC \<noteq> - 1) \<and>
        matrix_shape (nat (num_channels fout)) (nat (num_channels fin)) m \<and>
        (\<forall>r c. 0 \<le> r \<and> r < num_channels fout \<and> 0 \<le> c \<and> c < num_channels fin \<longrightarrow>
          m ! nat r ! nat c =
            (if \<exists>i<CRAS_CH_MAX. routed (channel_layout fin) (channel_layout fout) i r c then 1 else 0))"
proof -
  let ?in = "channel_layout fin" and ?out = "channel_layout fout"
  have n: "s32 (num_channels fin) = num_channels fin" "s32 (num_channels fout) = num_channels fout"
    using assms by (auto intro!: wrap_s_id)
  then have ok: "layout_ok ?in (nat (num_channels fin))" "layout_ok ?out (nat (num_channels fout))"
    using assms by (auto simp: layout_ok_def format_valid_iff)
  have "cras_channel_conv_matrix_create fin fout = conv_loop ?in ?out [0..<CRAS_CH_MAX]
      (cras_channel_conv_matrix_alloc (num_channels fin) (num_channels fout))"
    using assms(1,2) by (fastforce simp: cras_channel_conv_matrix_create_def list_ex_iff format_valid_iff)
  moreover have "cras_channel_conv_matrix_alloc (num_channels fin) (num_channels fout) ! nat r ! nat c = 0"
    if "0 \<le> r" "r < num_channels fout" "0 \<le> c" "c < num_channels fin" for r c
    using that by (simp add: cras_channel_conv_matrix_alloc_def)
  moreover have "CRAS_CH_FC \<in> set [0..<CRAS_CH_MAX]" by (simp add: CRAS_CH_FC_def CRAS_CH_MAX_def)
  ultimately show ?thesis
    using conv_loop_routes [OF ok matrix_shape_alloc, of "[0..<CRAS_CH_MAX]"] assms(3,5)
    by (auto simp: route_FC atLeast0LessThan split: conv_result.splits)
qed

text \<open>Side channels on a layout that has rear channels instead.\<close>

definition side_format :: cras_audio_format where
  "side_format = (cras_audio_format_create SND_PCM_FORMAT_S16_LE 48000 4)
     \<lparr>channel_layout := [0, 1, - 1, - 1, - 1, - 1, 2, 3, - 1, - 1, - 1]\<rparr>"

definition quad_format :: cras_audio_format where
  "quad_format = cras_audio_format_create SND_PCM_FORMAT_S16_LE 48000 4"

lemma quad_layout: "channel_layout quad_format = [0, 1, 2, 3, - 1, - 1, - 1, - 1, - 1, - 1, - 1]" "num_channels quad_format = 4"
  by (simp_all add: quad_format_def cras_audio_format_create_def CRAS_CH_MAX_def upt_rec)

lemma side_layout: "channel_layout side_format = [0, 1, - 1, - 1, - 1, - 1, 2, 3, - 1, - 1, - 1]" "num_channels side_format = 4"
  by (simp_all add: side_format_def cras_audio_format_create_def)

text \<open>The least channel count covers the layout, and does not exceed the count of a valid format.\<close>

lemma fold_max_bounds:
  fixes n :: int
  assumes "\<forall>i\<in>set is. g i \<le> n" "m \<le> n"
  shows "let r = foldl (\<lambda>m i. if g i > m then g i else m) m is in m \<le> r \<and> r \<le> n \<and> (\<forall>i\<in>set is. g i \<le> r)"
  using assms
proof (induction "is" arbitrary: m)
  case (Cons i "is")
  then show ?case using Cons.IH [of "if g i > m then g i else m"] by (fastforce simp: Let_def)
qed (simp add: Let_def)

lemma least_num_channels_valid:
  assumes "cras_audio_format_valid fmt" "0 \<le> num_channels fmt" "num_channels fmt < 2 ^ 31"
  shows "cras_audio_format_get_least_num_channels fmt \<le> num_channels fmt \<and>
    (\<forall>i<CRAS_CH_MAX. channel_layout fmt ! i < cras_audio_format_get_least_num_channels fmt)"
proof -
  have "s32 (num_channels fmt) = num_channels fmt" using assms by (intro wrap_s_id) auto
  then have l: "- 1 \<le> channel_layout fmt ! i \<and> channel_layout fmt ! i < num_channels fmt" if "i < CRAS_CH_MAX" for i
    using assms(1) that by (auto simp: format_valid_iff)
  then have "u64 (channel_layout fmt ! i + 1) = channel_layout fmt ! i + 1" if "i < CRAS_CH_MAX" for i
    using l [OF that] assms(3) by (intro wrap_u_id) auto
  note u = this
  have "\<forall>i\<in>set [0..<CRAS_CH_MAX]. u64 (channel_layout fmt ! i + 1) \<le> num_channels fmt"
    using l u by (auto simp: zless_imp_add1_zle)
  from fold_max_bounds [OF this assms(2)]
  have "cras_audio_format_get_least_num_channels fmt \<le> num_channels fmt"
    "\<forall>i\<in>set [0..<CRAS_CH_MAX]. u64 (channel_layout fmt ! i + 1) \<le> cras_audio_format_get_least_num_channels fmt"
    unfolding cras_audio_format_get_least_num_channels_def Let_def by blast+
  then show ?thesis using u by (fastforce simp: add1_zle_eq)
qed

end
