(* ===== verification/Rstream.thy ===== *)
theory Rstream
  imports Audio_Shm Buffer_Share Audio_Format
begin

text \<open>
  Streams (\<open>cras/src/server/cras_rstream.c\<close>, its header, \<open>cras_rstream_config.c\<close> and the part of
  \<open>cras/src/common/cras_shm.c\<close> that creates the shared area). A stream joins the shared audio area of
  theory \<open>Audio_Shm\<close>, through which the client's samples pass, with the table of theory
  \<open>Buffer_Share\<close>, in which the attached devices record their progress.

  A pointer to an object of another component is its address, 0 for NULL; \<open>rs_shm_set\<close> says whether
  \<open>shm\<close> is not NULL. The result of a system call is an argument of the operation that makes it, a
  negative value standing for \<open>-errno\<close>; those of the creation are in \<open>rstream_env\<close>. The memory
  descriptor \<open>audio_area\<close>, the power meter \<open>ewma\<close>, which only reads samples, the metrics and the log
  are left out; the calls that inform the system state are returned as \<open>sys_event\<close>s. Of the
  processing module \<open>stream_apm\<close> the effects remain.
\<close>

unbundle bit_operations_syntax

section \<open>Model\<close>

definition CRAS_STREAM_OUTPUT :: int where "CRAS_STREAM_OUTPUT = 0"
definition CRAS_STREAM_INPUT :: int where "CRAS_STREAM_INPUT = 1"
definition CRAS_STREAM_NUM_TYPES :: int where "CRAS_STREAM_NUM_TYPES = 6"
definition CRAS_STREAM_TYPE_SPEECH_RECOGNITION :: int where "CRAS_STREAM_TYPE_SPEECH_RECOGNITION = 3"
definition CRAS_NUM_CLIENT_TYPE :: int where "CRAS_NUM_CLIENT_TYPE = 13"
definition NO_DEVICE :: int where "NO_DEVICE = 0"

text \<open>\<open>enum CRAS_STREAM_FLAG\<close> and \<open>enum CRAS_STREAM_EFFECT\<close>\<close>

definition BULK_AUDIO_OK :: int where "BULK_AUDIO_OK = 1"
definition USE_DEV_TIMING :: int where "USE_DEV_TIMING = 2"
definition TRIGGER_ONLY :: int where "TRIGGER_ONLY = 4"
definition SERVER_ONLY :: int where "SERVER_ONLY = 8"
definition SIDETONE_STREAM :: int where "SIDETONE_STREAM = 24"

definition APM_EFFECTS :: int where "APM_EFFECTS = 15"
definition DSP_ECHO_CANCELLATION_ALLOWED :: int where "DSP_ECHO_CANCELLATION_ALLOWED = 16"
definition DSP_NOISE_SUPPRESSION_ALLOWED :: int where "DSP_NOISE_SUPPRESSION_ALLOWED = 32"
definition DSP_GAIN_CONTROL_ALLOWED :: int where "DSP_GAIN_CONTROL_ALLOWED = 64"
definition PRIVATE_DONT_CARE_APM_EFFECTS :: int where "PRIVATE_DONT_CARE_APM_EFFECTS = 1024"

lemmas rstream_consts = CRAS_STREAM_OUTPUT_def CRAS_STREAM_INPUT_def CRAS_STREAM_NUM_TYPES_def CRAS_NUM_CLIENT_TYPE_def
  NO_DEVICE_def BULK_AUDIO_OK_def USE_DEV_TIMING_def TRIGGER_ONLY_def SERVER_ONLY_def SIDETONE_STREAM_def

record cras_rstream_config =
  rc_stream_id :: int
  rc_stream_type :: int
  rc_client_type :: int
  rc_direction :: int
  rc_dev_idx :: int
  rc_flags :: int
  rc_effects :: int
  rc_format :: "cras_audio_format option"
  rc_buffer_frames :: int
  rc_cb_threshold :: int
  rc_audio_fd :: int
  rc_client_shm_fd :: int
  rc_client_shm_size :: int
  rc_buffer_offsets :: "int list"
  rc_client :: int

record main_dev_info =
  md_dev_id :: int
  md_dev_ptr :: int

record cras_rstream =
  rs_stream_id :: int
  rs_stream_type :: int
  rs_client_type :: int
  rs_direction :: int
  rs_flags :: int
  rs_fd :: int
  rs_buffer_frames :: int
  rs_cb_threshold :: int
  rs_is_draining :: int
  rs_main_dev :: main_dev_info
  rs_client :: int
  rs_shm_set :: bool
  rs_shm :: cras_audio_shm
  rs_format :: cras_audio_format
  rs_next_cb_ts :: timespec
  rs_sleep_interval_ts :: timespec
  rs_last_fetch_ts :: timespec
  rs_longest_fetch_interval :: timespec
  rs_num_delayed_fetches :: int
  rs_start_ts :: timespec
  rs_buf_state :: buffer_share
  rs_stream_apm :: "int option"
  rs_num_attached_devs :: int
  rs_num_missed_cb :: int
  rs_queued_frames :: int
  rs_is_pinned :: bool
  rs_pinned_dev_idx :: int
  rs_triggered :: int
  rs_acceptable_fetch_interval :: timespec

datatype sys_event = StreamAdded int int int | StreamRemoved int int int

subsection \<open>Parameters\<close>

text \<open>The array holds \<open>uint32_t\<close>, the argument \<open>uint64_t\<close>. The descriptors move into the
  configuration: the last two components are what the caller's variables hold afterwards.\<close>

definition cras_rstream_config_init ::
  "int \<Rightarrow> int \<Rightarrow> int \<Rightarrow> int \<Rightarrow> int \<Rightarrow> int \<Rightarrow> int \<Rightarrow> int \<Rightarrow> cras_audio_format option \<Rightarrow> int \<Rightarrow> int \<Rightarrow> int \<Rightarrow> int \<Rightarrow> int \<Rightarrow> int list \<Rightarrow>
   cras_rstream_config \<times> int \<times> int" where
  "cras_rstream_config_init client stream_id stream_type client_type dir dev_idx flags effects fmt buffer_frames cb_threshold
     audio_fd client_shm_fd client_shm_size buffer_offsets =
     (\<lparr>rc_stream_id = stream_id, rc_stream_type = stream_type, rc_client_type = client_type, rc_direction = dir,
       rc_dev_idx = dev_idx, rc_flags = flags, rc_effects = effects, rc_format = fmt, rc_buffer_frames = buffer_frames,
       rc_cb_threshold = cb_threshold, rc_audio_fd = audio_fd, rc_client_shm_fd = client_shm_fd,
       rc_client_shm_size = client_shm_size,
       rc_buffer_offsets = [u32 (buffer_offsets ! 0), u32 (buffer_offsets ! 1)], rc_client = client\<rparr>, - 1, - 1)"

text \<open>The descriptors that \<open>cras_rstream_config_cleanup\<close> closes.\<close>

definition cras_rstream_config_cleanup :: "cras_rstream_config \<Rightarrow> int list" where
  "cras_rstream_config_cleanup cfg =
     (if rc_audio_fd cfg \<ge> 0 then [rc_audio_fd cfg] else []) @ (if rc_client_shm_fd cfg \<ge> 0 then [rc_client_shm_fd cfg] else [])"

definition cras_rstream_config_is_client_shm_stream :: "cras_rstream_config \<Rightarrow> bool" where
  "cras_rstream_config_is_client_shm_stream cfg \<longleftrightarrow> rc_client_shm_fd cfg \<ge> 0 \<and> rc_client_shm_size cfg > 0"

definition buffer_meets_size_limit :: "int \<Rightarrow> int \<Rightarrow> bool" where
  "buffer_meets_size_limit buffer_size rate \<longleftrightarrow> buffer_size < u64 (10 * rate) \<and> buffer_size > u64 (1000 * rate) div 1000000"

definition verify_rstream_parameters :: "cras_rstream_config \<Rightarrow> int" where
  "verify_rstream_parameters cfg =
     (case rc_format cfg of
        None \<Rightarrow> - EINVAL
      | Some fmt \<Rightarrow>
          if frame_rate fmt < 4000 \<or> frame_rate fmt > 192000 then - EINVAL
          else if \<not> buffer_meets_size_limit (rc_buffer_frames cfg) (frame_rate fmt) then - EINVAL
          else if \<not> buffer_meets_size_limit (rc_cb_threshold cfg) (frame_rate fmt) \<or> rc_cb_threshold cfg > rc_buffer_frames cfg
          then - EINVAL
          else if num_channels fmt < 0 \<or> num_channels fmt > int CRAS_CH_MAX then - EINVAL
          else if format fmt \<noteq> SND_PCM_FORMAT_S16_LE \<and> format fmt \<noteq> SND_PCM_FORMAT_S32_LE \<and>
                  format fmt \<noteq> SND_PCM_FORMAT_U8 \<and> format fmt \<noteq> SND_PCM_FORMAT_S24_LE then - EINVAL
          else if rc_direction cfg \<noteq> CRAS_STREAM_OUTPUT \<and> rc_direction cfg \<noteq> CRAS_STREAM_INPUT then - EINVAL
          else if rc_stream_type cfg < 0 \<or> rc_stream_type cfg \<ge> CRAS_STREAM_NUM_TYPES then - EINVAL
          else if rc_client_type cfg < 0 \<or> rc_client_type cfg \<ge> CRAS_NUM_CLIENT_TYPE then - EINVAL
          else if (rc_client_shm_size cfg > 0 \<and> rc_client_shm_fd cfg < 0) \<or> (rc_client_shm_size cfg = 0 \<and> rc_client_shm_fd cfg \<ge> 0)
          then - EINVAL
          else if cras_rstream_config_is_client_shm_stream cfg \<and>
                  (rc_buffer_offsets cfg ! 0 > rc_client_shm_size cfg \<or> rc_buffer_offsets cfg ! 1 > rc_client_shm_size cfg)
          then - EINVAL
          else 0)"

definition stream_is_server_only :: "cras_rstream \<Rightarrow> bool" where
  "stream_is_server_only s \<longleftrightarrow> rs_flags s AND SERVER_ONLY \<noteq> 0"

definition stream_is_sidetone :: "cras_rstream \<Rightarrow> bool" where
  "stream_is_sidetone s \<longleftrightarrow> rs_flags s AND SIDETONE_STREAM = SIDETONE_STREAM"

definition stream_uses_output :: "cras_rstream \<Rightarrow> bool" where
  "stream_uses_output s \<longleftrightarrow> rs_direction s = CRAS_STREAM_OUTPUT"

definition stream_uses_input :: "cras_rstream \<Rightarrow> bool" where
  "stream_uses_input s \<longleftrightarrow> rs_direction s = CRAS_STREAM_INPUT"

definition cras_rstream_get_max_write_frames :: "cras_rstream \<Rightarrow> int" where
  "cras_rstream_get_max_write_frames s =
     (if rs_flags s AND BULK_AUDIO_OK \<noteq> 0 then rs_buffer_frames s else rs_cb_threshold s)"

subsection \<open>Creation\<close>

text \<open>What the system answers during a creation. A fresh shared-memory object holds zeros; the
  client's own area holds \<open>e_client_mem\<close>.\<close>

record rstream_env =
  e_header_size :: int
  e_header_fd :: int
  e_samples_fd :: int
  e_alloc_stream :: bool
  e_alloc_shm :: bool
  e_alloc_apm :: bool
  e_map_header :: int
  e_map_samples :: int
  e_client_mem :: "int list"
  e_aec_on_dsp :: bool
  e_ns_on_dsp :: bool
  e_agc_on_dsp :: bool
  e_floop_dev :: "int \<Rightarrow> bool"
  e_now :: timespec

text \<open>\<open>struct cras_shm_info\<close>, with \<open>fd\<close> the result of \<open>cras_shm_open_rw\<close> or \<open>dup\<close>.\<close>

record cras_shm_info =
  si_fd :: int
  si_named :: bool
  si_length :: int

definition cras_shm_info_init :: "int \<Rightarrow> int \<Rightarrow> int + cras_shm_info" where
  "cras_shm_info_init fd len = (if fd < 0 then Inl fd else Inr \<lparr>si_fd = fd, si_named = True, si_length = u32 len\<rparr>)"

definition cras_shm_info_init_with_fd :: "int \<Rightarrow> int \<Rightarrow> int + cras_shm_info" where
  "cras_shm_info_init_with_fd fd len = (if fd < 0 then Inl fd else Inr \<lparr>si_fd = fd, si_named = False, si_length = len\<rparr>)"

definition zero_header :: cras_audio_shm_header where
  "zero_header = \<lparr>hdr_config = \<lparr>used_size = 0, frame_bytes = 0\<rparr>, read_buf_idx = 0, write_buf_idx = 0,
     read_offset = [0, 0], write_offset = [0, 0], write_in_progress = [0, 0], volume_scaler = 0, mute = 0,
     callback_pending = 0, num_overruns = 0, hdr_ts = zero_ts, buffer_offset = [0, 0], overrun_frames = 0,
     dropped_samples_duration = zero_ts, underrun_duration = zero_ts\<rparr>"

text \<open>\<open>mem\<close> is what the samples area holds.\<close>

definition cras_audio_shm_create :: "rstream_env \<Rightarrow> int list \<Rightarrow> cras_shm_info \<Rightarrow> int \<Rightarrow> int + cras_audio_shm" where
  "cras_audio_shm_create env mem samples_info samples_prot =
     (if samples_prot AND 3 = 0 then Inl (- EINVAL)
      else if \<not> e_alloc_shm env then Inl (- ENOMEM)
      else if e_map_header env < 0 then Inl (e_map_header env)
      else if e_map_samples env < 0 then Inl (e_map_samples env)
      else Inr (cras_shm_set_volume_scaler
        \<lparr>config = \<lparr>used_size = 0, frame_bytes = 0\<rparr>, header_mapped = True, header = zero_header,
         samples_len = si_length samples_info, samples = mem\<rparr> 1))"

text \<open>The area of the samples: an offset of a client's area is refused when the buffer would not fit.\<close>

definition samples_info_for :: "rstream_env \<Rightarrow> cras_rstream_config \<Rightarrow> int \<Rightarrow> int + cras_shm_info" where
  "samples_info_for env cfg used =
     (if cras_rstream_config_is_client_shm_stream cfg then
        if list_ex (\<lambda>i. rc_buffer_offsets cfg ! i + used > rc_client_shm_size cfg) [0..<nat CRAS_NUM_SHM_BUFFERS]
        then Inl (- EINVAL)
        else cras_shm_info_init_with_fd (e_samples_fd env) (rc_client_shm_size cfg)
      else cras_shm_info_init (e_samples_fd env) (cras_shm_calculate_samples_size used))"

definition setup_shm_area :: "rstream_env \<Rightarrow> (int \<Rightarrow> int) \<Rightarrow> cras_rstream \<Rightarrow> cras_rstream_config \<Rightarrow> int \<times> cras_rstream" where
  "setup_shm_area env width stream cfg =
     (let fmt = rs_format stream;
          fb = u32 (u64 (width (format fmt) sdiv 8) * num_channels fmt);
          used = u32 (rs_buffer_frames stream * fb);
          prot = (if stream_is_sidetone stream then 3 else if rs_direction stream = CRAS_STREAM_OUTPUT then 1 else 2)
      in if rs_shm_set stream then (- EEXIST, stream)
         else case cras_shm_info_init (e_header_fd env) (e_header_size env) of
           Inl rc \<Rightarrow> (rc, stream)
         | Inr header_info \<Rightarrow>
             (case samples_info_for env cfg used of
                Inl rc \<Rightarrow> (rc, stream)
              | Inr info \<Rightarrow>
                  let mem = (if cras_rstream_config_is_client_shm_stream cfg then e_client_mem env
                             else replicate (nat (si_length info)) 0)
                  in case cras_audio_shm_create env mem info prot of
                       Inl rc \<Rightarrow> (rc, stream)
                     | Inr shm0 \<Rightarrow>
                         let shm1 = cras_shm_set_used_size (cras_shm_set_frame_bytes shm0 fb) used;
                             shm2 = (if cras_rstream_config_is_client_shm_stream cfg
                                     then foldl (\<lambda>m i. cras_shm_set_buffer_offset m (int i) (rc_buffer_offsets cfg ! i)) shm1 [0..<2]
                                     else shm1)
                         in (0, stream\<lparr>rs_shm_set := True, rs_shm := shm2\<rparr>)))"

definition disallow_non_supported_dsp_effects :: "rstream_env \<Rightarrow> int \<Rightarrow> int" where
  "disallow_non_supported_dsp_effects env effects =
     (let e1 = (if e_aec_on_dsp env then effects else effects AND NOT DSP_ECHO_CANCELLATION_ALLOWED);
          e2 = (if e_ns_on_dsp env then e1 else e1 AND NOT DSP_NOISE_SUPPRESSION_ALLOWED)
      in if e_agc_on_dsp env then e2 else e2 AND NOT DSP_GAIN_CONTROL_ALLOWED)"

text \<open>The clients of the \<open>switch\<close>: ARC, CROSVM, PLUGIN, ARCVM, BOREALIS, SOUND_CARD_INIT.\<close>

definition should_honor_apm_effects :: "cras_rstream_config \<Rightarrow> bool" where
  "should_honor_apm_effects cfg \<longleftrightarrow>
     (if rc_effects cfg AND APM_EFFECTS \<noteq> 0 then True
      else if rc_stream_type cfg = CRAS_STREAM_TYPE_SPEECH_RECOGNITION then False
      else rc_client_type cfg \<notin> {5, 6, 9, 10, 11, 12})"

definition cras_stream_apm_create :: "rstream_env \<Rightarrow> int \<Rightarrow> int option" where
  "cras_stream_apm_create env effects = (if e_alloc_apm env then Some effects else None)"

definition cras_stream_apm_get_effects :: "int option \<Rightarrow> int" where
  "cras_stream_apm_get_effects apm = (case apm of None \<Rightarrow> 0 | Some effects \<Rightarrow> effects)"

text \<open>The stream as \<open>calloc\<close> and the first assignments leave it, before the areas are set up.\<close>

definition empty_shm :: cras_audio_shm where
  "empty_shm = \<lparr>config = \<lparr>used_size = 0, frame_bytes = 0\<rparr>, header_mapped = False, header = zero_header,
     samples_len = 0, samples = []\<rparr>"

definition rstream_init :: "cras_rstream_config \<Rightarrow> cras_audio_format \<Rightarrow> cras_rstream" where
  "rstream_init cfg fmt =
     \<lparr>rs_stream_id = rc_stream_id cfg, rs_stream_type = rc_stream_type cfg, rs_client_type = rc_client_type cfg,
      rs_direction = rc_direction cfg, rs_flags = rc_flags cfg, rs_fd = 0, rs_buffer_frames = rc_buffer_frames cfg,
      rs_cb_threshold = rc_cb_threshold cfg, rs_is_draining = 0, rs_main_dev = \<lparr>md_dev_id = NO_DEVICE, md_dev_ptr = 0\<rparr>,
      rs_client = rc_client cfg, rs_shm_set = False, rs_shm = empty_shm, rs_format = fmt, rs_next_cb_ts = zero_ts,
      rs_sleep_interval_ts = zero_ts, rs_last_fetch_ts = zero_ts, rs_longest_fetch_interval = zero_ts,
      rs_num_delayed_fetches = 0, rs_start_ts = zero_ts, rs_buf_state = \<lparr>bs_buf_sz = 0, bs_wr_idx = []\<rparr>,
      rs_stream_apm = None, rs_num_attached_devs = 0, rs_num_missed_cb = 0, rs_queued_frames = 0,
      rs_is_pinned = (rc_dev_idx cfg \<noteq> NO_DEVICE), rs_pinned_dev_idx = rc_dev_idx cfg, rs_triggered = 0,
      rs_acceptable_fetch_interval = zero_ts\<rparr>"

text \<open>The results: the return value, the configuration, which loses its descriptor, the stream, and
  what the system state is told.\<close>

definition cras_rstream_create ::
  "rstream_env \<Rightarrow> (int \<Rightarrow> int) \<Rightarrow> cras_rstream_config \<Rightarrow> int \<times> cras_rstream_config \<times> cras_rstream option \<times> sys_event list" where
  "cras_rstream_create env width cfg =
     (let rc = verify_rstream_parameters cfg in
      if rc < 0 then (rc, cfg, None, [])
      else if \<not> e_alloc_stream env then (- ENOMEM, cfg, None, [])
      else
        let fmt = the (rc_format cfg);
            (rc, stream) = setup_shm_area env width (rstream_init cfg fmt) cfg
        in if rc < 0 then (rc, cfg, None, [])
           else
             let stream = stream\<lparr>rs_fd := rc_audio_fd cfg, rs_buf_state := buffer_share_create (u32 (rs_buffer_frames stream))\<rparr>;
                 effects = disallow_non_supported_dsp_effects env (rc_effects cfg);
                 cfg1 = cfg\<lparr>rc_audio_fd := - 1, rc_effects := effects\<rparr>;
                 cfg2 = (if should_honor_apm_effects cfg1 then cfg1
                         else cfg1\<lparr>rc_effects := effects OR PRIVATE_DONT_CARE_APM_EFFECTS\<rparr>);
                 apm = (if rs_direction stream = CRAS_STREAM_INPUT \<and>
                           \<not> (rs_is_pinned stream \<and> e_floop_dev env (rs_pinned_dev_idx stream))
                        then cras_stream_apm_create env (rc_effects cfg2) else None);
                 stream = stream\<lparr>rs_stream_apm := apm,
                   rs_acceptable_fetch_interval := cras_frames_to_time (u32 (rc_cb_threshold cfg)) (u32 (frame_rate fmt)),
                   rs_start_ts := e_now env\<rparr>
             in (0, cfg2, Some stream,
                 [StreamAdded (rs_direction stream) (rs_client_type stream) (cras_stream_apm_get_effects apm)]))"

text \<open>The socket, which is closed, and what the system state is told. The memory goes away with the stream.\<close>

definition cras_rstream_destroy :: "cras_rstream \<Rightarrow> int list \<times> sys_event list" where
  "cras_rstream_destroy stream =
     ([rs_fd stream],
      [StreamRemoved (rs_direction stream) (rs_client_type stream) (cras_stream_apm_get_effects (rs_stream_apm stream))])"

definition cras_rstream_get_effects :: "cras_rstream \<Rightarrow> int" where
  "cras_rstream_get_effects stream = (case rs_stream_apm stream of None \<Rightarrow> 0 | Some e \<Rightarrow> u32 (cras_stream_apm_get_effects (Some e)))"

subsection \<open>Messages\<close>

definition AUDIO_MESSAGE_REQUEST_DATA :: int where "AUDIO_MESSAGE_REQUEST_DATA = 0"
definition AUDIO_MESSAGE_DATA_READY :: int where "AUDIO_MESSAGE_DATA_READY = 1"
definition AUDIO_MESSAGE_DATA_CAPTURED :: int where "AUDIO_MESSAGE_DATA_CAPTURED = 2"

record audio_message =
  am_id :: int
  am_error :: int
  am_frames :: int

definition init_audio_message :: "int \<Rightarrow> int \<Rightarrow> audio_message" where
  "init_audio_message i frames = \<lparr>am_id = i, am_error = 0, am_frames = u32 frames\<rparr>"

definition set_pending_reply :: "cras_rstream \<Rightarrow> cras_rstream" where
  "set_pending_reply s = s\<lparr>rs_shm := cras_shm_set_callback_pending (rs_shm s) 1\<rparr>"

definition clear_pending_reply :: "cras_rstream \<Rightarrow> cras_rstream" where
  "clear_pending_reply s = s\<lparr>rs_shm := cras_shm_set_callback_pending (rs_shm s) 0\<rparr>"

definition cras_rstream_is_pending_reply :: "cras_rstream \<Rightarrow> int" where
  "cras_rstream_is_pending_reply s = cras_shm_callback_pending (rs_shm s)"

text \<open>\<open>rd\<close> is the result of \<open>read\<close> and \<open>msg\<close> the message it stores.\<close>

definition get_audio_request_reply :: "int \<Rightarrow> audio_message \<Rightarrow> int" where
  "get_audio_request_reply rd msg = (if rd < 0 then rd else if rd = 0 then rd else if am_error msg < 0 then am_error msg else rd)"

definition read_and_handle_client_message :: "int \<Rightarrow> audio_message \<Rightarrow> cras_rstream \<Rightarrow> int \<times> cras_rstream" where
  "read_and_handle_client_message rd msg s =
     (let rc = get_audio_request_reply rd msg in
      if rc \<le> 0 then (rc, clear_pending_reply s)
      else
        let s1 = (if rs_direction s = CRAS_STREAM_INPUT \<and> am_id msg = AUDIO_MESSAGE_DATA_CAPTURED then clear_pending_reply s else s);
            s2 = (if rs_direction s = CRAS_STREAM_OUTPUT \<and> am_id msg = AUDIO_MESSAGE_DATA_READY then clear_pending_reply s1 else s1)
        in (rc, s2))"

text \<open>One element of the list is the result of \<open>poll\<close>, and what \<open>read\<close> gives when \<open>POLLIN\<close> is set; at the
  end of the list \<open>poll\<close> finds nothing.\<close>

fun flush_loop :: "(int \<times> (int \<times> audio_message) option) list \<Rightarrow> cras_rstream \<Rightarrow> cras_rstream" where
  "flush_loop [] s = s"
| "flush_loop ((err, input) # polls) s =
     (let (err, s) = (case input of None \<Rightarrow> (err, s) | Some (rd, msg) \<Rightarrow> read_and_handle_client_message rd msg s)
      in if err > 0 then flush_loop polls s else s)"

definition cras_rstream_flush_old_audio_messages ::
  "(int \<times> (int \<times> audio_message) option) list \<Rightarrow> cras_rstream \<Rightarrow> int \<times> cras_rstream" where
  "cras_rstream_flush_old_audio_messages polls s =
     (if rs_fd s = 0 then (0, s) else if stream_is_server_only s then (0, s) else (0, flush_loop polls s))"

definition cras_rstream_record_fetch_interval :: "cras_rstream \<Rightarrow> timespec \<Rightarrow> cras_rstream" where
  "cras_rstream_record_fetch_interval s now =
     (if tv_sec (rs_last_fetch_ts s) \<noteq> 0 \<or> tv_nsec (rs_last_fetch_ts s) \<noteq> 0 then
        let ts = subtract_timespecs now (rs_last_fetch_ts s);
            s1 = (if timespec_after ts (rs_longest_fetch_interval s) then s\<lparr>rs_longest_fetch_interval := ts\<rparr> else s)
        in if timespec_after ts (rs_acceptable_fetch_interval s1)
           then s1\<lparr>rs_num_delayed_fetches := s32 (rs_num_delayed_fetches s1 + 1)\<rparr> else s1
      else s)"

text \<open>\<open>wr\<close> is the result of \<open>write\<close>; the second component is the message that is sent.\<close>

definition cras_rstream_request_audio :: "int \<Rightarrow> cras_rstream \<Rightarrow> timespec \<Rightarrow> int \<times> audio_message option \<times> cras_rstream" where
  "cras_rstream_request_audio wr s now =
     (if rs_direction s \<noteq> CRAS_STREAM_OUTPUT then (0, None, s)
      else
        let s = s\<lparr>rs_last_fetch_ts := now\<rparr> in
        if stream_is_server_only s then (0, None, set_pending_reply s)
        else
          let msg = init_audio_message AUDIO_MESSAGE_REQUEST_DATA (rs_cb_threshold s) in
          if wr < 0 then (wr, Some msg, s) else (wr, Some msg, set_pending_reply s))"

text \<open>The stream of a sidetone has a pair, which the operation updates too.\<close>

definition cras_rstream_audio_ready ::
  "int \<Rightarrow> cras_rstream \<Rightarrow> cras_rstream option \<Rightarrow> int \<Rightarrow> int \<times> audio_message option \<times> cras_rstream \<times> cras_rstream option" where
  "cras_rstream_audio_ready wr s pair count =
     (let s = s\<lparr>rs_shm := cras_shm_buffer_write_complete (rs_shm s)\<rparr> in
      if stream_is_server_only s then
        let pair = (if stream_is_sidetone s
                    then map_option (\<lambda>p. clear_pending_reply (p\<lparr>rs_shm := cras_shm_header_copy_offset (rs_shm s) (rs_shm p)\<rparr>)) pair
                    else pair)
        in (0, None, s\<lparr>rs_shm := cras_shm_buffer_read_current (rs_shm s) count\<rparr>, pair)
      else
        let msg = init_audio_message AUDIO_MESSAGE_DATA_READY count in
        if wr < 0 then (wr, Some msg, s, pair) else (wr, Some msg, set_pending_reply s, pair))"

subsection \<open>Devices\<close>

text \<open>None is the NULL dereference of \<open>buffer_share_add_id\<close>, and \<open>junk\<close> the memory \<open>realloc\<close> returns.\<close>

definition cras_rstream_dev_attach :: "(nat \<Rightarrow> id_offset) \<Rightarrow> cras_rstream \<Rightarrow> int \<Rightarrow> int \<Rightarrow> cras_rstream option" where
  "cras_rstream_dev_attach junk s dev_id dev_ptr =
     (case buffer_share_add_id junk (rs_buf_state s) dev_id dev_ptr of
        None \<Rightarrow> None
      | Some (rc, bs) \<Rightarrow>
          let s1 = s\<lparr>rs_buf_state := bs\<rparr>;
              s2 = (if rc = 0 then s1\<lparr>rs_num_attached_devs := s32 (rs_num_attached_devs s1 + 1)\<rparr> else s1)
          in Some (if md_dev_id (rs_main_dev s2) = NO_DEVICE
                   then s2\<lparr>rs_main_dev := \<lparr>md_dev_id = s32 dev_id, md_dev_ptr = dev_ptr\<rparr>\<rparr> else s2))"

definition cras_rstream_dev_detach :: "cras_rstream \<Rightarrow> int \<Rightarrow> cras_rstream" where
  "cras_rstream_dev_detach s dev_id =
     (let (rc, bs) = buffer_share_rm_id (rs_buf_state s) dev_id;
          s1 = s\<lparr>rs_buf_state := bs\<rparr>;
          s2 = (if rc = 0 then s1\<lparr>rs_num_attached_devs := s32 (rs_num_attached_devs s1 - 1)\<rparr> else s1)
      in if u32 (md_dev_id (rs_main_dev s2)) = dev_id
         then s2\<lparr>rs_main_dev :=
           (case List.find (\<lambda>o'. io_used o' \<noteq> 0) (bs_wr_idx bs) of
              None \<Rightarrow> \<lparr>md_dev_id = NO_DEVICE, md_dev_ptr = 0\<rparr>
            | Some o' \<Rightarrow> \<lparr>md_dev_id = s32 (io_id o'), md_dev_ptr = io_data o'\<rparr>)\<rparr>
         else s2)"

definition cras_rstream_dev_offset_update :: "cras_rstream \<Rightarrow> int \<Rightarrow> int \<Rightarrow> cras_rstream" where
  "cras_rstream_dev_offset_update s frames dev_id =
     s\<lparr>rs_buf_state := snd (buffer_share_offset_update (rs_buf_state s) dev_id frames)\<rparr>"

definition cras_rstream_update_input_write_pointer :: "cras_rstream \<Rightarrow> cras_rstream" where
  "cras_rstream_update_input_write_pointer s =
     (let (nwritten, bs) = buffer_share_get_new_write_point (rs_buf_state s)
      in s\<lparr>rs_buf_state := bs, rs_shm := cras_shm_buffer_written (rs_shm s) nwritten\<rparr>)"

definition cras_rstream_update_output_read_pointer :: "cras_rstream \<Rightarrow> cras_rstream" where
  "cras_rstream_update_output_read_pointer s =
     (let (nwritten, bs) = buffer_share_get_new_write_point (rs_buf_state s)
      in s\<lparr>rs_buf_state := bs, rs_shm := cras_shm_buffer_read (rs_shm s) nwritten\<rparr>)"

definition cras_rstream_dev_offset :: "cras_rstream \<Rightarrow> int \<Rightarrow> int" where
  "cras_rstream_dev_offset s dev_id = buffer_share_id_offset (rs_buf_state s) dev_id"

definition cras_rstream_level :: "cras_rstream \<Rightarrow> int" where
  "cras_rstream_level s = cras_shm_frames_written (rs_shm s)"

definition cras_rstream_input_level_met :: "cras_rstream \<Rightarrow> bool" where
  "cras_rstream_input_level_met s \<longleftrightarrow> cras_shm_frames_written (rs_shm s) \<ge> rs_cb_threshold s"

text \<open>\<open>MIN\<close> compares an \<open>int\<close> with a \<open>size_t\<close>, so its operands are converted to \<open>size_t\<close>.\<close>

definition cras_rstream_update_queued_frames :: "cras_rstream \<Rightarrow> cras_rstream" where
  "cras_rstream_update_queued_frames s =
     s\<lparr>rs_queued_frames := s32 (min (u64 (cras_shm_get_frames (rs_shm s))) (rs_buffer_frames s))\<rparr>"

definition cras_rstream_playable_frames :: "cras_rstream \<Rightarrow> int \<Rightarrow> int" where
  "cras_rstream_playable_frames s dev_id = u32 (rs_queued_frames s - cras_rstream_dev_offset s dev_id)"

section \<open>Creation is safe\<close>

text \<open>What ALSA documents of \<open>snd_pcm_format_physical_width\<close> for the formats that a stream may have.\<close>

definition widths_ok :: "(int \<Rightarrow> int) \<Rightarrow> bool" where
  "widths_ok width \<longleftrightarrow> width SND_PCM_FORMAT_U8 = 8 \<and> width SND_PCM_FORMAT_S16_LE = 16 \<and>
     width SND_PCM_FORMAT_S24_LE = 32 \<and> width SND_PCM_FORMAT_S32_LE = 32"

definition format_sample_bytes :: "(int \<Rightarrow> int) \<Rightarrow> cras_audio_format \<Rightarrow> int" where
  "format_sample_bytes width fmt = width (format fmt) sdiv 8"

lemma verify_rstream_parameters_ok:
  assumes "\<not> verify_rstream_parameters cfg < 0"
  obtains fmt where "rc_format cfg = Some fmt" "4000 \<le> frame_rate fmt" "frame_rate fmt \<le> 192000"
    "0 < rc_cb_threshold cfg" "rc_cb_threshold cfg \<le> rc_buffer_frames cfg" "rc_buffer_frames cfg < 10 * frame_rate fmt"
    "0 \<le> num_channels fmt" "num_channels fmt \<le> 11"
    "format fmt \<in> {SND_PCM_FORMAT_S16_LE, SND_PCM_FORMAT_S32_LE, SND_PCM_FORMAT_U8, SND_PCM_FORMAT_S24_LE}"
    "rc_direction cfg \<in> {CRAS_STREAM_OUTPUT, CRAS_STREAM_INPUT}"
proof -
  obtain fmt where fmt: "rc_format cfg = Some fmt"
    using assms by (cases "rc_format cfg") (auto simp: verify_rstream_parameters_def errno_defs)
  note v = assms [unfolded verify_rstream_parameters_def fmt, simplified]
  have rate: "4000 \<le> frame_rate fmt" "frame_rate fmt \<le> 192000" using v by (auto simp: errno_defs split: if_splits)
  then have u: "u64 (10 * frame_rate fmt) = 10 * frame_rate fmt" "u64 (1000 * frame_rate fmt) = 1000 * frame_rate fmt"
    by (auto intro!: wrap_u_id)
  have "4 \<le> u64 (1000 * frame_rate fmt) div 1000000" unfolding u using rate by (simp add: pos_imp_zdiv_pos_iff)
  then show thesis using v rate u
    by (intro that [OF fmt]) (auto simp: errno_defs buffer_meets_size_limit_def CRAS_CH_MAX_def split: if_splits)
qed

lemma frame_bytes_bounds:
  assumes "widths_ok width" "0 \<le> num_channels fmt" "num_channels fmt \<le> 11"
    and "format fmt \<in> {SND_PCM_FORMAT_S16_LE, SND_PCM_FORMAT_S32_LE, SND_PCM_FORMAT_U8, SND_PCM_FORMAT_S24_LE}"
  shows "1 \<le> format_sample_bytes width fmt" "format_sample_bytes width fmt \<le> 4"
    "u32 (u64 (width (format fmt) sdiv 8) * num_channels fmt) = format_sample_bytes width fmt * num_channels fmt"
    "format_sample_bytes width fmt * num_channels fmt \<le> 44"
proof -
  have b: "format_sample_bytes width fmt \<in> {1, 2, 4}" using assms(1,4)
    by (auto simp: format_sample_bytes_def widths_ok_def sdiv_eq_div)
  then show "1 \<le> format_sample_bytes width fmt" "format_sample_bytes width fmt \<le> 4" by auto
  have "u64 (width (format fmt) sdiv 8) = format_sample_bytes width fmt"
    using b by (auto simp: format_sample_bytes_def intro!: wrap_u_id)
  moreover show le: "format_sample_bytes width fmt * num_channels fmt \<le> 44" using b assms(2,3) by auto
  moreover have "0 \<le> format_sample_bytes width fmt * num_channels fmt" using b assms(2) by auto
  ultimately show "u32 (u64 (width (format fmt) sdiv 8) * num_channels fmt) = format_sample_bytes width fmt * num_channels fmt"
    by (auto intro!: wrap_u_id)
qed

text \<open>The area of a new stream.\<close>

definition created_shm :: "int \<Rightarrow> int \<Rightarrow> int \<Rightarrow> int list \<Rightarrow> int list \<Rightarrow> cras_audio_shm" where
  "created_shm fb used len mem offs =
     \<lparr>config = \<lparr>used_size = used, frame_bytes = fb\<rparr>, header_mapped = True,
      header = zero_header\<lparr>hdr_config := \<lparr>used_size = used, frame_bytes = fb\<rparr>, volume_scaler := 1, buffer_offset := offs\<rparr>,
      samples_len = len, samples = mem\<rparr>"

lemma set_created_shm:
  "cras_shm_set_used_size (cras_shm_set_frame_bytes (cras_shm_set_volume_scaler
     \<lparr>config = \<lparr>used_size = 0, frame_bytes = 0\<rparr>, header_mapped = True, header = zero_header, samples_len = len, samples = mem\<rparr> 1) fb) used
   = created_shm fb used len mem [0, u32 used]"
  by (simp add: cras_shm_set_used_size_def cras_shm_set_frame_bytes_def cras_shm_set_volume_scaler_def created_shm_def
      cras_shm_set_buffer_offset_def upd_header_def zero_header_def CRAS_NUM_SHM_BUFFERS_def upt_rec wrap_u_def)

lemma set_client_offsets:
  "cras_shm_set_buffer_offset (cras_shm_set_buffer_offset (created_shm fb used len mem [y, x]) 0 a) 1 b
   = created_shm fb used len mem [a, b]"
  by (simp add: created_shm_def cras_shm_set_buffer_offset_def upd_header_def)

text \<open>The two ways in which \<open>setup_shm_area\<close> succeeds.\<close>

lemma setup_shm_area_ok:
  assumes "setup_shm_area env width s cfg = (rc, s')" "\<not> rc < 0"
  defines "fb \<equiv> u32 (u64 (width (format (rs_format s)) sdiv 8) * num_channels (rs_format s))"
  defines "used \<equiv> u32 (rs_buffer_frames s * fb)"
  shows "rc = 0 \<and> \<not> rs_shm_set s \<and> s' = s\<lparr>rs_shm_set := True, rs_shm :=
    (if cras_rstream_config_is_client_shm_stream cfg
     then created_shm fb used (rc_client_shm_size cfg) (e_client_mem env) [rc_buffer_offsets cfg ! 0, rc_buffer_offsets cfg ! 1]
     else created_shm fb used (cras_shm_calculate_samples_size used)
            (replicate (nat (cras_shm_calculate_samples_size used)) 0) [0, u32 used])\<rparr> \<and>
    (cras_rstream_config_is_client_shm_stream cfg \<longrightarrow>
      rc_buffer_offsets cfg ! 0 + used \<le> rc_client_shm_size cfg \<and> rc_buffer_offsets cfg ! 1 + used \<le> rc_client_shm_size cfg)"
proof -
  have u: "u32 (cras_shm_calculate_samples_size used) = cras_shm_calculate_samples_size used"
    by (simp add: cras_shm_calculate_samples_size_def)
  show ?thesis
    using assms(1,2)
    unfolding setup_shm_area_def fb_def [symmetric] used_def [symmetric] Let_def
    by (auto simp: cras_shm_info_init_def cras_shm_info_init_with_fd_def samples_info_for_def cras_audio_shm_create_def errno_defs
        set_created_shm set_client_offsets CRAS_NUM_SHM_BUFFERS_def upt_rec u not_less split: if_splits sum.splits)
qed

text \<open>Nothing but the system can stop it for a stream in the server's memory.\<close>

definition env_ok :: "rstream_env \<Rightarrow> bool" where
  "env_ok env \<longleftrightarrow> 0 \<le> e_header_fd env \<and> 0 \<le> e_samples_fd env \<and> e_alloc_stream env \<and> e_alloc_shm env \<and>
     0 \<le> e_map_header env \<and> 0 \<le> e_map_samples env"

lemma setup_shm_area_own:
  fixes width :: "int \<Rightarrow> int"
  assumes "env_ok env" "\<not> rs_shm_set s" "\<not> cras_rstream_config_is_client_shm_stream cfg"
  defines "fb \<equiv> u32 (u64 (width (format (rs_format s)) sdiv 8) * num_channels (rs_format s))"
  defines "used \<equiv> u32 (rs_buffer_frames s * fb)"
  shows "setup_shm_area env width s cfg =
    (0, s\<lparr>rs_shm_set := True, rs_shm := created_shm fb used (cras_shm_calculate_samples_size used)
            (replicate (nat (cras_shm_calculate_samples_size used)) 0) [0, u32 used]\<rparr>)"
proof -
  have "u32 (cras_shm_calculate_samples_size used) = cras_shm_calculate_samples_size used"
    by (simp add: cras_shm_calculate_samples_size_def)
  then show ?thesis using assms(1-3)
    unfolding setup_shm_area_def fb_def [symmetric] used_def [symmetric] Let_def
    by (simp add: cras_shm_info_init_def samples_info_for_def cras_audio_shm_create_def env_ok_def set_created_shm)
qed

lemma rstream_create_own:
  fixes width :: "int \<Rightarrow> int"
  assumes "env_ok env" "verify_rstream_parameters cfg = 0" "rc_format cfg = Some fmt" "\<not> cras_rstream_config_is_client_shm_stream cfg"
  defines "fb \<equiv> u32 (u64 (width (format fmt) sdiv 8) * num_channels fmt)"
  defines "used \<equiv> u32 (rc_buffer_frames cfg * fb)"
  shows "\<exists>cfg' s ev. cras_rstream_create env width cfg = (0, cfg', Some s, ev) \<and> rs_format s = fmt \<and>
    rs_shm s = created_shm fb used (cras_shm_calculate_samples_size used)
      (replicate (nat (cras_shm_calculate_samples_size used)) 0) [0, u32 used]"
proof -
  have "\<not> rs_shm_set (rstream_init cfg fmt)" "rs_format (rstream_init cfg fmt) = fmt" "rs_buffer_frames (rstream_init cfg fmt) = rc_buffer_frames cfg"
    by (simp_all add: rstream_init_def)
  note s = setup_shm_area_own [OF assms(1) this(1) assms(4), of width, unfolded this(2,3), folded fb_def, folded used_def]
  show ?thesis using assms(1) unfolding cras_rstream_create_def Let_def assms(2,3) option.sel s prod.case
    by (simp add: env_ok_def rstream_init_def)
qed

lemma rstream_create_ok:
  assumes "cras_rstream_create env width cfg = (rc, cfg', Some s, ev)"
  obtains fmt s0 where "rc = 0" "\<not> verify_rstream_parameters cfg < 0" "rc_format cfg = Some fmt"
    "setup_shm_area env width (rstream_init cfg fmt) cfg = (0, s0)"
    "rs_shm s = rs_shm s0" "rs_format s = fmt" "rs_buffer_frames s = rc_buffer_frames cfg" "rs_cb_threshold s = rc_cb_threshold cfg"
    "rs_buf_state s = buffer_share_create (u32 (rc_buffer_frames cfg))" "rs_num_attached_devs s = 0"
    "rs_main_dev s = \<lparr>md_dev_id = NO_DEVICE, md_dev_ptr = 0\<rparr>" "rs_fd s = rc_audio_fd cfg" "rc_audio_fd cfg' = - 1"
    "rc_client_shm_fd cfg' = rc_client_shm_fd cfg" "rs_stream_id s = rc_stream_id cfg" "rs_client s = rc_client cfg"
    "rs_direction s = rc_direction cfg"
    "ev = [StreamAdded (rs_direction s) (rs_client_type s) (cras_stream_apm_get_effects (rs_stream_apm s))]"
proof -
  have v: "\<not> verify_rstream_parameters cfg < 0" using assms by (auto simp: cras_rstream_create_def Let_def split: if_splits)
  then obtain fmt where fmt: "rc_format cfg = Some fmt" by (rule verify_rstream_parameters_ok)
  obtain rc0 s0 where s0: "setup_shm_area env width (rstream_init cfg fmt) cfg = (rc0, s0)" by fastforce
  then have rc0: "\<not> rc0 < 0" using assms v fmt by (auto simp: cras_rstream_create_def Let_def split: if_splits)
  note ok = setup_shm_area_ok [OF s0 rc0]
  then obtain m where m: "rc0 = 0" "s0 = (rstream_init cfg fmt)\<lparr>rs_shm_set := True, rs_shm := m\<rparr>" by blast
  note run = assms [unfolded cras_rstream_create_def Let_def fmt option.sel s0 m prod.case]
  show thesis using run v fmt s0 m
    by (intro that [OF _ v fmt, of s0]) (auto simp: rstream_init_def split: if_splits)
qed

lemma samples_size_exact: "0 \<le> used \<Longrightarrow> used < 2 ^ 30 \<Longrightarrow> cras_shm_calculate_samples_size used = 2 * used"
  using wrap_u_id [of "used * 2" 32] by (simp add: cras_shm_calculate_samples_size_def CRAS_NUM_SHM_BUFFERS_def)

lemma created_shm_config:
  assumes "widths_ok width" "cras_rstream_create env width cfg = (rc, cfg', Some s, ev)"
    and "\<not> cras_rstream_config_is_client_shm_stream cfg" "0 < num_channels (rs_format s)"
  shows "shm_config_ok (rs_shm s)" "cras_shm_used_frames (rs_shm s) = rs_buffer_frames s"
    "0 < rs_cb_threshold s" "rs_cb_threshold s \<le> rs_buffer_frames s"
    "frame_bytes (config (rs_shm s)) = format_sample_bytes width (rs_format s) * num_channels (rs_format s)"
    "used_size (config (rs_shm s)) = rs_buffer_frames s * frame_bytes (config (rs_shm s))"
proof -
  obtain fmt s0 where c: "\<not> verify_rstream_parameters cfg < 0" "rc_format cfg = Some fmt"
    "setup_shm_area env width (rstream_init cfg fmt) cfg = (0, s0)" "rs_shm s = rs_shm s0" "rs_format s = fmt"
    "rs_buffer_frames s = rc_buffer_frames cfg" "rs_cb_threshold s = rc_cb_threshold cfg"
    using assms(2) by (rule rstream_create_ok)
  obtain fmt' where v: "rc_format cfg = Some fmt'" "frame_rate fmt' \<le> 192000" "0 < rc_cb_threshold cfg"
    "rc_cb_threshold cfg \<le> rc_buffer_frames cfg" "rc_buffer_frames cfg < 10 * frame_rate fmt'" "0 \<le> num_channels fmt'" "num_channels fmt' \<le> 11"
    "format fmt' \<in> {SND_PCM_FORMAT_S16_LE, SND_PCM_FORMAT_S32_LE, SND_PCM_FORMAT_U8, SND_PCM_FORMAT_S24_LE}"
    using c(1) by (rule verify_rstream_parameters_ok)
  have [simp]: "fmt' = fmt" using c(2) v(1) by simp
  let ?fb = "format_sample_bytes width fmt * num_channels fmt"
  note fb = frame_bytes_bounds [OF assms(1) v(6-8), simplified]
  have pos: "0 < ?fb" "0 < rc_buffer_frames cfg" using fb(1) assms(4) v(3,4) c(5) by (auto intro: mult_pos_pos)
  have "rc_buffer_frames cfg * ?fb \<le> 1920000 * 44" using pos fb(4) v(2,5) by (intro mult_mono) auto
  then have used: "rc_buffer_frames cfg * ?fb < 2 ^ 30" "0 < rc_buffer_frames cfg * ?fb" using pos by auto
  then have u: "u32 (rc_buffer_frames cfg * ?fb) = rc_buffer_frames cfg * ?fb"
    "cras_shm_calculate_samples_size (rc_buffer_frames cfg * ?fb) = 2 * (rc_buffer_frames cfg * ?fb)"
    by (auto intro!: wrap_u_id samples_size_exact)
  have shm: "rs_shm s = created_shm ?fb (rc_buffer_frames cfg * ?fb) (2 * (rc_buffer_frames cfg * ?fb))
      (replicate (nat (2 * (rc_buffer_frames cfg * ?fb))) 0) [0, rc_buffer_frames cfg * ?fb]"
    using setup_shm_area_ok [OF c(3)] assms(3) c(4) u by (simp add: rstream_init_def fb(3))
  show "shm_config_ok (rs_shm s)" using pos used by (simp add: shm shm_config_ok_def created_shm_def)
  show "cras_shm_used_frames (rs_shm s) = rs_buffer_frames s" using pos by (auto simp: shm cras_shm_used_frames_def created_shm_def c(6))
  show "0 < rs_cb_threshold s" "rs_cb_threshold s \<le> rs_buffer_frames s" using v(3,4) c(6,7) by auto
  show "frame_bytes (config (rs_shm s)) = format_sample_bytes width (rs_format s) * num_channels (rs_format s)"
    by (simp add: shm created_shm_def c(5))
  show "used_size (config (rs_shm s)) = rs_buffer_frames s * frame_bytes (config (rs_shm s))" by (simp add: shm created_shm_def c(6))
qed


text \<open>Small streams to evaluate on: one channel of 8-bit samples at 4 kHz, with eight frames in each buffer.\<close>

definition example_width :: "int \<Rightarrow> int" where
  "example_width f = (if f = SND_PCM_FORMAT_U8 then 8 else if f = SND_PCM_FORMAT_S16_LE then 16 else 32)"

definition example_env :: rstream_env where
  "example_env = \<lparr>e_header_size = 200, e_header_fd = 8, e_samples_fd = 9, e_alloc_stream = True, e_alloc_shm = True, e_alloc_apm = True,
     e_map_header = 0, e_map_samples = 0, e_client_mem = replicate 8 0, e_aec_on_dsp = True, e_ns_on_dsp = True,
     e_agc_on_dsp = True, e_floop_dev = (\<lambda>i. False), e_now = zero_ts\<rparr>"

definition example_config :: cras_rstream_config where
  "example_config = \<lparr>rc_stream_id = 65537, rc_stream_type = 0, rc_client_type = 4, rc_direction = CRAS_STREAM_OUTPUT, rc_dev_idx = 0,
     rc_flags = 0, rc_effects = 0, rc_format = Some (cras_audio_format_create SND_PCM_FORMAT_U8 4000 1), rc_buffer_frames = 8,
     rc_cb_threshold = 5, rc_audio_fd = 7, rc_client_shm_fd = - 1, rc_client_shm_size = 0, rc_buffer_offsets = [0, 0], rc_client = 1\<rparr>"

definition client_shm_config :: cras_rstream_config where
  "client_shm_config = example_config\<lparr>rc_client_shm_fd := 6, rc_client_shm_size := 8\<rparr>"

definition no_channels_config :: cras_rstream_config where
  "no_channels_config = example_config\<lparr>rc_format := Some (cras_audio_format_create SND_PCM_FORMAT_U8 4000 0)\<rparr>"

lemma example_widths: "widths_ok example_width"
  by (simp add: widths_ok_def example_width_def pcm_formats)

lemmas create_eval = cras_rstream_create_def verify_rstream_parameters_def buffer_meets_size_limit_def setup_shm_area_def
  rstream_init_def samples_info_for_def cras_shm_info_init_def cras_shm_info_init_with_fd_def cras_audio_shm_create_def
  cras_rstream_config_is_client_shm_stream_def set_created_shm set_client_offsets cras_shm_calculate_samples_size_def
  stream_is_sidetone_def disallow_non_supported_dsp_effects_def should_honor_apm_effects_def rstream_consts pcm_formats
  APM_EFFECTS_def CRAS_STREAM_TYPE_SPEECH_RECOGNITION_def cras_stream_apm_get_effects_def CRAS_NUM_SHM_BUFFERS_def CRAS_CH_MAX_def
  example_env_def example_config_def example_width_def cras_audio_format_create_def wrap_u_def upt_rec Let_def

lemma example_env_ok: "env_ok example_env"
  by (simp add: env_ok_def example_env_def)

lemma example_created_for:
  fixes i c :: int
  defines "cfg \<equiv> example_config\<lparr>rc_stream_id := i, rc_client := c\<rparr>"
  shows "\<exists>cfg' s ev. cras_rstream_create example_env example_width cfg = (0, cfg', Some s, ev) \<and>
     rs_shm s = created_shm 1 8 16 (replicate 16 0) [0, 8] \<and> num_channels (rs_format s) = 1"
proof -
  have "verify_rstream_parameters cfg = 0" by (simp add: create_eval cfg_def)
  moreover have "rc_format cfg = Some (cras_audio_format_create SND_PCM_FORMAT_U8 4000 1)"
    "\<not> cras_rstream_config_is_client_shm_stream cfg" "rc_buffer_frames cfg = 8"
    by (simp_all add: cfg_def example_config_def cras_rstream_config_is_client_shm_stream_def)
  moreover have "u32 (u64 (example_width (format (cras_audio_format_create SND_PCM_FORMAT_U8 4000 1)) sdiv 8) *
      num_channels (cras_audio_format_create SND_PCM_FORMAT_U8 4000 1)) = 1"
    by (simp add: cras_audio_format_create_def example_width_def wrap_u_def sdiv_eq_div)
  moreover have "cras_shm_calculate_samples_size 8 = 16" "u32 8 = 8" "u32 (8 * 1) = 8" "nat 16 = 16"
    by (simp_all add: cras_shm_calculate_samples_size_def CRAS_NUM_SHM_BUFFERS_def wrap_u_def)
  ultimately have "\<exists>cfg' s ev. cras_rstream_create example_env example_width cfg = (0, cfg', Some s, ev) \<and>
      rs_format s = cras_audio_format_create SND_PCM_FORMAT_U8 4000 1 \<and> rs_shm s = created_shm 1 8 16 (replicate 16 0) [0, 8]"
    using rstream_create_own [OF example_env_ok, of cfg "cras_audio_format_create SND_PCM_FORMAT_U8 4000 1" example_width]
    by presburger
  then show ?thesis by (force simp: cras_audio_format_create_def)
qed

lemma example_created:
  "\<exists>cfg' s ev. cras_rstream_create example_env example_width example_config = (0, cfg', Some s, ev) \<and>
     rs_shm s = created_shm 1 8 16 (replicate 16 0) [0, 8] \<and> num_channels (rs_format s) = 1"
  using example_created_for [where i = "rc_stream_id example_config" and c = "rc_client example_config"] by simp


text \<open>C39. A stream in the client's own memory is not safe in that way. The creation checks that both
  buffers fit at the offsets the client asks for, so it accepts an area of one buffer, used for
  both; but when the client then moves an offset in the header, \<open>cras_shm_buff_for_idx\<close> falls back to
  the layout of two adjacent buffers, and the server reads past the end of the area.\<close>

theorem client_shm_fallback_overflow:
  "\<exists>cfg' s ev h p n. cras_rstream_create example_env example_width client_shm_config = (0, cfg', Some s, ev) \<and>
     samples_len (rs_shm s) = 8 \<and> header_typed h \<and>
     cras_shm_get_readable_frames ((rs_shm s)\<lparr>header := h\<rparr>) 0 = (Some p, n) \<and>
     samples_len (rs_shm s) \<le> p \<and> 0 < n"
proof -
  have "\<exists>cfg' s ev. cras_rstream_create example_env example_width client_shm_config = (0, cfg', Some s, ev) \<and>
     rs_shm s = created_shm 1 8 8 (replicate 8 0) [0, 0]"
    by (simp add: create_eval client_shm_config_def sdiv_eq_div)
  then obtain cfg' s ev where s: "cras_rstream_create example_env example_width client_shm_config = (0, cfg', Some s, ev)"
    "rs_shm s = created_shm 1 8 8 (replicate 8 0) [0, 0]" by blast
  define h where "h = zero_header\<lparr>read_buf_idx := 1, write_offset := [0, 7], buffer_offset := [0, 1]\<rparr>"
  have "header_typed h" by (simp add: h_def zero_header_def header_typed_def in_u_def)
  moreover have "cras_shm_get_readable_frames ((rs_shm s)\<lparr>header := h\<rparr>) 0 = (Some 8, 7)"
    by (simp add: s(2) created_shm_def shm_eval h_def zero_header_def)
  moreover have "samples_len (rs_shm s) = 8" by (simp add: s(2) created_shm_def)
  ultimately show ?thesis using s(1)
    by (intro exI [of _ cfg'] exI [of _ s] exI [of _ ev] exI [of _ h] exI [of _ 8] exI [of _ 7]) auto
qed

text \<open>The check of the channel count compares an unsigned value with 0 and so accepts a format
  without channels: the stream gets a frame size of 0, by which the queries of the shared area divide.\<close>

lemma no_channels_accepted:
  "\<exists>cfg' s ev. cras_rstream_create example_env example_width no_channels_config = (0, cfg', Some s, ev) \<and>
     cras_audio_format_valid (rs_format s) \<and> frame_bytes (config (rs_shm s)) = 0"
proof -
  have "verify_rstream_parameters no_channels_config = 0" by (simp add: create_eval no_channels_config_def)
  moreover have "rc_format no_channels_config = Some (cras_audio_format_create SND_PCM_FORMAT_U8 4000 0)"
    "\<not> cras_rstream_config_is_client_shm_stream no_channels_config"
    by (simp_all add: example_config_def no_channels_config_def cras_rstream_config_is_client_shm_stream_def)
  moreover have "cras_audio_format_valid (cras_audio_format_create SND_PCM_FORMAT_U8 4000 0)"
    by (rule create_valid) (simp_all add: in_s_def)
  ultimately show ?thesis
    using rstream_create_own [OF example_env_ok, of no_channels_config _ example_width]
    by (fastforce simp: created_shm_def cras_audio_format_create_def wrap_u_def)
qed

section \<open>Playback\<close>

text \<open>The offset and the device pointer that the table holds for a device.\<close>

abbreviation dev_table :: "cras_rstream \<Rightarrow> share_map" where
  "dev_table s \<equiv> slots_map (bs_wr_idx (rs_buf_state s))"

lemma new_write_point_table:
  assumes "share_wf mix" "buffer_share_get_new_write_point mix = (w, mix')"
  shows "share_wf mix'" "0 \<le> w" "slots_map (bs_wr_idx mix') = share_sub w (slots_map (bs_wr_idx mix))"
    "w \<noteq> 0 \<Longrightarrow> \<exists>x d. slots_map (bs_wr_idx mix) x = Some (w, d)"
    "slots_map (bs_wr_idx mix) x = Some (off, d) \<Longrightarrow> w \<le> off"
proof -
  show sub: "slots_map (bs_wr_idx mix') = share_sub w (slots_map (bs_wr_idx mix))"
    using get_new_write_point_refines [OF assms(1)] assms(2) by (auto simp: share_abs_def)
  show "share_wf mix'" "0 \<le> w" using new_write_point [OF assms] by auto
  show "slots_map (bs_wr_idx mix) x = Some (off, d) \<Longrightarrow> w \<le> off" using new_write_point [OF assms] by (auto simp: share_abs_def)
  show "\<exists>x d. slots_map (bs_wr_idx mix) x = Some (w, d)" if "w \<noteq> 0"
    using new_write_point [OF assms] that by (fastforce simp: share_abs_def sub share_sub_def)
qed


text \<open>Two devices, one frame apart, on the double buffer of theory \<open>Audio_Shm\<close>.\<close>

definition played_stream :: cras_rstream where
  "played_stream = (rstream_init example_config (cras_audio_format_create SND_PCM_FORMAT_S16_LE 48000 1))
     \<lparr>rs_shm := shm_full_example, rs_buf_state := \<lparr>bs_buf_sz = 4, bs_wr_idx =
       [\<lparr>io_used = 1, io_id = 5, io_offset = 2, io_data = 55\<rparr>, \<lparr>io_used = 1, io_id = 6, io_offset = 1, io_data = 66\<rparr>]\<rparr>\<rparr>"


text \<open>\<open>cras_rstream_update_queued_frames\<close> loses the error of \<open>cras_shm_get_frames\<close>: \<open>MIN\<close> compares it as an
  unsigned number, so a queue that does not hold a whole number of frames is taken for a full one,
  and the test for a negative level in \<open>dev_stream_playback_frames\<close> cannot see the error.\<close>

lemma torn_level_reported_full:
  assumes "cras_shm_get_frames (rs_shm s) = - EIO" "0 \<le> rs_buffer_frames s" "rs_buffer_frames s < 2 ^ 31"
  shows "rs_queued_frames (cras_rstream_update_queued_frames s) = rs_buffer_frames s"
proof -
  have "u64 (- 5) = 18446744073709551611" by (simp add: wrap_u_def)
  moreover have "s32 (rs_buffer_frames s) = rs_buffer_frames s" using assms(2,3) by (intro wrap_s_id) auto
  ultimately show ?thesis using assms by (simp add: cras_rstream_update_queued_frames_def EIO_def)
qed

section \<open>The attached devices\<close>

text \<open>A device index is positive and fits in an \<open>int\<close>, as those of \<open>cras_iodev_list_add\<close> do; \<open>NO_DEVICE\<close> is none.\<close>

definition dev_index_ok :: "int \<Rightarrow> bool" where
  "dev_index_ok x \<longleftrightarrow> 0 < x \<and> x < 2 ^ 31"

definition devs_inv :: "cras_rstream \<Rightarrow> bool" where
  "devs_inv s \<longleftrightarrow> share_wf (rs_buf_state s) \<and> (\<forall>x\<in>dom (dev_table s). dev_index_ok x) \<and>
     rs_num_attached_devs s = int (card (dom (dev_table s))) \<and>
     (if dom (dev_table s) = {} then md_dev_id (rs_main_dev s) = NO_DEVICE
      else md_dev_id (rs_main_dev s) \<in> dom (dev_table s))"

lemma dev_index_wraps: "dev_index_ok x \<Longrightarrow> s32 x = x" "dev_index_ok x \<Longrightarrow> u32 x = x" "dev_index_ok x \<Longrightarrow> x \<noteq> NO_DEVICE"
  by (auto simp: dev_index_ok_def NO_DEVICE_def intro!: wrap_s_id wrap_u_id)

lemma dom_slots_map: "dom (slots_map xs) = io_id ` {t \<in> set xs. io_used t \<noteq> 0}"
  unfolding dom_def slots_map_None_iff by auto

lemma finite_slots_map [simp]: "finite (dom (slots_map xs))"
  by (simp add: dom_slots_map)

lemma card_devices:
  assumes "\<forall>x\<in>dom (slots_map xs). dev_index_ok x"
  shows "int (card (dom (slots_map xs))) < 2 ^ 31"
proof -
  have "dom (slots_map xs) \<subseteq> {1..<2 ^ 31}"
  proof
    fix x assume "x \<in> dom (slots_map xs)"
    then have "0 < x \<and> x < 2 ^ 31" using assms unfolding dev_index_ok_def by blast
    then show "x \<in> {1..<2 ^ 31}" by simp
  qed
  from card_mono [OF _ this] show ?thesis by simp
qed

lemma add_id_table:
  assumes "share_wf mix"
  shows "\<exists>rc bs. buffer_share_add_id junk mix x d = Some (rc, bs) \<and> share_wf bs \<and>
    (if x \<in> dom (slots_map (bs_wr_idx mix)) then rc \<noteq> 0 \<and> slots_map (bs_wr_idx bs) = slots_map (bs_wr_idx mix)
     else rc = 0 \<and> slots_map (bs_wr_idx bs) = (slots_map (bs_wr_idx mix))(x \<mapsto> (0, d)))"
  using add_id_refines [OF assms, of junk x d]
  by (auto simp: share_abs_def errno_defs dom_def split: option.splits if_splits)

lemma rm_id_table:
  assumes "share_wf mix" "buffer_share_rm_id mix x = (rc, bs)"
  shows "share_wf bs" "slots_map (bs_wr_idx bs) = (slots_map (bs_wr_idx mix))(x := None)"
    "rc = 0 \<longleftrightarrow> x \<in> dom (slots_map (bs_wr_idx mix))"
  using rm_id_refines [OF assms(1), of x] assms(2) by (auto simp: share_abs_def errno_defs dom_def split: if_splits)

lemma find_used_table:
  "case List.find (\<lambda>t. io_used t \<noteq> 0) xs of None \<Rightarrow> dom (slots_map xs) = {} | Some t \<Rightarrow> io_id t \<in> dom (slots_map xs)"
  by (auto simp: dom_slots_map find_None_iff find_Some_iff split: option.split)

lemma dev_attach_inv:
  assumes "devs_inv s" "dev_index_ok x"
  shows "\<exists>s'. cras_rstream_dev_attach junk s x p = Some s' \<and> devs_inv s' \<and> dom (dev_table s') = insert x (dom (dev_table s))"
proof -
  have wf: "share_wf (rs_buf_state s)" using assms(1) by (simp add: devs_inv_def)
  obtain rc bs where a: "buffer_share_add_id junk (rs_buf_state s) x p = Some (rc, bs)" "share_wf bs"
    "if x \<in> dom (dev_table s) then rc \<noteq> 0 \<and> slots_map (bs_wr_idx bs) = dev_table s
     else rc = 0 \<and> slots_map (bs_wr_idx bs) = (dev_table s)(x \<mapsto> (0, p))"
    using add_id_table [OF wf] by blast
  note x = dev_index_wraps [OF assms(2)]
  have dom: "dom (slots_map (bs_wr_idx bs)) = insert x (dom (dev_table s))" using a(3) by (auto split: if_splits)
  have ok: "\<forall>y\<in>insert x (dom (dev_table s)). dev_index_ok y" using assms by (auto simp: devs_inv_def)
  then have n: "s32 (int (card (insert x (dom (dev_table s))))) = int (card (insert x (dom (dev_table s))))"
    using card_devices [of "bs_wr_idx bs"] dom by (intro wrap_s_id) auto
  define s' where "s' = the (cras_rstream_dev_attach junk s x p)"
  have "cras_rstream_dev_attach junk s x p = Some s'" by (simp add: s'_def cras_rstream_dev_attach_def a(1) Let_def)
  moreover have "rs_buf_state s' = bs" by (simp add: s'_def cras_rstream_dev_attach_def a(1) Let_def)
  moreover have "rs_num_attached_devs s' = (if rc = 0 then s32 (int (card (dom (dev_table s))) + 1) else int (card (dom (dev_table s))))"
    using assms(1) by (auto simp: s'_def cras_rstream_dev_attach_def a(1) Let_def devs_inv_def)
  then have "rs_num_attached_devs s' = int (card (insert x (dom (dev_table s))))"
    using a(3) n by (cases "x \<in> dom (dev_table s)") (auto simp: insert_absorb add.commute)
  moreover have "md_dev_id (rs_main_dev s') \<in> insert x (dom (dev_table s))"
    using assms(1) x by (auto simp: s'_def cras_rstream_dev_attach_def a(1) Let_def devs_inv_def dev_index_ok_def split: if_splits)
  ultimately show ?thesis using a(2) dom ok unfolding devs_inv_def by (intro exI [of _ s']) auto
qed

lemma dev_detach_inv:
  assumes "devs_inv s" "dev_index_ok x"
  shows "devs_inv (cras_rstream_dev_detach s x)" "dom (dev_table (cras_rstream_dev_detach s x)) = dom (dev_table s) - {x}"
proof -
  have wf: "share_wf (rs_buf_state s)" using assms(1) by (simp add: devs_inv_def)
  obtain rc bs where rm: "buffer_share_rm_id (rs_buf_state s) x = (rc, bs)" by fastforce
  note r = rm_id_table [OF wf rm]
  let ?s = "cras_rstream_dev_detach s x"
  have bs: "rs_buf_state ?s = bs" by (simp add: cras_rstream_dev_detach_def rm Let_def)
  have dom: "dom (slots_map (bs_wr_idx bs)) = dom (dev_table s) - {x}" using r(2) by auto
  then show "dom (dev_table ?s) = dom (dev_table s) - {x}" using bs by simp
  have ok: "\<forall>y\<in>dom (dev_table s). dev_index_ok y" using assms(1) by (simp add: devs_inv_def)
  have c: "int (card (dom (dev_table s))) < 2 ^ 31" using card_devices ok by blast
  have "rs_num_attached_devs ?s = (if rc = 0 then s32 (int (card (dom (dev_table s))) - 1) else int (card (dom (dev_table s))))"
    using assms(1) by (auto simp: cras_rstream_dev_detach_def rm Let_def devs_inv_def)
  moreover have "s32 (int (card (dom (dev_table s))) - 1) = int (card (dom (dev_table s) - {x}))" if "x \<in> dom (dev_table s)"
  proof -
    have "0 < card (dom (dev_table s))" using that by (auto simp: card_gt_0_iff)
    then show ?thesis using that c by (subst wrap_s_id) (auto simp: card_Diff_singleton of_nat_diff)
  qed
  ultimately have num: "rs_num_attached_devs ?s = int (card (dom (dev_table s) - {x}))" using r(3) by auto
  have id: "s32 (io_id t) = io_id t" if "io_id t \<in> dom (slots_map (bs_wr_idx bs))" for t
    using ok that dom by (intro dev_index_wraps) blast
  have u: "u32 (md_dev_id (rs_main_dev s)) = md_dev_id (rs_main_dev s)"
    using assms(1) ok dev_index_wraps(2) by (cases "dom (dev_table s) = {}") (auto simp: devs_inv_def NO_DEVICE_def wrap_u_def)
  have "if dom (dev_table s) - {x} = {} then md_dev_id (rs_main_dev ?s) = NO_DEVICE
      else md_dev_id (rs_main_dev ?s) \<in> dom (dev_table s) - {x}"
  proof (cases "md_dev_id (rs_main_dev s) = x")
    case True
    then have "md_dev_id (rs_main_dev ?s) = (case List.find (\<lambda>t. io_used t \<noteq> 0) (bs_wr_idx bs) of None \<Rightarrow> NO_DEVICE | Some t \<Rightarrow> s32 (io_id t))"
      using u by (simp add: cras_rstream_dev_detach_def rm Let_def split: option.splits)
    moreover have "case List.find (\<lambda>t. io_used t \<noteq> 0) (bs_wr_idx bs) of None \<Rightarrow> dom (dev_table s) - {x} = {}
        | Some t \<Rightarrow> s32 (io_id t) = io_id t \<and> io_id t \<in> dom (dev_table s) - {x}"
      using find_used_table [of "bs_wr_idx bs"] id
      by (cases "List.find (\<lambda>t. io_used t \<noteq> 0) (bs_wr_idx bs)") (simp_all only: dom option.case, blast)
    ultimately show ?thesis by (cases "List.find (\<lambda>t. io_used t \<noteq> 0) (bs_wr_idx bs)") auto
  next
    case False
    then have "md_dev_id (rs_main_dev ?s) = md_dev_id (rs_main_dev s)"
      using u by (simp add: cras_rstream_dev_detach_def rm Let_def)
    then show ?thesis using assms(1) False by (auto simp: devs_inv_def split: if_splits)
  qed
  then show "devs_inv ?s" using r(1) ok num unfolding devs_inv_def bs dom by blast
qed

text \<open>What the audio thread does with the devices of a stream.\<close>

datatype dev_op =
    DevAttach "nat \<Rightarrow> id_offset" int int
  | DevDetach int
  | DevOffsetUpdate int int
  | InputWritePointer
  | OutputReadPointer

fun dev_step :: "dev_op \<Rightarrow> cras_rstream \<Rightarrow> cras_rstream option" where
  "dev_step (DevAttach junk x p) s = cras_rstream_dev_attach junk s x p"
| "dev_step (DevDetach x) s = Some (cras_rstream_dev_detach s x)"
| "dev_step (DevOffsetUpdate frames x) s = Some (cras_rstream_dev_offset_update s frames x)"
| "dev_step InputWritePointer s = Some (cras_rstream_update_input_write_pointer s)"
| "dev_step OutputReadPointer s = Some (cras_rstream_update_output_read_pointer s)"

fun dev_run :: "dev_op list \<Rightarrow> cras_rstream \<Rightarrow> cras_rstream option" where
  "dev_run [] s = Some s"
| "dev_run (x # xs) s = Option.bind (dev_step x s) (dev_run xs)"

fun dev_op_ok :: "dev_op \<Rightarrow> bool" where
  "dev_op_ok (DevAttach junk x p) = dev_index_ok x"
| "dev_op_ok (DevDetach x) = dev_index_ok x"
| "dev_op_ok _ = True"

text \<open>The devices that are attached after a run, as a set.\<close>

fun attached_after :: "dev_op list \<Rightarrow> int set \<Rightarrow> int set" where
  "attached_after [] D = D"
| "attached_after (DevAttach junk x p # xs) D = attached_after xs (insert x D)"
| "attached_after (DevDetach x # xs) D = attached_after xs (D - {x})"
| "attached_after (_ # xs) D = attached_after xs D"

lemma devs_inv_table:
  assumes "devs_inv s" "rs_num_attached_devs s' = rs_num_attached_devs s" "rs_main_dev s' = rs_main_dev s"
    "share_wf (rs_buf_state s')" "dom (dev_table s') = dom (dev_table s)"
  shows "devs_inv s'"
  using assms unfolding devs_inv_def by simp

lemma offset_update_table:
  assumes "share_wf mix"
  shows "share_wf (snd (buffer_share_offset_update mix x n))"
    "dom (slots_map (bs_wr_idx (snd (buffer_share_offset_update mix x n)))) = dom (slots_map (bs_wr_idx mix))"
proof -
  show "share_wf (snd (buffer_share_offset_update mix x n))"
    using offset_update_refines [OF assms, of x n] by (simp split: prod.splits)
  have "slots_map (bs_wr_idx (snd (buffer_share_offset_update mix x n))) =
      (case slots_map (bs_wr_idx mix) x of None \<Rightarrow> slots_map (bs_wr_idx mix)
       | Some (off, d) \<Rightarrow> (slots_map (bs_wr_idx mix))(x \<mapsto> (u32 (off + n), d)))"
    using offset_update_refines [OF assms, of x n] by (auto simp: share_abs_def split: prod.splits option.splits)
  then show "dom (slots_map (bs_wr_idx (snd (buffer_share_offset_update mix x n)))) = dom (slots_map (bs_wr_idx mix))"
    by (auto split: option.splits)
qed

lemma dev_step_inv:
  assumes "devs_inv s" "dev_op_ok x"
  shows "\<exists>s'. dev_step x s = Some s' \<and> devs_inv s' \<and> dom (dev_table s') = attached_after [x] (dom (dev_table s))"
proof -
  have wf: "share_wf (rs_buf_state s)" using assms(1) by (simp add: devs_inv_def)
  obtain w bs where bs: "buffer_share_get_new_write_point (rs_buf_state s) = (w, bs)" by fastforce
  have p: "share_wf bs" "dom (slots_map (bs_wr_idx bs)) = dom (dev_table s)"
    using new_write_point_table(1,3) [OF wf bs] by (auto simp: share_sub_def)
  show ?thesis
  proof (cases x)
    case (DevAttach junk y p)
    then show ?thesis using dev_attach_inv [OF assms(1)] assms(2) by simp
  next
    case (DevDetach y)
    then show ?thesis using dev_detach_inv [OF assms(1)] assms(2) by simp
  next
    case (DevOffsetUpdate n y)
    then show ?thesis using offset_update_table [OF wf, of y n]
      by (simp add: cras_rstream_dev_offset_update_def devs_inv_table [OF assms(1)])
  next
    case InputWritePointer
    then show ?thesis using p by (simp add: cras_rstream_update_input_write_pointer_def bs devs_inv_table [OF assms(1)])
  next
    case OutputReadPointer
    then show ?thesis using p by (simp add: cras_rstream_update_output_read_pointer_def bs devs_inv_table [OF assms(1)])
  qed
qed

lemma dev_run_inv:
  "devs_inv s \<Longrightarrow> list_all dev_op_ok ops \<Longrightarrow>
   \<exists>s'. dev_run ops s = Some s' \<and> devs_inv s' \<and> dom (dev_table s') = attached_after ops (dom (dev_table s))"
proof (induction ops arbitrary: s)
  case (Cons x ops)
  then obtain s1 where s1: "dev_step x s = Some s1" "devs_inv s1" "dom (dev_table s1) = attached_after [x] (dom (dev_table s))"
    using dev_step_inv [of s x] by auto
  moreover have "attached_after (x # ops) D = attached_after ops (attached_after [x] D)" for D by (cases x) auto
  ultimately show ?case using Cons.IH [of s1] Cons.prems(2) by auto
qed simp

lemma created_devs_inv:
  assumes "cras_rstream_create env width cfg = (rc, cfg', Some s, ev)"
  shows "devs_inv s \<and> dom (dev_table s) = {}"
proof -
  obtain fmt s0 where c: "\<not> verify_rstream_parameters cfg < 0" "rs_buf_state s = buffer_share_create (u32 (rc_buffer_frames cfg))"
    "rs_num_attached_devs s = 0" "rs_main_dev s = \<lparr>md_dev_id = NO_DEVICE, md_dev_ptr = 0\<rparr>"
    using assms by (rule rstream_create_ok)
  obtain fmt' where "rc_format cfg = Some fmt'" "frame_rate fmt' \<le> 192000" "0 < rc_cb_threshold cfg"
    "rc_cb_threshold cfg \<le> rc_buffer_frames cfg" "rc_buffer_frames cfg < 10 * frame_rate fmt'"
    using c(1) by (rule verify_rstream_parameters_ok)
  then have "0 \<le> rc_buffer_frames cfg" "rc_buffer_frames cfg < 2 ^ 32 - 1" by auto
  then have "share_wf (rs_buf_state s)" using wrap_u_id [of "rc_buffer_frames cfg" 32]
    by (simp add: c(2) buffer_share_create_def share_defs INITIAL_ID_SIZE_def numeral_3_eq_3)
  moreover have "dom (dev_table s) = {}" by (simp add: c(2) buffer_share_create_def dom_slots_map)
  ultimately show ?thesis using c(3,4) by (simp add: devs_inv_def)
qed

text \<open>C20. From its creation on a stream knows its devices: over any sequence of attaching, detaching,
  playing and releasing, its table holds exactly the devices that are attached, \<open>num_attached_devs\<close> is
  their number, and the main device, by which the stream is clocked, is one of them whenever there
  is one, and none otherwise.\<close>

theorem stream_devices_exact:
  assumes "cras_rstream_create env width cfg = (rc, cfg', Some s, ev)" "list_all dev_op_ok ops"
  shows "\<exists>s'. dev_run ops s = Some s' \<and> dom (dev_table s') = attached_after ops {} \<and>
    rs_num_attached_devs s' = int (card (attached_after ops {})) \<and>
    (if attached_after ops {} = {} then md_dev_id (rs_main_dev s') = NO_DEVICE
     else md_dev_id (rs_main_dev s') \<in> attached_after ops {})"
proof -
  have inv: "devs_inv s" "dom (dev_table s) = {}" using created_devs_inv [OF assms(1)] by simp_all
  from dev_run_inv [OF inv(1) assms(2)] obtain s' where s': "dev_run ops s = Some s'" "devs_inv s'" "dom (dev_table s') = attached_after ops {}"
    unfolding inv(2) by blast
  from s'(1,3) s'(2) [unfolded devs_inv_def s'(3)] show ?thesis by blast
qed

theorem stream_devices_exact_witness:
  "\<exists>cfg' s ev s'. cras_rstream_create example_env example_width example_config = (0, cfg', Some s, ev) \<and>
     dev_run [DevAttach junk_slot 5 55, DevAttach junk_slot 6 66, DevOffsetUpdate 3 6, DevAttach junk_slot 6 66,
       OutputReadPointer, DevDetach 5] s = Some s' \<and> rs_num_attached_devs s' = 1 \<and> md_dev_id (rs_main_dev s') = 6"
proof -
  let ?ops = "[DevAttach junk_slot 5 55, DevAttach junk_slot 6 66, DevOffsetUpdate 3 6, DevAttach junk_slot 6 66, OutputReadPointer, DevDetach 5]"
  obtain cfg' s ev where s: "cras_rstream_create example_env example_width example_config = (0, cfg', Some s, ev)"
    using example_created by blast
  have a: "attached_after ?ops {} = {6}" by auto
  show ?thesis using stream_devices_exact [OF s, of ?ops] s unfolding a by (auto simp: dev_index_ok_def)
qed

end
