(* ===== verification/Stream_List.thy ===== *)
theory Stream_List
  imports Rstream Cras_Tm "HOL-Library.Multiset"
begin

text \<open>
  The list of streams (\<open>cras/src/server/stream_list.c\<close>). A removed stream that still has samples to play
  waits in a second list; a timer of theory \<open>Cras_Tm\<close> calls \<open>delete_streams\<close> until it is drained and can
  be destroyed. The theory shows that no stream is lost or destroyed twice on the way, and that
  every waiting stream has a timer.

  A stream is its address and the stream of theory \<open>Rstream\<close>; of the latter the list reads only what does
  not change after the creation. The function pointers of \<open>struct stream_list\<close> are the record
  \<open>stream_cbs\<close>, functions on the rest of the server's state (type \<open>'w\<close>), which do not call back into the
  list. \<open>sl_created\<close> and \<open>sl_destroyed\<close> record the streams for which the create and destroy callbacks were
  called; they are not in the code. \<open>alloc\<close> is the address \<open>calloc\<close> returns for a timer.
\<close>

section \<open>Model\<close>

type_synonym stream_obj = "nat \<times> cras_rstream"

datatype timer_cb = DeleteStreams | OtherTimer nat

type_synonym timers = "timer_cb cras_timer list"

text \<open>A creation callback that fails gives its error code.\<close>

record 'w stream_cbs =
  stream_added_cb :: "stream_obj \<Rightarrow> 'w \<Rightarrow> int \<times> 'w"
  stream_removed_cb :: "stream_obj \<Rightarrow> 'w \<Rightarrow> int \<times> 'w"
  stream_create_cb :: "cras_rstream_config \<Rightarrow> 'w \<Rightarrow> (int + stream_obj) \<times> cras_rstream_config \<times> 'w"
  stream_destroy_cb :: "stream_obj \<Rightarrow> 'w \<Rightarrow> 'w"
  list_changed_cb :: "stream_obj list \<Rightarrow> 'w \<Rightarrow> 'w"

record 'w stream_list =
  sl_streams :: "stream_obj list"
  sl_streams_to_delete :: "stream_obj list"
  sl_drain_timer :: "nat option"
  sl_world :: 'w
  sl_created :: "stream_obj list"
  sl_destroyed :: "stream_obj list"

text \<open>The loop over the streams to delete: those that remain, the longest delay, and those destroyed.\<close>

fun delete_loop :: "'w stream_cbs \<Rightarrow> stream_obj list \<Rightarrow> int \<Rightarrow> 'w \<Rightarrow> stream_obj list \<times> int \<times> stream_obj list \<times> 'w" where
  "delete_loop cbs [] d w = ([], d, [], w)"
| "delete_loop cbs (s # ss) d w =
     (let (drain_delay, w1) = stream_removed_cb cbs s w in
      if drain_delay \<noteq> 0 then
        let (rest, d', gone, w2) = delete_loop cbs ss (max d drain_delay) w1 in (s # rest, d', gone, w2)
      else
        let (rest, d', gone, w2) = delete_loop cbs ss d (stream_destroy_cb cbs s w1) in (rest, d', s # gone, w2))"

definition delete_streams ::
  "'w stream_cbs \<Rightarrow> (timers \<Rightarrow> nat option) \<Rightarrow> timespec \<Rightarrow> 'w stream_list \<times> timers \<Rightarrow> 'w stream_list \<times> timers" where
  "delete_streams cbs alloc now st =
     (let (list, timers) = st;
          (rest, d, gone, w) = delete_loop cbs (sl_streams_to_delete list) 0 (sl_world list);
          list = list\<lparr>sl_streams_to_delete := rest, sl_world := w, sl_destroyed := sl_destroyed list @ gone, sl_drain_timer := None\<rparr>
      in if d \<noteq> 0
         then let (tm, timers) = cras_tm_create_timer timers now (alloc timers) (u32 (max d 10)) DeleteStreams
              in (list\<lparr>sl_drain_timer := tm\<rparr>, timers)
         else (list, timers))"

definition stream_list_create :: "'w \<Rightarrow> 'w stream_list" where
  "stream_list_create w = \<lparr>sl_streams = [], sl_streams_to_delete = [], sl_drain_timer = None, sl_world = w,
     sl_created = [], sl_destroyed = []\<rparr>"

definition stream_list_get :: "'w stream_list \<Rightarrow> stream_obj list" where
  "stream_list_get list = sl_streams list"

text \<open>\<open>DL_INSERT\<close> before the first stream that has no more channels than the new one.\<close>

fun insert_stream :: "stream_obj \<Rightarrow> stream_obj list \<Rightarrow> stream_obj list" where
  "insert_stream s [] = [s]"
| "insert_stream s (t # ts) =
     (if num_channels (rs_format (snd s)) \<ge> num_channels (rs_format (snd t)) then s # t # ts else t # insert_stream s ts)"

definition dl_delete :: "stream_obj list \<Rightarrow> stream_obj \<Rightarrow> stream_obj list" where
  "dl_delete xs s = filter (\<lambda>x. fst x \<noteq> fst s) xs"

definition stream_list_add ::
  "'w stream_cbs \<Rightarrow> 'w stream_list \<Rightarrow> cras_rstream_config \<Rightarrow> int \<times> cras_rstream_config \<times> stream_obj option \<times> 'w stream_list" where
  "stream_list_add cbs list cfg =
     (case stream_create_cb cbs cfg (sl_world list) of
        (Inl rc, cfg, w) \<Rightarrow> (rc, cfg, None, list\<lparr>sl_world := w\<rparr>)
      | (Inr s, cfg, w) \<Rightarrow>
          let list = list\<lparr>sl_streams := insert_stream s (sl_streams list), sl_created := sl_created list @ [s]\<rparr>;
              (rc, w) = stream_added_cb cbs s w;
              list = list\<lparr>sl_world := w\<rparr>;
              list = (if rc \<noteq> 0
                      then list\<lparr>sl_streams := dl_delete (sl_streams list) s, sl_world := stream_destroy_cb cbs s w,
                                sl_destroyed := sl_destroyed list @ [s]\<rparr>
                      else list)
          in (rc, cfg, Some s, list\<lparr>sl_world := list_changed_cb cbs (sl_streams list) (sl_world list)\<rparr>))"

text \<open>Cancelling the drain timer, if there is one, then deleting.\<close>

definition restart_drain ::
  "'w stream_cbs \<Rightarrow> (timers \<Rightarrow> nat option) \<Rightarrow> timespec \<Rightarrow> 'w stream_list \<times> timers \<Rightarrow> 'w stream_list \<times> timers" where
  "restart_drain cbs alloc now st =
     (let (list, timers) = st in
      delete_streams cbs alloc now
        (case sl_drain_timer list of
           None \<Rightarrow> (list, timers)
         | Some p \<Rightarrow> (list\<lparr>sl_drain_timer := None\<rparr>, cras_tm_cancel_timer timers p)))"

definition stream_list_rm ::
  "'w stream_cbs \<Rightarrow> (timers \<Rightarrow> nat option) \<Rightarrow> timespec \<Rightarrow> 'w stream_list \<times> timers \<Rightarrow> int \<Rightarrow> int \<times> 'w stream_list \<times> timers" where
  "stream_list_rm cbs alloc now st i =
     (let (list, timers) = st in
      case List.find (\<lambda>s. rs_stream_id (snd s) = i) (sl_streams list) of
        None \<Rightarrow> (- EINVAL, st)
      | Some s \<Rightarrow>
          let list = list\<lparr>sl_streams := dl_delete (sl_streams list) s\<rparr>;
              list = list\<lparr>sl_world := list_changed_cb cbs (sl_streams list) (sl_world list)\<rparr>;
              list = list\<lparr>sl_streams_to_delete := sl_streams_to_delete list @ [s]\<rparr>
          in (0, restart_drain cbs alloc now (list, timers)))"

definition stream_list_direct_rm :: "'w stream_cbs \<Rightarrow> 'w stream_list \<Rightarrow> int \<Rightarrow> int \<times> 'w stream_list" where
  "stream_list_direct_rm cbs list i =
     (case List.find (\<lambda>s. rs_stream_id (snd s) = i) (sl_streams list) of
        None \<Rightarrow> (- EINVAL, list)
      | Some s \<Rightarrow>
          if rs_direction (snd s) \<noteq> CRAS_STREAM_INPUT then (- EINVAL, list)
          else
            let list = list\<lparr>sl_streams := dl_delete (sl_streams list) s\<rparr>;
                w = list_changed_cb cbs (sl_streams list) (sl_world list);
                w = stream_destroy_cb cbs s (snd (stream_removed_cb cbs s w))
            in (0, list\<lparr>sl_world := w, sl_destroyed := sl_destroyed list @ [s]\<rparr>))"

definition stream_list_rm_all_client_streams ::
  "'w stream_cbs \<Rightarrow> (timers \<Rightarrow> nat option) \<Rightarrow> timespec \<Rightarrow> 'w stream_list \<times> timers \<Rightarrow> int \<Rightarrow> int \<times> 'w stream_list \<times> timers" where
  "stream_list_rm_all_client_streams cbs alloc now st client =
     (let (list, timers) = st;
          gone = filter (\<lambda>s. rs_client (snd s) = client) (sl_streams list);
          list = list\<lparr>sl_streams := filter (\<lambda>s. rs_client (snd s) \<noteq> client) (sl_streams list),
                      sl_streams_to_delete := sl_streams_to_delete list @ gone\<rparr>;
          list = list\<lparr>sl_world := list_changed_cb cbs (sl_streams list) (sl_world list)\<rparr>
      in (0, restart_drain cbs alloc now (list, timers)))"

definition stream_list_get_num_output :: "'w stream_list \<Rightarrow> int" where
  "stream_list_get_num_output list =
     foldl (\<lambda>n s. if rs_direction (snd s) = CRAS_STREAM_OUTPUT then n + 1 else n) 0 (sl_streams list)"

text \<open>The callback of a timer: \<open>delete_streams\<close>, or one of another component, which leaves the list alone.\<close>

definition run_timer ::
  "'w stream_cbs \<Rightarrow> (timers \<Rightarrow> nat option) \<Rightarrow> (nat \<Rightarrow> 'w \<Rightarrow> 'w) \<Rightarrow> timespec \<Rightarrow> timer_cb cras_timer \<Rightarrow>
   'w stream_list \<times> timers \<Rightarrow> 'w stream_list \<times> timers" where
  "run_timer cbs alloc other now t st =
     (case t_data t of
        DeleteStreams \<Rightarrow> delete_streams cbs alloc now st
      | OtherTimer k \<Rightarrow> ((fst st)\<lparr>sl_world := other k (sl_world (fst st))\<rparr>, snd st))"

section \<open>Invariants\<close>

abbreviation stream_channels :: "stream_obj \<Rightarrow> int" where
  "stream_channels s \<equiv> num_channels (rs_format (snd s))"

text \<open>The two lists share no stream, the first is in descending order of channels, and every stream that was
  created is in one of them or was destroyed, once.\<close>

definition streams_wf :: "'w stream_list \<Rightarrow> bool" where
  "streams_wf list \<longleftrightarrow>
     distinct (map fst (sl_streams list @ sl_streams_to_delete list)) \<and>
     sorted_wrt (\<lambda>s t. stream_channels t \<le> stream_channels s) (sl_streams list) \<and>
     mset (sl_created list) = mset (sl_streams list @ sl_streams_to_delete list @ sl_destroyed list)"

definition drain_timers :: "timers \<Rightarrow> nat list" where
  "drain_timers timers = map t_ptr (filter (\<lambda>t. t_data t = DeleteStreams) timers)"

definition timers_wf :: "'w stream_list \<Rightarrow> timers \<Rightarrow> bool" where
  "timers_wf list timers \<longleftrightarrow>
     distinct (map t_ptr timers) \<and> drain_timers timers = (case sl_drain_timer list of None \<Rightarrow> [] | Some p \<Rightarrow> [p]) \<and>
     (sl_streams_to_delete list \<noteq> [] \<longrightarrow> sl_drain_timer list \<noteq> None)"

text \<open>The delay that a removal reports is not negative, and allocation gives a fresh address.\<close>

definition cbs_ok :: "'w stream_cbs \<Rightarrow> bool" where
  "cbs_ok cbs \<longleftrightarrow> (\<forall>s w. 0 \<le> fst (stream_removed_cb cbs s w) \<and> fst (stream_removed_cb cbs s w) < 2 ^ 31)"

definition alloc_ok :: "(timers \<Rightarrow> nat option) \<Rightarrow> bool" where
  "alloc_ok alloc \<longleftrightarrow> (\<forall>timers. \<exists>p. alloc timers = Some p \<and> p \<notin> t_ptr ` set timers)"

text \<open>A property \<open>J\<close> of the rest of the state that lasts, and a stream that can report a delay while it holds.\<close>

definition lasting :: "'w stream_cbs \<Rightarrow> (nat \<Rightarrow> 'w \<Rightarrow> 'w) \<Rightarrow> ('w \<Rightarrow> bool) \<Rightarrow> bool" where
  "lasting cbs other J \<longleftrightarrow>
     (\<forall>w. J w \<longrightarrow> (\<forall>s. J (snd (stream_removed_cb cbs s w)) \<and> J (stream_destroy_cb cbs s w)) \<and> (\<forall>k. J (other k w)))"

definition draining :: "'w stream_cbs \<Rightarrow> ('w \<Rightarrow> bool) \<Rightarrow> stream_obj \<Rightarrow> bool" where
  "draining cbs J s \<longleftrightarrow> (\<exists>w. J w \<and> fst (stream_removed_cb cbs s w) \<noteq> 0)"

lemma drain_timers_simps [simp]:
  "drain_timers [] = []" "drain_timers (xs @ ys) = drain_timers xs @ drain_timers ys"
  by (simp_all add: drain_timers_def)

lemma drain_timers_filter: "drain_timers (filter (\<lambda>t. P (t_ptr t)) timers) = filter P (drain_timers timers)"
  by (induction timers) (auto simp: drain_timers_def)

lemma cancel_drain: "drain_timers (cras_tm_cancel_timer timers p) = filter (\<lambda>q. q \<noteq> p) (drain_timers timers)"
  unfolding cras_tm_cancel_timer_def by (rule drain_timers_filter)

lemma cancel_distinct: "distinct (map t_ptr timers) \<Longrightarrow> distinct (map t_ptr (cras_tm_cancel_timer timers p))"
  by (simp add: cras_tm_cancel_timer_def distinct_map_filter)

lemma delete_loop_spec:
  assumes "cbs_ok cbs" "lasting cbs other J" "delete_loop cbs ss d w = (rest, d', gone, w')" "J w" "0 \<le> d" "d < 2 ^ 31"
  shows "mset ss = mset rest + mset gone \<and> (distinct (map fst ss) \<longrightarrow> distinct (map fst rest)) \<and> set rest \<subseteq> set ss \<and>
    d \<le> d' \<and> d' < 2 ^ 31 \<and> (rest \<noteq> [] \<longrightarrow> 0 < d') \<and> (\<forall>s\<in>set rest. draining cbs J s) \<and> J w'"
  using assms(3-6)
proof (induction ss arbitrary: d w rest gone)
  case (Cons s ss)
  obtain delay w1 where cb: "stream_removed_cb cbs s w = (delay, w1)" by fastforce
  have b: "0 \<le> delay" "delay < 2 ^ 31" using assms(1) cb unfolding cbs_ok_def by (metis fst_conv)+
  have J: "J w1" "J (stream_destroy_cb cbs s w1)" using assms(2) Cons.prems(2) cb unfolding lasting_def by (metis snd_conv)+
  show ?case
  proof (cases "delay = 0")
    case True
    then obtain gone' where "delete_loop cbs ss d (stream_destroy_cb cbs s w1) = (rest, d', gone', w')" "gone = s # gone'"
      using Cons.prems(1) cb by (auto simp: Let_def split: prod.splits)
    with Cons.IH [OF this(1) J(2) Cons.prems(3,4)] show ?thesis by auto
  next
    case False
    then obtain rest' where r: "delete_loop cbs ss (max d delay) w1 = (rest', d', gone, w')" "rest = s # rest'"
      using Cons.prems(1) cb by (auto simp: Let_def split: prod.splits)
    have "draining cbs J s" using cb False Cons.prems(2) unfolding draining_def by (metis fst_conv)
    moreover have "0 \<le> max d delay" "max d delay < 2 ^ 31" using b Cons.prems(3,4) by auto
    note Cons.IH [OF r(1) J(1) this]
    ultimately show ?thesis using b r(2) False by auto
  qed
qed simp

text \<open>A timer that \<open>delete_streams\<close> creates is not due.\<close>

lemma new_timer_later:
  assumes "ts_normal now" "10 \<le> ms"
  shows "\<not> timespec_sooner (add_ms_ts now ms) now"
  using add_ms_ts_ns [of ms now] timespec_sooner_ns [of "add_ms_ts now ms" now] assms by auto

lemma delete_streams_spec:
  assumes ok: "cbs_ok cbs" "alloc_ok alloc" "ts_normal now" "lasting cbs other J" and wf: "streams_wf list" "J (sl_world list)"
    and run: "delete_streams cbs alloc now (list, timers) = (list', timers')"
  shows "streams_wf list' \<and> sl_streams list' = sl_streams list \<and> (\<forall>s\<in>set (sl_streams_to_delete list'). draining cbs J s) \<and> J (sl_world list') \<and>
    set (sl_streams_to_delete list') \<subseteq> set (sl_streams_to_delete list) \<and> sl_created list' = sl_created list \<and>
    (\<exists>new. timers' = timers @ new \<and> (\<forall>t\<in>set new. \<not> timespec_sooner (t_ts t) now \<and> t_data t = DeleteStreams) \<and>
      (distinct (map t_ptr timers) \<longrightarrow> distinct (map t_ptr timers')) \<and>
      drain_timers new = (case sl_drain_timer list' of None \<Rightarrow> [] | Some p \<Rightarrow> [p])) \<and>
    (sl_streams_to_delete list' \<noteq> [] \<longrightarrow> sl_drain_timer list' \<noteq> None)"
proof -
  obtain rest d gone w where l: "delete_loop cbs (sl_streams_to_delete list) 0 (sl_world list) = (rest, d, gone, w)"
    using prod_cases4 by blast
  note s = delete_loop_spec [OF ok(1,4) l wf(2)]
  have d: "0 \<le> d" "d < 2 ^ 31" "rest \<noteq> [] \<longrightarrow> 0 < d" using s by auto
  obtain p where p: "alloc timers = Some p" "p \<notin> t_ptr ` set timers" using ok(2) unfolding alloc_ok_def by blast
  have "u32 (max d 10) = max d 10" using d by (intro wrap_u_id) auto
  then have later: "\<not> timespec_sooner (add_ms_ts now (u32 (max d 10))) now" using new_timer_later [OF ok(3)] by simp
  define new where "new = (if d = 0 then [] else [\<lparr>t_ptr = p, t_ts = add_ms_ts now (u32 (max d 10)), t_data = DeleteStreams\<rparr>])"
  have list': "sl_streams list' = sl_streams list" "sl_streams_to_delete list' = rest" "sl_created list' = sl_created list"
    "sl_destroyed list' = sl_destroyed list @ gone" "sl_drain_timer list' = (if d = 0 then None else Some p)" "timers' = timers @ new" "sl_world list' = w"
    using run l p(1) by (auto simp: delete_streams_def cras_tm_create_timer_def Let_def new_def split: if_splits)
  have "streams_wf list'" using wf s unfolding streams_wf_def list' by (auto simp: image_iff)
  moreover have "distinct (map t_ptr timers')" if "distinct (map t_ptr timers)"
    using that p(2) by (auto simp: list'(6) new_def)
  moreover have "drain_timers new = (case sl_drain_timer list' of None \<Rightarrow> [] | Some p \<Rightarrow> [p])"
    by (simp add: list'(5) new_def drain_timers_def)
  moreover have "\<forall>t\<in>set new. \<not> timespec_sooner (t_ts t) now \<and> t_data t = DeleteStreams" using later by (auto simp: new_def)
  ultimately show ?thesis using s d list' by auto
qed

section \<open>The drain timer\<close>

text \<open>The invariant between the callbacks of one pass over the timers at \<open>now\<close>. \<open>D\<close> is the list at the
  start of the pass: a stream waits for a drain timer that is due, or has reported that it is not drained.\<close>

definition drain_inv ::
  "'w stream_cbs \<Rightarrow> (timers \<Rightarrow> nat option) \<Rightarrow> (nat \<Rightarrow> 'w \<Rightarrow> 'w) \<Rightarrow> timespec \<Rightarrow> ('w \<Rightarrow> bool) \<Rightarrow> 'w stream_list \<Rightarrow>
   'w stream_list \<Rightarrow> timers \<Rightarrow> bool" where
  "drain_inv cbs alloc other now J D list timers \<longleftrightarrow>
     lasting cbs other J \<and> J (sl_world list) \<and> cbs_ok cbs \<and> alloc_ok alloc \<and> ts_normal now \<and> streams_wf list \<and> timers_wf list timers \<and>
     sl_streams list = sl_streams D \<and> sl_created list = sl_created D \<and>
     (\<forall>s\<in>set (sl_streams_to_delete list). draining cbs J s \<or> (\<exists>t\<in>set timers. t_data t = DeleteStreams \<and> timespec_sooner (t_ts t) now))"

lemma streams_wf_world [simp]: "streams_wf (list\<lparr>sl_world := w\<rparr>) = streams_wf list"
  by (simp add: streams_wf_def)

lemma timers_wf_world [simp]: "timers_wf (list\<lparr>sl_world := w\<rparr>) timers = timers_wf list timers"
  by (simp add: timers_wf_def)

lemma run_delete_keeps:
  assumes inv: "drain_inv cbs alloc other now J D list timers" and t: "t \<in> set timers" "t_data t = DeleteStreams"
    and run: "delete_streams cbs alloc now (list, timers) = (list', timers')"
  shows "\<exists>new. timers' = timers @ new \<and> (\<forall>u\<in>set new. \<not> timespec_sooner (t_ts u) now) \<and>
    distinct (map t_ptr timers') \<and> drain_inv cbs alloc other now J D list' (cras_tm_cancel_timer timers' (t_ptr t))"
proof -
  have ok: "cbs_ok cbs" "alloc_ok alloc" "ts_normal now" "streams_wf list" "timers_wf list timers"
    and J: "lasting cbs other J" "J (sl_world list)" using inv by (simp_all add: drain_inv_def)
  obtain new where s: "streams_wf list'" "\<forall>s\<in>set (sl_streams_to_delete list'). draining cbs J s" "J (sl_world list')"
    "sl_streams_to_delete list' \<noteq> [] \<longrightarrow> sl_drain_timer list' \<noteq> None"
    "sl_streams list' = sl_streams list" "sl_created list' = sl_created list"
    and new: "timers' = timers @ new" "\<forall>t\<in>set new. \<not> timespec_sooner (t_ts t) now" "distinct (map t_ptr timers')"
    "drain_timers new = (case sl_drain_timer list' of None \<Rightarrow> [] | Some p \<Rightarrow> [p])"
    using delete_streams_spec [OF ok(1-3) J(1) ok(4) J(2) run] ok(5) unfolding timers_wf_def by blast
  have "t_ptr t \<in> set (drain_timers timers)" using t by (auto simp: drain_timers_def)
  then have dt: "drain_timers timers = [t_ptr t]" using ok(5) by (auto simp: timers_wf_def split: option.splits)
  have "t_ptr t \<notin> set (drain_timers new)" using new(3) t(1) unfolding new(1) drain_timers_def by auto
  then have "filter (\<lambda>q. q \<noteq> t_ptr t) (drain_timers new) = drain_timers new" by (induction "drain_timers new") (auto simp: filter_id_conv)
  then have "drain_timers (cras_tm_cancel_timer timers' (t_ptr t)) = drain_timers new" by (simp add: cancel_drain new(1) dt)
  then have "timers_wf list' (cras_tm_cancel_timer timers' (t_ptr t))"
    using s(4) new(3,4) by (simp add: timers_wf_def cancel_distinct)
  then show ?thesis using s new ok J by (intro exI [of _ new]) (use inv in \<open>auto simp: drain_inv_def\<close>)
qed

lemma run_other_keeps:
  assumes inv: "drain_inv cbs alloc other now J D list timers" and t: "t \<in> set timers" "t_data t \<noteq> DeleteStreams" and J: "J w"
  shows "drain_inv cbs alloc other now J D (list\<lparr>sl_world := w\<rparr>) (cras_tm_cancel_timer timers (t_ptr t))"
proof -
  have d: "distinct (map t_ptr timers)" using inv by (simp add: drain_inv_def timers_wf_def)
  have "t_ptr t \<notin> set (drain_timers timers)"
  proof
    assume "t_ptr t \<in> set (drain_timers timers)"
    then obtain u where "u \<in> set timers" "t_data u = DeleteStreams" "t_ptr u = t_ptr t" by (auto simp: drain_timers_def)
    then show False using d t by (auto simp: distinct_map inj_on_def)
  qed
  then have "drain_timers (cras_tm_cancel_timer timers (t_ptr t)) = drain_timers timers"
    unfolding cancel_drain filter_id_conv by auto
  moreover have "u \<in> set (cras_tm_cancel_timer timers (t_ptr t))" if "u \<in> set timers" "t_data u = DeleteStreams" for u
    using that d t by (auto simp: cras_tm_cancel_timer_def distinct_map inj_on_def)
  ultimately show ?thesis using inv J by (fastforce simp: drain_inv_def timers_wf_def cancel_distinct)
qed

text \<open>The callbacks keep to the contract of the timer manager.\<close>

interpretation drain: timer_callbacks "run_timer cbs alloc other now" now "drain_inv cbs alloc other now J D"
  for cbs :: "'w stream_cbs" and alloc other now J D
proof
  fix list :: "'w stream_list" and timers t list' timers'
  show "distinct (map t_ptr timers)" if "drain_inv cbs alloc other now J D list timers"
    using that by (simp add: drain_inv_def timers_wf_def)
  assume inv: "drain_inv cbs alloc other now J D list timers" and t: "t \<in> set timers"
    and run: "run_timer cbs alloc other now t (list, timers) = (list', timers')"
  have "\<exists>new. timers' = timers @ new \<and> (\<forall>u\<in>set new. \<not> timespec_sooner (t_ts u) now) \<and>
      distinct (map t_ptr timers') \<and> drain_inv cbs alloc other now J D list' (cras_tm_cancel_timer timers' (t_ptr t))"
  proof (cases "t_data t")
    case DeleteStreams
    then show ?thesis using run_delete_keeps [OF inv t] run by (simp add: run_timer_def)
  next
    case (OtherTimer k)
    have "J (other k (sl_world list))" using inv by (simp add: drain_inv_def lasting_def)
    then show ?thesis using run_other_keeps [OF inv t] run inv OtherTimer
      by (intro exI [of _ "[]"]) (auto simp: run_timer_def drain_inv_def timers_wf_def)
  qed
  then show "\<exists>K new. timers' = filter K timers @ new \<and> K t \<and> (\<forall>u\<in>set new. \<not> timespec_sooner (t_ts u) now) \<and>
      distinct (map t_ptr timers') \<and> drain_inv cbs alloc other now J D list' (cras_tm_cancel_timer timers' (t_ptr t))"
    by (intro exI [of _ "\<lambda>_. True"]) simp
qed

lemma waiting_accounted:
  assumes "streams_wf list" "streams_wf list'" "sl_streams list' = sl_streams list" "sl_created list' = sl_created list"
    and "s \<in> set (sl_streams_to_delete list)"
  shows "s \<in> set (sl_streams_to_delete list') \<or> s \<in> set (sl_destroyed list')"
proof -
  have "mset (sl_streams_to_delete list' @ sl_destroyed list') = mset (sl_streams_to_delete list @ sl_destroyed list)"
    using assms(1-4) unfolding streams_wf_def by simp
  then have "set (sl_streams_to_delete list' @ sl_destroyed list') = set (sl_streams_to_delete list @ sl_destroyed list)"
    by (metis set_mset_mset)
  then show ?thesis using assms(5) by auto
qed

lemma drain_timer_in:
  assumes "timers_wf list timers" "sl_streams_to_delete list \<noteq> []"
  shows "\<exists>t\<in>set timers. t_data t = DeleteStreams \<and> sl_drain_timer list = Some (t_ptr t)"
proof -
  obtain p where p: "sl_drain_timer list = Some p" "drain_timers timers = [p]" using assms by (auto simp: timers_wf_def)
  then have "p \<in> set (drain_timers timers)" by simp
  then show ?thesis using p(1) by (auto simp: drain_timers_def)
qed

text \<open>C9. A removed stream is destroyed once it is drained. Suppose the rest of the server is in a condition \<open>J\<close>
  that lasts and in which the stream reports no delay. When the time of the drain timer has come, the
  pass over the timers ends and the stream has been destroyed; the streams that are still draining
  have a new timer, which is not due yet.\<close>

theorem drained_streams_destroyed:
  assumes "cbs_ok cbs" "alloc_ok alloc" "ts_normal now" "streams_wf list" "timers_wf list timers"
    and "lasting cbs other J" "J (sl_world list)"
    and "\<forall>t\<in>set timers. sl_drain_timer list = Some (t_ptr t) \<longrightarrow> timespec_sooner (t_ts t) now"
  shows "\<exists>n list' timers' fired. cras_tm_call_callbacks n (run_timer cbs alloc other now) now (list, timers) = Some (list', timers', fired) \<and>
    (\<forall>s\<in>set (sl_streams_to_delete list). (\<forall>w. J w \<longrightarrow> fst (stream_removed_cb cbs s w) = 0) \<longrightarrow> s \<in> set (sl_destroyed list')) \<and>
    (sl_streams_to_delete list' \<noteq> [] \<longrightarrow>
      (\<exists>t\<in>set timers'. t_data t = DeleteStreams \<and> sl_drain_timer list' = Some (t_ptr t) \<and> \<not> timespec_sooner (t_ts t) now))"
proof -
  have "\<exists>t\<in>set timers. t_data t = DeleteStreams \<and> timespec_sooner (t_ts t) now" if "s \<in> set (sl_streams_to_delete list)" for s
    using drain_timer_in [OF assms(5)] assms(8) that by (metis empty_iff list.set(1))
  then have "drain_inv cbs alloc other now J list list timers" using assms by (simp add: drain_inv_def)
  from drain.call_callbacks_fires [OF this] obtain n list' timers' fired where
    run: "cras_tm_call_callbacks n (run_timer cbs alloc other now) now (list, timers) = Some (list', timers', fired)"
    and inv: "drain_inv cbs alloc other now J list list' timers'" and due: "\<forall>t\<in>set timers'. \<not> timespec_sooner (t_ts t) now" by blast
  have "s \<in> set (sl_destroyed list')" if "s \<in> set (sl_streams_to_delete list)" "\<not> draining cbs J s" for s
    using waiting_accounted [OF assms(4) _ _ _ that(1), of list'] inv due that(2) unfolding drain_inv_def by blast
  then show ?thesis using run due drain_timer_in [of list' timers'] inv unfolding drain_inv_def draining_def by blast
qed

section \<open>Every operation\<close>

lemma insert_stream_mset [simp]: "mset (insert_stream s xs) = add_mset s (mset xs)"
  by (induction xs) auto

lemma insert_stream_set [simp]: "set (insert_stream s xs) = insert s (set xs)"
  by (induction xs) auto

lemma insert_stream_sorted:
  "sorted_wrt (\<lambda>s t. stream_channels t \<le> stream_channels s) xs \<Longrightarrow>
   sorted_wrt (\<lambda>s t. stream_channels t \<le> stream_channels s) (insert_stream s xs)"
  by (induction xs) auto

lemma dl_delete_fresh: "fst s \<notin> fst ` set xs \<Longrightarrow> dl_delete xs s = xs"
  unfolding dl_delete_def filter_id_conv by (metis image_eqI)

lemma dl_delete_insert: "fst s \<notin> fst ` set xs \<Longrightarrow> dl_delete (insert_stream s xs) s = xs"
  using dl_delete_fresh by (induction xs) (auto simp: dl_delete_def)

lemma dl_delete_mset:
  assumes "distinct (map fst xs)" "s \<in> set xs"
  shows "mset xs = add_mset s (mset (dl_delete xs s))"
  using assms
proof (induction xs)
  case (Cons x xs)
  show ?case
  proof (cases "x = s")
    case True
    then show ?thesis using Cons.prems dl_delete_fresh [of s xs] by (auto simp: dl_delete_def)
  next
    case False
    then have "fst x \<noteq> fst s" using Cons.prems by force
    then show ?thesis using False Cons by (simp add: dl_delete_def)
  qed
qed simp

lemma distinct_map_mset: "mset xs = mset ys \<Longrightarrow> distinct (map f xs) = distinct (map f ys)"
  by (metis mset_map mset_eq_imp_distinct_iff)

lemma streams_wfI:
  assumes "streams_wf list" "sorted_wrt (\<lambda>s t. stream_channels t \<le> stream_channels s) (sl_streams list')"
    and "sl_created list' = sl_created list"
    and "mset (sl_streams list' @ sl_streams_to_delete list' @ sl_destroyed list') = mset (sl_streams list @ sl_streams_to_delete list @ sl_destroyed list)"
    and "mset (sl_streams list' @ sl_streams_to_delete list') \<subseteq># mset (sl_streams list @ sl_streams_to_delete list)"
  shows "streams_wf list'"
proof -
  from assms(5) obtain M where "mset (sl_streams list @ sl_streams_to_delete list) = mset ((sl_streams list' @ sl_streams_to_delete list') @ M)"
    by (metis ex_mset mset_append subset_mset.add_diff_inverse)
  from distinct_map_mset [OF this, of fst] assms(1)
  have "distinct (map fst (sl_streams list' @ sl_streams_to_delete list'))" unfolding streams_wf_def by auto
  then show ?thesis using assms unfolding streams_wf_def by auto
qed

lemma stream_list_add_wf:
  assumes wf: "streams_wf list" and add: "stream_list_add cbs list cfg = (rc, cfg', so, list')"
    and fresh: "\<And>s cfg' w. stream_create_cb cbs cfg (sl_world list) = (Inr s, cfg', w) \<Longrightarrow>
      fst s \<notin> fst ` set (sl_streams list @ sl_streams_to_delete list)"
  shows "streams_wf list' \<and> sl_streams_to_delete list' = sl_streams_to_delete list \<and> sl_drain_timer list' = sl_drain_timer list"
proof -
  obtain r cfg1 w where cr: "stream_create_cb cbs cfg (sl_world list) = (r, cfg1, w)" using prod_cases3 by blast
  show ?thesis
  proof (cases r)
    case (Inl e)
    then show ?thesis using wf add cr by (auto simp: stream_list_add_def)
  next
    case (Inr s)
    obtain rc' w' where added: "stream_added_cb cbs s w = (rc', w')" by fastforce
    have fr: "fst s \<notin> fst ` set (sl_streams list)" "fst s \<notin> fst ` set (sl_streams_to_delete list)" using fresh cr Inr by auto
    have d: "distinct (map fst (insert_stream s (sl_streams list)))"
      using distinct_map_mset [of "insert_stream s (sl_streams list)" "s # sl_streams list" fst] fr(1) wf by (simp add: streams_wf_def)
    have list': "list' = list\<lparr>sl_streams := (if rc = 0 then insert_stream s (sl_streams list) else sl_streams list),
        sl_created := sl_created list @ [s], sl_destroyed := (if rc = 0 then sl_destroyed list else sl_destroyed list @ [s]),
        sl_world := sl_world list'\<rparr>"
      using add cr added Inr dl_delete_insert [OF fr(1)] by (auto simp: stream_list_add_def Let_def split: if_splits)
    have "streams_wf list'"
      using wf fr d insert_stream_sorted [of "sl_streams list" s]
      by (subst list') (auto simp: streams_wf_def)
    moreover have "sl_streams_to_delete list' = sl_streams_to_delete list \<and> sl_drain_timer list' = sl_drain_timer list"
      by (subst list', simp)+
    ultimately show ?thesis by blast
  qed
qed

lemma lasting_True: "lasting cbs (\<lambda>k w. w) (\<lambda>w. True)"
  by (simp add: lasting_def)

text \<open>The invariant between the operations. A stream that waits has reported a delay.\<close>

definition sl_inv :: "'w stream_cbs \<Rightarrow> 'w stream_list \<Rightarrow> timers \<Rightarrow> bool" where
  "sl_inv cbs list timers \<longleftrightarrow> streams_wf list \<and> timers_wf list timers \<and> (\<forall>s\<in>set (sl_streams_to_delete list). draining cbs (\<lambda>w. True) s)"

lemma restart_drain_wf:
  assumes ok: "cbs_ok cbs" "alloc_ok alloc" "ts_normal now" and wf: "streams_wf list"
    and t: "distinct (map t_ptr timers)" "drain_timers timers = (case sl_drain_timer list of None \<Rightarrow> [] | Some p \<Rightarrow> [p])"
    and run: "restart_drain cbs alloc now (list, timers) = (list', timers')"
  shows "sl_inv cbs list' timers'"
proof -
  define list0 where "list0 = list\<lparr>sl_drain_timer := None\<rparr>"
  define timers0 where "timers0 = (case sl_drain_timer list of None \<Rightarrow> timers | Some p \<Rightarrow> cras_tm_cancel_timer timers p)"
  have wf0: "streams_wf list0" using wf by (simp add: list0_def streams_wf_def)
  have t0: "distinct (map t_ptr timers0)" "drain_timers timers0 = []"
    using t by (auto simp: timers0_def cancel_distinct cancel_drain split: option.split)
  have "(case sl_drain_timer list of None \<Rightarrow> (list, timers)
      | Some p \<Rightarrow> (list\<lparr>sl_drain_timer := None\<rparr>, cras_tm_cancel_timer timers p)) = (list0, timers0)"
    by (auto simp: list0_def timers0_def split: option.split)
  then have "delete_streams cbs alloc now (list0, timers0) = (list', timers')" using run by (simp add: restart_drain_def)
  from delete_streams_spec [OF ok lasting_True wf0 TrueI this] t0 show ?thesis by (auto simp: sl_inv_def timers_wf_def)
qed

lemma find_stream_wf:
  assumes "streams_wf list" "List.find P (sl_streams list) = Some s"
  shows "s \<in> set (sl_streams list)" "mset (sl_streams list) = add_mset s (mset (dl_delete (sl_streams list) s))"
    "sorted_wrt (\<lambda>s t. stream_channels t \<le> stream_channels s) (dl_delete (sl_streams list) s)"
proof -
  show s: "s \<in> set (sl_streams list)" using assms(2) by (auto simp: find_Some_iff)
  show "mset (sl_streams list) = add_mset s (mset (dl_delete (sl_streams list) s))"
    using assms(1) s by (intro dl_delete_mset) (simp_all add: streams_wf_def)
  show "sorted_wrt (\<lambda>s t. stream_channels t \<le> stream_channels s) (dl_delete (sl_streams list) s)"
    using assms(1) by (simp add: dl_delete_def sorted_wrt_filter streams_wf_def)
qed

lemma stream_list_rm_wf:
  assumes ok: "cbs_ok cbs" "alloc_ok alloc" "ts_normal now" and inv: "sl_inv cbs list timers"
    and run: "stream_list_rm cbs alloc now (list, timers) i = (rc, list', timers')"
  shows "sl_inv cbs list' timers'"
proof (cases "List.find (\<lambda>s. rs_stream_id (snd s) = i) (sl_streams list)")
  case None
  then show ?thesis using run inv by (simp add: stream_list_rm_def)
next
  case (Some s)
  have wf: "streams_wf list" "timers_wf list timers" using inv by (simp_all add: sl_inv_def)
  note f = find_stream_wf [OF wf(1) Some]
  define w where "w = list_changed_cb cbs (dl_delete (sl_streams list) s) (sl_world list)"
  define list1 where "list1 = list\<lparr>sl_streams := dl_delete (sl_streams list) s, sl_world := w,
      sl_streams_to_delete := sl_streams_to_delete list @ [s]\<rparr>"
  have "streams_wf list1" by (rule streams_wfI [OF wf(1)]) (use f in \<open>simp_all add: list1_def\<close>)
  moreover have "restart_drain cbs alloc now (list1, timers) = (list', timers')"
    using run Some by (simp add: stream_list_rm_def Let_def list1_def w_def)
  moreover have "sl_drain_timer list1 = sl_drain_timer list" by (simp add: list1_def)
  ultimately show ?thesis using restart_drain_wf [OF ok, of list1 timers] wf(2) by (simp add: timers_wf_def)
qed

lemma stream_list_rm_all_wf:
  assumes ok: "cbs_ok cbs" "alloc_ok alloc" "ts_normal now" and inv: "sl_inv cbs list timers"
    and run: "stream_list_rm_all_client_streams cbs alloc now (list, timers) c = (rc, list', timers')"
  shows "sl_inv cbs list' timers'"
proof -
  have wf: "streams_wf list" "timers_wf list timers" using inv by (simp_all add: sl_inv_def)
  let ?gone = "filter (\<lambda>s. rs_client (snd s) = c) (sl_streams list)"
  define keep where "keep = filter (\<lambda>s. rs_client (snd s) \<noteq> c) (sl_streams list)"
  define w where "w = list_changed_cb cbs keep (sl_world list)"
  define list1 where "list1 = list\<lparr>sl_streams := keep, sl_streams_to_delete := sl_streams_to_delete list @ ?gone, sl_world := w\<rparr>"
  have m: "mset (sl_streams list) = mset keep + mset ?gone" unfolding keep_def
    by (simp add: multiset_partition [symmetric] union_commute)
  have "sorted_wrt (\<lambda>s t. stream_channels t \<le> stream_channels s) keep"
    using wf(1) by (simp add: keep_def sorted_wrt_filter streams_wf_def)
  then have "streams_wf list1" by (intro streams_wfI [OF wf(1)]) (use m in \<open>simp_all add: list1_def\<close>)
  moreover have "restart_drain cbs alloc now (list1, timers) = (list', timers')"
    using run by (simp add: stream_list_rm_all_client_streams_def Let_def list1_def w_def keep_def)
  moreover have "sl_drain_timer list1 = sl_drain_timer list" by (simp add: list1_def)
  ultimately show ?thesis using restart_drain_wf [OF ok, of list1 timers] wf(2) by (simp add: timers_wf_def)
qed

lemma stream_list_direct_rm_wf:
  assumes wf: "streams_wf list" and run: "stream_list_direct_rm cbs list i = (rc, list')"
  shows "streams_wf list' \<and> sl_streams_to_delete list' = sl_streams_to_delete list \<and> sl_drain_timer list' = sl_drain_timer list"
proof (cases "List.find (\<lambda>s. rs_stream_id (snd s) = i) (sl_streams list)")
  case None
  then show ?thesis using run wf by (simp add: stream_list_direct_rm_def)
next
  case (Some s)
  note f = find_stream_wf [OF wf Some]
  show ?thesis
  proof (cases "rs_direction (snd s) = CRAS_STREAM_INPUT")
    case False
    then show ?thesis using run wf Some by (simp add: stream_list_direct_rm_def)
  next
    case True
    define w where "w = sl_world list'"
    have list': "list' = list\<lparr>sl_streams := dl_delete (sl_streams list) s, sl_world := w, sl_destroyed := sl_destroyed list @ [s]\<rparr>"
      using run Some True by (auto simp: stream_list_direct_rm_def Let_def w_def)
    have "streams_wf list'" by (rule streams_wfI [OF wf]) (use f in \<open>simp_all add: list'\<close>)
    then show ?thesis by (simp add: list')
  qed
qed

section \<open>The server's life\<close>

text \<open>The states that the list and the timers pass through. Other components change the rest of the
  state and start timers of their own; a created stream has an address that no live stream has.\<close>

inductive sl_reach :: "'w stream_cbs \<Rightarrow> (timers \<Rightarrow> nat option) \<Rightarrow> (nat \<Rightarrow> 'w \<Rightarrow> 'w) \<Rightarrow> 'w stream_list \<Rightarrow> timers \<Rightarrow> bool"
  for cbs alloc other where
  start: "sl_reach cbs alloc other (stream_list_create w) cras_tm_init"
| add: "sl_reach cbs alloc other list timers \<Longrightarrow> stream_list_add cbs list cfg = (rc, cfg', so, list') \<Longrightarrow>
    (\<And>s cfg' w. stream_create_cb cbs cfg (sl_world list) = (Inr s, cfg', w) \<Longrightarrow>
      fst s \<notin> fst ` set (sl_streams list @ sl_streams_to_delete list)) \<Longrightarrow>
    sl_reach cbs alloc other list' timers"
| rm: "sl_reach cbs alloc other list timers \<Longrightarrow> ts_normal now \<Longrightarrow>
    stream_list_rm cbs alloc now (list, timers) i = (rc, list', timers') \<Longrightarrow> sl_reach cbs alloc other list' timers'"
| direct_rm: "sl_reach cbs alloc other list timers \<Longrightarrow> stream_list_direct_rm cbs list i = (rc, list') \<Longrightarrow>
    sl_reach cbs alloc other list' timers"
| rm_all: "sl_reach cbs alloc other list timers \<Longrightarrow> ts_normal now \<Longrightarrow>
    stream_list_rm_all_client_streams cbs alloc now (list, timers) c = (rc, list', timers') \<Longrightarrow>
    sl_reach cbs alloc other list' timers'"
| timers: "sl_reach cbs alloc other list timers \<Longrightarrow> ts_normal now \<Longrightarrow>
    cras_tm_call_callbacks n (run_timer cbs alloc other now) now (list, timers) = Some (list', timers', fired) \<Longrightarrow>
    sl_reach cbs alloc other list' timers'"
| elsewhere: "sl_reach cbs alloc other list timers \<Longrightarrow>
    cras_tm_create_timer timers now (alloc timers) ms (OtherTimer k) = (p, timers') \<Longrightarrow>
    sl_reach cbs alloc other (list\<lparr>sl_world := w\<rparr>) timers'"

lemma timer_pass_inv:
  assumes ok: "cbs_ok cbs" "alloc_ok alloc" "ts_normal now" and inv: "sl_inv cbs list timers"
    and run: "cras_tm_call_callbacks n (run_timer cbs alloc other now) now (list, timers) = Some (list', timers', fired)"
  shows "sl_inv cbs list' timers'" "sl_streams list' = sl_streams list"
proof -
  have "drain_inv cbs alloc other now (\<lambda>w. True) list list timers"
    using ok inv by (simp add: drain_inv_def sl_inv_def lasting_def)
  from drain.call_callbacks_fires [OF this] obtain m list2 timers2 fired2 where
    run2: "cras_tm_call_callbacks m (run_timer cbs alloc other now) now (list, timers) = Some (list2, timers2, fired2)"
    and i2: "drain_inv cbs alloc other now (\<lambda>w. True) list list2 timers2" "\<forall>t\<in>set timers2. \<not> timespec_sooner (t_ts t) now" by blast
  have "list' = list2" "timers' = timers2" using call_callbacks_unique [OF run run2] by simp_all
  then show "sl_inv cbs list' timers'" "sl_streams list' = sl_streams list" using i2 unfolding drain_inv_def sl_inv_def by blast+
qed

lemma other_timer_wf:
  assumes "alloc_ok alloc" "timers_wf list timers" "cras_tm_create_timer timers now (alloc timers) ms (OtherTimer k) = (p, timers')"
  shows "timers_wf list timers'"
proof -
  obtain q where "alloc timers = Some q" "q \<notin> t_ptr ` set timers" using assms(1) unfolding alloc_ok_def by blast
  then show ?thesis using assms(2,3) by (auto simp: timers_wf_def cras_tm_create_timer_def drain_timers_def)
qed

lemma sl_reach_inv:
  assumes "sl_reach cbs alloc other list timers" "cbs_ok cbs" "alloc_ok alloc"
  shows "sl_inv cbs list timers"
  using assms
proof (induction rule: sl_reach.induct)
  case (start w)
  show ?case by (simp add: sl_inv_def streams_wf_def timers_wf_def stream_list_create_def cras_tm_init_def)
next
  case (add list timers cfg rc cfg' so list')
  then show ?case using stream_list_add_wf [OF _ add.hyps(2,3)] by (simp add: sl_inv_def timers_wf_def)
next
  case (rm list timers now i rc list' timers')
  then show ?case using stream_list_rm_wf by blast
next
  case (direct_rm list timers i rc list')
  then show ?case using stream_list_direct_rm_wf [OF _ direct_rm.hyps(2)] by (simp add: sl_inv_def timers_wf_def)
next
  case (rm_all list timers now c rc list' timers')
  then show ?case using stream_list_rm_all_wf by blast
next
  case (timers list timers now n list' timers' fired)
  then show ?case using timer_pass_inv(1) by blast
next
  case (elsewhere list timers now ms k p timers' w)
  then show ?case using other_timer_wf [of alloc list timers now ms k p timers'] by (simp add: sl_inv_def)
qed


lemma num_output_exact:
  "stream_list_get_num_output list = int (length (filter (\<lambda>s. rs_direction (snd s) = CRAS_STREAM_OUTPUT) (stream_list_get list)))"
proof -
  have "foldl (\<lambda>n s. if rs_direction (snd s) = CRAS_STREAM_OUTPUT then n + 1 else n) k xs =
    k + int (length (filter (\<lambda>s. rs_direction (snd s) = CRAS_STREAM_OUTPUT) xs))" for k and xs :: "stream_obj list"
    by (induction xs arbitrary: k) auto
  then show ?thesis by (simp add: stream_list_get_num_output_def stream_list_get_def)
qed

section \<open>Examples\<close>

text \<open>A server whose state is a number: a stream drains for 20 ms while it is 0.\<close>

definition example_stream :: stream_obj where
  "example_stream = (100, rstream_init example_config (cras_audio_format_create SND_PCM_FORMAT_U8 4000 1))"

definition example_cbs :: "nat stream_cbs" where
  "example_cbs = \<lparr>stream_added_cb = (\<lambda>s w. (0, w)), stream_removed_cb = (\<lambda>s w. (if w = 0 then 20 else 0, w)),
     stream_create_cb = (\<lambda>cfg w. (Inr example_stream, cfg, w)), stream_destroy_cb = (\<lambda>s w. w), list_changed_cb = (\<lambda>ss w. w)\<rparr>"

definition example_alloc :: "timers \<Rightarrow> nat option" where
  "example_alloc timers = Some (Suc (foldr max (map t_ptr timers) 0))"

definition waiting_list :: "nat stream_list" where
  "waiting_list = \<lparr>sl_streams = [], sl_streams_to_delete = [example_stream], sl_drain_timer = Some 1, sl_world = 0,
     sl_created = [example_stream], sl_destroyed = []\<rparr>"

definition waiting_timers :: timers where
  "waiting_timers = [\<lparr>t_ptr = 1, t_ts = \<lparr>tv_sec = 3, tv_nsec = 20000000\<rparr>, t_data = DeleteStreams\<rparr>]"

lemma foldr_max_less: "p \<in> set ps \<Longrightarrow> p < Suc (foldr max ps 0)" for p :: nat
  by (induction ps) (auto simp: less_Suc_eq_le le_max_iff_disj)

lemma example_ok: "cbs_ok example_cbs" "alloc_ok example_alloc"
proof -
  show "cbs_ok example_cbs" by (simp add: cbs_ok_def example_cbs_def)
  have "Suc (foldr max (map t_ptr timers) 0) \<notin> t_ptr ` set timers" for timers :: timers
    using foldr_max_less [of _ "map t_ptr timers"] by (metis less_irrefl list.set_map)
  then show "alloc_ok example_alloc" by (simp add: alloc_ok_def example_alloc_def)
qed

lemma example_reach: "sl_reach example_cbs example_alloc (\<lambda>k w. w) waiting_list waiting_timers"
proof -
  define list1 where "list1 = (stream_list_create 0 :: nat stream_list)\<lparr>sl_streams := [example_stream], sl_created := [example_stream]\<rparr>"
  have "stream_list_add example_cbs (stream_list_create 0) example_config = (0, example_config, Some example_stream, list1)"
    by (simp add: stream_list_add_def example_cbs_def stream_list_create_def list1_def)
  then have 1: "sl_reach example_cbs example_alloc (\<lambda>k w. w) list1 cras_tm_init"
    by (rule sl_reach.add [OF sl_reach.start]) (simp add: stream_list_create_def)
  have "stream_list_rm example_cbs example_alloc \<lparr>tv_sec = 3, tv_nsec = 0\<rparr> (list1, cras_tm_init) 65537 = (0, waiting_list, waiting_timers)"
    by (simp add: stream_list_rm_def list1_def stream_list_create_def example_stream_def rstream_init_def example_config_def
        dl_delete_def restart_drain_def delete_streams_def example_cbs_def cras_tm_create_timer_def example_alloc_def cras_tm_init_def
        waiting_list_def waiting_timers_def wrap_u_def add_ms_ts_def)
  then show ?thesis by (rule sl_reach.rm [OF 1, rotated]) (simp add: ts_normal_def)
qed


theorem drained_streams_destroyed_witness:
  "\<exists>n list' timers' fired. cras_tm_call_callbacks n (run_timer example_cbs example_alloc (\<lambda>k w. w) \<lparr>tv_sec = 4, tv_nsec = 0\<rparr>)
     \<lparr>tv_sec = 4, tv_nsec = 0\<rparr> (waiting_list\<lparr>sl_world := 1\<rparr>, waiting_timers) = Some (list', timers', fired) \<and>
     example_stream \<in> set (sl_destroyed list')"
proof -
  have inv: "streams_wf (waiting_list\<lparr>sl_world := 1\<rparr>)" "timers_wf (waiting_list\<lparr>sl_world := 1\<rparr>) waiting_timers"
    using sl_reach_inv [OF example_reach example_ok] by (simp_all add: sl_inv_def)
  have J: "lasting example_cbs (\<lambda>k w. w) (\<lambda>w. w = 1)" by (simp add: lasting_def example_cbs_def)
  have "ts_normal \<lparr>tv_sec = 4, tv_nsec = 0\<rparr>" by (simp add: ts_normal_def)
  from drained_streams_destroyed [OF example_ok this inv J] show ?thesis
    by (auto simp: waiting_list_def waiting_timers_def timespec_sooner_def example_cbs_def)
qed

section \<open>A removal that fails\<close>

text \<open>A negative result of the removal callback, which \<open>stream_removed_cb\<close> returns when the audio thread
  cannot be reached, is taken for a delay but arms no timer: the stream is neither destroyed nor
  looked at again until another stream is removed.\<close>

lemma failed_removal_strands:
  assumes "\<forall>s w. fst (stream_removed_cb cbs s w) < 0" "stream_list_rm cbs alloc now (list, timers) i = (0, list', timers')"
  shows "sl_streams_to_delete list' \<noteq> [] \<and> sl_drain_timer list' = None"
proof -
  have loop: "delete_loop cbs ss 0 w = (rest, d, gone, w') \<Longrightarrow> rest = ss \<and> d = 0" for ss w rest d gone w'
  proof (induction ss arbitrary: w rest gone)
    case (Cons s ss)
    obtain delay w1 where cb: "stream_removed_cb cbs s w = (delay, w1)" by fastforce
    then have "delay < 0" using assms(1) by (metis fst_conv)
    then obtain rest' where "delete_loop cbs ss 0 w1 = (rest', d, gone, w')" "rest = s # rest'"
      using Cons.prems cb by (auto simp: Let_def max_def split: prod.splits)
    then show ?case using Cons.IH by blast
  qed simp
  have del: "sl_streams_to_delete (fst (delete_streams cbs alloc now (l, t))) = sl_streams_to_delete l \<and>
    sl_drain_timer (fst (delete_streams cbs alloc now (l, t))) = None" for l t
    using loop [of "sl_streams_to_delete l" "sl_world l"] by (auto simp: delete_streams_def Let_def split: prod.splits)
  obtain s where s: "List.find (\<lambda>s. rs_stream_id (snd s) = i) (sl_streams list) = Some s"
    using assms(2) by (auto simp: stream_list_rm_def errno_defs split: option.splits)
  define list1 where "list1 = list\<lparr>sl_streams := dl_delete (sl_streams list) s,
      sl_world := list_changed_cb cbs (dl_delete (sl_streams list) s) (sl_world list), sl_streams_to_delete := sl_streams_to_delete list @ [s]\<rparr>"
  have "restart_drain cbs alloc now (list1, timers) = (list', timers')"
    using assms(2) s by (simp add: stream_list_rm_def Let_def list1_def)
  then obtain l t where "delete_streams cbs alloc now (l, t) = (list', timers')" "sl_streams_to_delete l = sl_streams_to_delete list @ [s]"
    by (auto simp: restart_drain_def list1_def split: option.splits)
  then show ?thesis using del [of l t] by simp
qed

end
