(* ===== verification/Sample_Mem.thy ===== *)
theory Sample_Mem
  imports Byte_Buffer Fmt_Conv_Ops
begin

text \<open>
  Samples in memory. A buffer is the list of its bytes and a pointer an index into it; a cast to
  \<open>int16_t *\<close> or \<open>int32_t *\<close> followed by an access is a load or store of 2 or 4 bytes, least
  significant first. \<open>sample_access\<close> is what the loops over samples rely on, whatever the
  width of a sample: it is interpreted for samples of 2, 3 and 4 bytes.
\<close>

section \<open>Little-endian numbers\<close>

type_synonym bytes = "int list"

fun le :: "nat \<Rightarrow> int \<Rightarrow> bytes" where
  "le 0 v = []"
| "le (Suc k) v = v mod 256 # le k (v div 256)"

definition le_val :: "bytes \<Rightarrow> int" where
  "le_val bs = foldr (\<lambda>b v. b + 256 * v) bs 0"

lemma length_le [simp]: "length (le k v) = k"
  by (induction k arbitrary: v) auto

lemma foldr_le: "foldr (\<lambda>b v. b + 256 * v) (le k v) 0 = v mod 256 ^ k"
proof (induction k arbitrary: v)
  case (Suc k)
  then show ?case by (simp add: mod_mult2_eq' [symmetric] zmod_zmult2_eq)
qed simp

lemma le_val_le: "le_val (le k v) = v mod 256 ^ k"
  by (simp add: le_val_def foldr_le)

lemma le_mod: "le k (v mod 256 ^ k) = le k v"
proof (induction k arbitrary: v)
  case (Suc k)
  have "v mod (256 * 256 ^ k) div 256 = v div 256 mod 256 ^ k" by (simp add: zmod_zmult2_eq)
  then show ?case using Suc [of "v div 256"] by (simp add: mod_mult_right_eq mod_mod_cancel)
qed simp

section \<open>Loads and stores\<close>

definition ld :: "nat \<Rightarrow> bytes \<Rightarrow> nat \<Rightarrow> int" where
  "ld k mem p = le_val (take k (drop p mem))"

definition st :: "nat \<Rightarrow> bytes \<Rightarrow> nat \<Rightarrow> int \<Rightarrow> bytes" where
  "st k mem p v = store_at mem p (le k v)"

definition ld_s16 :: "bytes \<Rightarrow> nat \<Rightarrow> int" where "ld_s16 mem p = s16 (ld 2 mem p)"
definition ld_s32 :: "bytes \<Rightarrow> nat \<Rightarrow> int" where "ld_s32 mem p = s32 (ld 4 mem p)"
definition st_s16 :: "bytes \<Rightarrow> nat \<Rightarrow> int \<Rightarrow> bytes" where "st_s16 = st 2"
definition st_s32 :: "bytes \<Rightarrow> nat \<Rightarrow> int \<Rightarrow> bytes" where "st_s32 = st 4"

text \<open>A packed sample of three bytes as the upper bytes of an \<open>int32_t\<close>.\<close>

definition convert_single_s243le_to_s32le :: "bytes \<Rightarrow> nat \<Rightarrow> int" where
  "convert_single_s243le_to_s32le src p = s32 (256 * ld 3 src p)"

definition convert_single_s32le_to_s243le :: "bytes \<Rightarrow> nat \<Rightarrow> int \<Rightarrow> bytes" where
  "convert_single_s32le_to_s243le dst p v = st 3 dst p (v div 256)"

lemma ld_st:
  assumes "p + k \<le> length mem"
  shows "ld k (st k mem p v) p = v mod 256 ^ k"
  using assms by (simp add: ld_def st_def store_at_def le_val_le)

lemma length_st: "p + k \<le> length mem \<Longrightarrow> length (st k mem p v) = length mem"
  by (simp add: st_def length_store_at)

lemma nth_st: "p + k \<le> length mem \<Longrightarrow> i < length mem \<Longrightarrow> i < p \<or> p + k \<le> i \<Longrightarrow> st k mem p v ! i = mem ! i"
  by (auto simp: st_def nth_store_at)

lemma ld_cong:
  assumes "length mem = length mem'" "p + k \<le> length mem" "\<And>i. p \<le> i \<Longrightarrow> i < p + k \<Longrightarrow> mem ! i = mem' ! i"
  shows "ld k mem p = ld k mem' p"
proof -
  have "take k (drop p mem) = take k (drop p mem')" using assms by (intro nth_equalityI) auto
  then show ?thesis by (simp add: ld_def)
qed

lemma ld_bounds:
  assumes "\<forall>b\<in>set mem. 0 \<le> b \<and> b < 256" "p + k \<le> length mem"
  shows "0 \<le> ld k mem p" "ld k mem p < 256 ^ k"
proof -
  have *: "0 \<le> le_val bs \<and> le_val bs < 256 ^ length bs" if "\<forall>b\<in>set bs. 0 \<le> b \<and> b < 256" for bs
    using that by (induction bs) (auto simp: le_val_def)
  have "\<forall>b\<in>set (take k (drop p mem)). 0 \<le> b \<and> b < 256" using assms(1) by (meson in_set_dropD in_set_takeD)
  from * [OF this] show "0 \<le> ld k mem p" "ld k mem p < 256 ^ k" using assms(2) by (simp_all add: ld_def)
qed

section \<open>Loops over samples\<close>

text \<open>\<open>for (i = 0; i < count; i++) dst[i] = f(dst[i], src[i])\<close>, with the distances of adjacent samples.\<close>

definition mix_loop :: "(bytes \<Rightarrow> nat \<Rightarrow> int) \<Rightarrow> (bytes \<Rightarrow> nat \<Rightarrow> int \<Rightarrow> bytes) \<Rightarrow> (int \<Rightarrow> int \<Rightarrow> int) \<Rightarrow>
    bytes \<Rightarrow> nat \<Rightarrow> nat \<Rightarrow> bytes \<Rightarrow> nat \<Rightarrow> nat \<Rightarrow> nat \<Rightarrow> bytes" where
  "mix_loop load store f dst dp dstep src sp sstep count =
     for_frames count (\<lambda>i dst. store dst (dp + i * dstep) (f (load dst (dp + i * dstep)) (load src (sp + i * sstep)))) dst"

text \<open>Samples that do not overlap.\<close>

definition samples_fit :: "nat \<Rightarrow> bytes \<Rightarrow> nat \<Rightarrow> nat \<Rightarrow> nat \<Rightarrow> bool" where
  "samples_fit k mem p step count \<longleftrightarrow> k \<le> step \<and> (\<forall>i<count. p + i * step + k \<le> length mem)"

definition in_sample :: "nat \<Rightarrow> nat \<Rightarrow> nat \<Rightarrow> nat \<Rightarrow> nat \<Rightarrow> bool" where
  "in_sample k p step count j \<longleftrightarrow> (\<exists>i<count. p + i * step \<le> j \<and> j < p + i * step + k)"

lemma samples_fit_packed: "p + k * count \<le> length mem \<Longrightarrow> samples_fit k mem p k count"
proof -
  assume a: "p + k * count \<le> length mem"
  have "i * k + k \<le> k * count" if "i < count" for i
    using that by (metis Suc_leI add.commute mult.commute mult_Suc_right mult_le_mono2)
  then show ?thesis using a by (fastforce simp: samples_fit_def)
qed

locale sample_access =
  fixes k :: nat and load :: "bytes \<Rightarrow> nat \<Rightarrow> int" and store :: "bytes \<Rightarrow> nat \<Rightarrow> int \<Rightarrow> bytes" and norm :: "int \<Rightarrow> int"
  assumes length_store: "p + k \<le> length mem \<Longrightarrow> length (store mem p v) = length mem"
    and load_store: "p + k \<le> length mem \<Longrightarrow> load (store mem p v) p = norm v"
    and store_other: "p + k \<le> length mem \<Longrightarrow> i < length mem \<Longrightarrow> i < p \<or> p + k \<le> i \<Longrightarrow> store mem p v ! i = mem ! i"
    and load_cong: "length mem = length mem' \<Longrightarrow> p + k \<le> length mem \<Longrightarrow>
      (\<And>i. p \<le> i \<Longrightarrow> i < p + k \<Longrightarrow> mem ! i = mem' ! i) \<Longrightarrow> load mem p = load mem' p"
begin

lemma mix_loop_frame:
  assumes "samples_fit k dst dp dstep count"
  shows "length (mix_loop load store f dst dp dstep src sp sstep count) = length dst"
    and "j < length dst \<Longrightarrow> \<not> in_sample k dp dstep count j \<Longrightarrow> mix_loop load store f dst dp dstep src sp sstep count ! j = dst ! j"
proof -
  have "length (mix_loop load store f dst dp dstep src sp sstep count) = length dst \<and>
    (j < length dst \<longrightarrow> \<not> in_sample k dp dstep count j \<longrightarrow> mix_loop load store f dst dp dstep src sp sstep count ! j = dst ! j)"
    using assms
  proof (induction count)
    case (Suc n)
    then have IH: "samples_fit k dst dp dstep n" "dp + n * dstep + k \<le> length dst" by (simp_all add: samples_fit_def)
    have "\<not> in_sample k dp dstep (Suc n) j \<Longrightarrow> \<not> in_sample k dp dstep n j \<and> (j < dp + n * dstep \<or> dp + n * dstep + k \<le> j)"
      by (fastforce simp: in_sample_def not_le less_Suc_eq)
    then show ?case using Suc.IH [OF IH(1)] IH(2) by (simp add: mix_loop_def length_store store_other)
  qed (simp add: mix_loop_def)
  then show "length (mix_loop load store f dst dp dstep src sp sstep count) = length dst"
    "j < length dst \<Longrightarrow> \<not> in_sample k dp dstep count j \<Longrightarrow> mix_loop load store f dst dp dstep src sp sstep count ! j = dst ! j" by auto
qed

lemma load_mix_later:
  assumes "samples_fit k dst dp dstep count" "n < count"
  shows "load (mix_loop load store f dst dp dstep src sp sstep n) (dp + n * dstep) = load dst (dp + n * dstep)"
proof (rule load_cong)
  have fit: "samples_fit k dst dp dstep n" using assms by (simp add: samples_fit_def)
  show len: "length (mix_loop load store f dst dp dstep src sp sstep n) = length dst" by (rule mix_loop_frame(1) [OF fit])
  show "dp + n * dstep + k \<le> length (mix_loop load store f dst dp dstep src sp sstep n)" using assms len by (simp add: samples_fit_def)
  fix j assume j: "dp + n * dstep \<le> j" "j < dp + n * dstep + k"
  have "m * dstep + k \<le> n * dstep" if "m < n" for m
    using that assms(1) by (metis Suc_leI add.commute add_le_mono le_trans mult_Suc mult_le_mono1 order_refl samples_fit_def)
  then have "\<not> in_sample k dp dstep n j" using j by (fastforce simp: in_sample_def not_less)
  then show "mix_loop load store f dst dp dstep src sp sstep n ! j = dst ! j"
    using assms j by (intro mix_loop_frame(2) [OF fit]) (force simp: samples_fit_def)
qed

lemma load_mix_loop:
  assumes "samples_fit k dst dp dstep count" "i < count"
  shows "load (mix_loop load store f dst dp dstep src sp sstep count) (dp + i * dstep)
    = norm (f (load dst (dp + i * dstep)) (load src (sp + i * sstep)))"
  using assms
proof (induction count)
  case (Suc n)
  let ?m = "mix_loop load store f dst dp dstep src sp sstep n"
  have fit: "samples_fit k dst dp dstep n" using Suc.prems by (simp add: samples_fit_def)
  have len: "length ?m = length dst" by (rule mix_loop_frame(1) [OF fit])
  have room: "dp + n * dstep + k \<le> length dst" using Suc.prems by (simp add: samples_fit_def)
  have Suc_eq: "mix_loop load store f dst dp dstep src sp sstep (Suc n)
      = store ?m (dp + n * dstep) (f (load dst (dp + n * dstep)) (load src (sp + n * sstep)))"
    using load_mix_later [OF Suc.prems(1), of n] by (simp add: mix_loop_def)
  show ?case
  proof (cases "i = n")
    case True
    then show ?thesis unfolding Suc_eq using room len by (simp add: load_store)
  next
    case False
    then have i: "i < n" using Suc.prems by simp
    have sep: "dp + i * dstep + k \<le> dp + n * dstep"
      using i Suc.prems(1) by (metis Suc_leI add.commute add_le_mono le_trans mult_Suc mult_le_mono1 order_refl samples_fit_def nat_add_left_cancel_le add.assoc)
    have "load (store ?m (dp + n * dstep) v) (dp + i * dstep) = load ?m (dp + i * dstep)" for v
      using room len sep by (intro load_cong) (auto simp: length_store intro!: store_other)
    then show ?thesis unfolding Suc_eq using Suc.IH [OF fit i] by simp
  qed
qed (use assms(2) in simp)

end

lemma wrap_s_mods: "s16 (x mod 65536) = s16 x" "s32 (x mod 4294967296) = s32 x"
  using wrap_s_mod [of 16 x] wrap_s_mod [of 32 x] by simp_all

interpretation s16_acc: sample_access 2 ld_s16 st_s16 s16
proof unfold_locales
  fix p :: nat and mem :: bytes and v assume "p + 2 \<le> length mem"
  then show "ld_s16 (st_s16 mem p v) p = s16 v" by (simp add: ld_s16_def st_s16_def ld_st wrap_s_mods)
qed (auto simp: ld_s16_def st_s16_def length_st nth_st intro!: arg_cong [where f = s16] ld_cong)

interpretation s32_acc: sample_access 4 ld_s32 st_s32 s32
proof unfold_locales
  fix p :: nat and mem :: bytes and v assume "p + 4 \<le> length mem"
  then show "ld_s32 (st_s32 mem p v) p = s32 v" by (simp add: ld_s32_def st_s32_def ld_st wrap_s_mods)
qed (auto simp: ld_s32_def st_s32_def length_st nth_st intro!: arg_cong [where f = s32] ld_cong)

text \<open>A packed sample loses its lowest byte.\<close>

definition drop_low_byte :: "int \<Rightarrow> int" where
  "drop_low_byte v = s32 (v - v mod 256)"

interpretation s243_acc: sample_access 3 convert_single_s243le_to_s32le convert_single_s32le_to_s243le drop_low_byte
proof unfold_locales
  fix p :: nat and mem :: bytes and v assume "p + 3 \<le> length mem"
  then have "convert_single_s243le_to_s32le (convert_single_s32le_to_s243le mem p v) p = s32 (256 * (v div 256 mod 256 ^ 3))"
    by (simp add: convert_single_s243le_to_s32le_def convert_single_s32le_to_s243le_def ld_st)
  also have "256 * (v div 256 mod 256 ^ 3) = (v - v mod 256) mod 2 ^ 32"
    by (simp add: minus_mod_eq_mult_div mult_mod_right)
  finally show "convert_single_s243le_to_s32le (convert_single_s32le_to_s243le mem p v) p = drop_low_byte v"
    by (simp add: drop_low_byte_def wrap_s_mods)
qed (auto simp: convert_single_s243le_to_s32le_def convert_single_s32le_to_s243le_def length_st nth_st
    intro!: arg_cong [where f = "\<lambda>x. s32 (256 * x)"] ld_cong)

end
