(* ===== verification/Rclient.thy ===== *)
theory Rclient
  imports Stream_List Sample_Mem "HOL-Library.Monad_Syntax"
begin

text \<open>
  The server's side of a client (\<open>cras/src/server/cras_rclient.c\<close>, \<open>cras_rclient_util.c\<close>,
  \<open>cras_control_rclient.c\<close> and the clients for playback, capture and both) and the messages of
  \<open>cras/include/cras_messages.h\<close> that it reads.

  A message is the list of the bytes that were received. The fields of the packed structs are read at their
  offsets; \<open>rd\<close> is None when a field is not within the received bytes, so that a handler without a
  result is one that reads memory the client did not send. Enumerations are unsigned, as the
  compiler makes them.

  What the handlers change is the record \<open>rserver\<close>: the list of streams and the timers, and, recorded in
  order, the descriptors that were closed, the messages sent and the calls of components that are not
  part of this theory (\<open>server_call\<close>). What the system answers to a call is in \<open>rclient_env\<close>. The size of
  \<open>struct cras_floop_params\<close>, which is generated, is a parameter too.
\<close>

unbundle bit_operations_syntax

section \<open>Messages\<close>


definition rd :: "bytes \<Rightarrow> nat \<Rightarrow> nat \<Rightarrow> int option" where
  "rd buf off k = (if off + k \<le> length buf then Some (foldr (\<lambda>b v. b + 256 * v) (take k (drop off buf)) 0) else None)"

definition rd_bytes :: "bytes \<Rightarrow> nat \<Rightarrow> nat \<Rightarrow> bytes option" where
  "rd_bytes buf off k = (if off + k \<le> length buf then Some (take k (drop off buf)) else None)"


text \<open>\<open>enum CRAS_SERVER_MESSAGE_ID\<close>\<close>

definition CRAS_SERVER_CONNECT_STREAM :: int where "CRAS_SERVER_CONNECT_STREAM = 0"
definition CRAS_SERVER_DISCONNECT_STREAM :: int where "CRAS_SERVER_DISCONNECT_STREAM = 1"
definition CRAS_SERVER_SET_SYSTEM_VOLUME :: int where "CRAS_SERVER_SET_SYSTEM_VOLUME = 3"
definition CRAS_SERVER_SET_SYSTEM_MUTE :: int where "CRAS_SERVER_SET_SYSTEM_MUTE = 4"
definition CRAS_SERVER_SET_USER_MUTE :: int where "CRAS_SERVER_SET_USER_MUTE = 5"
definition CRAS_SERVER_SET_SYSTEM_MUTE_LOCKED :: int where "CRAS_SERVER_SET_SYSTEM_MUTE_LOCKED = 6"
definition CRAS_SERVER_SET_SYSTEM_CAPTURE_MUTE :: int where "CRAS_SERVER_SET_SYSTEM_CAPTURE_MUTE = 8"
definition CRAS_SERVER_SET_SYSTEM_CAPTURE_MUTE_LOCKED :: int where "CRAS_SERVER_SET_SYSTEM_CAPTURE_MUTE_LOCKED = 9"
definition CRAS_SERVER_SET_NODE_ATTR :: int where "CRAS_SERVER_SET_NODE_ATTR = 10"
definition CRAS_SERVER_SELECT_NODE :: int where "CRAS_SERVER_SELECT_NODE = 11"
definition CRAS_SERVER_RELOAD_DSP :: int where "CRAS_SERVER_RELOAD_DSP = 12"
definition CRAS_SERVER_DUMP_DSP_INFO :: int where "CRAS_SERVER_DUMP_DSP_INFO = 13"
definition CRAS_SERVER_DUMP_AUDIO_THREAD :: int where "CRAS_SERVER_DUMP_AUDIO_THREAD = 14"
definition CRAS_SERVER_DUMP_SNAPSHOTS :: int where "CRAS_SERVER_DUMP_SNAPSHOTS = 15"
definition CRAS_SERVER_ADD_ACTIVE_NODE :: int where "CRAS_SERVER_ADD_ACTIVE_NODE = 16"
definition CRAS_SERVER_RM_ACTIVE_NODE :: int where "CRAS_SERVER_RM_ACTIVE_NODE = 17"
definition CRAS_SERVER_ADD_TEST_DEV :: int where "CRAS_SERVER_ADD_TEST_DEV = 18"
definition CRAS_SERVER_SUSPEND :: int where "CRAS_SERVER_SUSPEND = 20"
definition CRAS_SERVER_RESUME :: int where "CRAS_SERVER_RESUME = 21"
definition CRAS_SERVER_GET_HOTWORD_MODELS :: int where "CRAS_SERVER_GET_HOTWORD_MODELS = 23"
definition CRAS_SERVER_SET_HOTWORD_MODEL :: int where "CRAS_SERVER_SET_HOTWORD_MODEL = 24"
definition CRAS_SERVER_REGISTER_NOTIFICATION :: int where "CRAS_SERVER_REGISTER_NOTIFICATION = 25"
definition CRAS_SERVER_SET_AEC_DUMP :: int where "CRAS_SERVER_SET_AEC_DUMP = 26"
definition CRAS_SERVER_RELOAD_AEC_CONFIG :: int where "CRAS_SERVER_RELOAD_AEC_CONFIG = 27"
definition CRAS_SERVER_DUMP_BT :: int where "CRAS_SERVER_DUMP_BT = 28"
definition CRAS_SERVER_SET_BT_WBS_ENABLED :: int where "CRAS_SERVER_SET_BT_WBS_ENABLED = 29"
definition CRAS_SERVER_GET_ATLOG_FD :: int where "CRAS_SERVER_GET_ATLOG_FD = 30"
definition CRAS_SERVER_DUMP_MAIN :: int where "CRAS_SERVER_DUMP_MAIN = 31"
definition CRAS_SERVER_SET_AEC_REF :: int where "CRAS_SERVER_SET_AEC_REF = 32"
definition CRAS_SERVER_REQUEST_FLOOP :: int where "CRAS_SERVER_REQUEST_FLOOP = 33"
definition CRAS_SERVER_GET_DSP_OFFLOAD_INFO :: int where "CRAS_SERVER_GET_DSP_OFFLOAD_INFO = 34"

lemmas message_ids =
  CRAS_SERVER_CONNECT_STREAM_def CRAS_SERVER_DISCONNECT_STREAM_def CRAS_SERVER_SET_SYSTEM_VOLUME_def
  CRAS_SERVER_SET_SYSTEM_MUTE_def CRAS_SERVER_SET_USER_MUTE_def CRAS_SERVER_SET_SYSTEM_MUTE_LOCKED_def
  CRAS_SERVER_SET_SYSTEM_CAPTURE_MUTE_def CRAS_SERVER_SET_SYSTEM_CAPTURE_MUTE_LOCKED_def
  CRAS_SERVER_SET_NODE_ATTR_def CRAS_SERVER_SELECT_NODE_def CRAS_SERVER_RELOAD_DSP_def CRAS_SERVER_DUMP_DSP_INFO_def
  CRAS_SERVER_DUMP_AUDIO_THREAD_def CRAS_SERVER_DUMP_SNAPSHOTS_def CRAS_SERVER_ADD_ACTIVE_NODE_def
  CRAS_SERVER_RM_ACTIVE_NODE_def CRAS_SERVER_ADD_TEST_DEV_def CRAS_SERVER_SUSPEND_def CRAS_SERVER_RESUME_def
  CRAS_SERVER_GET_HOTWORD_MODELS_def CRAS_SERVER_SET_HOTWORD_MODEL_def CRAS_SERVER_REGISTER_NOTIFICATION_def
  CRAS_SERVER_SET_AEC_DUMP_def CRAS_SERVER_RELOAD_AEC_CONFIG_def CRAS_SERVER_DUMP_BT_def CRAS_SERVER_SET_BT_WBS_ENABLED_def
  CRAS_SERVER_GET_ATLOG_FD_def CRAS_SERVER_DUMP_MAIN_def CRAS_SERVER_SET_AEC_REF_def CRAS_SERVER_REQUEST_FLOOP_def
  CRAS_SERVER_GET_DSP_OFFLOAD_INFO_def

text \<open>\<open>struct cras_connect_message\<close>; its size is 99 bytes.\<close>

record cras_connect_message =
  cm_proto_version :: int
  cm_direction :: int
  cm_stream_id :: int
  cm_stream_type :: int
  cm_buffer_frames :: int
  cm_cb_threshold :: int
  cm_flags :: int
  cm_format :: cras_audio_format_packed
  cm_dev_idx :: int
  cm_effects :: int
  cm_client_type :: int
  cm_client_shm_size :: int
  cm_buffer_offsets :: "int list"

definition read_format :: "bytes \<Rightarrow> nat \<Rightarrow> cras_audio_format_packed option" where
  "read_format buf off =
     do { f \<leftarrow> rd buf off 4; r \<leftarrow> rd buf (off + 4) 4; n \<leftarrow> rd buf (off + 8) 4; l \<leftarrow> rd_bytes buf (off + 12) CRAS_CH_MAX;
          Some \<lparr>p_format = s32 f, p_frame_rate = r, p_num_channels = n, p_channel_layout = map s8 l\<rparr> }"

definition read_connect_message :: "bytes \<Rightarrow> cras_connect_message option" where
  "read_connect_message buf =
     do { v \<leftarrow> rd buf 8 4; d \<leftarrow> rd buf 12 4; i \<leftarrow> rd buf 16 4; t \<leftarrow> rd buf 20 4; bf \<leftarrow> rd buf 24 4; cb \<leftarrow> rd buf 28 4;
          fl \<leftarrow> rd buf 32 4; fmt \<leftarrow> read_format buf 36; dev \<leftarrow> rd buf 59 4; e \<leftarrow> rd buf 63 8; c \<leftarrow> rd buf 71 4;
          sz \<leftarrow> rd buf 75 8; o0 \<leftarrow> rd buf 83 8; o1 \<leftarrow> rd buf 91 8;
          Some \<lparr>cm_proto_version = v, cm_direction = d, cm_stream_id = i, cm_stream_type = t, cm_buffer_frames = bf,
                cm_cb_threshold = cb, cm_flags = fl, cm_format = fmt, cm_dev_idx = dev, cm_effects = e,
                cm_client_type = c, cm_client_shm_size = sz, cm_buffer_offsets = [o0, o1]\<rparr> }"

text \<open>The client's side: the fields in the order of the struct. A client that provides the memory stores the last
  two fields after \<open>cras_fill_connect_message\<close> has cleared them.\<close>

definition CRAS_PROTO_VER :: int where "CRAS_PROTO_VER = 7"

definition format_bytes :: "cras_audio_format_packed \<Rightarrow> bytes" where
  "format_bytes f = le 4 (p_format f) @ le 4 (p_frame_rate f) @ le 4 (p_num_channels f) @ map (\<lambda>c. c mod 256) (p_channel_layout f)"

definition connect_message_bytes :: "int \<Rightarrow> int \<Rightarrow> cras_connect_message \<Rightarrow> bytes" where
  "connect_message_bytes len i m =
     le 4 len @ le 4 i @ le 4 (cm_proto_version m) @ le 4 (cm_direction m) @ le 4 (cm_stream_id m) @
     le 4 (cm_stream_type m) @ le 4 (cm_buffer_frames m) @ le 4 (cm_cb_threshold m) @ le 4 (cm_flags m) @
     format_bytes (cm_format m) @ le 4 (cm_dev_idx m) @ le 8 (cm_effects m) @ le 4 (cm_client_type m) @
     le 8 (cm_client_shm_size m) @ le 8 (cm_buffer_offsets m ! 0) @ le 8 (cm_buffer_offsets m ! 1)"

definition cras_fill_connect_message ::
  "int \<Rightarrow> int \<Rightarrow> int \<Rightarrow> int \<Rightarrow> int \<Rightarrow> int \<Rightarrow> int \<Rightarrow> int \<Rightarrow> cras_audio_format \<Rightarrow> int \<Rightarrow> bytes" where
  "cras_fill_connect_message direction stream_id stream_type client_type buffer_frames cb_threshold flags effects fmt dev_idx =
     connect_message_bytes 99 CRAS_SERVER_CONNECT_STREAM
       \<lparr>cm_proto_version = CRAS_PROTO_VER, cm_direction = direction, cm_stream_id = stream_id, cm_stream_type = stream_type,
        cm_buffer_frames = u32 buffer_frames, cm_cb_threshold = u32 cb_threshold, cm_flags = flags,
        cm_format = pack_cras_audio_format fmt, cm_dev_idx = dev_idx, cm_effects = effects, cm_client_type = client_type,
        cm_client_shm_size = 0, cm_buffer_offsets = [0, 0]\<rparr>"

definition cras_fill_disconnect_stream_message :: "int \<Rightarrow> bytes" where
  "cras_fill_disconnect_stream_message stream_id = le 4 12 @ le 4 CRAS_SERVER_DISCONNECT_STREAM @ le 4 stream_id"

section \<open>Clients\<close>

text \<open>\<open>enum CRAS_CONNECTION_TYPE\<close>\<close>

definition CRAS_CONTROL :: int where "CRAS_CONTROL = 0"
definition CRAS_PLAYBACK :: int where "CRAS_PLAYBACK = 1"
definition CRAS_CAPTURE :: int where "CRAS_CAPTURE = 2"
definition CRAS_VMS_LEGACY :: int where "CRAS_VMS_LEGACY = 3"
definition CRAS_VMS_UNIFIED :: int where "CRAS_VMS_UNIFIED = 4"
definition CRAS_PLUGIN_PLAYBACK :: int where "CRAS_PLUGIN_PLAYBACK = 5"
definition CRAS_PLUGIN_UNIFIED :: int where "CRAS_PLUGIN_UNIFIED = 6"
definition CRAS_NUM_CONN_TYPE :: int where "CRAS_NUM_CONN_TYPE = 7"
definition CRAS_CLIENT_TYPE_UNKNOWN :: int where "CRAS_CLIENT_TYPE_UNKNOWN = 0"
definition CRAS_CLIENT_TYPE_PLUGIN :: int where "CRAS_CLIENT_TYPE_PLUGIN = 9"
definition CRAS_STREAM_UNDEFINED :: int where "CRAS_STREAM_UNDEFINED = 2"
definition CRAS_NUM_DIRECTIONS :: int where "CRAS_NUM_DIRECTIONS = 4"

lemmas conn_types = CRAS_CONTROL_def CRAS_PLAYBACK_def CRAS_CAPTURE_def CRAS_VMS_LEGACY_def CRAS_VMS_UNIFIED_def
  CRAS_PLUGIN_PLAYBACK_def CRAS_PLUGIN_UNIFIED_def CRAS_NUM_CONN_TYPE_def

definition cras_validate_connection_type :: "int \<Rightarrow> bool" where
  "cras_validate_connection_type conn_type \<longleftrightarrow> 0 \<le> conn_type \<and> conn_type < CRAS_NUM_CONN_TYPE"

definition cras_stream_direction_mask :: "int \<Rightarrow> int" where
  "cras_stream_direction_mask dir = (if 0 \<le> dir \<and> dir < CRAS_NUM_DIRECTIONS then push_bit (nat dir) 1 else - EINVAL)"

definition cras_get_stream_id :: "int \<Rightarrow> int \<Rightarrow> int" where
  "cras_get_stream_id client_id stream_id = push_bit 16 (client_id AND 65535) OR (stream_id AND 65535)"

text \<open>The parameter \<open>client_id\<close> is a \<open>uint16_t\<close>; the callers pass a \<open>size_t\<close>.\<close>

definition cras_valid_stream_id :: "int \<Rightarrow> int \<Rightarrow> bool" where
  "cras_valid_stream_id stream_id client_id \<longleftrightarrow> (drop_bit 16 stream_id XOR u16 client_id) = 0"

definition cras_validate_client_type :: "int \<Rightarrow> bool" where
  "cras_validate_client_type client_type \<longleftrightarrow> 0 \<le> client_type \<and> client_type < CRAS_NUM_CLIENT_TYPE"

datatype rclient_ops = Control_ops | Playback_ops | Capture_ops | Unified_ops

text \<open>\<open>cl_ptr\<close> is the address of the client. Of an observer the notifications that are set remain, by the
  identifiers of their messages.\<close>

record cras_rclient =
  cl_ptr :: int
  cl_observer :: "int list option"
  cl_id :: int
  cl_fd :: int
  cl_ops :: rclient_ops
  cl_supported_directions :: int
  cl_client_type :: int
  cl_conn_type :: int

text \<open>Messages to a client; \<open>StreamConnected err stream_id format samples_shm_size effects\<close>.\<close>

datatype client_message =
    ClientConnected int
  | StreamConnected int int cras_audio_format_packed int int
  | AudioDebugInfoReady
  | AtlogFdReady
  | HotwordModelsReady int bytes
  | RequestFloopReady int int
  | DspOffloadInfoReady int

definition cras_fill_client_stream_connected :: "int \<Rightarrow> int \<Rightarrow> cras_audio_format \<Rightarrow> int \<Rightarrow> int \<Rightarrow> client_message" where
  "cras_fill_client_stream_connected err stream_id fmt samples_shm_size effects =
     StreamConnected err stream_id (pack_cras_audio_format fmt)
       (if samples_shm_size > 2 ^ 32 - 1 then 2 ^ 32 - 1 else samples_shm_size) effects"

datatype server_call =
    SetVolume int | SetMute int | SetUserMute int | SetMuteLocked int | SetCaptureMute int | SetCaptureMuteLocked int
  | SetNodeAttr int int int | SelectNode int int | AddActiveNode int int | RmActiveNode int int
  | ReloadDsp | DumpDspInfo | DumpThreadInfo | DumpSnapshots | CopyMainLog | CopyBtLogs
  | SetBtWbsEnabled bool | AddTestDev int | SetSuspended int | SetHotwordModel int bytes
  | SetAecDump int int int | ReloadAecConfig | SetAecRef int int | RequestFloop bytes
  | ObserverAdd int "int list" | ObserverSet int "int list" | ObserverRemove int

record 'w rserver =
  sv_list :: "'w stream_list"
  sv_timers :: timers
  sv_closed :: "int list"
  sv_sent :: "(int \<times> client_message \<times> int list) list"
  sv_calls :: "server_call list"

record rclient_env =
  re_now :: timespec
  re_alloc :: "timers \<Rightarrow> nat option"
  re_client_alloc :: "int option"
  re_observer_alloc :: bool
  re_send :: int
  re_state_fd :: int
  re_atlog_fd :: int
  re_shm_fds :: "stream_obj \<Rightarrow> int \<times> int"
  re_hotword :: "int \<Rightarrow> bytes option"
  re_floop :: int
  re_floop_size :: nat
  re_offload :: int

definition close_fds :: "int list \<Rightarrow> 'w rserver \<Rightarrow> 'w rserver" where
  "close_fds fds sv = sv\<lparr>sv_closed := sv_closed sv @ filter (\<lambda>fd. 0 \<le> fd) fds\<rparr>"

definition server_call :: "server_call \<Rightarrow> 'w rserver \<Rightarrow> 'w rserver" where
  "server_call c sv = sv\<lparr>sv_calls := sv_calls sv @ [c]\<rparr>"

definition rclient_send_message_to_client :: "cras_rclient \<Rightarrow> client_message \<Rightarrow> int list \<Rightarrow> 'w rserver \<Rightarrow> 'w rserver" where
  "rclient_send_message_to_client client msg fds sv = sv\<lparr>sv_sent := sv_sent sv @ [(cl_fd client, msg, fds)]\<rparr>"

definition rclient_destroy :: "'w stream_cbs \<Rightarrow> rclient_env \<Rightarrow> cras_rclient \<Rightarrow> 'w rserver \<Rightarrow> 'w rserver" where
  "rclient_destroy cbs env client sv =
     (let sv = (case cl_observer client of None \<Rightarrow> sv | Some _ \<Rightarrow> server_call (ObserverRemove (cl_ptr client)) sv);
          (_, list, timers) = stream_list_rm_all_client_streams cbs (re_alloc env) (re_now env) (sv_list sv, sv_timers sv) (cl_ptr client)
      in sv\<lparr>sv_list := list, sv_timers := timers\<rparr>)"

definition rclient_validate_message_fds :: "int \<Rightarrow> int list \<Rightarrow> int" where
  "rclient_validate_message_fds msg_id fds =
     (if msg_id = CRAS_SERVER_CONNECT_STREAM then (if length fds > 2 then - EINVAL else 0)
      else if msg_id = CRAS_SERVER_SET_AEC_DUMP then (if length fds > 1 then - EINVAL else 0)
      else if length fds > 0 then - EINVAL else 0)"

text \<open>An invalid type of client is only logged.\<close>

definition rclient_validate_stream_connect_message :: "cras_rclient \<Rightarrow> cras_connect_message \<Rightarrow> int" where
  "rclient_validate_stream_connect_message client msg =
     (let direction = cras_stream_direction_mask (cm_direction msg) in
      if \<not> cras_valid_stream_id (cm_stream_id msg) (cl_id client) then - EINVAL
      else if direction < 0 \<or> cl_supported_directions client AND direction = 0 then - EINVAL
      else if cl_conn_type client \<noteq> CRAS_CONTROL \<and> cl_conn_type client \<noteq> CRAS_PLAYBACK \<and> cl_conn_type client \<noteq> CRAS_CAPTURE \<and>
              cm_dev_idx msg \<noteq> NO_DEVICE then - EACCES
      else 0)"

definition rclient_validate_stream_connect_fds :: "int \<Rightarrow> int \<Rightarrow> int \<Rightarrow> int" where
  "rclient_validate_stream_connect_fds audio_fd client_shm_fd client_shm_size =
     (if audio_fd < 0 then - EBADF
      else if client_shm_size > 0 \<and> client_shm_fd < 0 then - EBADF
      else if client_shm_size = 0 \<and> client_shm_fd \<ge> 0 then - EINVAL
      else 0)"

definition rclient_validate_stream_connect_params :: "cras_rclient \<Rightarrow> cras_connect_message \<Rightarrow> int \<Rightarrow> int \<Rightarrow> int" where
  "rclient_validate_stream_connect_params client msg audio_fd client_shm_fd =
     (let rc = rclient_validate_stream_connect_message client msg in
      if rc \<noteq> 0 then rc
      else
        let rc = rclient_validate_stream_connect_fds audio_fd client_shm_fd (cm_client_shm_size msg) in
        if rc \<noteq> 0 then rc else 0)"

definition cras_rstream_config_init_with_message ::
  "cras_rclient \<Rightarrow> cras_connect_message \<Rightarrow> int \<Rightarrow> int \<Rightarrow> cras_audio_format \<Rightarrow> cras_rstream_config \<times> int \<times> int" where
  "cras_rstream_config_init_with_message client msg aud_fd client_shm_fd remote_fmt =
     cras_rstream_config_init (cl_ptr client) (cm_stream_id msg) (cm_stream_type msg) (cm_client_type msg) (cm_direction msg)
       (cm_dev_idx msg) (cm_flags msg) (u32 (cm_effects msg)) (Some remote_fmt) (cm_buffer_frames msg) (cm_cb_threshold msg)
       aud_fd client_shm_fd (cm_client_shm_size msg) (cm_buffer_offsets msg)"

text \<open>From the label \<open>reply_err\<close>, and from \<open>cleanup_config\<close>.\<close>

definition reply_err :: "cras_rclient \<Rightarrow> cras_connect_message \<Rightarrow> int \<Rightarrow> 'w rserver \<Rightarrow> int \<times> 'w rserver" where
  "reply_err client msg rc sv =
     (rc, rclient_send_message_to_client client
            (cras_fill_client_stream_connected rc (cm_stream_id msg) (unpack_cras_audio_format (cm_format msg)) 0 (cm_effects msg)) [] sv)"

definition cleanup_config ::
  "cras_rclient \<Rightarrow> cras_connect_message \<Rightarrow> int \<Rightarrow> cras_rstream_config \<Rightarrow> 'w rserver \<Rightarrow> int \<times> 'w rserver" where
  "cleanup_config client msg rc cfg sv = reply_err client msg rc (close_fds (cras_rstream_config_cleanup cfg) sv)"

text \<open>From the test for a sidetone; \<open>aud_fd\<close> is what is left in the variable.\<close>

definition connect_with_config ::
  "'w stream_cbs \<Rightarrow> rclient_env \<Rightarrow> cras_rclient \<Rightarrow> cras_connect_message \<Rightarrow> cras_audio_format \<Rightarrow> int \<Rightarrow> cras_rstream_config \<Rightarrow>
   'w rserver \<Rightarrow> int \<times> 'w rserver" where
  "connect_with_config cbs env client msg remote_fmt aud_fd cfg sv =
     (if rc_flags cfg AND SIDETONE_STREAM = SIDETONE_STREAM then cleanup_config client msg (- EINVAL) cfg sv
      else
        let (rc, cfg, stream, list) = stream_list_add cbs (sv_list sv) cfg;
            sv = sv\<lparr>sv_list := list\<rparr>
        in if rc \<noteq> 0 then cleanup_config client msg rc cfg sv
           else
             let stream = the stream;
                 samples_size = cras_shm_samples_size (rs_shm (snd stream))
             in if samples_size > 2 ^ 32 - 1 \<and> rc_client_shm_fd cfg < 0
                then cleanup_config client msg (- EINVAL) cfg (close_fds [aud_fd] sv)
                else
                  let reply = cras_fill_client_stream_connected 0 (cm_stream_id msg) remote_fmt samples_size
                                (cras_rstream_get_effects (snd stream));
                      (header_fd, samples_fd) = re_shm_fds env stream;
                      sv = rclient_send_message_to_client client reply [header_fd, samples_fd] sv
                  in if re_send env < 0 then
                       let (_, list, timers) = stream_list_rm cbs (re_alloc env) (re_now env) (sv_list sv, sv_timers sv)
                                                 (rs_stream_id (snd stream))
                       in cleanup_config client msg (re_send env) cfg (sv\<lparr>sv_list := list, sv_timers := timers\<rparr>)
                     else (0, close_fds (cras_rstream_config_cleanup cfg) sv))"

definition rclient_handle_client_stream_connect ::
  "'w stream_cbs \<Rightarrow> rclient_env \<Rightarrow> cras_rclient \<Rightarrow> cras_connect_message \<Rightarrow> int \<Rightarrow> int \<Rightarrow> 'w rserver \<Rightarrow> int \<times> 'w rserver" where
  "rclient_handle_client_stream_connect cbs env client msg aud_fd client_shm_fd sv =
     (let rc = rclient_validate_stream_connect_params client msg aud_fd client_shm_fd;
          remote_fmt = unpack_cras_audio_format (cm_format msg);
          rc = (if rc = 0 \<and> \<not> cras_audio_format_valid remote_fmt then - EINVAL else rc)
      in if rc \<noteq> 0 then reply_err client msg rc (close_fds [client_shm_fd, aud_fd] sv)
         else
           let (cfg, aud_fd, client_shm_fd) = cras_rstream_config_init_with_message client msg aud_fd client_shm_fd remote_fmt;
               cfg = (if cl_client_type client \<noteq> CRAS_CLIENT_TYPE_UNKNOWN then cfg\<lparr>rc_client_type := cl_client_type client\<rparr> else cfg)
           in connect_with_config cbs env client msg remote_fmt aud_fd cfg sv)"

definition rclient_handle_client_stream_disconnect ::
  "'w stream_cbs \<Rightarrow> rclient_env \<Rightarrow> cras_rclient \<Rightarrow> int \<Rightarrow> 'w rserver \<Rightarrow> int \<times> 'w rserver" where
  "rclient_handle_client_stream_disconnect cbs env client stream_id sv =
     (if \<not> cras_valid_stream_id stream_id (cl_id client) then (- EINVAL, sv)
      else
        let (rc, list, timers) = stream_list_rm cbs (re_alloc env) (re_now env) (sv_list sv, sv_timers sv) stream_id
        in (rc, sv\<lparr>sv_list := list, sv_timers := timers\<rparr>))"

definition rclient_handle_client_set_aec_ref :: "cras_rclient \<Rightarrow> int \<Rightarrow> int \<Rightarrow> 'w rserver \<Rightarrow> int \<times> 'w rserver" where
  "rclient_handle_client_set_aec_ref client stream_id iodev_idx sv =
     (if \<not> cras_valid_stream_id stream_id (cl_id client) then (- EINVAL, sv)
      else (0, server_call (SetAecRef stream_id iodev_idx) sv))"

definition rclient_generic_create ::
  "rclient_env \<Rightarrow> int \<Rightarrow> int \<Rightarrow> rclient_ops \<Rightarrow> int \<Rightarrow> 'w rserver \<Rightarrow> cras_rclient option \<times> 'w rserver" where
  "rclient_generic_create env fd i ops supported_directions sv =
     (case re_client_alloc env of
        None \<Rightarrow> (None, sv)
      | Some p \<Rightarrow>
          let client = \<lparr>cl_ptr = p, cl_observer = None, cl_id = i, cl_fd = fd, cl_ops = ops,
                cl_supported_directions = supported_directions, cl_client_type = CRAS_CLIENT_TYPE_UNKNOWN, cl_conn_type = CRAS_CONTROL\<rparr>
          in (Some client, rclient_send_message_to_client client (ClientConnected (u32 i)) [re_state_fd env] sv))"

subsection \<open>Messages of clients for playback and capture\<close>

text \<open>\<open>MSG_LEN_VALID\<close>; the result of a handler is the return value, the client and the state.\<close>

type_synonym 'w handled = "(int \<times> cras_rclient \<times> 'w rserver) option"

definition handle_connect ::
  "'w stream_cbs \<Rightarrow> rclient_env \<Rightarrow> cras_rclient \<Rightarrow> bytes \<Rightarrow> int \<Rightarrow> int list \<Rightarrow> 'w rserver \<Rightarrow> 'w handled" where
  "handle_connect cbs env client buf len fds sv =
     (let fd = (if length fds > 0 then fds ! 0 else - 1);
          client_shm_fd = (if length fds > 1 then fds ! 1 else - 1)
      in if len \<ge> 99 then
           do { m \<leftarrow> read_connect_message buf;
                Some (0, client, snd (rclient_handle_client_stream_connect cbs env client m fd client_shm_fd sv)) }
         else Some (- EINVAL, client, sv))"

definition handle_disconnect :: "'w stream_cbs \<Rightarrow> rclient_env \<Rightarrow> cras_rclient \<Rightarrow> bytes \<Rightarrow> int \<Rightarrow> 'w rserver \<Rightarrow> 'w handled" where
  "handle_disconnect cbs env client buf len sv =
     (if \<not> len \<ge> 12 then Some (- EINVAL, client, sv)
      else do { i \<leftarrow> rd buf 8 4; Some (0, client, snd (rclient_handle_client_stream_disconnect cbs env client i sv)) })"

definition handle_aec_ref :: "cras_rclient \<Rightarrow> bytes \<Rightarrow> int \<Rightarrow> 'w rserver \<Rightarrow> 'w handled" where
  "handle_aec_ref client buf len sv =
     (if \<not> len \<ge> 16 then Some (- EINVAL, client, sv)
      else do { i \<leftarrow> rd buf 8 4; dev \<leftarrow> rd buf 12 4; Some (0, client, snd (rclient_handle_client_set_aec_ref client i dev sv)) })"

definition rclient_handle_message_from_client ::
  "'w stream_cbs \<Rightarrow> rclient_env \<Rightarrow> cras_rclient \<Rightarrow> bytes \<Rightarrow> int list \<Rightarrow> 'w rserver \<Rightarrow> 'w handled" where
  "rclient_handle_message_from_client cbs env client buf fds sv =
     do { len \<leftarrow> rd buf 0 4; i \<leftarrow> rd buf 4 4;
          (let rc = rclient_validate_message_fds i fds in
           if rc < 0 then Some (rc, client, close_fds fds sv)
           else if i = CRAS_SERVER_CONNECT_STREAM then handle_connect cbs env client buf len fds sv
           else if i = CRAS_SERVER_DISCONNECT_STREAM then handle_disconnect cbs env client buf len sv
           else if i = CRAS_SERVER_SET_AEC_REF then handle_aec_ref client buf len sv
           else Some (rc, client, sv)) }"

subsection \<open>Messages of control clients\<close>

definition dump_audio_thread_info :: "cras_rclient \<Rightarrow> 'w rserver \<Rightarrow> 'w rserver" where
  "dump_audio_thread_info client sv = rclient_send_message_to_client client AudioDebugInfoReady [] (server_call DumpThreadInfo sv)"

definition get_atlog_fd :: "rclient_env \<Rightarrow> cras_rclient \<Rightarrow> 'w rserver \<Rightarrow> 'w rserver" where
  "get_atlog_fd env client sv = rclient_send_message_to_client client AtlogFdReady [re_atlog_fd env] sv"

definition dump_audio_thread_snapshots :: "cras_rclient \<Rightarrow> 'w rserver \<Rightarrow> 'w rserver" where
  "dump_audio_thread_snapshots client sv = rclient_send_message_to_client client AudioDebugInfoReady [] (server_call DumpSnapshots sv)"

definition handle_get_hotword_models :: "rclient_env \<Rightarrow> cras_rclient \<Rightarrow> int \<Rightarrow> 'w rserver \<Rightarrow> 'w rserver" where
  "handle_get_hotword_models env client node_id sv =
     (case re_hotword env node_id of
        None \<Rightarrow> rclient_send_message_to_client client (HotwordModelsReady 0 []) [] sv
      | Some models \<Rightarrow>
          if length models > 243 then rclient_send_message_to_client client (HotwordModelsReady 0 []) [] sv
          else rclient_send_message_to_client client (HotwordModelsReady (int (length models)) models) [] sv)"

definition handle_request_floop :: "rclient_env \<Rightarrow> cras_rclient \<Rightarrow> bytes \<Rightarrow> int \<Rightarrow> 'w rserver \<Rightarrow> 'w rserver" where
  "handle_request_floop env client params tag sv =
     (if cl_conn_type client \<noteq> CRAS_CONTROL
      then rclient_send_message_to_client client (RequestFloopReady (- EACCES) tag) [] sv
      else rclient_send_message_to_client client (RequestFloopReady (re_floop env) tag) [] (server_call (RequestFloop params) sv))"

definition handle_get_dsp_offload_info :: "rclient_env \<Rightarrow> cras_rclient \<Rightarrow> 'w rserver \<Rightarrow> 'w rserver" where
  "handle_get_dsp_offload_info env client sv =
     rclient_send_message_to_client client (DspOffloadInfoReady (if re_offload env < 0 then 0 else re_offload env)) [] sv"

text \<open>The notifications are the identifiers from \<open>CRAS_CLIENT_OUTPUT_VOLUME_CHANGED\<close> to
  \<open>CRAS_CLIENT_NUM_ACTIVE_STREAMS_CHANGED\<close>, each a field of \<open>struct cras_observer_ops\<close>.\<close>

definition set_notification :: "int \<Rightarrow> bool \<Rightarrow> int list \<Rightarrow> int list" where
  "set_notification i do_register ops = (if do_register then List.insert i ops else removeAll i ops)"

definition register_for_notification :: "rclient_env \<Rightarrow> cras_rclient \<Rightarrow> int \<Rightarrow> int \<Rightarrow> 'w rserver \<Rightarrow> cras_rclient \<times> 'w rserver" where
  "register_for_notification env client msg_id do_register sv =
     (let ops = (case cl_observer client of None \<Rightarrow> [] | Some ops \<Rightarrow> ops);
          ops = (if 4 \<le> msg_id \<and> msg_id \<le> 13 then set_notification msg_id (do_register \<noteq> 0) ops else ops);
          p = cl_ptr client
      in case cl_observer client of
           Some _ \<Rightarrow> if ops = [] then (client\<lparr>cl_observer := None\<rparr>, server_call (ObserverRemove p) sv)
                     else (client\<lparr>cl_observer := Some ops\<rparr>, server_call (ObserverSet p ops) sv)
         | None \<Rightarrow> if ops = [] then (client, sv)
                   else (client\<lparr>cl_observer := (if re_observer_alloc env then Some ops else None)\<rparr>, server_call (ObserverAdd p ops) sv))"

definition direction_valid :: "int \<Rightarrow> bool" where
  "direction_valid direction \<longleftrightarrow> direction < CRAS_NUM_DIRECTIONS \<and> direction \<noteq> CRAS_STREAM_UNDEFINED"

text \<open>A message with one field that is passed on, when it has the length; and one with a direction and a node.\<close>

definition one_field :: "cras_rclient \<Rightarrow> bytes \<Rightarrow> int \<Rightarrow> (int \<Rightarrow> server_call) \<Rightarrow> 'w rserver \<Rightarrow> 'w handled" where
  "one_field client buf len call sv =
     (if \<not> len \<ge> 12 then Some (- EINVAL, client, sv)
      else do { v \<leftarrow> rd buf 8 4; Some (0, client, server_call (call v) sv) })"

definition node_field :: "cras_rclient \<Rightarrow> bytes \<Rightarrow> int \<Rightarrow> (int \<Rightarrow> int \<Rightarrow> server_call) \<Rightarrow> 'w rserver \<Rightarrow> 'w handled" where
  "node_field client buf len call sv =
     (if \<not> len \<ge> 20 then Some (- EINVAL, client, sv)
      else do { d \<leftarrow> rd buf 8 4;
                if \<not> direction_valid d then Some (- EINVAL, client, sv)
                else do { n \<leftarrow> rd buf 12 8; Some (0, client, server_call (call d n) sv) } })"

text \<open>The branches of the \<open>switch\<close> that do not touch the streams.\<close>

definition ccr_request ::
  "rclient_env \<Rightarrow> cras_rclient \<Rightarrow> bytes \<Rightarrow> int \<Rightarrow> int \<Rightarrow> int \<Rightarrow> 'w rserver \<Rightarrow> 'w handled" where
  "ccr_request env client buf len i fd sv =
     (if i = CRAS_SERVER_SET_SYSTEM_VOLUME then one_field client buf len SetVolume sv
      else if i = CRAS_SERVER_SET_SYSTEM_MUTE then one_field client buf len (\<lambda>v. SetMute (s32 v)) sv
      else if i = CRAS_SERVER_SET_USER_MUTE then one_field client buf len (\<lambda>v. SetUserMute (s32 v)) sv
      else if i = CRAS_SERVER_SET_SYSTEM_MUTE_LOCKED then one_field client buf len (\<lambda>v. SetMuteLocked (s32 v)) sv
      else if i = CRAS_SERVER_SET_SYSTEM_CAPTURE_MUTE then one_field client buf len (\<lambda>v. SetCaptureMute (s32 v)) sv
      else if i = CRAS_SERVER_SET_SYSTEM_CAPTURE_MUTE_LOCKED then one_field client buf len (\<lambda>v. SetCaptureMuteLocked (s32 v)) sv
      else if i = CRAS_SERVER_SET_NODE_ATTR then
        if \<not> len \<ge> 24 then Some (- EINVAL, client, sv)
        else do { n \<leftarrow> rd buf 8 8; a \<leftarrow> rd buf 16 4; v \<leftarrow> rd buf 20 4; Some (0, client, server_call (SetNodeAttr n a (s32 v)) sv) }
      else if i = CRAS_SERVER_SELECT_NODE then node_field client buf len SelectNode sv
      else if i = CRAS_SERVER_ADD_ACTIVE_NODE then node_field client buf len AddActiveNode sv
      else if i = CRAS_SERVER_RM_ACTIVE_NODE then node_field client buf len RmActiveNode sv
      else if i = CRAS_SERVER_RELOAD_DSP then Some (0, client, server_call ReloadDsp sv)
      else if i = CRAS_SERVER_DUMP_DSP_INFO then Some (0, client, server_call DumpDspInfo sv)
      else if i = CRAS_SERVER_DUMP_AUDIO_THREAD then Some (0, client, dump_audio_thread_info client sv)
      else if i = CRAS_SERVER_GET_ATLOG_FD then Some (0, client, get_atlog_fd env client sv)
      else if i = CRAS_SERVER_DUMP_MAIN then
        Some (0, client, rclient_send_message_to_client client AudioDebugInfoReady [] (server_call CopyMainLog sv))
      else if i = CRAS_SERVER_DUMP_BT then
        Some (0, client, rclient_send_message_to_client client AudioDebugInfoReady [] (server_call CopyBtLogs sv))
      else if i = CRAS_SERVER_SET_BT_WBS_ENABLED then one_field client buf len (\<lambda>v. SetBtWbsEnabled (v \<noteq> 0)) sv
      else if i = CRAS_SERVER_DUMP_SNAPSHOTS then Some (0, client, dump_audio_thread_snapshots client sv)
      else if i = CRAS_SERVER_ADD_TEST_DEV then one_field client buf len AddTestDev sv
      else if i = CRAS_SERVER_SUSPEND then Some (0, client, server_call (SetSuspended 1) sv)
      else if i = CRAS_SERVER_RESUME then Some (0, client, server_call (SetSuspended 0) sv)
      else if i = CRAS_SERVER_GET_HOTWORD_MODELS then
        if \<not> len \<ge> 16 then Some (- EINVAL, client, sv)
        else do { n \<leftarrow> rd buf 8 8; Some (0, client, handle_get_hotword_models env client n sv) }
      else if i = CRAS_SERVER_SET_HOTWORD_MODEL then
        if \<not> len \<ge> 28 then Some (- EINVAL, client, sv)
        else do { n \<leftarrow> rd buf 8 8; name \<leftarrow> rd_bytes buf 16 12; Some (0, client, server_call (SetHotwordModel n name) sv) }
      else if i = CRAS_SERVER_REGISTER_NOTIFICATION then
        if \<not> len \<ge> 16 then Some (- EINVAL, client, sv)
        else do { m \<leftarrow> rd buf 8 4; r \<leftarrow> rd buf 12 4; Some (0, register_for_notification env client m (s32 r) sv) }
      else if i = CRAS_SERVER_SET_AEC_DUMP then
        if \<not> len \<ge> 16 then Some (- EINVAL, client, sv)
        else if cl_conn_type client \<noteq> CRAS_CONTROL then Some (- EACCES, client, sv)
        else do { s \<leftarrow> rd buf 8 4; start \<leftarrow> rd buf 12 4; Some (0, client, server_call (SetAecDump s start fd) sv) }
      else if i = CRAS_SERVER_RELOAD_AEC_CONFIG then Some (0, client, server_call ReloadAecConfig sv)
      else if i = CRAS_SERVER_REQUEST_FLOOP then
        if \<not> len \<ge> 16 + int (re_floop_size env) then Some (- EINVAL, client, sv)
        else do { p \<leftarrow> rd_bytes buf 8 (re_floop_size env); t \<leftarrow> rd buf (8 + re_floop_size env) 8;
                  Some (0, client, handle_request_floop env client p t sv) }
      else if i = CRAS_SERVER_GET_DSP_OFFLOAD_INFO then
        if \<not> len \<ge> 8 then Some (- EINVAL, client, sv) else Some (0, client, handle_get_dsp_offload_info env client sv)
      else Some (0, client, sv))"

definition ccr_handle_message_from_client ::
  "'w stream_cbs \<Rightarrow> rclient_env \<Rightarrow> cras_rclient \<Rightarrow> bytes \<Rightarrow> int list \<Rightarrow> 'w rserver \<Rightarrow> 'w handled" where
  "ccr_handle_message_from_client cbs env client buf fds sv =
     do { len \<leftarrow> rd buf 0 4; i \<leftarrow> rd buf 4 4;
          (let rc = rclient_validate_message_fds i fds;
               fd = (if length fds > 0 then fds ! 0 else - 1)
           in if rc < 0 then Some (rc, client, close_fds fds sv)
              else if i = CRAS_SERVER_CONNECT_STREAM then handle_connect cbs env client buf len fds sv
              else if i = CRAS_SERVER_DISCONNECT_STREAM then handle_disconnect cbs env client buf len sv
              else if i = CRAS_SERVER_SET_AEC_REF then handle_aec_ref client buf len sv
              else ccr_request env client buf len i fd sv) }"

subsection \<open>Any client\<close>

definition cras_rclient_buffer_from_client ::
  "'w stream_cbs \<Rightarrow> rclient_env \<Rightarrow> cras_rclient \<Rightarrow> bytes \<Rightarrow> int list \<Rightarrow> 'w rserver \<Rightarrow> 'w handled" where
  "cras_rclient_buffer_from_client cbs env client buf fds sv =
     (if length buf < 8 then Some (- EINVAL, client, sv)
      else do { len \<leftarrow> rd buf 0 4;
                if len \<noteq> int (length buf) then Some (- EINVAL, client, sv)
                else case cl_ops client of
                       Control_ops \<Rightarrow> ccr_handle_message_from_client cbs env client buf fds sv
                     | _ \<Rightarrow> rclient_handle_message_from_client cbs env client buf fds sv })"

definition cras_playback_rclient_create :: "rclient_env \<Rightarrow> int \<Rightarrow> int \<Rightarrow> 'w rserver \<Rightarrow> cras_rclient option \<times> 'w rserver" where
  "cras_playback_rclient_create env fd i sv =
     rclient_generic_create env fd i Playback_ops (cras_stream_direction_mask CRAS_STREAM_OUTPUT) sv"

definition cras_capture_rclient_create :: "rclient_env \<Rightarrow> int \<Rightarrow> int \<Rightarrow> 'w rserver \<Rightarrow> cras_rclient option \<times> 'w rserver" where
  "cras_capture_rclient_create env fd i sv =
     rclient_generic_create env fd i Capture_ops (cras_stream_direction_mask CRAS_STREAM_INPUT) sv"

definition cras_unified_rclient_create :: "rclient_env \<Rightarrow> int \<Rightarrow> int \<Rightarrow> 'w rserver \<Rightarrow> cras_rclient option \<times> 'w rserver" where
  "cras_unified_rclient_create env fd i sv =
     rclient_generic_create env fd i Unified_ops
       (cras_stream_direction_mask CRAS_STREAM_OUTPUT OR cras_stream_direction_mask CRAS_STREAM_INPUT) sv"

definition cras_control_rclient_create :: "rclient_env \<Rightarrow> int \<Rightarrow> int \<Rightarrow> 'w rserver \<Rightarrow> cras_rclient option \<times> 'w rserver" where
  "cras_control_rclient_create env fd i sv =
     rclient_generic_create env fd i Control_ops
       ((push_bit (nat CRAS_NUM_DIRECTIONS) 1 - 1) XOR cras_stream_direction_mask CRAS_STREAM_UNDEFINED) sv"

text \<open>For a plugin the type of client is stored before the pointer is tested: None is the dereference of NULL.\<close>

definition cras_rclient_set_client_type :: "cras_rclient option \<Rightarrow> int \<Rightarrow> cras_rclient option" where
  "cras_rclient_set_client_type client client_type = map_option (\<lambda>c. c\<lparr>cl_client_type := client_type\<rparr>) client"

definition cras_rclient_create ::
  "rclient_env \<Rightarrow> int \<Rightarrow> int \<Rightarrow> int \<Rightarrow> 'w rserver \<Rightarrow> (cras_rclient option \<times> 'w rserver) option" where
  "cras_rclient_create env fd i conn_type sv =
     (let plugin = (\<lambda>(client, sv). map_option (\<lambda>c. (Some c, sv)) (cras_rclient_set_client_type client CRAS_CLIENT_TYPE_PLUGIN));
          typed = (\<lambda>(client, sv). (map_option (\<lambda>c. c\<lparr>cl_conn_type := conn_type\<rparr>) client, sv))
      in if \<not> cras_validate_connection_type conn_type then Some (None, sv)
         else map_option typed
           (if conn_type = CRAS_CONTROL then Some (cras_control_rclient_create env fd i sv)
            else if conn_type = CRAS_PLAYBACK then Some (cras_playback_rclient_create env fd i sv)
            else if conn_type = CRAS_CAPTURE then Some (cras_capture_rclient_create env fd i sv)
            else if conn_type = CRAS_VMS_LEGACY then Some (cras_playback_rclient_create env fd i sv)
            else if conn_type = CRAS_VMS_UNIFIED then Some (cras_unified_rclient_create env fd i sv)
            else if conn_type = CRAS_PLUGIN_PLAYBACK then plugin (cras_playback_rclient_create env fd i sv)
            else if conn_type = CRAS_PLUGIN_UNIFIED then plugin (cras_unified_rclient_create env fd i sv)
            else Some (None, sv)))"

section \<open>Bytes\<close>


lemma rd_le:
  "rd (le k v @ ys) 0 k = Some (v mod 256 ^ k)" "rd (le k v) 0 k = Some (v mod 256 ^ k)"
  by (simp_all add: rd_def foldr_le)

lemma rd_skip: "n \<le> off \<Longrightarrow> rd (le n v @ ys) off k = rd ys (off - n) k"
  by (auto simp: rd_def)

lemma rd_append: "length xs \<le> off \<Longrightarrow> rd (xs @ ys) off k = rd ys (off - length xs) k"
  by (auto simp: rd_def)

lemma rd_bytes_append: "length xs \<le> off \<Longrightarrow> rd_bytes (xs @ ys) off k = rd_bytes ys (off - length xs) k"
  by (auto simp: rd_bytes_def)

lemma rd_some: "off + k \<le> length buf \<Longrightarrow> \<exists>v. rd buf off k = Some v"
  by (simp add: rd_def)

lemma rd_bytes_some: "off + k \<le> length buf \<Longrightarrow> \<exists>v. rd_bytes buf off k = Some v"
  by (simp add: rd_bytes_def)

text \<open>A message whose fields have the widths of the struct.\<close>

definition connect_message_typed :: "cras_connect_message \<Rightarrow> bool" where
  "connect_message_typed m \<longleftrightarrow>
     (\<forall>v\<in>{cm_proto_version m, cm_direction m, cm_stream_id m, cm_stream_type m, cm_buffer_frames m, cm_cb_threshold m, cm_flags m,
          cm_dev_idx m, cm_client_type m, p_frame_rate (cm_format m), p_num_channels (cm_format m)}. in_u 32 v) \<and>
     in_s 32 (p_format (cm_format m)) \<and> length (p_channel_layout (cm_format m)) = CRAS_CH_MAX \<and>
     (\<forall>c\<in>set (p_channel_layout (cm_format m)). in_s 8 c) \<and>
     (\<forall>v\<in>{cm_effects m, cm_client_shm_size m}. in_u 64 v) \<and> (\<exists>a b. cm_buffer_offsets m = [a, b] \<and> in_u 64 a \<and> in_u 64 b)"

lemma layout_roundtrip: "\<forall>c\<in>set l. in_s 8 c \<Longrightarrow> map (\<lambda>c. s8 (c mod 256)) l = l"
  using wrap_s_mod [of 8] in_s_wrap_id [of 8] by (intro map_idI) simp

lemma read_connect_message_bytes:
  assumes "connect_message_typed m"
  shows "read_connect_message (connect_message_bytes len i m) = Some m"
proof -
  have u32: "v mod 4294967296 = v" if "in_u 32 v" for v using that by (simp add: in_u_def)
  have u64: "v mod 18446744073709551616 = v" if "in_u 64 v" for v using that by (simp add: in_u_def)
  have s32: "s32 (v mod 4294967296) = v" if "in_s 32 v" for v using that wrap_s_mod [of 32 v] in_s_wrap_id [of 32 v] by simp
  obtain a b where o: "cm_buffer_offsets m = [a, b]" "in_u 64 a" "in_u 64 b" using assms by (auto simp: connect_message_typed_def)
  have l: "length (p_channel_layout (cm_format m)) = 11" "map (\<lambda>c. s8 (c mod 256)) (p_channel_layout (cm_format m)) = p_channel_layout (cm_format m)"
    using assms layout_roundtrip by (auto simp: connect_message_typed_def CRAS_CH_MAX_def)
  show ?thesis using assms o l
    by (simp add: read_connect_message_def read_format_def connect_message_bytes_def format_bytes_def connect_message_typed_def
        rd_skip rd_le rd_append rd_bytes_append rd_bytes_def u32 u64 s32 comp_def CRAS_CH_MAX_def)
qed

section \<open>Handling a message\<close>

text \<open>What a handler reads is within the bytes that were received.\<close>

lemma buffer_from_client_returns: "cras_rclient_buffer_from_client cbs env client buf fds sv \<noteq> None"
proof -
  have ids: "\<exists>v. rd buf 0 4 = Some v" "\<exists>v. rd buf 4 4 = Some v" if "8 \<le> length buf" using that by (auto intro: rd_some)
  have c: "handle_connect cbs env client buf (int (length buf)) fds sv \<noteq> None"
    by (simp add: handle_connect_def read_connect_message_def read_format_def rd_def rd_bytes_def CRAS_CH_MAX_def)
  have d: "handle_disconnect cbs env client buf (int (length buf)) sv \<noteq> None" "handle_aec_ref client buf (int (length buf)) sv \<noteq> None"
    by (simp_all add: handle_disconnect_def handle_aec_ref_def rd_def)
  have f: "one_field client buf (int (length buf)) call sv \<noteq> None" "node_field client buf (int (length buf)) call2 sv \<noteq> None" for call call2
    by (simp_all add: one_field_def node_field_def rd_def)
  have r: "ccr_request env client buf (int (length buf)) i fd sv \<noteq> None" for i fd
    unfolding ccr_request_def by (simp add: f rd_def rd_bytes_def del: not_None_eq)
  show ?thesis
    using ids c d r by (auto simp: cras_rclient_buffer_from_client_def ccr_handle_message_from_client_def
        rclient_handle_message_from_client_def Let_def split: rclient_ops.split)
qed

text \<open>The requests that do not concern streams leave them, the timers and the descriptors alone, and change nothing
  when they report an error.\<close>

definition same_streams :: "'w rserver \<Rightarrow> 'w rserver \<Rightarrow> bool" where
  "same_streams sv sv' \<longleftrightarrow> sv_list sv' = sv_list sv \<and> sv_timers sv' = sv_timers sv \<and> sv_closed sv' = sv_closed sv"

definition request_keeps :: "cras_rclient \<Rightarrow> 'w rserver \<Rightarrow> 'w handled \<Rightarrow> bool" where
  "request_keeps client sv r \<longleftrightarrow>
     (\<forall>rc client' sv'. r = Some (rc, client', sv') \<longrightarrow>
        rc \<le> 0 \<and> same_streams sv sv' \<and> client' = client\<lparr>cl_observer := cl_observer client'\<rparr> \<and> (rc < 0 \<longrightarrow> sv' = sv \<and> client' = client))"

lemma same_streams_refl [simp]: "same_streams sv sv"
  by (simp add: same_streams_def)

lemma same_streams_call [simp]: "same_streams sv (server_call c sv') = same_streams sv sv'"
  by (simp add: same_streams_def server_call_def)

lemma same_streams_send [simp]: "same_streams sv (rclient_send_message_to_client client m fds sv') = same_streams sv sv'"
  by (simp add: same_streams_def rclient_send_message_to_client_def)

lemma same_streams_replies [simp]:
  "same_streams sv (dump_audio_thread_info client sv)" "same_streams sv (get_atlog_fd env client sv)"
  "same_streams sv (dump_audio_thread_snapshots client sv)" "same_streams sv (handle_get_hotword_models env client n sv)"
  "same_streams sv (handle_request_floop env client p t sv)" "same_streams sv (handle_get_dsp_offload_info env client sv)"
  by (simp_all add: dump_audio_thread_info_def get_atlog_fd_def dump_audio_thread_snapshots_def handle_get_hotword_models_def
      handle_request_floop_def handle_get_dsp_offload_info_def split: option.split)

lemma request_keepsI [intro!]:
  "same_streams sv sv' \<Longrightarrow> request_keeps client sv (Some (0, client, sv'))"
  "request_keeps client sv (Some (- EINVAL, client, sv))"
  "request_keeps client sv (Some (- EACCES, client, sv))"
  "request_keeps client sv (Some (0, register_for_notification env client m r sv))"
  "(\<And>x. request_keeps client sv (f x)) \<Longrightarrow> request_keeps client sv (Option.bind v f)"
  "request_keeps client sv a \<Longrightarrow> request_keeps client sv b \<Longrightarrow> request_keeps client sv (if c then a else b)"
  by (auto simp: request_keeps_def EINVAL_def EACCES_def register_for_notification_def Let_def bind_eq_Some_conv split: option.splits if_splits)

lemma ccr_request_keeps: "request_keeps client sv (ccr_request env client buf len i fd sv)"
  unfolding ccr_request_def one_field_def node_field_def by (intro request_keepsI) simp_all

text \<open>What a client may ask for: streams that carry its number, in a direction of its connection, that are not
  sidetones, that are bound to a device only if the connection allows it, and that carry the type the
  connection imposes.\<close>

definition authorised :: "cras_rclient \<Rightarrow> cras_rstream \<Rightarrow> bool" where
  "authorised client s \<longleftrightarrow>
     rs_client s = cl_ptr client \<and> cras_valid_stream_id (rs_stream_id s) (cl_id client) \<and>
     0 \<le> cras_stream_direction_mask (rs_direction s) \<and>
     cl_supported_directions client AND cras_stream_direction_mask (rs_direction s) \<noteq> 0 \<and> \<not> stream_is_sidetone s \<and>
     (rs_is_pinned s \<longrightarrow> cl_conn_type client \<in> {CRAS_CONTROL, CRAS_PLAYBACK, CRAS_CAPTURE}) \<and>
     (cl_client_type client \<noteq> CRAS_CLIENT_TYPE_UNKNOWN \<longrightarrow> rs_client_type s = cl_client_type client)"

definition created_from :: "cras_rstream_config \<Rightarrow> cras_rstream \<Rightarrow> bool" where
  "created_from cfg s \<longleftrightarrow>
     rs_stream_id s = rc_stream_id cfg \<and> rs_client s = rc_client cfg \<and> rs_direction s = rc_direction cfg \<and>
     rs_flags s = rc_flags cfg \<and> rs_client_type s = rc_client_type cfg \<and> rs_is_pinned s = (rc_dev_idx cfg \<noteq> NO_DEVICE) \<and>
     rs_fd s = rc_audio_fd cfg"

text \<open>The descriptors that the server answers for: those it closed, and those of the streams that were created, each
  of which closes its own when it is destroyed.\<close>

definition fds_owned :: "'w rserver \<Rightarrow> int multiset" where
  "fds_owned sv = mset (sv_closed sv) + mset (map (\<lambda>s. rs_fd (snd s)) (sl_created (sv_list sv)))"

text \<open>An address that \<open>calloc\<close> returns is not that of a live stream.\<close>

definition fresh_streams :: "'w stream_cbs \<Rightarrow> 'w stream_list \<Rightarrow> bool" where
  "fresh_streams cbs list \<longleftrightarrow>
     (\<forall>cfg s cfg' w. stream_create_cb cbs cfg (sl_world list) = (Inr s, cfg', w) \<longrightarrow>
        fst s \<notin> fst ` set (sl_streams list @ sl_streams_to_delete list))"

lemma restart_drain_keeps:
  assumes "restart_drain cbs alloc now (list, timers) = (list', timers')"
  shows "sl_streams list' = sl_streams list" "sl_created list' = sl_created list"
  using assms by (auto simp: restart_drain_def delete_streams_def Let_def split: prod.splits option.splits if_splits)

lemma stream_list_rm_streams:
  assumes "stream_list_rm cbs alloc now (list, timers) i = (rc, list', timers')"
  shows "sl_created list' = sl_created list" "set (sl_streams list') \<subseteq> set (sl_streams list)"
    "distinct (map fst (sl_streams list)) \<Longrightarrow> t \<in> set (sl_streams list) \<Longrightarrow> t \<in> set (sl_streams list') \<or> rs_stream_id (snd t) = i"
proof -
  consider "list' = list" | s list1 where "List.find (\<lambda>s. rs_stream_id (snd s) = i) (sl_streams list) = Some s"
    "restart_drain cbs alloc now (list1, timers) = (list', timers')" "sl_created list1 = sl_created list"
    "sl_streams list1 = dl_delete (sl_streams list) s"
    using assms by (fastforce simp: stream_list_rm_def Let_def split: option.splits)
  note c = this
  show "sl_created list' = sl_created list" using c by cases (simp_all add: restart_drain_keeps)
  show "set (sl_streams list') \<subseteq> set (sl_streams list)" using c by cases (auto simp: restart_drain_keeps dl_delete_def)
  show "t \<in> set (sl_streams list') \<or> rs_stream_id (snd t) = i" if d: "distinct (map fst (sl_streams list))" "t \<in> set (sl_streams list)"
    using c
  proof cases
    case (2 s list1)
    then have "s \<in> set (sl_streams list)" "rs_stream_id (snd s) = i" by (auto simp: find_Some_iff)
    moreover have "t = s" if "fst t = fst s" using that d calculation(1) by (metis distinct_map inj_onD)
    ultimately show ?thesis using 2 d by (auto simp: restart_drain_keeps dl_delete_def)
  qed (use d in simp)
qed

text \<open>The ways through the handler of a connection: it is refused, or a configuration is made, within what the client
  may ask for, and passed to the list of streams; if the reply cannot be sent, the stream is removed again.\<close>

lemma filter_cleanup: "filter (\<lambda>fd. 0 \<le> fd) (cras_rstream_config_cleanup cfg) = filter (\<lambda>fd. 0 \<le> fd) [rc_audio_fd cfg, rc_client_shm_fd cfg]"
  by (simp add: cras_rstream_config_cleanup_def)

lemma connect_with_config_cases:
  assumes "snd (connect_with_config cbs env client msg fmt (- 1) cfg sv) = sv'" "rc_flags cfg AND SIDETONE_STREAM \<noteq> SIDETONE_STREAM"
    "stream_list_add cbs (sv_list sv) cfg = (rc, cfg', so, list)" "rc = 0 \<longrightarrow> so \<noteq> None"
  shows "sv_closed sv' = sv_closed sv @ filter (\<lambda>fd. 0 \<le> fd) [rc_audio_fd cfg', rc_client_shm_fd cfg'] \<and>
    (sv_list sv' = list \<and> sv_timers sv' = sv_timers sv \<or> (\<exists>s rc'. so = Some s \<and> rc = 0 \<and>
       stream_list_rm cbs (re_alloc env) (re_now env) (list, sv_timers sv) (rs_stream_id (snd s)) = (rc', sv_list sv', sv_timers sv')))"
  using assms unfolding connect_with_config_def
  by (fastforce simp: reply_err_def cleanup_config_def rclient_send_message_to_client_def close_fds_def filter_cleanup Let_def
      simp del: filter.simps split: prod.splits if_splits)

lemma connect_cases:
  assumes run: "snd (rclient_handle_client_stream_connect cbs env client msg aud shm sv) = sv'"
  obtains (refused) "sv_list sv' = sv_list sv" "sv_timers sv' = sv_timers sv" "mset (sv_closed sv') = mset (sv_closed sv) + mset (filter (\<lambda>fd. 0 \<le> fd) [aud, shm])"
  | (added) cfg where "snd (connect_with_config cbs env client msg (unpack_cras_audio_format (cm_format msg)) (- 1) cfg sv) = sv'"
      "rc_flags cfg AND SIDETONE_STREAM \<noteq> SIDETONE_STREAM" "\<And>s. created_from cfg s \<Longrightarrow> authorised client s"
      "rc_audio_fd cfg = aud" "rc_client_shm_fd cfg = shm" "0 \<le> aud"
proof -
  let ?fmt = "unpack_cras_audio_format (cm_format msg)"
  let ?c = "fst (cras_rstream_config_init_with_message client msg aud shm ?fmt)"
  define cfg where "cfg = (if cl_client_type client \<noteq> CRAS_CLIENT_TYPE_UNKNOWN then ?c\<lparr>rc_client_type := cl_client_type client\<rparr> else ?c)"
  have cfg: "rc_audio_fd cfg = aud" "rc_client_shm_fd cfg = shm"
    by (simp_all add: cfg_def cras_rstream_config_init_with_message_def cras_rstream_config_init_def)
  show thesis
  proof (cases "rclient_validate_stream_connect_params client msg aud shm = 0 \<and> cras_audio_format_valid ?fmt")
    case False
    then show thesis using run
      by (intro refused) (auto simp: rclient_handle_client_stream_connect_def reply_err_def rclient_send_message_to_client_def
          close_fds_def Let_def EINVAL_def split: if_splits)
  next
    case valid: True
    have sv': "snd (connect_with_config cbs env client msg ?fmt (- 1) cfg sv) = sv'"
      using run valid by (simp add: rclient_handle_client_stream_connect_def cfg_def cras_rstream_config_init_with_message_def
          cras_rstream_config_init_def Let_def split: if_splits)
    show thesis
    proof (cases "rc_flags cfg AND SIDETONE_STREAM = SIDETONE_STREAM")
      case True
      then show thesis using sv' cfg
        by (intro refused) (auto simp: connect_with_config_def cleanup_config_def reply_err_def rclient_send_message_to_client_def
            close_fds_def filter_cleanup)
    next
      case False
      have "authorised client s" if "created_from cfg s" for s
        using that valid False unfolding cfg_def
        by (auto simp: authorised_def created_from_def rclient_validate_stream_connect_params_def rclient_validate_stream_connect_message_def
            cras_rstream_config_init_with_message_def cras_rstream_config_init_def stream_is_sidetone_def Let_def errno_defs EACCES_def
            split: if_splits)
      moreover have "0 \<le> aud" using valid
        by (auto simp: rclient_validate_stream_connect_params_def rclient_validate_stream_connect_fds_def Let_def EBADF_def split: if_splits)
      ultimately show thesis using added [OF sv' False _ cfg] by blast
    qed
  qed
qed

text \<open>The outcomes of a message: a wrong number of descriptors, which are closed; another error, which changes
  nothing; a stream connected or disconnected; or a request of the kind above.\<close>

lemma buffer_cases:
  assumes run: "cras_rclient_buffer_from_client cbs env client buf fds sv = Some (rc, client', sv')"
  obtains (rejected) i where "rc < 0" "rd buf 4 4 = Some i" "rclient_validate_message_fds i fds < 0" "sv' = close_fds fds sv" "client' = client"
  | (invalid) "rc < 0" "sv' = sv" "client' = client"
  | (connect) m where "rc = 0" "rd buf 4 4 = Some CRAS_SERVER_CONNECT_STREAM" "length fds \<le> 2" "client' = client"
      "sv' = snd (rclient_handle_client_stream_connect cbs env client m (if length fds > 0 then fds ! 0 else - 1)
         (if length fds > 1 then fds ! 1 else - 1) sv)"
  | (disconnect) i where "rc = 0" "fds = []" "client' = client" "sv' = snd (rclient_handle_client_stream_disconnect cbs env client i sv)"
  | (request) i where "rc = 0" "rd buf 4 4 = Some i" "fds = [] \<or> i = CRAS_SERVER_SET_AEC_DUMP \<and> length fds \<le> 1" "same_streams sv sv'"
      "client' = client\<lparr>cl_observer := cl_observer client'\<rparr>"
proof (cases "8 \<le> length buf \<and> rd buf 0 4 = Some (int (length buf))")
  case False
  then show thesis using run rd_some [of 0 4 buf] invalid
    by (cases "8 \<le> length buf") (auto simp: cras_rclient_buffer_from_client_def EINVAL_def)
next
  case True
  then obtain i where i: "rd buf 4 4 = Some i" using rd_some [of 4 4 buf] by auto
  show thesis
  proof (cases "rclient_validate_message_fds i fds < 0")
    case fail: True
    then have "sv' = close_fds fds sv" "client' = client" "rc < 0"
      using run True i by (auto simp: cras_rclient_buffer_from_client_def ccr_handle_message_from_client_def
          rclient_handle_message_from_client_def split: rclient_ops.splits)
    then show thesis using rejected i fail by blast
  next
    case valid: False
    have fds: "rclient_validate_message_fds i fds = 0" "i = CRAS_SERVER_CONNECT_STREAM \<longrightarrow> length fds \<le> 2"
      "i \<noteq> CRAS_SERVER_CONNECT_STREAM \<longrightarrow> fds = [] \<or> i = CRAS_SERVER_SET_AEC_DUMP \<and> length fds \<le> 1"
      using valid by (auto simp: rclient_validate_message_fds_def EINVAL_def split: if_splits)
    let ?fd = "if length fds > 0 then fds ! 0 else - 1"
    consider "handle_connect cbs env client buf (int (length buf)) fds sv = Some (rc, client', sv')" "i = CRAS_SERVER_CONNECT_STREAM"
      | "handle_disconnect cbs env client buf (int (length buf)) sv = Some (rc, client', sv')" "fds = []"
      | "handle_aec_ref client buf (int (length buf)) sv = Some (rc, client', sv')" "fds = []"
      | "request_keeps client sv (Some (rc, client', sv'))" "i \<noteq> CRAS_SERVER_CONNECT_STREAM"
      using run True i fds ccr_request_keeps [of client sv env buf "int (length buf)" i ?fd] request_keepsI(1) [OF same_streams_refl, of client sv]
      by (auto simp: cras_rclient_buffer_from_client_def ccr_handle_message_from_client_def rclient_handle_message_from_client_def
          message_ids Let_def split: rclient_ops.splits if_splits)
    then show thesis
    proof cases
      case 1
      then show thesis using connect i fds(2) invalid
        by (auto simp: handle_connect_def EINVAL_def bind_eq_Some_conv Let_def split: if_splits)
    next
      case 2
      then show thesis using disconnect invalid by (auto simp: handle_disconnect_def EINVAL_def bind_eq_Some_conv split: if_splits)
    next
      case 3
      then show thesis using request [OF _ i] invalid
        by (auto simp: handle_aec_ref_def rclient_handle_client_set_aec_ref_def EINVAL_def bind_eq_Some_conv split: if_splits)
    next
      case 4
      then show thesis using request [OF _ i] invalid fds by (cases "rc = 0") (auto simp: request_keeps_def)
    qed
  qed
qed

locale stream_creator =
  fixes cbs :: "'w stream_cbs"
  assumes created: "stream_create_cb cbs cfg w = (Inr s, cfg', w') \<Longrightarrow>
      created_from cfg (snd s) \<and> rc_audio_fd cfg' = - 1 \<and> rc_client_shm_fd cfg' = rc_client_shm_fd cfg"
    and failed: "stream_create_cb cbs cfg w = (Inl rc, cfg', w') \<Longrightarrow>
      rc \<noteq> 0 \<and> rc_audio_fd cfg' = rc_audio_fd cfg \<and> rc_client_shm_fd cfg' = rc_client_shm_fd cfg"
begin

lemma add_outcome:
  assumes "stream_list_add cbs list cfg = (rc, cfg', so, list')"
  shows "rc_client_shm_fd cfg' = rc_client_shm_fd cfg \<and>
    (so = None \<and> rc \<noteq> 0 \<and> rc_audio_fd cfg' = rc_audio_fd cfg \<and> sl_created list' = sl_created list \<and> sl_streams list' = sl_streams list \<or>
     (\<exists>s. so = Some s \<and> created_from cfg (snd s) \<and> rc_audio_fd cfg' = - 1 \<and> sl_created list' = sl_created list @ [s] \<and>
       sl_streams list' = (if rc = 0 then insert_stream s (sl_streams list) else dl_delete (insert_stream s (sl_streams list)) s) \<and>
       (fresh_streams cbs list \<longrightarrow> fst s \<notin> fst ` set (sl_streams list))))"
proof (cases "stream_create_cb cbs cfg (sl_world list)")
  case (fields r cfg1 w)
  show ?thesis
  proof (cases r)
    case (Inl e)
    then show ?thesis using assms fields failed [of cfg "sl_world list" e cfg1 w] by (auto simp: stream_list_add_def)
  next
    case (Inr s)
    obtain rc' w' where "stream_added_cb cbs s w = (rc', w')" by fastforce
    moreover have "fresh_streams cbs list \<Longrightarrow> fst s \<notin> fst ` set (sl_streams list)"
      using fields Inr unfolding fresh_streams_def by (metis UnCI image_Un set_append)
    moreover note created [of cfg "sl_world list" s cfg1 w]
    ultimately have "rc_client_shm_fd cfg' = rc_client_shm_fd cfg \<and> so = Some s \<and> created_from cfg (snd s) \<and> rc_audio_fd cfg' = - 1 \<and>
      sl_created list' = sl_created list @ [s] \<and>
      sl_streams list' = (if rc = 0 then insert_stream s (sl_streams list) else dl_delete (insert_stream s (sl_streams list)) s) \<and>
      (fresh_streams cbs list \<longrightarrow> fst s \<notin> fst ` set (sl_streams list))"
      using assms fields Inr by (auto simp: stream_list_add_def Let_def split: if_splits)
    then show ?thesis by blast
  qed
qed

lemma connect_fds:
  assumes "snd (rclient_handle_client_stream_connect cbs env client msg aud shm sv) = sv'"
  shows "fds_owned sv' = fds_owned sv + mset (filter (\<lambda>fd. 0 \<le> fd) [aud, shm])"
  using assms
proof (cases rule: connect_cases)
  case (added cfg)
  obtain rc cfg' so list where a: "stream_list_add cbs (sv_list sv) cfg = (rc, cfg', so, list)" using prod_cases4 by blast
  note o = add_outcome [OF a]
  have r: "sv_closed sv' = sv_closed sv @ filter (\<lambda>fd. 0 \<le> fd) [rc_audio_fd cfg', rc_client_shm_fd cfg']"
    "sl_created (sv_list sv') = sl_created list"
    using connect_with_config_cases [OF added(1,2) a] o stream_list_rm_streams(1) by fastforce+
  show ?thesis using o
  proof (elim conjE disjE exE)
    fix s assume "created_from cfg (snd s)" "rc_audio_fd cfg' = - 1" "sl_created list = sl_created (sv_list sv) @ [s]"
      "rc_client_shm_fd cfg' = rc_client_shm_fd cfg"
    then show ?thesis using r added by (simp add: fds_owned_def created_from_def)
  qed (use r added in \<open>simp add: fds_owned_def\<close>)
qed (simp add: fds_owned_def)

lemma connect_streams:
  assumes "snd (rclient_handle_client_stream_connect cbs env client msg aud shm sv) = sv'"
  shows "set (sl_streams (sv_list sv')) \<subseteq> set (sl_streams (sv_list sv)) \<union> {s. authorised client (snd s)}"
    and "distinct (map fst (sl_streams (sv_list sv))) \<Longrightarrow> fresh_streams cbs (sv_list sv) \<Longrightarrow> t \<in> set (sl_streams (sv_list sv)) \<Longrightarrow>
      t \<in> set (sl_streams (sv_list sv')) \<or> cras_valid_stream_id (rs_stream_id (snd t)) (cl_id client)"
proof -
  have "set (sl_streams (sv_list sv')) \<subseteq> set (sl_streams (sv_list sv)) \<union> {s. authorised client (snd s)} \<and>
    (distinct (map fst (sl_streams (sv_list sv))) \<longrightarrow> fresh_streams cbs (sv_list sv) \<longrightarrow>
     (\<forall>t\<in>set (sl_streams (sv_list sv)). t \<in> set (sl_streams (sv_list sv')) \<or> cras_valid_stream_id (rs_stream_id (snd t)) (cl_id client)))"
    using assms
  proof (cases rule: connect_cases)
    case (added cfg)
    obtain rc cfg' so list where a: "stream_list_add cbs (sv_list sv) cfg = (rc, cfg', so, list)" using prod_cases4 by blast
    note o = add_outcome [OF a]
    have c: "sv_list sv' = list \<or> (\<exists>s rc'. so = Some s \<and> rc = 0 \<and>
       stream_list_rm cbs (re_alloc env) (re_now env) (list, sv_timers sv) (rs_stream_id (snd s)) = (rc', sv_list sv', sv_timers sv'))"
      using connect_with_config_cases [OF added(1,2) a] o by fastforce
    consider "sl_streams list = sl_streams (sv_list sv)" "so = None"
      | s where "so = Some s" "authorised client (snd s)" "fresh_streams cbs (sv_list sv) \<longrightarrow> fst s \<notin> fst ` set (sl_streams (sv_list sv))"
        "sl_streams list = (if rc = 0 then insert_stream s (sl_streams (sv_list sv)) else dl_delete (insert_stream s (sl_streams (sv_list sv))) s)"
      using o added(3) by blast
    then show ?thesis
    proof cases
      case (2 s)
      have sub: "set (sl_streams list) \<subseteq> insert s (set (sl_streams (sv_list sv)))" using 2(4) by (auto simp: dl_delete_def)
      have id: "cras_valid_stream_id (rs_stream_id (snd s)) (cl_id client)" using 2(2) by (simp add: authorised_def)
      have keep: "set (sl_streams (sv_list sv)) \<subseteq> set (sl_streams list) \<and> (rc = 0 \<longrightarrow> distinct (map fst (sl_streams list)))"
        if d: "distinct (map fst (sl_streams (sv_list sv)))" "fresh_streams cbs (sv_list sv)"
        using 2(3,4) d dl_delete_insert [of s "sl_streams (sv_list sv)"]
          distinct_map_mset [of "insert_stream s (sl_streams (sv_list sv))" "s # sl_streams (sv_list sv)" fst] by auto
      show ?thesis using c
      proof (elim disjE exE conjE)
        assume "sv_list sv' = list"
        then show ?thesis using sub 2(2) keep by auto
      next
        fix s' rc' assume s': "so = Some s'" "rc = 0"
          "stream_list_rm cbs (re_alloc env) (re_now env) (list, sv_timers sv) (rs_stream_id (snd s')) = (rc', sv_list sv', sv_timers sv')"
        note rm = stream_list_rm_streams [OF s'(3)]
        have s: "s' = s" using s'(1) 2(1) by simp
        have "t \<in> set (sl_streams (sv_list sv')) \<or> cras_valid_stream_id (rs_stream_id (snd t)) (cl_id client)"
          if d: "distinct (map fst (sl_streams (sv_list sv)))" "fresh_streams cbs (sv_list sv)" and t: "t \<in> set (sl_streams (sv_list sv))" for t
          using rm(3) [of t] keep [OF d] t s'(2) s id by (metis subsetD)
        then show ?thesis using rm(2) sub 2(2) by auto
      qed
    qed (use c in auto)
  qed simp
  then show "set (sl_streams (sv_list sv')) \<subseteq> set (sl_streams (sv_list sv)) \<union> {s. authorised client (snd s)}"
    "distinct (map fst (sl_streams (sv_list sv))) \<Longrightarrow> fresh_streams cbs (sv_list sv) \<Longrightarrow> t \<in> set (sl_streams (sv_list sv)) \<Longrightarrow>
      t \<in> set (sl_streams (sv_list sv')) \<or> cras_valid_stream_id (rs_stream_id (snd t)) (cl_id client)" by blast+
qed

lemma message_streams:
  assumes run: "cras_rclient_buffer_from_client cbs env client buf fds sv = Some (rc, client', sv')"
    and ok: "distinct (map fst (sl_streams (sv_list sv)))" "fresh_streams cbs (sv_list sv)"
  shows "set (sl_streams (sv_list sv')) \<subseteq> set (sl_streams (sv_list sv)) \<union> {s. authorised client (snd s)} \<and>
    (\<forall>t\<in>set (sl_streams (sv_list sv)). t \<in> set (sl_streams (sv_list sv')) \<or> cras_valid_stream_id (rs_stream_id (snd t)) (cl_id client))"
  using run
proof (cases rule: buffer_cases)
  case (connect m)
  note c = connect_streams [OF sym [OF connect(5)]]
  show ?thesis using c(1) c(2) [OF ok] by blast
next
  case (disconnect i)
  obtain r list timers where rm: "stream_list_rm cbs (re_alloc env) (re_now env) (sv_list sv, sv_timers sv) i = (r, list, timers)"
    using prod_cases3 by blast
  show ?thesis using disconnect(4) rm stream_list_rm_streams(2,3) [OF rm] ok
    by (auto simp: rclient_handle_client_stream_disconnect_def split: if_splits)
qed (simp_all add: close_fds_def same_streams_def)

lemma message_fds:
  assumes run: "cras_rclient_buffer_from_client cbs env client buf fds sv = Some (0, client', sv')" and fds: "\<forall>fd\<in>set fds. 0 \<le> fd"
  shows "fds_owned sv' = fds_owned sv + mset fds \<or>
    fds_owned sv' = fds_owned sv \<and> rd buf 4 4 = Some CRAS_SERVER_SET_AEC_DUMP \<and> length fds = 1"
  using run
proof (cases rule: buffer_cases)
  case (connect m)
  have "mset (filter (\<lambda>fd. 0 \<le> fd) [if length fds > 0 then fds ! 0 else - 1, if length fds > 1 then fds ! 1 else - 1]) = mset fds"
    using connect(3) fds by (cases fds; cases "tl fds") auto
  then show ?thesis using connect_fds [OF sym [OF connect(5)]] by simp
next
  case (disconnect i)
  obtain r list timers where rm: "stream_list_rm cbs (re_alloc env) (re_now env) (sv_list sv, sv_timers sv) i = (r, list, timers)"
    using prod_cases3 by blast
  show ?thesis using disconnect(2,4) rm stream_list_rm_streams(1) [OF rm]
    by (auto simp: rclient_handle_client_stream_disconnect_def fds_owned_def split: if_splits)
next
  case (request i)
  then show ?thesis by (cases fds) (auto simp: fds_owned_def same_streams_def)
qed simp_all

end

section \<open>Streams of the server\<close>

text \<open>The callbacks of the server's list: \<open>cras_rstream_create\<close> makes the streams. \<open>env\<close> is what the system answers,
  \<open>addr\<close> the address of the stream, \<open>note\<close> the calls that inform the system state.\<close>

definition rstream_create_cb ::
  "('w \<Rightarrow> rstream_env) \<Rightarrow> ('w \<Rightarrow> nat) \<Rightarrow> (int \<Rightarrow> int) \<Rightarrow> (sys_event list \<Rightarrow> 'w \<Rightarrow> 'w) \<Rightarrow>
   cras_rstream_config \<Rightarrow> 'w \<Rightarrow> (int + stream_obj) \<times> cras_rstream_config \<times> 'w" where
  "rstream_create_cb env addr width note cfg w =
     (case cras_rstream_create (env w) width cfg of
        (rc, cfg', Some s, ev) \<Rightarrow> (Inr (addr w, s), cfg', note ev w)
      | (rc, cfg', None, ev) \<Rightarrow> (Inl rc, cfg', w))"

definition server_cbs ::
  "('w \<Rightarrow> rstream_env) \<Rightarrow> ('w \<Rightarrow> nat) \<Rightarrow> (int \<Rightarrow> int) \<Rightarrow> (sys_event list \<Rightarrow> 'w \<Rightarrow> 'w) \<Rightarrow> 'w stream_cbs \<Rightarrow> 'w stream_cbs" where
  "server_cbs env addr width note cbs = cbs\<lparr>stream_create_cb := rstream_create_cb env addr width note\<rparr>"

lemma rstream_create_cases:
  "cras_rstream_create env width cfg = (rc, cfg', so, ev) \<Longrightarrow>
    rc_client_shm_fd cfg' = rc_client_shm_fd cfg \<and>
    (case so of None \<Rightarrow> rc < 0 \<and> rc_audio_fd cfg' = rc_audio_fd cfg | Some s \<Rightarrow> created_from cfg s \<and> rc_audio_fd cfg' = - 1)"
  by (auto simp: cras_rstream_create_def setup_shm_area_def rstream_init_def created_from_def Let_def EINVAL_def ENOMEM_def
      split: sum.splits if_splits prod.splits)

interpretation srv: stream_creator "server_cbs env addr width note cbs"
proof
  fix cfg w s cfg' w'
  assume "stream_create_cb (server_cbs env addr width note cbs) cfg w = (Inr s, cfg', w')"
  then show "created_from cfg (snd s) \<and> rc_audio_fd cfg' = - 1 \<and> rc_client_shm_fd cfg' = rc_client_shm_fd cfg"
    using rstream_create_cases [of "env w" width cfg] by (auto simp: server_cbs_def rstream_create_cb_def split: prod.splits option.splits)
next
  fix cfg w rc cfg' w'
  assume "stream_create_cb (server_cbs env addr width note cbs) cfg w = (Inl rc, cfg', w')"
  then show "rc \<noteq> 0 \<and> rc_audio_fd cfg' = rc_audio_fd cfg \<and> rc_client_shm_fd cfg' = rc_client_shm_fd cfg"
    using rstream_create_cases [of "env w" width cfg] by (fastforce simp: server_cbs_def rstream_create_cb_def split: prod.splits option.splits)
qed

section \<open>Properties\<close>

lemma length_connect_message:
  "connect_message_typed m \<Longrightarrow> length (connect_message_bytes len i m) = 99"
  by (simp add: connect_message_typed_def connect_message_bytes_def format_bytes_def CRAS_CH_MAX_def)

lemma connect_reaches_handler:
  assumes "connect_message_typed m" "length fds \<le> 2"
  shows "cras_rclient_buffer_from_client cbs env client (connect_message_bytes 99 CRAS_SERVER_CONNECT_STREAM m) fds sv =
    Some (0, client, snd (rclient_handle_client_stream_connect cbs env client m (if length fds > 0 then fds ! 0 else - 1)
      (if length fds > 1 then fds ! 1 else - 1) sv))"
proof -
  let ?buf = "connect_message_bytes 99 CRAS_SERVER_CONNECT_STREAM m"
  have "rd ?buf 0 4 = Some 99" "rd ?buf 4 4 = Some CRAS_SERVER_CONNECT_STREAM"
    by (simp_all add: connect_message_bytes_def rd_le rd_skip CRAS_SERVER_CONNECT_STREAM_def)
  then show ?thesis using assms read_connect_message_bytes [OF assms(1), of 99 CRAS_SERVER_CONNECT_STREAM]
    by (simp add: cras_rclient_buffer_from_client_def length_connect_message ccr_handle_message_from_client_def
        rclient_handle_message_from_client_def rclient_validate_message_fds_def handle_connect_def Let_def split: rclient_ops.split)
qed


definition example_message :: cras_connect_message where
  "example_message = \<lparr>cm_proto_version = 7, cm_direction = 0, cm_stream_id = 1048577, cm_stream_type = 0, cm_buffer_frames = 8,
     cm_cb_threshold = 5, cm_flags = 0, cm_format = pack_cras_audio_format (cras_audio_format_create SND_PCM_FORMAT_U8 4000 1),
     cm_dev_idx = 0, cm_effects = 0, cm_client_type = 4, cm_client_shm_size = 0, cm_buffer_offsets = [0, 0]\<rparr>"

definition example_client :: "int \<Rightarrow> int \<Rightarrow> cras_rclient" where
  "example_client p i = \<lparr>cl_ptr = p, cl_observer = None, cl_id = i, cl_fd = 20, cl_ops = Playback_ops,
     cl_supported_directions = 1, cl_client_type = 0, cl_conn_type = CRAS_PLAYBACK\<rparr>"

definition example_renv :: rclient_env where
  "example_renv = \<lparr>re_now = \<lparr>tv_sec = 3, tv_nsec = 0\<rparr>, re_alloc = example_alloc, re_client_alloc = Some 200, re_observer_alloc = True,
     re_send = 10, re_state_fd = 5, re_atlog_fd = 6, re_shm_fds = (\<lambda>s. (8, 9)), re_hotword = (\<lambda>n. None), re_floop = 0,
     re_floop_size = 8, re_offload = 0\<rparr>"

definition example_rserver :: "nat rserver" where
  "example_rserver = \<lparr>sv_list = stream_list_create 0, sv_timers = [], sv_closed = [], sv_sent = [], sv_calls = []\<rparr>"

lemma example_message_typed: "connect_message_typed example_message"
  by (simp add: connect_message_typed_def example_message_def pack_cras_audio_format_def cras_audio_format_create_def in_u_def in_s_def
      wrap_u_def wrap_s_def pcm_formats CRAS_CH_MAX_def upt_rec)


end
