(* ===== verification/Cras_Server.thy ===== *)
theory Cras_Server
  imports Rclient
begin

text \<open>
  The server's main thread (\<open>cras/src/server/cras_server.c\<close>): the clients that are attached, the messages they send,
  the descriptors that other components want to be polled, and the tasks they leave for the main loop.

  A client that is attached is known by its address (\<open>ac_ptr\<close>). \<open>struct pollfd\<close> is the descriptor and the events to
  poll for; a pointer into the array of them is an index. The identifier of a callback stands for the
  function and its argument. What a system call returns is an argument of the operation that makes it.
  The main loop is modelled up to the call of \<open>ppoll\<close>: the array it fills, the tasks it runs and the timeout it
  computes. What follows are calls of the operations here, of the timer manager and of callbacks.
\<close>

unbundle bit_operations_syntax

section \<open>Model\<close>

definition RESERVED_CLIENT_IDS :: int where "RESERVED_CLIENT_IDS = 16"
definition CRAS_MAX_ATTACHED_CLIENTS :: nat where "CRAS_MAX_ATTACHED_CLIENTS = 20"
definition POLLIN :: int where "POLLIN = 1"

record attached_client =
  ac_ptr :: nat
  ac_id :: int
  ac_fd :: int
  ac_client :: cras_rclient
  ac_pollfd :: "nat option"

record client_callback =
  cc_select_fd :: int
  cc_callback :: nat
  cc_pollfd :: "nat option"
  cc_deleted :: bool
  cc_events :: int

record 'w server_data =
  sd_clients :: "attached_client list"
  sd_num_clients :: int
  sd_callbacks :: "client_callback list"
  sd_tasks :: "nat list"
  sd_num_callbacks :: int
  sd_next_client_id :: int
  sd_sockets :: "int list"
  sd_rs :: "'w rserver"
  sd_client_list :: "int \<times> int list"

subsection \<open>Clients\<close>

definition remove_client :: "'w stream_cbs \<Rightarrow> rclient_env \<Rightarrow> attached_client \<Rightarrow> 'w server_data \<Rightarrow> 'w server_data" where
  "remove_client cbs env client sd =
     (let sv = (sd_rs sd)\<lparr>sv_closed := sv_closed (sd_rs sd) @ [ac_fd client]\<rparr>
      in sd\<lparr>sd_clients := filter (\<lambda>c. ac_ptr c \<noteq> ac_ptr client) (sd_clients sd),
            sd_num_clients := u64 (sd_num_clients sd - 1),
            sd_rs := rclient_destroy cbs env (ac_client client) sv\<rparr>)"

text \<open>The result of \<open>recvmsg\<close> is an error or the bytes and the control messages, with a flag for those that pass
  descriptors; \<open>num_fds\<close> is the length of the last component.\<close>

definition cras_recv_with_fds :: "int + bytes \<times> (bool \<times> int list) list \<Rightarrow> nat \<Rightarrow> int \<times> bytes \<times> int list" where
  "cras_recv_with_fds received num_fds =
     (case received of
        Inl rc \<Rightarrow> (rc, [], replicate num_fds (- 1))
      | Inr (buf, control) \<Rightarrow>
          (int (length buf), buf, (case List.find fst control of None \<Rightarrow> [] | Some (_, fds) \<Rightarrow> take num_fds fds)))"

text \<open>The entry of the client is replaced because the client may have changed its observer.\<close>

definition handle_message_from_client ::
  "'w stream_cbs \<Rightarrow> rclient_env \<Rightarrow> int + bytes \<times> (bool \<times> int list) list \<Rightarrow> attached_client \<Rightarrow> 'w server_data \<Rightarrow> 'w server_data option" where
  "handle_message_from_client cbs env received client sd =
     (let (nread, buf, fds) = cras_recv_with_fds received 2;
          read_error = (\<lambda>sv. remove_client cbs env client (sd\<lparr>sd_rs := close_fds fds sv\<rparr>))
      in if nread < 0 then Some (read_error (sd_rs sd))
         else case cras_rclient_buffer_from_client cbs env (ac_client client) buf fds (sd_rs sd) of
                None \<Rightarrow> None
              | Some (rc, cl, sv) \<Rightarrow>
                  if rc < 0 then Some (read_error sv)
                  else Some (sd\<lparr>sd_rs := sv,
                    sd_clients := map (\<lambda>c. if ac_ptr c = ac_ptr client then c\<lparr>ac_client := cl\<rparr> else c) (sd_clients sd)\<rparr>))"

text \<open>The clients that the shared server state lists: their number and their identifiers.\<close>

definition send_client_list_to_clients :: "'w server_data \<Rightarrow> 'w server_data" where
  "send_client_list_to_clients sd =
     sd\<lparr>sd_client_list := (min (int CRAS_MAX_ATTACHED_CLIENTS) (sd_num_clients sd),
          map ac_id (take CRAS_MAX_ATTACHED_CLIENTS (sd_clients sd)))\<rparr>"

text \<open>The loop that looks for an identifier; its results are the identifier and the next one to try.\<close>

fun find_client_id :: "nat \<Rightarrow> attached_client list \<Rightarrow> int \<Rightarrow> (int \<times> int) option" where
  "find_client_id 0 clients i = None"
| "find_client_id (Suc n) clients i =
     (if list_ex (\<lambda>c. ac_id c = i) clients then find_client_id n clients (u64 (i + 1)) else Some (i, u64 (i + 1)))"

text \<open>\<open>ptr\<close> is the result of \<open>malloc\<close>, \<open>connection_fd\<close> that of \<open>accept\<close>. There is no result if the fuel of the search
  runs out or \<open>cras_rclient_create\<close> dereferences NULL.\<close>

definition handle_new_connection ::
  "nat \<Rightarrow> rclient_env \<Rightarrow> nat option \<Rightarrow> int \<Rightarrow> int \<Rightarrow> 'w server_data \<Rightarrow> 'w server_data option" where
  "handle_new_connection n env ptr connection_fd conn_type sd =
     (case ptr of
        None \<Rightarrow> Some sd
      | Some p \<Rightarrow>
          if connection_fd < 0 then Some sd
          else do {
            (i, next) \<leftarrow> find_client_id n (sd_clients sd) (sd_next_client_id sd);
            (client, sv) \<leftarrow> cras_rclient_create env connection_fd i conn_type (sd_rs sd);
            (let sd = sd\<lparr>sd_next_client_id := next, sd_rs := sv\<rparr> in
             case client of
               None \<Rightarrow> Some (sd\<lparr>sd_rs := close_fds [connection_fd] sv\<rparr>)
             | Some cl \<Rightarrow>
                 Some (send_client_list_to_clients
                   (sd\<lparr>sd_clients := sd_clients sd @ [\<lparr>ac_ptr = p, ac_id = i, ac_fd = connection_fd, ac_client = cl, ac_pollfd = None\<rparr>],
                       sd_num_clients := u64 (sd_num_clients sd + 1)\<rparr>))) })"

subsection \<open>Descriptors and tasks of other components\<close>

definition add_select_fd :: "bool \<Rightarrow> int \<Rightarrow> nat \<Rightarrow> int \<Rightarrow> 'w server_data \<Rightarrow> int \<times> 'w server_data" where
  "add_select_fd allocated fd cb events sd =
     (if list_ex (\<lambda>c. cc_select_fd c = fd \<and> \<not> cc_deleted c) (sd_callbacks sd) then (- EEXIST, sd)
      else if \<not> allocated then (- ENOMEM, sd)
      else (0, sd\<lparr>sd_callbacks := sd_callbacks sd @ [\<lparr>cc_select_fd = fd, cc_callback = cb, cc_pollfd = None, cc_deleted = False, cc_events = events\<rparr>],
                  sd_num_callbacks := u64 (sd_num_callbacks sd + 1)\<rparr>))"

definition rm_select_fd :: "int \<Rightarrow> 'w server_data \<Rightarrow> 'w server_data" where
  "rm_select_fd fd sd = sd\<lparr>sd_callbacks := map (\<lambda>c. if cc_select_fd c = fd then c\<lparr>cc_deleted := True\<rparr> else c) (sd_callbacks sd)\<rparr>"

definition add_task :: "bool \<Rightarrow> nat \<Rightarrow> 'w server_data \<Rightarrow> int \<times> 'w server_data" where
  "add_task allocated cb sd = (if \<not> allocated then (- ENOMEM, sd) else (0, sd\<lparr>sd_tasks := sd_tasks sd @ [cb]\<rparr>))"

text \<open>Each deleted entry is taken out of the list and the counter goes down.\<close>

definition cleanup_select_fds :: "'w server_data \<Rightarrow> 'w server_data" where
  "cleanup_select_fds sd =
     sd\<lparr>sd_callbacks := filter (\<lambda>c. \<not> cc_deleted c) (sd_callbacks sd),
        sd_num_callbacks := foldl (\<lambda>n c. if cc_deleted c then u64 (n - 1) else n) (sd_num_callbacks sd) (sd_callbacks sd)\<rparr>"

definition cras_server_init :: "'w rserver \<Rightarrow> 'w server_data" where
  "cras_server_init sv = \<lparr>sd_clients = [], sd_num_clients = 0, sd_callbacks = [], sd_tasks = [], sd_num_callbacks = 0,
     sd_next_client_id = RESERVED_CLIENT_IDS, sd_sockets = replicate (nat CRAS_NUM_CONN_TYPE) (- 1), sd_rs = sv, sd_client_list = (0, [])\<rparr>"

subsection \<open>The main loop\<close>

type_synonym pollfd = "int \<times> int"

text \<open>A store in the array of \<open>struct pollfd\<close>, the loops over the sockets, the clients and the callbacks; None is a
  store outside the array.\<close>

fun poll_sockets :: "int list \<Rightarrow> nat \<Rightarrow> pollfd list \<Rightarrow> pollfd list option" where
  "poll_sockets [] n p = Some p"
| "poll_sockets (fd # fds) n p = (if n < length p then poll_sockets fds (Suc n) (p[n := (fd, POLLIN)]) else None)"

fun poll_clients :: "attached_client list \<Rightarrow> nat \<Rightarrow> pollfd list \<Rightarrow> (attached_client list \<times> nat \<times> pollfd list) option" where
  "poll_clients [] n p = Some ([], n, p)"
| "poll_clients (c # cs) n p =
     (if n < length p then
        do { (cs', n', p') \<leftarrow> poll_clients cs (Suc n) (p[n := (ac_fd c, POLLIN)]); Some (c\<lparr>ac_pollfd := Some n\<rparr> # cs', n', p') }
      else None)"

fun poll_callbacks :: "client_callback list \<Rightarrow> nat \<Rightarrow> pollfd list \<Rightarrow> (client_callback list \<times> nat \<times> pollfd list) option" where
  "poll_callbacks [] n p = Some ([], n, p)"
| "poll_callbacks (c # cs) n p =
     (if cc_deleted c then do { (cs', n', p') \<leftarrow> poll_callbacks cs n p; Some (c # cs', n', p') }
      else if n < length p then
        do { (cs', n', p') \<leftarrow> poll_callbacks cs (Suc n) (p[n := (cc_select_fd c, cc_events c)]);
             Some (c\<lparr>cc_pollfd := Some n\<rparr> # cs', n', p') }
      else None)"

text \<open>The beginning of an iteration. \<open>mem\<close> is the memory that \<open>realloc\<close> returns beyond the old array, None if it fails.\<close>

definition fill_pollfds ::
  "(nat \<Rightarrow> pollfd list option) \<Rightarrow> pollfd list \<Rightarrow> 'w server_data \<Rightarrow> (int + nat \<times> pollfd list \<times> 'w server_data) option" where
  "fill_pollfds mem pollfds sd =
     (let needed = u32 (CRAS_NUM_CONN_TYPE + sd_num_clients sd + sd_num_callbacks sd);
          size = u32 (2 * needed);
          arr = (if needed > int (length pollfds)
                 then map_option (\<lambda>rest. pollfds @ rest) (mem (nat size - length pollfds)) else Some pollfds)
      in case arr of
           None \<Rightarrow> Some (Inl (- ENOMEM))
         | Some p \<Rightarrow>
             do { p \<leftarrow> poll_sockets (sd_sockets sd) 0 p;
                  (clients, n, p) \<leftarrow> poll_clients (sd_clients sd) (nat CRAS_NUM_CONN_TYPE) p;
                  (cbs, n, p) \<leftarrow> poll_callbacks (sd_callbacks sd) n p;
                  Some (Inr (n, p, sd\<lparr>sd_clients := clients, sd_callbacks := cbs\<rparr>)) })"

text \<open>The tasks of the list are run; those that they add are left for the next iteration.\<close>

definition run_tasks :: "(nat \<Rightarrow> 'w server_data \<Rightarrow> 'w server_data) \<Rightarrow> 'w server_data \<Rightarrow> 'w server_data" where
  "run_tasks task sd = foldl (\<lambda>sd t. task t sd) (sd\<lparr>sd_tasks := []\<rparr>) (sd_tasks sd)"

text \<open>The timeout for \<open>ppoll\<close>: None is the null pointer, with which \<open>ppoll\<close> waits for a descriptor without limit.\<close>

definition poll_timeout :: "timespec \<Rightarrow> timespec \<Rightarrow> 'w server_data \<Rightarrow> timespec option" where
  "poll_timeout now ts sd =
     (let (timers_active, ts) = cras_tm_get_next_timeout (sv_timers (sd_rs sd)) now ts
      in if sd_tasks sd \<noteq> [] then None else if timers_active \<noteq> 0 then Some ts else None)"

section \<open>Identifiers of clients\<close>

lemma u64_add: "u64 (u64 a + b) = u64 (a + b)"
  by (simp add: wrap_u_def mod_add_left_eq)

text \<open>The search passes over at most as many identifiers as there are clients.\<close>

lemma find_client_id_ge: "find_client_id n clients i = Some (j, next) \<Longrightarrow> (\<forall>c\<in>set clients. ac_id c \<noteq> j) \<and> next = u64 (j + 1)"
  by (induction n arbitrary: i) (auto simp: list_ex_iff split: if_splits)

lemma find_client_id_None:
  "find_client_id n clients i = None \<Longrightarrow> in_u 64 i \<Longrightarrow> k < n \<Longrightarrow> u64 (i + int k) \<in> ac_id ` set clients"
proof (induction n arbitrary: i k)
  case (Suc n)
  then have "list_ex (\<lambda>c. ac_id c = i) clients" "find_client_id n clients (u64 (i + 1)) = None" by (auto split: if_splits)
  moreover have "u64 i = i" using Suc.prems(2) by (rule in_u_wrap_id)
  moreover have "u64 (i + int k) = u64 (u64 (i + 1) + int k')" if "k = Suc k'" for k' using that u64_add [of "i + 1" "int k'"] by (simp add: algebra_simps)
  ultimately show ?case using Suc.IH [of "u64 (i + 1)" "k - 1"] Suc.prems(3) by (cases k) (auto simp: list_ex_iff)
qed simp

lemma find_client_id_enough:
  assumes "in_u 64 i" "length clients < n" "n \<le> 2 ^ 64"
  shows "find_client_id n clients i \<noteq> None"
proof
  assume none: "find_client_id n clients i = None"
  have "inj_on (\<lambda>k. u64 (i + int k)) {..<n}"
  proof (rule inj_onI)
    fix a b assume "a \<in> {..<n}" "b \<in> {..<n}" "u64 (i + int a) = u64 (i + int b)"
    then have "(int a - int b) mod 2 ^ 64 = 0" "\<bar>int a - int b\<bar> < 2 ^ 64"
      using assms(3) mod_eq_dvd_iff [of "i + int a" "2 ^ 64" "i + int b"] by (auto simp: wrap_u_def)
    then show "a = b" using zdvd_imp_le [of "2 ^ 64" "\<bar>int a - int b\<bar>"] by (auto simp: dvd_eq_mod_eq_0 [symmetric])
  qed
  moreover have "(\<lambda>k. u64 (i + int k)) ` {..<n} \<subseteq> ac_id ` set clients" using find_client_id_None [OF none assms(1)] by auto
  ultimately have "n \<le> card (ac_id ` set clients)" using card_mono [of "ac_id ` set clients"] by (metis card_image card_lessThan finite_imageI finite_set)
  also have "\<dots> \<le> length clients" by (meson card_image_le card_length finite_set le_trans)
  finally show False using assms(2) by simp
qed

section \<open>The server's life\<close>

text \<open>The states the server passes through: clients connect, send whatever bytes and descriptors they like, and are
  removed; timers fire; other components add and remove descriptors to poll, tasks, streams of the
  server itself (which have no client) and timers of their own. The addresses that the allocator
  returns are not those of live objects, and not 0.\<close>

inductive server_reach :: "'w stream_cbs \<Rightarrow> (timers \<Rightarrow> nat option) \<Rightarrow> (nat \<Rightarrow> 'w \<Rightarrow> 'w) \<Rightarrow> 'w server_data \<Rightarrow> bool"
  for cbs alloc other where
  start: "sv_list sv = stream_list_create w \<Longrightarrow> sv_timers sv = cras_tm_init \<Longrightarrow> server_reach cbs alloc other (cras_server_init sv)"
| connection: "server_reach cbs alloc other sd \<Longrightarrow> handle_new_connection n env ptr fd conn_type sd = Some sd' \<Longrightarrow>
    (\<And>p. ptr = Some p \<Longrightarrow> p \<notin> ac_ptr ` set (sd_clients sd)) \<Longrightarrow>
    (\<And>p. re_client_alloc env = Some p \<Longrightarrow> p \<noteq> 0 \<and> p \<notin> (\<lambda>c. cl_ptr (ac_client c)) ` set (sd_clients sd)) \<Longrightarrow>
    server_reach cbs alloc other sd'"
| message: "server_reach cbs alloc other sd \<Longrightarrow> c \<in> set (sd_clients sd) \<Longrightarrow> re_alloc env = alloc \<Longrightarrow> ts_normal (re_now env) \<Longrightarrow>
    fresh_streams cbs (sv_list (sd_rs sd)) \<Longrightarrow> handle_message_from_client cbs env received c sd = Some sd' \<Longrightarrow>
    server_reach cbs alloc other sd'"
| timers: "server_reach cbs alloc other sd \<Longrightarrow> ts_normal now \<Longrightarrow>
    cras_tm_call_callbacks n (run_timer cbs alloc other now) now (sv_list (sd_rs sd), sv_timers (sd_rs sd)) = Some (list, timers, fired) \<Longrightarrow>
    server_reach cbs alloc other (sd\<lparr>sd_rs := (sd_rs sd)\<lparr>sv_list := list, sv_timers := timers\<rparr>\<rparr>)"
| own_stream: "server_reach cbs alloc other sd \<Longrightarrow> rc_client cfg = 0 \<Longrightarrow> fresh_streams cbs (sv_list (sd_rs sd)) \<Longrightarrow>
    stream_list_add cbs (sv_list (sd_rs sd)) cfg = (rc, cfg', so, list) \<Longrightarrow>
    server_reach cbs alloc other (sd\<lparr>sd_rs := (sd_rs sd)\<lparr>sv_list := list\<rparr>\<rparr>)"
| own_removal: "server_reach cbs alloc other sd \<Longrightarrow> stream_list_direct_rm cbs (sv_list (sd_rs sd)) i = (rc, list) \<Longrightarrow>
    server_reach cbs alloc other (sd\<lparr>sd_rs := (sd_rs sd)\<lparr>sv_list := list\<rparr>\<rparr>)"
| select_fd: "server_reach cbs alloc other sd \<Longrightarrow> add_select_fd allocated fd cb events sd = (rc, sd') \<Longrightarrow> server_reach cbs alloc other sd'"
| no_select_fd: "server_reach cbs alloc other sd \<Longrightarrow> server_reach cbs alloc other (rm_select_fd fd sd)"
| cleanup: "server_reach cbs alloc other sd \<Longrightarrow> server_reach cbs alloc other (cleanup_select_fds sd)"
| task: "server_reach cbs alloc other sd \<Longrightarrow> server_reach cbs alloc other (sd\<lparr>sd_tasks := tasks\<rparr>)"
| poll: "server_reach cbs alloc other sd \<Longrightarrow> fill_pollfds mem pollfds sd = Some (Inr (n, p, sd')) \<Longrightarrow> server_reach cbs alloc other sd'"
| elsewhere: "server_reach cbs alloc other sd \<Longrightarrow>
    cras_tm_create_timer (sv_timers (sd_rs sd)) now (alloc (sv_timers (sd_rs sd))) ms (OtherTimer k) = (p, timers) \<Longrightarrow>
    server_reach cbs alloc other
      (sd\<lparr>sd_rs := (sd_rs sd)\<lparr>sv_list := (sv_list (sd_rs sd))\<lparr>sl_world := w\<rparr>, sv_timers := timers\<rparr>\<rparr>)"

text \<open>The invariant. The counters are those of the lists unless they overflow.\<close>

definition clients_wf :: "'w server_data \<Rightarrow> bool" where
  "clients_wf sd \<longleftrightarrow>
     distinct (map ac_ptr (sd_clients sd)) \<and> distinct (map ac_id (sd_clients sd)) \<and>
     distinct (map (\<lambda>c. cl_ptr (ac_client c)) (sd_clients sd)) \<and>
     (\<forall>c\<in>set (sd_clients sd). cl_ptr (ac_client c) \<noteq> 0 \<and> cl_id (ac_client c) = ac_id c)"

definition counters_wf :: "'w server_data \<Rightarrow> bool" where
  "counters_wf sd \<longleftrightarrow>
     sd_num_clients sd = u64 (int (length (sd_clients sd))) \<and> sd_num_callbacks sd = u64 (int (length (sd_callbacks sd))) \<and>
     length (sd_sockets sd) = nat CRAS_NUM_CONN_TYPE"

definition streams_owned :: "'w server_data \<Rightarrow> bool" where
  "streams_owned sd \<longleftrightarrow>
     (\<forall>s\<in>set (sl_streams (sv_list (sd_rs sd))). rs_client (snd s) = 0 \<or> (\<exists>c\<in>set (sd_clients sd). authorised (ac_client c) (snd s)))"

lemma authorised_observer [simp]: "authorised (client\<lparr>cl_observer := ob\<rparr>) s = authorised client s"
  by (simp add: authorised_def)

lemma create_client:
  assumes "cras_rclient_create env fd i conn_type sv = Some (client, sv')"
  shows "same_streams sv sv'" "client = Some cl \<Longrightarrow> re_client_alloc env = Some (cl_ptr cl) \<and> cl_id cl = i"
  using assms
  by (auto simp: cras_rclient_create_def cras_control_rclient_create_def cras_playback_rclient_create_def cras_capture_rclient_create_def
      cras_unified_rclient_create_def rclient_generic_create_def cras_rclient_set_client_type_def Let_def split: option.splits if_splits)

lemma connection_cases:
  assumes "handle_new_connection n env ptr fd conn_type sd = Some sd'"
  obtains (none) "sd' = sd"
  | (failed) i nxt sv where "find_client_id n (sd_clients sd) (sd_next_client_id sd) = Some (i, nxt)"
      "cras_rclient_create env fd i conn_type (sd_rs sd) = Some (None, sv)"
      "sd' = sd\<lparr>sd_next_client_id := nxt, sd_rs := close_fds [fd] sv\<rparr>"
  | (attached) p i nxt sv cl where "ptr = Some p" "find_client_id n (sd_clients sd) (sd_next_client_id sd) = Some (i, nxt)"
      "cras_rclient_create env fd i conn_type (sd_rs sd) = Some (Some cl, sv)"
      "sd' = send_client_list_to_clients (sd\<lparr>sd_next_client_id := nxt, sd_rs := sv,
         sd_clients := sd_clients sd @ [\<lparr>ac_ptr = p, ac_id = i, ac_fd = fd, ac_client = cl, ac_pollfd = None\<rparr>],
         sd_num_clients := u64 (sd_num_clients sd + 1)\<rparr>)"
proof (cases "ptr = None \<or> fd < 0")
  case True
  then show thesis using assms none by (auto simp: handle_new_connection_def split: option.splits)
next
  case False
  then obtain p where p: "ptr = Some p" "\<not> fd < 0" by auto
  obtain i nxt client sv where c: "find_client_id n (sd_clients sd) (sd_next_client_id sd) = Some (i, nxt)"
    "cras_rclient_create env fd i conn_type (sd_rs sd) = Some (client, sv)"
    using assms p by (auto simp: handle_new_connection_def bind_eq_Some_conv)
  show thesis
  proof (cases client)
    case None
    then show thesis using assms p c failed by (simp add: handle_new_connection_def)
  next
    case (Some cl)
    then show thesis using assms p c attached by (simp add: handle_new_connection_def)
  qed
qed

lemma rm_all_streams:
  assumes "stream_list_rm_all_client_streams cbs alloc now (list, timers) p = (rc, list', timers')"
  shows "sl_streams list' = filter (\<lambda>s. rs_client (snd s) \<noteq> p) (sl_streams list)" "sl_created list' = sl_created list"
  using assms restart_drain_keeps [of cbs alloc now _ timers list' timers']
  by (auto simp: stream_list_rm_all_client_streams_def Let_def)

text \<open>The removal of a client.\<close>

lemma rclient_destroy_list:
  assumes "stream_list_rm_all_client_streams cbs (re_alloc env) (re_now env) (sv_list sv, sv_timers sv) (cl_ptr client) = (rc, list, timers)"
  shows "sv_list (rclient_destroy cbs env client sv) = list" "sv_timers (rclient_destroy cbs env client sv) = timers"
    "sv_closed (rclient_destroy cbs env client sv) = sv_closed sv"
  using assms by (simp_all add: rclient_destroy_def server_call_def Let_def split: option.split)

lemma length_filter_key: "distinct (map f xs) \<Longrightarrow> x \<in> set xs \<Longrightarrow> length (filter (\<lambda>y. f y \<noteq> f x) xs) = length xs - 1"
proof (induction xs)
  case (Cons y ys)
  have "filter (\<lambda>z. f z \<noteq> f y) ys = ys" using Cons.prems(1) by (simp add: filter_id_conv) (metis image_eqI)
  moreover have "f y \<noteq> f x" "ys \<noteq> []" if "x \<in> set ys" using that Cons.prems(1) by auto
  ultimately show ?case using Cons by (cases "x = y") (auto simp: Suc_diff_le Suc_leI length_greater_0_conv)
qed simp

definition lists_wf :: "'w stream_cbs \<Rightarrow> (timers \<Rightarrow> nat option) \<Rightarrow> (nat \<Rightarrow> 'w \<Rightarrow> 'w) \<Rightarrow> 'w rserver \<Rightarrow> bool" where
  "lists_wf cbs alloc other sv \<longleftrightarrow> sl_reach cbs alloc other (sv_list sv) (sv_timers sv)"

lemma same_streams_wf: "same_streams sv sv' \<Longrightarrow> lists_wf cbs alloc other sv \<Longrightarrow> lists_wf cbs alloc other sv'"
  by (simp add: same_streams_def lists_wf_def)

lemma remove_client_wf:
  assumes wf: "lists_wf cbs alloc other (sd_rs sd)" "clients_wf sd" "counters_wf sd" "streams_owned sd"
    and c: "c \<in> set (sd_clients sd)" and env: "re_alloc env = alloc" "ts_normal (re_now env)"
  shows "lists_wf cbs alloc other (sd_rs (remove_client cbs env c sd))" "clients_wf (remove_client cbs env c sd)"
    "counters_wf (remove_client cbs env c sd)" "streams_owned (remove_client cbs env c sd)"
proof -
  let ?sd = "remove_client cbs env c sd" and ?sv = "(sd_rs sd)\<lparr>sv_closed := sv_closed (sd_rs sd) @ [ac_fd c]\<rparr>"
  obtain rc list timers where rm: "stream_list_rm_all_client_streams cbs alloc (re_now env) (sv_list (sd_rs sd), sv_timers (sd_rs sd))
      (cl_ptr (ac_client c)) = (rc, list, timers)"
    using prod_cases3 by blast
  have sv: "sv_list (sd_rs ?sd) = list" "sv_timers (sd_rs ?sd) = timers"
    using rclient_destroy_list [of cbs env ?sv "ac_client c"] rm env(1) by (simp_all add: remove_client_def)
  show "lists_wf cbs alloc other (sd_rs ?sd)" using sl_reach.rm_all [OF _ env(2) rm] wf(1) by (simp add: lists_wf_def sv)
  have cl: "sd_clients ?sd = filter (\<lambda>d. ac_ptr d \<noteq> ac_ptr c) (sd_clients sd)" by (simp add: remove_client_def Let_def)
  show "clients_wf ?sd" using wf(2) by (auto simp: clients_wf_def cl distinct_map_filter)
  have "length (sd_clients ?sd) = length (sd_clients sd) - 1" "0 < length (sd_clients sd)"
    using wf(2) c length_filter_key [of ac_ptr "sd_clients sd" c] by (auto simp: cl clients_wf_def)
  then have "int (length (sd_clients ?sd)) = int (length (sd_clients sd)) - 1" by (simp add: of_nat_diff Suc_leI)
  moreover have "u64 (u64 (int (length (sd_clients sd))) - 1) = u64 (int (length (sd_clients sd)) - 1)"
    using u64_add [of "int (length (sd_clients sd))" "- 1"] by simp
  ultimately show "counters_wf ?sd" using wf(3) by (simp add: counters_wf_def remove_client_def Let_def)
  show "streams_owned ?sd" unfolding streams_owned_def
  proof
    fix s assume "s \<in> set (sl_streams (sv_list (sd_rs ?sd)))"
    then have s: "s \<in> set (sl_streams (sv_list (sd_rs sd)))" "rs_client (snd s) \<noteq> cl_ptr (ac_client c)"
      using rm_all_streams(1) [OF rm] by (auto simp: sv)
    have "d \<in> set (sd_clients ?sd)" if "d \<in> set (sd_clients sd)" "authorised (ac_client d) (snd s)" for d
      using that s(2) c wf(2) by (auto simp: cl authorised_def clients_wf_def distinct_map dest: inj_onD)
    then show "rs_client (snd s) = 0 \<or> (\<exists>d\<in>set (sd_clients ?sd). authorised (ac_client d) (snd s))"
      using s(1) wf(4) by (auto simp: streams_owned_def)
  qed
qed

lemma buffer_client:
  assumes "cras_rclient_buffer_from_client cbs env client buf fds sv = Some (rc, client', sv')"
  shows "client' = client\<lparr>cl_observer := cl_observer client'\<rparr>" "rc < 0 \<Longrightarrow> sv_list sv' = sv_list sv \<and> sv_timers sv' = sv_timers sv"
  using assms by (cases rule: buffer_cases; simp add: close_fds_def)+

lemma message_cases:
  assumes "handle_message_from_client cbs env received c sd = Some sd'" "cras_recv_with_fds received 2 = (nread, buf, fds)"
  obtains (error) sv where "sd' = remove_client cbs env c (sd\<lparr>sd_rs := sv\<rparr>)" "sv_list sv = sv_list (sd_rs sd)" "sv_timers sv = sv_timers (sd_rs sd)"
      "nread < 0 \<and> sv = close_fds fds (sd_rs sd) \<or> (\<exists>rc cl sv0. rc < 0 \<and> sv = close_fds fds sv0 \<and>
         cras_rclient_buffer_from_client cbs env (ac_client c) buf fds (sd_rs sd) = Some (rc, cl, sv0))"
  | (handled) rc cl sv where "0 \<le> rc" "cras_rclient_buffer_from_client cbs env (ac_client c) buf fds (sd_rs sd) = Some (rc, cl, sv)"
      "sd' = sd\<lparr>sd_rs := sv, sd_clients := map (\<lambda>d. if ac_ptr d = ac_ptr c then d\<lparr>ac_client := cl\<rparr> else d) (sd_clients sd)\<rparr>"
proof (cases "nread < 0")
  case True
  then show thesis using assms by (intro error [of "close_fds fds (sd_rs sd)"]) (simp_all add: handle_message_from_client_def close_fds_def)
next
  case False
  then obtain rc cl sv where b: "cras_rclient_buffer_from_client cbs env (ac_client c) buf fds (sd_rs sd) = Some (rc, cl, sv)"
    using assms by (auto simp: handle_message_from_client_def split: option.splits)
  show thesis
  proof (cases "rc < 0")
    case True
    then show thesis using assms False b buffer_client(2) [OF b]
      by (intro error [of "close_fds fds sv"]) (auto simp: handle_message_from_client_def close_fds_def)
  next
    case rc: False
    then show thesis using assms False b by (intro handled [of rc cl sv]) (simp_all add: handle_message_from_client_def)
  qed
qed

text \<open>Whatever a client sends, the message is handled.\<close>

lemma message_returns: "handle_message_from_client cbs env received c sd \<noteq> None"
  by (auto simp: handle_message_from_client_def buffer_from_client_returns simp del: not_None_eq split: prod.splits option.splits)

lemma clients_wf_update:
  assumes "clients_wf sd" "c \<in> set (sd_clients sd)" "cl = (ac_client c)\<lparr>cl_observer := ob\<rparr>" "streams_owned (sd\<lparr>sd_rs := sv\<rparr>)"
  defines "cs \<equiv> map (\<lambda>d. if ac_ptr d = ac_ptr c then d\<lparr>ac_client := cl\<rparr> else d) (sd_clients sd)"
  shows "clients_wf (sd\<lparr>sd_rs := sv, sd_clients := cs\<rparr>)" "streams_owned (sd\<lparr>sd_rs := sv, sd_clients := cs\<rparr>)"
proof -
  have same: "d = c" if "d \<in> set (sd_clients sd)" "ac_ptr d = ac_ptr c" for d
    using that assms(1,2) by (auto simp: clients_wf_def distinct_map dest: inj_onD)
  have ptr: "map ac_ptr cs = map ac_ptr (sd_clients sd)" "map ac_id cs = map ac_id (sd_clients sd)"
    "map (\<lambda>d. cl_ptr (ac_client d)) cs = map (\<lambda>d. cl_ptr (ac_client d)) (sd_clients sd)"
    using same by (auto simp: cs_def assms(3))
  have el: "cl_ptr (ac_client d) \<noteq> 0 \<and> cl_id (ac_client d) = ac_id d" if "d \<in> set cs" for d
    using that assms(1-3) by (auto simp: cs_def clients_wf_def dest: same)
  show "clients_wf (sd\<lparr>sd_rs := sv, sd_clients := cs\<rparr>)" using assms(1) ptr el by (simp add: clients_wf_def)
  have "\<exists>d'\<in>set cs. authorised (ac_client d') s" if "d \<in> set (sd_clients sd)" "authorised (ac_client d) s" for d s
    using that same [of d] by (intro bexI [of _ "if ac_ptr d = ac_ptr c then d\<lparr>ac_client := cl\<rparr> else d"]) (auto simp: cs_def assms(3))
  then show "streams_owned (sd\<lparr>sd_rs := sv, sd_clients := cs\<rparr>)" using assms(4) by (fastforce simp: streams_owned_def)
qed

lemma connection_wf:
  assumes run: "handle_new_connection n env ptr fd conn_type sd = Some sd'"
    and fresh: "\<And>p. ptr = Some p \<Longrightarrow> p \<notin> ac_ptr ` set (sd_clients sd)"
      "\<And>p. re_client_alloc env = Some p \<Longrightarrow> p \<noteq> 0 \<and> p \<notin> (\<lambda>c. cl_ptr (ac_client c)) ` set (sd_clients sd)"
    and wf: "lists_wf cbs alloc other (sd_rs sd)" "clients_wf sd" "counters_wf sd" "streams_owned sd"
  shows "lists_wf cbs alloc other (sd_rs sd') \<and> clients_wf sd' \<and> counters_wf sd' \<and> streams_owned sd'"
  using run
proof (cases rule: connection_cases)
  case (failed i nxt sv)
  have "sv_list sv = sv_list (sd_rs sd)" "sv_timers sv = sv_timers (sd_rs sd)"
    using create_client(1) [OF failed(2)] by (simp_all add: same_streams_def)
  then show ?thesis using wf by (auto simp: failed(3) close_fds_def lists_wf_def clients_wf_def counters_wf_def streams_owned_def)
next
  case (attached p i nxt sv cl)
  note c = create_client [OF attached(3)]
  have i: "\<forall>c\<in>set (sd_clients sd). ac_id c \<noteq> i" using find_client_id_ge [OF attached(2)] by blast
  have "lists_wf cbs alloc other sv" by (rule same_streams_wf [OF c(1) wf(1)])
  moreover have "clients_wf sd'"
    using wf(2) i fresh(1) [OF attached(1)] c(2) [OF refl] fresh(2) [of "cl_ptr cl"]
    by (auto simp: attached(4) clients_wf_def send_client_list_to_clients_def)
  moreover have "counters_wf sd'"
    using wf(3) u64_add [of "int (length (sd_clients sd))" 1]
    by (simp add: attached(4) counters_wf_def send_client_list_to_clients_def add.commute)
  moreover have "streams_owned sd'"
    using wf(4) c(1) by (fastforce simp: attached(4) streams_owned_def same_streams_def send_client_list_to_clients_def)
  ultimately show ?thesis by (simp add: attached(4) send_client_list_to_clients_def)
qed (use wf in simp)

definition client_keys :: "attached_client list \<Rightarrow> (nat \<times> int \<times> int \<times> cras_rclient) list" where
  "client_keys cs = map (\<lambda>c. (ac_ptr c, ac_id c, ac_fd c, ac_client c)) cs"

lemma poll_clients_keeps: "poll_clients cs n p = Some (cs', n', p') \<Longrightarrow> client_keys cs' = client_keys cs"
  by (induction cs arbitrary: n p cs' n' p') (auto simp: client_keys_def bind_eq_Some_conv split: if_splits)

lemma clients_wf_keys:
  "clients_wf sd \<longleftrightarrow> (let ks = client_keys (sd_clients sd) in
     distinct (map fst ks) \<and> distinct (map (\<lambda>(p, i, fd, cl). i) ks) \<and> distinct (map (\<lambda>(p, i, fd, cl). cl_ptr cl) ks) \<and>
     (\<forall>(p, i, fd, cl)\<in>set ks. cl_ptr cl \<noteq> 0 \<and> cl_id cl = i))"
  "streams_owned sd \<longleftrightarrow> (\<forall>s\<in>set (sl_streams (sv_list (sd_rs sd))). rs_client (snd s) = 0 \<or>
     (\<exists>(p, i, fd, cl)\<in>set (client_keys (sd_clients sd)). authorised cl (snd s)))"
  by (auto simp: clients_wf_def streams_owned_def client_keys_def comp_def Let_def)

lemma poll_callbacks_length: "poll_callbacks cs n p = Some (cs', n', p') \<Longrightarrow> length cs' = length cs"
  by (induction cs arbitrary: n p cs' n' p') (auto simp: bind_eq_Some_conv split: if_splits)

lemma cleanup_counter:
  "foldl (\<lambda>n c. if cc_deleted c then u64 (n - 1) else n) (u64 (int (length cs + k))) cs =
    u64 (int (length (filter (\<lambda>c. \<not> cc_deleted c) cs) + k))"
proof (induction cs arbitrary: k)
  case (Cons c cs)
  have "u64 (u64 (int (length (c # cs) + k)) - 1) = u64 (int (length cs + k))"
    using u64_add [of "int (length (c # cs) + k)" "- 1"] by simp
  then show ?case using Cons.IH [of k] Cons.IH [of "Suc k"] by (cases "cc_deleted c") simp_all
qed simp

context stream_creator
begin

lemma buffer_lists:
  assumes run: "cras_rclient_buffer_from_client cbs env client buf fds sv = Some (rc, client', sv')"
    and wf: "lists_wf cbs (re_alloc env) other sv" "ts_normal (re_now env)" "fresh_streams cbs (sv_list sv)"
  shows "lists_wf cbs (re_alloc env) other sv'"
  using run
proof (cases rule: buffer_cases)
  case (connect m)
  show ?thesis using sym [OF connect(5)]
  proof (cases rule: connect_cases)
    case refused
    then show ?thesis using wf(1) refused by (simp add: lists_wf_def)
  next
    case (added cfg)
    obtain r cfg' so list where a: "stream_list_add cbs (sv_list sv) cfg = (r, cfg', so, list)" using prod_cases4 by blast
    have l: "sl_reach cbs (re_alloc env) other list (sv_timers sv)"
      using wf(1) unfolding lists_wf_def by (rule sl_reach.add [OF _ a]) (use wf(3) in \<open>unfold fresh_streams_def, blast\<close>)
    show ?thesis using connect_with_config_cases [OF added(1,2) a] add_outcome [OF a] l sl_reach.rm [OF l wf(2)]
      unfolding lists_wf_def by fastforce
  qed
next
  case (disconnect i)
  obtain r list timers where rm: "stream_list_rm cbs (re_alloc env) (re_now env) (sv_list sv, sv_timers sv) i = (r, list, timers)"
    using prod_cases3 by blast
  show ?thesis using disconnect(4) rm wf(1) sl_reach.rm [OF _ wf(2) rm]
    by (auto simp: rclient_handle_client_stream_disconnect_def lists_wf_def split: if_splits)
next
  case (request i)
  then show ?thesis using wf(1) same_streams_wf by blast
qed (use wf(1) in \<open>simp_all add: lists_wf_def close_fds_def\<close>)

lemma message_wf:
  assumes run: "handle_message_from_client cbs env received c sd = Some sd'" and c: "c \<in> set (sd_clients sd)"
    and env: "re_alloc env = alloc" "ts_normal (re_now env)" "fresh_streams cbs (sv_list (sd_rs sd))"
    and ok: "cbs_ok cbs" "alloc_ok alloc"
    and wf: "lists_wf cbs alloc other (sd_rs sd)" "clients_wf sd" "counters_wf sd" "streams_owned sd"
  shows "lists_wf cbs alloc other (sd_rs sd') \<and> clients_wf sd' \<and> counters_wf sd' \<and> streams_owned sd'"
proof -
  obtain nread buf fds where r: "cras_recv_with_fds received 2 = (nread, buf, fds)" using prod_cases3 by blast
  show ?thesis using run r
  proof (cases rule: message_cases)
    case (error sv)
    have "lists_wf cbs alloc other (sd_rs (sd\<lparr>sd_rs := sv\<rparr>))" "clients_wf (sd\<lparr>sd_rs := sv\<rparr>)" "counters_wf (sd\<lparr>sd_rs := sv\<rparr>)"
      "streams_owned (sd\<lparr>sd_rs := sv\<rparr>)" "c \<in> set (sd_clients (sd\<lparr>sd_rs := sv\<rparr>))"
      using wf c error(2,3) by (simp_all add: lists_wf_def clients_wf_def counters_wf_def streams_owned_def)
    note remove_client_wf [OF this env(1,2)]
    then show ?thesis unfolding error(1) by blast
  next
    case (handled rc cl sv)
    have d: "distinct (map fst (sl_streams (sv_list (sd_rs sd))))"
      using sl_reach_inv [OF wf(1) [unfolded lists_wf_def] ok] by (simp add: sl_inv_def streams_wf_def)
    have "streams_owned (sd\<lparr>sd_rs := sv\<rparr>)"
      using message_streams [OF handled(2) d env(3)] wf(4) c by (auto simp: streams_owned_def)
    note u = clients_wf_update [OF wf(2) c buffer_client(1) [OF handled(2)] this]
    have "lists_wf cbs alloc other sv" using buffer_lists [OF handled(2)] wf(1) env by simp
    then show ?thesis using u wf(3) by (simp add: handled(3) counters_wf_def)
  qed
qed

lemma own_stream_wf:
  assumes add: "stream_list_add cbs (sv_list (sd_rs sd)) cfg = (rc, cfg', so, list)" "rc_client cfg = 0" "fresh_streams cbs (sv_list (sd_rs sd))"
    and wf: "lists_wf cbs alloc other (sd_rs sd)" "streams_owned sd"
  shows "sl_reach cbs alloc other list (sv_timers (sd_rs sd))" "streams_owned (sd\<lparr>sd_rs := (sd_rs sd)\<lparr>sv_list := list\<rparr>\<rparr>)"
proof -
  show "sl_reach cbs alloc other list (sv_timers (sd_rs sd))"
    using wf(1) unfolding lists_wf_def by (rule sl_reach.add [OF _ add(1)]) (use add(3) in \<open>unfold fresh_streams_def, blast\<close>)
  have "set (sl_streams list) \<subseteq> {s. rs_client (snd s) = 0} \<union> set (sl_streams (sv_list (sd_rs sd)))"
    using add_outcome [OF add(1)] add(2) by (auto simp: created_from_def dl_delete_def split: if_splits)
  then show "streams_owned (sd\<lparr>sd_rs := (sd_rs sd)\<lparr>sv_list := list\<rparr>\<rparr>)" using wf(2) by (auto simp: streams_owned_def)
qed

lemma server_inv:
  assumes "server_reach cbs alloc other sd" "cbs_ok cbs" "alloc_ok alloc"
  shows "lists_wf cbs alloc other (sd_rs sd) \<and> clients_wf sd \<and> counters_wf sd \<and> streams_owned sd"
  using assms(1)
proof induction
  case (start sv w)
  then show ?case using sl_reach.start [of cbs alloc other w]
    by (simp add: cras_server_init_def lists_wf_def clients_wf_def counters_wf_def streams_owned_def stream_list_create_def wrap_u_def)
next
  case (connection sd n env ptr fd conn_type sd')
  then show ?case using connection_wf [OF connection.hyps(2-4)] by blast
next
  case (message sd c env received sd')
  then show ?case using message_wf [OF message.hyps(6,2-5) assms(2,3)] by blast
next
  case (timers sd now n list timers fired)
  have "sl_inv cbs (sv_list (sd_rs sd)) (sv_timers (sd_rs sd))" using sl_reach_inv assms(2,3) timers.IH by (auto simp: lists_wf_def)
  note timer_pass_inv(2) [OF assms(2,3) timers.hyps(2) this timers.hyps(3)]
  then show ?case using timers.IH sl_reach.timers [OF _ timers.hyps(2,3)]
    by (auto simp: lists_wf_def clients_wf_def counters_wf_def streams_owned_def)
next
  case (own_stream sd cfg rc cfg' so list)
  then show ?case using own_stream_wf [OF own_stream.hyps(4,2,3)] by (auto simp: lists_wf_def clients_wf_def counters_wf_def)
next
  case (own_removal sd i rc list)
  have "set (sl_streams list) \<subseteq> set (sl_streams (sv_list (sd_rs sd)))"
    using own_removal.hyps(2) by (auto simp: stream_list_direct_rm_def dl_delete_def Let_def split: option.splits if_splits)
  then show ?case using own_removal.IH sl_reach.direct_rm [OF _ own_removal.hyps(2)]
    by (auto simp: lists_wf_def clients_wf_def counters_wf_def streams_owned_def)
next
  case (select_fd sd allocated fd cb events rc sd')
  then show ?case using u64_add [of "int (length (sd_callbacks sd))" 1]
    by (auto simp: add_select_fd_def lists_wf_def clients_wf_def counters_wf_def streams_owned_def add.commute split: if_splits)
next
  case (cleanup sd)
  then show ?case using cleanup_counter [of "sd_callbacks sd" 0]
    by (auto simp: cleanup_select_fds_def lists_wf_def clients_wf_def counters_wf_def streams_owned_def)
next
  case (poll sd mem pollfds n p sd')
  obtain p1 p2 clients cbs' n1 where pc: "poll_clients (sd_clients sd) (nat CRAS_NUM_CONN_TYPE) p1 = Some (clients, n1, p2)"
    and pb: "poll_callbacks (sd_callbacks sd) n1 p2 = Some (cbs', n, p)" "sd' = sd\<lparr>sd_clients := clients, sd_callbacks := cbs'\<rparr>"
    using poll.hyps(2) by (auto simp: fill_pollfds_def bind_eq_Some_conv Let_def split: option.splits if_splits)
  have k: "client_keys clients = client_keys (sd_clients sd)" by (rule poll_clients_keeps [OF pc])
  have "length clients = length (sd_clients sd)" using arg_cong [OF k, of length] by (simp add: client_keys_def)
  moreover have "clients_wf sd'" "streams_owned sd'" using poll.IH by (simp_all add: clients_wf_keys pb(2) k)
  ultimately show ?case using poll.IH poll_callbacks_length [OF pb(1)] by (simp add: pb(2) lists_wf_def counters_wf_def)
next
  case (elsewhere sd now ms k p timers w)
  then show ?case using sl_reach.elsewhere [of cbs alloc other _ "sv_timers (sd_rs sd)", OF _ elsewhere.hyps(2)]
    by (auto simp: lists_wf_def clients_wf_def counters_wf_def streams_owned_def)
qed (auto simp: rm_select_fd_def lists_wf_def clients_wf_def counters_wf_def streams_owned_def)

end

section \<open>Clients and their streams\<close>

lemma client_ptr_inj:
  "clients_wf sd \<Longrightarrow> c \<in> set (sd_clients sd) \<Longrightarrow> d \<in> set (sd_clients sd) \<Longrightarrow> cl_ptr (ac_client c) = cl_ptr (ac_client d) \<Longrightarrow> c = d"
  unfolding clients_wf_def distinct_map inj_on_def by blast

lemma streams_owner:
  assumes inv: "clients_wf sd" "streams_owned sd" and s: "s \<in> set (sl_streams (sv_list (sd_rs sd)))" "rs_client (snd s) \<noteq> 0"
  shows "\<exists>!c. c \<in> set (sd_clients sd) \<and> authorised (ac_client c) (snd s)"
proof -
  obtain c where c: "c \<in> set (sd_clients sd)" "authorised (ac_client c) (snd s)" using inv(2) s by (auto simp: streams_owned_def)
  moreover have "d = c" if "d \<in> set (sd_clients sd)" "authorised (ac_client d) (snd s)" for d
    using that c client_ptr_inj [OF inv(1), of d c] by (simp add: authorised_def)
  ultimately show ?thesis by blast
qed


lemma valid_stream_id_iff: "cras_valid_stream_id i n \<longleftrightarrow> drop_bit 16 i = u16 n"
proof -
  have "a = b" if "a XOR b = 0" for a b :: int
    using arg_cong [OF that, of "\<lambda>x. x XOR b"] by (simp add: xor.assoc)
  then show ?thesis by (auto simp: cras_valid_stream_id_def)
qed

text \<open>C1. Clients are isolated from each other: whatever bytes and descriptors one client sends, the server handles the
  message, and the streams of another client stay in the list, also when the message is malformed and its
  sender is thrown out. The hypothesis is that the numbers of the two differ in their low 16 bits, which
  are all that a stream's identifier holds of them.\<close>

theorem clients_isolated:
  assumes reach: "server_reach (server_cbs env addr width note cbs) alloc other sd" "cbs_ok (server_cbs env addr width note cbs)" "alloc_ok alloc"
    and c: "c \<in> set (sd_clients sd)" "d \<in> set (sd_clients sd)" "u16 (ac_id c) \<noteq> u16 (ac_id d)"
    and s: "s \<in> set (sl_streams (sv_list (sd_rs sd)))" "rs_client (snd s) = cl_ptr (ac_client d)"
    and fresh: "fresh_streams (server_cbs env addr width note cbs) (sv_list (sd_rs sd))"
  shows "\<exists>sd'. handle_message_from_client (server_cbs env addr width note cbs) renv received c sd = Some sd' \<and>
    s \<in> set (sl_streams (sv_list (sd_rs sd')))"
proof -
  let ?cbs = "server_cbs env addr width note cbs"
  have inv: "lists_wf ?cbs alloc other (sd_rs sd)" "clients_wf sd" "streams_owned sd" using srv.server_inv [OF reach] by blast+
  have ptr: "cl_ptr (ac_client d) \<noteq> 0" "cl_ptr (ac_client c) \<noteq> cl_ptr (ac_client d)" "cl_id (ac_client c) = ac_id c" "cl_id (ac_client d) = ac_id d"
    using inv(2) c client_ptr_inj [OF inv(2) c(1,2)] by (auto simp: clients_wf_def)
  have "authorised (ac_client d) (snd s)"
  proof -
    obtain e where e: "e \<in> set (sd_clients sd)" "authorised (ac_client e) (snd s)" using inv(3) s ptr(1) by (auto simp: streams_owned_def)
    then have "cl_ptr (ac_client e) = cl_ptr (ac_client d)" using s(2) by (simp add: authorised_def)
    then show ?thesis using e client_ptr_inj [OF inv(2) e(1) c(2)] by simp
  qed
  then have id: "\<not> cras_valid_stream_id (rs_stream_id (snd s)) (cl_id (ac_client c))"
    using c(3) ptr(3,4) by (simp add: authorised_def valid_stream_id_iff)
  obtain sd' where sd': "handle_message_from_client ?cbs renv received c sd = Some sd'" using message_returns by blast
  obtain nread buf fds where r: "cras_recv_with_fds received 2 = (nread, buf, fds)" using prod_cases3 by blast
  have "s \<in> set (sl_streams (sv_list (sd_rs sd')))" using sd' r
  proof (cases rule: message_cases)
    case (error sv)
    obtain rc list timers where rm: "stream_list_rm_all_client_streams ?cbs (re_alloc renv) (re_now renv) (sv_list sv, sv_timers sv)
        (cl_ptr (ac_client c)) = (rc, list, timers)"
      using prod_cases3 by blast
    have "sv_list (sd_rs sd') = list"
      using rclient_destroy_list(1) [of ?cbs renv "sv\<lparr>sv_closed := sv_closed sv @ [ac_fd c]\<rparr>"] rm by (simp add: error(1) remove_client_def Let_def)
    then show ?thesis using rm_all_streams(1) [OF rm] s ptr(2) error(2) by simp
  next
    case (handled rc cl sv)
    have "distinct (map fst (sl_streams (sv_list (sd_rs sd))))"
      using sl_reach_inv [OF inv(1) [unfolded lists_wf_def] reach(2,3)] by (simp add: sl_inv_def streams_wf_def)
    from srv.message_streams [OF handled(2) this fresh] show ?thesis using s(1) id by (auto simp: handled(3))
  qed
  then show ?thesis using sd' by blast
qed

section \<open>A server to evaluate on\<close>

text \<open>Two clients for playback; the first connects a stream.\<close>

definition srv_cbs :: "nat stream_cbs" where
  "srv_cbs = server_cbs (\<lambda>w. example_env) (\<lambda>w. 100 + w) example_width (\<lambda>ev w. Suc w) example_cbs"

definition example_attached :: "nat \<Rightarrow> int \<Rightarrow> int \<Rightarrow> attached_client" where
  "example_attached p cp i = \<lparr>ac_ptr = p, ac_id = i, ac_fd = 20, ac_client = example_client cp i, ac_pollfd = None\<rparr>"

lemmas connection_eval = handle_new_connection_def cras_rclient_create_def cras_playback_rclient_create_def rclient_generic_create_def
  cras_validate_connection_type_def conn_types cras_stream_direction_mask_def CRAS_STREAM_OUTPUT_def CRAS_NUM_DIRECTIONS_def
  rclient_send_message_to_client_def send_client_list_to_clients_def CRAS_CLIENT_TYPE_UNKNOWN_def

definition server1 :: "nat server_data" where
  "server1 = the (handle_new_connection 5 example_renv (Some 1) 20 CRAS_PLAYBACK (cras_server_init example_rserver))"

definition server2 :: "nat server_data" where
  "server2 = the (handle_new_connection 5 (example_renv\<lparr>re_client_alloc := Some 201\<rparr>) (Some 2) 20 CRAS_PLAYBACK server1)"

lemma server1:
  "handle_new_connection 5 example_renv (Some 1) 20 CRAS_PLAYBACK (cras_server_init example_rserver) = Some server1"
  "sd_clients server1 = [example_attached 1 200 16]" "sd_next_client_id server1 = 17"
  "sv_list (sd_rs server1) = stream_list_create 0" "sv_timers (sd_rs server1) = []"
  by (simp_all add: server1_def connection_eval cras_server_init_def RESERVED_CLIENT_IDS_def numeral_eq_Suc example_renv_def example_rserver_def
      example_attached_def example_client_def wrap_u_def Let_def)

lemma server2:
  "handle_new_connection 5 (example_renv\<lparr>re_client_alloc := Some 201\<rparr>) (Some 2) 20 CRAS_PLAYBACK server1 = Some server2"
  "sd_clients server2 = [example_attached 1 200 16, example_attached 2 201 17]"
  "sv_list (sd_rs server2) = stream_list_create 0" "sv_timers (sd_rs server2) = []"
  by (simp_all add: server2_def connection_eval server1 numeral_eq_Suc example_renv_def example_attached_def example_client_def wrap_u_def Let_def)

lemma srv_cbs_ok: "cbs_ok srv_cbs"
  using example_ok(1) by (simp add: cbs_ok_def srv_cbs_def server_cbs_def)

lemma server2_reach: "server_reach srv_cbs example_alloc (\<lambda>k w. w) server2"
proof -
  have "server_reach srv_cbs example_alloc (\<lambda>k w. w) (cras_server_init example_rserver)"
    by (rule server_reach.start) (simp_all add: example_rserver_def cras_tm_init_def)
  then have "server_reach srv_cbs example_alloc (\<lambda>k w. w) server1"
    by (rule server_reach.connection [OF _ server1(1)]) (simp_all add: cras_server_init_def example_renv_def)
  then show ?thesis
    by (rule server_reach.connection [OF _ server2(1)]) (simp_all add: server1 example_renv_def example_attached_def example_client_def)
qed

definition server3 :: "nat server_data" where
  "server3 = the (handle_message_from_client srv_cbs example_renv
     (Inr (connect_message_bytes 99 CRAS_SERVER_CONNECT_STREAM example_message, [(True, [7])])) (example_attached 1 200 16) server2)"

lemma example_message_config:
  "cras_rstream_config_init_with_message (example_client 200 16) example_message 7 (- 1) (unpack_cras_audio_format (cm_format example_message)) =
    (example_config\<lparr>rc_stream_id := 1048577, rc_client := 200\<rparr>, - 1, - 1)"
  by (simp add: cras_rstream_config_init_with_message_def cras_rstream_config_init_def example_client_def example_message_def example_config_def
      unpack_cras_audio_format_def pack_cras_audio_format_def cras_audio_format_create_def CRAS_STREAM_OUTPUT_def pcm_formats wrap_u_def wrap_s_def)

lemma example_connect_valid:
  "rclient_validate_stream_connect_params (example_client 200 16) example_message 7 (- 1) = 0"
  "cras_audio_format_valid (unpack_cras_audio_format (cm_format example_message))"
proof -
  have "u16 16 = 16" "drop_bit 16 (1048577 :: int) = 16" by (simp_all add: wrap_u_def drop_bit_eq_div)
  then show "rclient_validate_stream_connect_params (example_client 200 16) example_message 7 (- 1) = 0"
    by (simp add: rclient_validate_stream_connect_params_def rclient_validate_stream_connect_message_def rclient_validate_stream_connect_fds_def
        valid_stream_id_iff cras_stream_direction_mask_def CRAS_NUM_DIRECTIONS_def example_client_def example_message_def conn_types)
  show "cras_audio_format_valid (unpack_cras_audio_format (cm_format example_message))"
    by (simp add: cras_audio_format_valid_def unpack_cras_audio_format_def pack_cras_audio_format_def cras_audio_format_create_def
        example_message_def wrap_u_def wrap_s_def CRAS_CH_MAX_def upt_rec)
qed

lemma example_connect:
  assumes "sv_list sv = stream_list_create 0"
  shows "\<exists>s. sl_streams (sv_list (snd (rclient_handle_client_stream_connect srv_cbs example_renv (example_client 200 16) example_message 7 (- 1) sv)))
      = [(100, s)] \<and> rs_client s = 200 \<and> rs_stream_id s = 1048577 \<and>
    sl_world (sv_list (snd (rclient_handle_client_stream_connect srv_cbs example_renv (example_client 200 16) example_message 7 (- 1) sv))) = 1 \<and>
    sl_streams_to_delete (sv_list (snd (rclient_handle_client_stream_connect srv_cbs example_renv (example_client 200 16) example_message 7 (- 1) sv))) = []"
proof -
  let ?cfg = "example_config\<lparr>rc_stream_id := 1048577, rc_client := 200\<rparr>"
  obtain cfg' s ev where s: "cras_rstream_create example_env example_width ?cfg = (0, cfg', Some s, ev)"
    "rs_shm s = created_shm 1 8 16 (replicate 16 0) [0, 8]" using example_created_for by blast
  have id: "rs_client s = 200" "rs_stream_id s = 1048577" using rstream_create_cases [OF s(1)] by (simp_all add: created_from_def)
  have size: "cras_shm_samples_size (rs_shm s) = 16" by (simp add: s(2) created_shm_def cras_shm_samples_size_def)
  have add: "stream_list_add srv_cbs (sv_list sv) ?cfg = (0, cfg', Some (100, s), (stream_list_create 0)\<lparr>sl_streams := [(100, s)], sl_created := [(100, s)], sl_world := 1\<rparr>)"
    using s(1) by (simp add: stream_list_add_def assms srv_cbs_def server_cbs_def rstream_create_cb_def stream_list_create_def example_cbs_def)
  have "rc_flags ?cfg AND SIDETONE_STREAM \<noteq> SIDETONE_STREAM" by (simp add: example_config_def SIDETONE_STREAM_def)
  moreover have "cl_client_type (example_client 200 16) = 0" by (simp add: example_client_def)
  ultimately show ?thesis using example_connect_valid id size
    by (simp add: rclient_handle_client_stream_connect_def example_message_config connect_with_config_def add Let_def
        CRAS_CLIENT_TYPE_UNKNOWN_def example_renv_def rclient_send_message_to_client_def close_fds_def stream_list_create_def)
qed

lemma server3:
  "handle_message_from_client srv_cbs example_renv
     (Inr (connect_message_bytes 99 CRAS_SERVER_CONNECT_STREAM example_message, [(True, [7])])) (example_attached 1 200 16) server2 = Some server3"
  "sd_clients server3 = sd_clients server2"
  "\<exists>s. sl_streams (sv_list (sd_rs server3)) = [(100, s)] \<and> rs_client s = 200 \<and> rs_stream_id s = 1048577"
  "fresh_streams srv_cbs (sv_list (sd_rs server3))" "server_reach srv_cbs example_alloc (\<lambda>k w. w) server3"
proof -
  let ?sv = "snd (rclient_handle_client_stream_connect srv_cbs example_renv (example_client 200 16) example_message 7 (- 1) (sd_rs server2))"
  have "cras_rclient_buffer_from_client srv_cbs example_renv (example_client 200 16)
      (connect_message_bytes 99 CRAS_SERVER_CONNECT_STREAM example_message) [7] (sd_rs server2) = Some (0, example_client 200 16, ?sv)"
    using connect_reaches_handler [OF example_message_typed, of "[7]"] by simp
  then have m: "handle_message_from_client srv_cbs example_renv
      (Inr (connect_message_bytes 99 CRAS_SERVER_CONNECT_STREAM example_message, [(True, [7])])) (example_attached 1 200 16) server2 =
      Some (server2\<lparr>sd_rs := ?sv\<rparr>)"
    by (simp add: handle_message_from_client_def cras_recv_with_fds_def example_attached_def server2)
  then show h: "handle_message_from_client srv_cbs example_renv
     (Inr (connect_message_bytes 99 CRAS_SERVER_CONNECT_STREAM example_message, [(True, [7])])) (example_attached 1 200 16) server2 = Some server3"
    by (simp add: server3_def)
  have eq: "server3 = server2\<lparr>sd_rs := ?sv\<rparr>" using m by (simp add: server3_def)
  show "sd_clients server3 = sd_clients server2" by (simp add: eq)
  note c = example_connect [OF server2(3)]
  show "\<exists>s. sl_streams (sv_list (sd_rs server3)) = [(100, s)] \<and> rs_client s = 200 \<and> rs_stream_id s = 1048577" using c by (auto simp: eq)
  show "fresh_streams srv_cbs (sv_list (sd_rs server3))"
    using c by (auto simp: eq fresh_streams_def srv_cbs_def server_cbs_def rstream_create_cb_def split: prod.splits option.splits)
  have "fresh_streams srv_cbs (sv_list (sd_rs server2))" by (simp add: fresh_streams_def server2 stream_list_create_def)
  then show "server_reach srv_cbs example_alloc (\<lambda>k w. w) server3"
    by (intro server_reach.message [OF server2_reach _ _ _ _ h]) (simp_all add: server2 example_renv_def ts_normal_def)
qed


text \<open>The second client asks for the removal of a stream of the first.\<close>

theorem clients_isolated_witness:
  "\<exists>s sd'. sl_streams (sv_list (sd_rs server3)) = [s] \<and> s \<in> set (sl_streams (sv_list (sd_rs sd'))) \<and>
     handle_message_from_client srv_cbs example_renv (Inr (cras_fill_disconnect_stream_message 1048577, [])) (example_attached 2 201 17) server3 = Some sd'"
proof -
  obtain s where s: "sl_streams (sv_list (sd_rs server3)) = [(100, s)]" "rs_client s = 200" using server3(3) by blast
  have c: "example_attached 2 201 17 \<in> set (sd_clients server3)" "example_attached 1 200 16 \<in> set (sd_clients server3)"
    "u16 (ac_id (example_attached 2 201 17)) \<noteq> u16 (ac_id (example_attached 1 200 16))"
    by (simp_all add: server3(2) server2(2) example_attached_def wrap_u_def)
  from clients_isolated [OF server3(5) [unfolded srv_cbs_def] srv_cbs_ok [unfolded srv_cbs_def] example_ok(2) c, of "(100, s)" example_renv
      "Inr (cras_fill_disconnect_stream_message 1048577, [])"]
  show ?thesis using s server3(4) by (auto simp: srv_cbs_def example_attached_def example_client_def)
qed

section \<open>Descriptors\<close>

lemma remove_client_fds: "fds_owned (sd_rs (remove_client cbs env c sd)) = fds_owned (sd_rs sd) + {#ac_fd c#}"
proof -
  let ?sv = "(sd_rs sd)\<lparr>sv_closed := sv_closed (sd_rs sd) @ [ac_fd c]\<rparr>"
  obtain rc list timers where rm: "stream_list_rm_all_client_streams cbs (re_alloc env) (re_now env) (sv_list ?sv, sv_timers ?sv)
      (cl_ptr (ac_client c)) = (rc, list, timers)" using prod_cases3 by blast
  then show ?thesis using rclient_destroy_list [OF rm] rm_all_streams(2) [OF rm] by (simp add: remove_client_def fds_owned_def Let_def)
qed

lemma close_fds_owned: "\<forall>fd\<in>set fds. 0 \<le> fd \<Longrightarrow> fds_owned (close_fds fds sv) = fds_owned sv + mset fds"
  by (simp add: fds_owned_def close_fds_def filter_id_conv)

text \<open>C7. No descriptor that a client passes is lost or closed twice: after a message that carries as many as its kind
  allows, each has been closed by the server once or belongs to the one stream that was created for it, and closes
  it when it is destroyed. A client that is thrown out for the message has its connection closed as well.
  (The request to dump echo cancellation hands its descriptor to the audio thread and is left out.)\<close>

theorem descriptors_accounted:
  assumes run: "handle_message_from_client (server_cbs env addr width note cbs) renv received c sd = Some sd'"
    and recv: "cras_recv_with_fds received 2 = (nread, buf, fds)" "0 \<le> nread" "\<forall>fd\<in>set fds. 0 \<le> fd"
    and id: "\<forall>i. rd buf 4 4 = Some i \<longrightarrow> rclient_validate_message_fds i fds = 0 \<and> i \<noteq> CRAS_SERVER_SET_AEC_DUMP"
  shows "fds_owned (sd_rs sd') = fds_owned (sd_rs sd) + mset fds \<or>
    fds_owned (sd_rs sd') = fds_owned (sd_rs sd) + mset fds + {#ac_fd c#} \<and> ac_ptr c \<notin> ac_ptr ` set (sd_clients sd')"
  using run recv(1)
proof (cases rule: message_cases)
  case (error sv)
  have "fds_owned sv = fds_owned (sd_rs sd) + mset fds"
    using error(4)
  proof (elim disjE exE conjE)
    fix rc cl sv0 assume e: "rc < 0" "sv = close_fds fds sv0"
      "cras_rclient_buffer_from_client (server_cbs env addr width note cbs) renv (ac_client c) buf fds (sd_rs sd) = Some (rc, cl, sv0)"
    from e(3) have "sv0 = sd_rs sd" by (cases rule: buffer_cases) (use e(1) id in \<open>auto simp: EINVAL_def\<close>)
    then show ?thesis using e(2) close_fds_owned [OF recv(3)] by simp
  qed (use recv(2) in simp)
  then show ?thesis using remove_client_fds [of "server_cbs env addr width note cbs" renv c "sd\<lparr>sd_rs := sv\<rparr>"]
    by (auto simp: error(1) remove_client_def Let_def)
next
  case (handled rc cl sv)
  from handled(2) have "rc = 0" by (cases rule: buffer_cases) (use handled(1) in auto)
  then show ?thesis using srv.message_fds [of env addr width "note" cbs renv "ac_client c" buf fds "sd_rs sd" cl sv] handled(2,3) recv(3) id by auto
qed

text \<open>C37. A message with more descriptors than its kind allows makes the server close each of them twice: the handler
  closes them and reports an error, and the caller closes them again. Between the two, another thread may have
  received the same number for a file of its own.\<close>

theorem extra_descriptors_closed_twice:
  assumes msg: "cras_recv_with_fds received 2 = (nread, buf, fds)" "8 \<le> length buf" "rd buf 0 4 = Some (int (length buf))"
      "rd buf 4 4 = Some i" "rclient_validate_message_fds i fds < 0" "\<forall>fd\<in>set fds. 0 \<le> fd" "0 \<le> nread"
    and run: "handle_message_from_client cbs renv received c sd = Some sd'"
  shows "fds_owned (sd_rs sd') = fds_owned (sd_rs sd) + mset fds + mset fds + {#ac_fd c#}"
proof -
  have "cras_rclient_buffer_from_client cbs renv (ac_client c) buf fds (sd_rs sd) =
      Some (rclient_validate_message_fds i fds, ac_client c, close_fds fds (sd_rs sd))"
    using msg by (simp add: cras_rclient_buffer_from_client_def ccr_handle_message_from_client_def rclient_handle_message_from_client_def
        Let_def split: rclient_ops.split)
  then have "sd' = remove_client cbs renv c (sd\<lparr>sd_rs := close_fds fds (close_fds fds (sd_rs sd))\<rparr>)"
    using run msg(1,5,7) by (simp add: handle_message_from_client_def)
  then show ?thesis using remove_client_fds [of cbs renv c "sd\<lparr>sd_rs := close_fds fds (close_fds fds (sd_rs sd))\<rparr>"]
    by (simp add: close_fds_owned [OF msg(6)])
qed

theorem descriptors_accounted_witness:
  "fds_owned (sd_rs server3) = fds_owned (sd_rs server2) + {#7#}"
proof -
  let ?buf = "connect_message_bytes 99 CRAS_SERVER_CONNECT_STREAM example_message"
  have "rd ?buf 4 4 = Some CRAS_SERVER_CONNECT_STREAM" by (simp add: connect_message_bytes_def rd_le rd_skip CRAS_SERVER_CONNECT_STREAM_def)
  then show ?thesis using descriptors_accounted [OF server3(1) [unfolded srv_cbs_def], of "int (length ?buf)" ?buf "[7]"]
    by (auto simp: cras_recv_with_fds_def rclient_validate_message_fds_def message_ids server3(2) server2(2))
qed

definition extra_fd_message :: bytes where
  "extra_fd_message = cras_fill_disconnect_stream_message 1048577"

theorem extra_descriptors_closed_twice_witness:
  "\<exists>sd'. handle_message_from_client srv_cbs example_renv (Inr (extra_fd_message, [(True, [9])])) (example_attached 1 200 16) server2 = Some sd' \<and>
     fds_owned (sd_rs sd') = fds_owned (sd_rs server2) + {#9#} + {#9#} + {#20#}"
proof -
  obtain sd' where run: "handle_message_from_client srv_cbs example_renv (Inr (extra_fd_message, [(True, [9])])) (example_attached 1 200 16) server2 = Some sd'"
    using message_returns by blast
  have "rd extra_fd_message 4 4 = Some 1" "rd extra_fd_message 0 4 = Some 12" "length extra_fd_message = 12"
    by (simp_all add: extra_fd_message_def cras_fill_disconnect_stream_message_def rd_le rd_skip message_ids)
  from extra_descriptors_closed_twice [OF _ _ _ this(1) _ _ _ run, of 12 "[9]"] this show ?thesis
    using run by (simp add: cras_recv_with_fds_def rclient_validate_message_fds_def message_ids EINVAL_def example_attached_def)
qed

section \<open>Numbers of clients\<close>

text \<open>C36. The number of a client is checked against a stream's identifier at 16 bits only. Of two clients whose
  numbers agree in their low 16 bits, which the server hands out after 65536 connections, one can remove the
  streams of the other by naming them.\<close>

theorem client_numbers_wrap:
  assumes s: "s \<in> set (sl_streams (sv_list (sd_rs sd)))" "authorised (ac_client d) (snd s)" "u16 (cl_id (ac_client c)) = u16 (cl_id (ac_client d))"
      "in_u 32 (rs_stream_id (snd s))" "List.find (\<lambda>t. rs_stream_id (snd t) = rs_stream_id (snd s)) (sl_streams (sv_list (sd_rs sd))) = Some s"
    and run: "handle_message_from_client cbs renv (Inr (cras_fill_disconnect_stream_message (rs_stream_id (snd s)), [])) c sd = Some sd'"
  shows "s \<notin> set (sl_streams (sv_list (sd_rs sd')))"
proof -
  let ?i = "rs_stream_id (snd s)"
  let ?buf = "cras_fill_disconnect_stream_message ?i"
  have "?i mod 4294967296 = ?i" using s(4) by (simp add: in_u_def)
  then have rds: "rd ?buf 0 4 = Some 12" "rd ?buf 4 4 = Some 1" "rd ?buf 8 4 = Some ?i" "length ?buf = 12"
    by (simp_all add: cras_fill_disconnect_stream_message_def rd_le rd_skip message_ids)
  have valid: "cras_valid_stream_id ?i (cl_id (ac_client c))" using s(2,3) by (simp add: authorised_def valid_stream_id_iff)
  obtain rc list timers where rm: "stream_list_rm cbs (re_alloc renv) (re_now renv) (sv_list (sd_rs sd), sv_timers (sd_rs sd)) ?i = (rc, list, timers)"
    using prod_cases3 by blast
  have "sl_streams list = dl_delete (sl_streams (sv_list (sd_rs sd))) s"
    using rm s(5) restart_drain_keeps(1) [of cbs "re_alloc renv" "re_now renv" _ "sv_timers (sd_rs sd)" list timers]
    by (auto simp: stream_list_rm_def Let_def)
  moreover have "cras_rclient_buffer_from_client cbs renv (ac_client c) ?buf [] (sd_rs sd) =
      Some (0, ac_client c, (sd_rs sd)\<lparr>sv_list := list, sv_timers := timers\<rparr>)"
    using rds valid rm
    by (simp add: cras_rclient_buffer_from_client_def ccr_handle_message_from_client_def rclient_handle_message_from_client_def
        rclient_validate_message_fds_def handle_disconnect_def rclient_handle_client_stream_disconnect_def message_ids split: rclient_ops.split)
  ultimately show ?thesis using run by (auto simp: handle_message_from_client_def cras_recv_with_fds_def dl_delete_def)
qed

theorem client_numbers_wrap_witness:
  "\<exists>s sd'. sl_streams (sv_list (sd_rs server3)) = [s] \<and> s \<notin> set (sl_streams (sv_list (sd_rs sd'))) \<and>
     handle_message_from_client srv_cbs example_renv (Inr (cras_fill_disconnect_stream_message 1048577, [])) (example_attached 3 202 65552) server3 = Some sd'"
proof -
  obtain s where s: "sl_streams (sv_list (sd_rs server3)) = [(100, s)]" "rs_client s = 200" "rs_stream_id s = 1048577" using server3(3) by blast
  have "streams_owned server3"
    using srv.server_inv [OF server3(5) [unfolded srv_cbs_def] srv_cbs_ok [unfolded srv_cbs_def] example_ok(2)] by blast
  then have "authorised (example_client 200 16) s"
    using s by (auto simp: streams_owned_def server3(2) server2(2) example_attached_def authorised_def example_client_def)
  then have a: "authorised (ac_client (example_attached 1 200 16)) (snd (100, s))" by (simp add: example_attached_def)
  obtain sd' where run: "handle_message_from_client srv_cbs example_renv (Inr (cras_fill_disconnect_stream_message 1048577, []))
      (example_attached 3 202 65552) server3 = Some sd'" using message_returns by blast
  have "(100, s) \<notin> set (sl_streams (sv_list (sd_rs sd')))"
    by (rule client_numbers_wrap [OF _ a])
      (use s run in \<open>simp_all add: example_attached_def example_client_def wrap_u_def in_u_def\<close>)
  then show ?thesis using s(1) run by blast
qed

text \<open>C26. A client that connects is accepted: if there is memory, the search for a number ends after at most as many
  steps as there are clients, and the client is appended to the list with a number that no other client has,
  has been told so, and is counted.\<close>

theorem new_connection_attached:
  assumes "clients_wf sd" "counters_wf sd" "in_u 64 (sd_next_client_id sd)" "length (sd_clients sd) < 2 ^ 63"
    and "re_client_alloc env = Some q" "0 \<le> fd" "cras_validate_connection_type conn_type"
  shows "\<exists>sd' i cl. handle_new_connection (Suc (length (sd_clients sd))) env (Some p) fd conn_type sd = Some sd' \<and>
    sd_clients sd' = sd_clients sd @ [\<lparr>ac_ptr = p, ac_id = i, ac_fd = fd, ac_client = cl, ac_pollfd = None\<rparr>] \<and>
    i \<notin> ac_id ` set (sd_clients sd) \<and> cl_id cl = i \<and> cl_conn_type cl = conn_type \<and>
    last (sv_sent (sd_rs sd')) = (fd, ClientConnected (u32 i), [re_state_fd env]) \<and>
    sd_num_clients sd' = int (length (sd_clients sd'))"
proof -
  obtain i nxt where i: "find_client_id (Suc (length (sd_clients sd))) (sd_clients sd) (sd_next_client_id sd) = Some (i, nxt)"
    using find_client_id_enough [OF assms(3), of "sd_clients sd" "Suc (length (sd_clients sd))"] assms(4) by auto
  have "\<exists>cl sv. cras_rclient_create env fd i conn_type (sd_rs sd) = Some (Some cl, sv) \<and> cl_id cl = i \<and> cl_conn_type cl = conn_type \<and>
      last (sv_sent sv) = (fd, ClientConnected (u32 i), [re_state_fd env])"
    using assms(5,7) by (auto simp: cras_rclient_create_def cras_control_rclient_create_def cras_playback_rclient_create_def
        cras_capture_rclient_create_def cras_unified_rclient_create_def rclient_generic_create_def cras_rclient_set_client_type_def
        rclient_send_message_to_client_def cras_validate_connection_type_def conn_types Let_def)
  then obtain cl sv where c: "cras_rclient_create env fd i conn_type (sd_rs sd) = Some (Some cl, sv)" "cl_id cl = i" "cl_conn_type cl = conn_type"
    "last (sv_sent sv) = (fd, ClientConnected (u32 i), [re_state_fd env])" by blast
  have n: "u64 (sd_num_clients sd + 1) = int (length (sd_clients sd)) + 1"
    using assms(2,4) u64_add [of "int (length (sd_clients sd))" 1] by (simp add: counters_wf_def wrap_u_def)
  show ?thesis using i c n assms(6) find_client_id_ge [OF i]
    by (auto simp: handle_new_connection_def send_client_list_to_clients_def Let_def simp del: find_client_id.simps)
qed

theorem new_connection_attached_witness:
  "\<exists>sd' i. handle_new_connection 3 example_renv (Some 3) 21 CRAS_CAPTURE server2 = Some sd' \<and> length (sd_clients sd') = 3 \<and>
     last (sv_sent (sd_rs sd')) = (21, ClientConnected (u32 i), [5])"
proof -
  have inv: "clients_wf server2" "counters_wf server2"
    using srv.server_inv [OF server2_reach [unfolded srv_cbs_def] srv_cbs_ok [unfolded srv_cbs_def] example_ok(2)] by blast+
  have "in_u 64 (sd_next_client_id server2)" by (simp add: server2_def connection_eval server1 numeral_eq_Suc example_renv_def Let_def wrap_u_def in_u_def)
  moreover have n: "Suc (length (sd_clients server2)) = 3" "length (sd_clients server2) < 2 ^ 63" by (simp_all add: server2(2))
  moreover have "re_client_alloc example_renv = Some 200" "re_state_fd example_renv = 5" "cras_validate_connection_type CRAS_CAPTURE"
    by (simp_all add: example_renv_def cras_validate_connection_type_def conn_types)
  ultimately show ?thesis using new_connection_attached [OF inv, of example_renv 200 21 CRAS_CAPTURE 3] unfolding n(1)
    by (fastforce simp: server2(2))
qed

section \<open>The array for \<open>ppoll\<close>\<close>

lemma poll_sockets_ok: "n + length fds \<le> length p \<Longrightarrow> \<exists>p'. poll_sockets fds n p = Some p' \<and> length p' = length p"
proof (induction fds arbitrary: n p)
  case (Cons fd fds)
  then show ?case using Cons.IH [of "Suc n" "p[n := (fd, POLLIN)]"] by auto
qed simp

lemma poll_clients_ok:
  "n + length cs \<le> length p \<Longrightarrow> \<exists>cs' p'. poll_clients cs n p = Some (cs', n + length cs, p') \<and> length p' = length p \<and>
     (\<forall>i<n. p' ! i = p ! i) \<and> map ac_pollfd cs' = map Some [n..<n + length cs] \<and>
     (\<forall>c\<in>set cs'. p' ! the (ac_pollfd c) = (ac_fd c, POLLIN))"
proof (induction cs arbitrary: n p)
  case (Cons c cs)
  then have n: "n < length p" "Suc n + length cs \<le> length (p[n := (ac_fd c, POLLIN)])" by auto
  from Cons.IH [OF n(2)] obtain cs' p' where ih: "poll_clients cs (Suc n) (p[n := (ac_fd c, POLLIN)]) = Some (cs', Suc n + length cs, p')"
    "length p' = length p" "\<forall>i<Suc n. p' ! i = p[n := (ac_fd c, POLLIN)] ! i" "map ac_pollfd cs' = map Some [Suc n..<Suc n + length cs]"
    "\<forall>c\<in>set cs'. p' ! the (ac_pollfd c) = (ac_fd c, POLLIN)" by auto
  have "[n..<n + length (c # cs)] = n # [Suc n..<Suc n + length cs]" by (simp add: upt_conv_Cons del: upt_Suc)
  then show ?case using n(1) ih by auto
qed simp

lemma poll_callbacks_ok:
  "n + length (filter (\<lambda>c. \<not> cc_deleted c) cs) \<le> length p \<Longrightarrow>
   \<exists>cs' p'. poll_callbacks cs n p = Some (cs', n + length (filter (\<lambda>c. \<not> cc_deleted c) cs), p') \<and> length p' = length p \<and>
     (\<forall>i<n. p' ! i = p ! i) \<and>
     map cc_pollfd (filter (\<lambda>c. \<not> cc_deleted c) cs') = map Some [n..<n + length (filter (\<lambda>c. \<not> cc_deleted c) cs)] \<and>
     (\<forall>c\<in>set cs'. \<not> cc_deleted c \<longrightarrow> p' ! the (cc_pollfd c) = (cc_select_fd c, cc_events c))"
proof (induction cs arbitrary: n p)
  case (Cons c cs)
  show ?case
  proof (cases "cc_deleted c")
    case True
    then show ?thesis using Cons.IH [of n p] Cons.prems by auto
  next
    case False
    let ?k = "length (filter (\<lambda>c. \<not> cc_deleted c) cs)"
    have n: "n < length p" "Suc n + ?k \<le> length (p[n := (cc_select_fd c, cc_events c)])" using Cons.prems False by auto
    from Cons.IH [OF n(2)] obtain cs' p' where ih: "poll_callbacks cs (Suc n) (p[n := (cc_select_fd c, cc_events c)]) = Some (cs', Suc n + ?k, p')"
      "length p' = length p" "\<forall>i<Suc n. p' ! i = p[n := (cc_select_fd c, cc_events c)] ! i"
      "map cc_pollfd (filter (\<lambda>c. \<not> cc_deleted c) cs') = map Some [Suc n..<Suc n + ?k]"
      "\<forall>c\<in>set cs'. \<not> cc_deleted c \<longrightarrow> p' ! the (cc_pollfd c) = (cc_select_fd c, cc_events c)" by auto
    have "[n..<n + Suc ?k] = n # [Suc n..<Suc n + ?k]" by (simp add: upt_conv_Cons del: upt_Suc)
    then show ?thesis using n(1) ih False by auto
  qed
qed simp

text \<open>C13. Filling the array for \<open>ppoll\<close> stays within it, however clients and callbacks come and go: the counters that
  size it agree with the lists in every reachable state (fewer than $2^{30}$ entries). Each
  client and each callback that is not deleted gets an entry of its own with its descriptor and events,
  the entries after those of the sockets are used without a gap, and no two share one.\<close>

theorem poll_array_exact:
  assumes reach: "server_reach (server_cbs env addr width note cbs) alloc other sd" "cbs_ok (server_cbs env addr width note cbs)" "alloc_ok alloc"
    and size: "length (sd_clients sd) + length (sd_callbacks sd) < 2 ^ 30" "\<And>k rest. mem k = Some rest \<Longrightarrow> length rest = k"
  shows "fill_pollfds mem pollfds sd = Some (Inl (- ENOMEM)) \<or>
    (\<exists>n p sd'. fill_pollfds mem pollfds sd = Some (Inr (n, p, sd')) \<and> n \<le> length p \<and>
       map ac_pollfd (sd_clients sd') @ map cc_pollfd (filter (\<lambda>c. \<not> cc_deleted c) (sd_callbacks sd')) = map Some [7..<n] \<and>
       (\<forall>c\<in>set (sd_clients sd'). p ! the (ac_pollfd c) = (ac_fd c, POLLIN)) \<and>
       (\<forall>c\<in>set (sd_callbacks sd'). \<not> cc_deleted c \<longrightarrow> p ! the (cc_pollfd c) = (cc_select_fd c, cc_events c)))"
proof -
  let ?k = "length (filter (\<lambda>c. \<not> cc_deleted c) (sd_callbacks sd))" and ?cl = "length (sd_clients sd)" and ?cb = "length (sd_callbacks sd)"
  have wf: "counters_wf sd" using srv.server_inv [OF reach] by blast
  have needed: "u32 (CRAS_NUM_CONN_TYPE + sd_num_clients sd + sd_num_callbacks sd) = int (7 + ?cl + ?cb)"
    "u32 (2 * int (7 + ?cl + ?cb)) = int (2 * (7 + ?cl + ?cb))"
    using wf size(1) by (simp_all add: counters_wf_def CRAS_NUM_CONN_TYPE_def wrap_u_def)
  define arr where "arr = (if 7 + ?cl + ?cb > length pollfds then map_option (\<lambda>rest. pollfds @ rest) (mem (2 * (7 + ?cl + ?cb) - length pollfds)) else Some pollfds)"
  have fill: "fill_pollfds mem pollfds sd = (case arr of None \<Rightarrow> Some (Inl (- ENOMEM))
      | Some p \<Rightarrow> do { p \<leftarrow> poll_sockets (sd_sockets sd) 0 p;
                  (clients, n, p) \<leftarrow> poll_clients (sd_clients sd) (nat CRAS_NUM_CONN_TYPE) p;
                  (cbs, n, p) \<leftarrow> poll_callbacks (sd_callbacks sd) n p;
                  Some (Inr (n, p, sd\<lparr>sd_clients := clients, sd_callbacks := cbs\<rparr>)) })"
    unfolding fill_pollfds_def Let_def needed arr_def by (simp only: of_nat_less_iff nat_int)
  show ?thesis
  proof (cases arr)
    case (Some p)
    have p: "7 + ?cl + ?cb \<le> length p" using Some size(2) by (auto simp: arr_def split: if_splits)
    have k: "?k \<le> ?cb" by simp
    obtain p1 where p1: "poll_sockets (sd_sockets sd) 0 p = Some p1" "length p1 = length p"
      using poll_sockets_ok [of 0 "sd_sockets sd" p] p wf by (auto simp: counters_wf_def CRAS_NUM_CONN_TYPE_def)
    obtain cs p2 where p2: "poll_clients (sd_clients sd) 7 p1 = Some (cs, 7 + ?cl, p2)" "length p2 = length p1"
      "map ac_pollfd cs = map Some [7..<7 + ?cl]" "\<forall>c\<in>set cs. p2 ! the (ac_pollfd c) = (ac_fd c, POLLIN)"
      using poll_clients_ok [of 7 "sd_clients sd" p1] p p1(2) by auto
    obtain cb p3 where p3: "poll_callbacks (sd_callbacks sd) (7 + ?cl) p2 = Some (cb, 7 + ?cl + ?k, p3)" "length p3 = length p2"
      "\<forall>i<7 + ?cl. p3 ! i = p2 ! i" "map cc_pollfd (filter (\<lambda>c. \<not> cc_deleted c) cb) = map Some [7 + ?cl..<7 + ?cl + ?k]"
      "\<forall>c\<in>set cb. \<not> cc_deleted c \<longrightarrow> p3 ! the (cc_pollfd c) = (cc_select_fd c, cc_events c)"
      using poll_callbacks_ok [of "7 + ?cl" "sd_callbacks sd" p2] p p1(2) p2(2) k by auto
    have "p3 ! the (ac_pollfd c) = (ac_fd c, POLLIN)" if "c \<in> set cs" for c
    proof -
      have "ac_pollfd c \<in> set (map Some [7..<7 + ?cl])" using that p2(3) by (metis image_eqI list.set_map)
      then show ?thesis using that p2(4) p3(3) by auto
    qed
    moreover have u: "[7..<7 + ?cl] @ [7 + ?cl..<7 + ?cl + ?k] = [7..<7 + ?cl + ?k]" by (rule upt_add_eq_append [symmetric]) simp
    have "map ac_pollfd cs @ map cc_pollfd (filter (\<lambda>c. \<not> cc_deleted c) cb) = map Some [7..<7 + ?cl + ?k]"
      by (simp only: p2(3) p3(4) map_append [symmetric] u)
    moreover have "7 + ?cl + ?k \<le> length p3" using p p1(2) p2(2) p3(2) k by linarith
    moreover have "fill_pollfds mem pollfds sd = Some (Inr (7 + ?cl + ?k, p3, sd\<lparr>sd_clients := cs, sd_callbacks := cb\<rparr>))"
      by (simp add: fill Some p1(1) p2(1) p3(1) CRAS_NUM_CONN_TYPE_def)
    ultimately show ?thesis using p3(5) by (intro disjI2 exI conjI) auto
  qed (simp add: fill)
qed

theorem poll_array_exact_witness:
  "\<exists>n p sd'. fill_pollfds (\<lambda>k. None) (replicate 32 (0, 0)) server2 = Some (Inr (n, p, sd')) \<and> map ac_pollfd (sd_clients sd') = [Some 7, Some 8] \<and>
     p ! 7 = (20, POLLIN) \<and> p ! 8 = (20, POLLIN)"
proof -
  have cb: "sd_callbacks server2 = []" "sd_num_callbacks server2 = 0" "sd_num_clients server2 = 2"
    by (simp_all add: server2_def server1_def connection_eval cras_server_init_def RESERVED_CLIENT_IDS_def numeral_eq_Suc example_renv_def Let_def
        wrap_u_def)
  have "fill_pollfds (\<lambda>k. None) (replicate 32 (0, 0)) server2 \<noteq> Some (Inl (- ENOMEM))"
    by (simp add: fill_pollfds_def cb CRAS_NUM_CONN_TYPE_def wrap_u_def bind_eq_Some_conv)
  moreover from poll_array_exact [OF server2_reach [unfolded srv_cbs_def] srv_cbs_ok [unfolded srv_cbs_def] example_ok(2), of "\<lambda>k. None" "replicate 32 (0, 0)"]
  have "fill_pollfds (\<lambda>k. None) (replicate 32 (0, 0)) server2 = Some (Inl (- ENOMEM)) \<or> (\<exists>n p sd'.
      fill_pollfds (\<lambda>k. None) (replicate 32 (0, 0)) server2 = Some (Inr (n, p, sd')) \<and>
      map ac_pollfd (sd_clients sd') @ map cc_pollfd (filter (\<lambda>c. \<not> cc_deleted c) (sd_callbacks sd')) = map Some [7..<n] \<and>
      (\<forall>c\<in>set (sd_clients sd'). p ! the (ac_pollfd c) = (ac_fd c, POLLIN)))"
    by (auto simp: server2(2) cb)
  ultimately obtain n p sd' where f: "fill_pollfds (\<lambda>k. None) (replicate 32 (0, 0)) server2 = Some (Inr (n, p, sd'))"
    "map ac_pollfd (sd_clients sd') @ map cc_pollfd (filter (\<lambda>c. \<not> cc_deleted c) (sd_callbacks sd')) = map Some [7..<n]"
    "\<forall>c\<in>set (sd_clients sd'). p ! the (ac_pollfd c) = (ac_fd c, POLLIN)" by blast
  from f(1) have sd': "sd_clients sd' = [(example_attached 1 200 16)\<lparr>ac_pollfd := Some 7\<rparr>, (example_attached 2 201 17)\<lparr>ac_pollfd := Some 8\<rparr>]"
    by (auto simp: fill_pollfds_def cb CRAS_NUM_CONN_TYPE_def wrap_u_def bind_eq_Some_conv server2(2) split: if_splits)
  then show ?thesis using f by (simp add: example_attached_def)
qed

section \<open>Tasks\<close>

text \<open>The comment in the main loop says that it need not wait when a task has added another; but the timeout it then
  passes is the null pointer, and \<open>ppoll\<close> waits for a descriptor, past the deadlines of all timers.\<close>

lemma pending_task_blocks:
  assumes "sd_tasks sd = ts @ [t]" "\<And>sd. task t sd = snd (add_task True u sd)"
  shows "sd_tasks (run_tasks task sd) \<noteq> []" "poll_timeout now ts0 (run_tasks task sd) = None"
proof -
  show "sd_tasks (run_tasks task sd) \<noteq> []" using assms by (simp add: run_tasks_def add_task_def)
  then show "poll_timeout now ts0 (run_tasks task sd) = None" by (simp add: poll_timeout_def split: prod.split)
qed

lemma no_task_timeout:
  assumes "sd_tasks sd = []" "sv_timers (sd_rs sd) \<noteq> []"
  shows "poll_timeout now ts sd = Some (snd (cras_tm_get_next_timeout (sv_timers (sd_rs sd)) now ts))"
  using assms by (auto simp: poll_timeout_def cras_tm_get_next_timeout_def Let_def neq_Nil_conv)

end
