(* ===== verification/Cras_Mix.thy ===== *)
theory Cras_Mix
  imports Sample_Mem Audio_Format
begin

text \<open>
  Mixing and volume (\<open>cras/src/server/cras_mix_ops.c\<close>, and the exported functions of \<open>cras_mix.c\<close>,
  which call it). The operations work on buffers of bytes at a pointer, in the four formats that devices
  use; a \<open>float\<close> is rounded to 24 bits after every operation (theory \<open>Cras_Float\<close>, without contraction).

  The same source file is compiled several times for the vector instructions of the processor, and
  \<open>cras_mix.c\<close> selects one copy; the copies have the same source, so that there is one model.
\<close>

unbundle bit_operations_syntax

section \<open>Model\<close>

definition SND_PCM_FORMAT_S24_3LE :: int where "SND_PCM_FORMAT_S24_3LE = 32"

definition MAX_VOLUME_TO_SCALE :: real where "MAX_VOLUME_TO_SCALE = f64 (9999999 / 10000000)"
definition MIN_VOLUME_TO_SCALE :: real where "MIN_VOLUME_TO_SCALE = f64 (1 / 10000000)"

definition need_to_scale :: "real \<Rightarrow> bool" where
  "need_to_scale scaler \<longleftrightarrow> scaler < f64 (99 / 100) \<or> scaler > f64 (101 / 100)"

text \<open>An integer times a \<open>float\<close>, and the conversion of the product to an integer of \<open>w\<close> bits. A value that
  does not fit is undefined in C; the processor's conversion then gives the smallest integer.\<close>

definition fmul :: "int \<Rightarrow> real \<Rightarrow> real" where
  "fmul v x = f32 (f32 (of_int v) * x)"

definition cvt :: "nat \<Rightarrow> real \<Rightarrow> int" where
  "cvt w x = (if in_s w (c_trunc x) then c_trunc x else - (2 ^ (w - 1)))"

text \<open>The \<open>if (sum > max) ... else if (sum < min)\<close> of the source.\<close>

definition limit :: "int \<Rightarrow> int \<Rightarrow> int \<Rightarrow> int" where
  "limit lo hi v = (if v > hi then hi else if v < lo then lo else v)"

definition memset_zero :: "bytes \<Rightarrow> nat \<Rightarrow> nat \<Rightarrow> bytes" where
  "memset_zero mem p n = store_at mem p (replicate n 0)"

definition memcpy :: "bytes \<Rightarrow> nat \<Rightarrow> bytes \<Rightarrow> nat \<Rightarrow> nat \<Rightarrow> bytes" where
  "memcpy dst dp src sp n = store_at dst dp (take n (drop sp src))"

text \<open>\<open>for (i = 0; i < count; i++) dst[i] = f(src[i])\<close>, and in place.\<close>

abbreviation copy_loop where
  "copy_loop load store f \<equiv> mix_loop load store (\<lambda>_ s. f s)"

abbreviation scale_loop where
  "scale_loop load store f mem p step count \<equiv> mix_loop load store (\<lambda>d _. f d) mem p step mem p step count"

subsection \<open>Signed 16 bit\<close>

definition cras_mix_add_clip_s16_le :: "bytes \<Rightarrow> nat \<Rightarrow> bytes \<Rightarrow> nat \<Rightarrow> nat \<Rightarrow> bytes" where
  "cras_mix_add_clip_s16_le dst dp src sp count =
     mix_loop ld_s16 st_s16 (\<lambda>d s. limit SHRT_MIN SHRT_MAX (d + s)) dst dp 2 src sp 2 count"

definition scale_add_clip_s16_le :: "bytes \<Rightarrow> nat \<Rightarrow> bytes \<Rightarrow> nat \<Rightarrow> nat \<Rightarrow> real \<Rightarrow> bytes" where
  "scale_add_clip_s16_le dst dp src sp count vol =
     (if vol > MAX_VOLUME_TO_SCALE then cras_mix_add_clip_s16_le dst dp src sp count
      else mix_loop ld_s16 st_s16 (\<lambda>d s. limit SHRT_MIN SHRT_MAX (d + s16 (cvt 32 (fmul s vol)))) dst dp 2 src sp 2 count)"

definition copy_scaled_s16_le :: "bytes \<Rightarrow> nat \<Rightarrow> bytes \<Rightarrow> nat \<Rightarrow> nat \<Rightarrow> real \<Rightarrow> bytes" where
  "copy_scaled_s16_le dst dp src sp count volume_scaler =
     (if volume_scaler > MAX_VOLUME_TO_SCALE then memcpy dst dp src sp (2 * count)
      else copy_loop ld_s16 st_s16 (\<lambda>s. cvt 32 (fmul s volume_scaler)) dst dp 2 src sp 2 count)"

text \<open>The scaler that the loop of the ramp applies, and what it does to a sample.\<close>

definition applied_scaler :: "real \<Rightarrow> real \<Rightarrow> real \<Rightarrow> real" where
  "applied_scaler scaler increment target =
     (if (scaler > target \<and> increment > 0) \<or> (scaler < target \<and> increment < 0) then target else scaler)"

definition apply_scaler :: "(int \<Rightarrow> real \<Rightarrow> int) \<Rightarrow> real \<Rightarrow> int \<Rightarrow> int" where
  "apply_scaler scale applied v =
     (if applied > MAX_VOLUME_TO_SCALE then v else if applied < MIN_VOLUME_TO_SCALE then 0 else scale v applied)"

text \<open>\<open>while (i + step <= count)\<close>: \<open>n\<close> frames are left; the samples of a frame get the same scaler. The number
  of channels \<open>step\<close> is positive: for 0 the loop of the source would not end.\<close>

fun ramp_loop :: "(bytes \<Rightarrow> nat \<Rightarrow> int) \<Rightarrow> (bytes \<Rightarrow> nat \<Rightarrow> int \<Rightarrow> bytes) \<Rightarrow> nat \<Rightarrow> (int \<Rightarrow> real \<Rightarrow> int) \<Rightarrow>
    real \<Rightarrow> real \<Rightarrow> nat \<Rightarrow> nat \<Rightarrow> bytes \<Rightarrow> nat \<Rightarrow> real \<Rightarrow> bytes" where
  "ramp_loop load store k scale increment target step 0 mem p scaler = mem"
| "ramp_loop load store k scale increment target step (Suc n) mem p scaler =
     ramp_loop load store k scale increment target step n
       (scale_loop load store (apply_scaler scale (applied_scaler scaler increment target)) mem p k step)
       (p + k * step) (f32 (scaler + increment))"

definition cras_scale_buffer_inc_s16_le :: "bytes \<Rightarrow> nat \<Rightarrow> nat \<Rightarrow> real \<Rightarrow> real \<Rightarrow> real \<Rightarrow> nat \<Rightarrow> bytes" where
  "cras_scale_buffer_inc_s16_le buf p count scaler increment target step =
     (if scaler < MIN_VOLUME_TO_SCALE \<and> increment < 0 then memset_zero buf p (2 * count)
      else ramp_loop ld_s16 st_s16 2 (\<lambda>v x. cvt 32 (fmul v x)) increment target step (count div step) buf p scaler)"

definition cras_scale_buffer_s16_le :: "bytes \<Rightarrow> nat \<Rightarrow> nat \<Rightarrow> real \<Rightarrow> bytes" where
  "cras_scale_buffer_s16_le buf p count scaler =
     (if scaler > MAX_VOLUME_TO_SCALE then buf
      else if scaler < MIN_VOLUME_TO_SCALE then memset_zero buf p (2 * count)
      else scale_loop ld_s16 st_s16 (\<lambda>v. cvt 32 (fmul v scaler)) buf p 2 count)"

definition cras_mix_add_s16_le :: "bytes \<Rightarrow> nat \<Rightarrow> bytes \<Rightarrow> nat \<Rightarrow> nat \<Rightarrow> nat \<Rightarrow> bool \<Rightarrow> real \<Rightarrow> bytes" where
  "cras_mix_add_s16_le dst dp src sp count index muted mix_vol =
     (if muted \<or> mix_vol < MIN_VOLUME_TO_SCALE then if index = 0 then memset_zero dst dp (2 * count) else dst
      else if index = 0 then copy_scaled_s16_le dst dp src sp count mix_vol
      else scale_add_clip_s16_le dst dp src sp count mix_vol)"

text \<open>One iteration of the strided loops: the sum of a sample and a scaled one is a \<open>float\<close>.\<close>

definition stride_sum_s16 :: "real \<Rightarrow> int \<Rightarrow> int \<Rightarrow> int" where
  "stride_sum_s16 scaler d s =
     limit SHRT_MIN SHRT_MAX (if need_to_scale scaler then cvt 32 (f32 (of_int d + fmul s scaler)) else d + s)"

definition cras_mix_add_scale_stride_s16_le :: "bytes \<Rightarrow> nat \<Rightarrow> bytes \<Rightarrow> nat \<Rightarrow> nat \<Rightarrow> nat \<Rightarrow> nat \<Rightarrow> real \<Rightarrow> bytes" where
  "cras_mix_add_scale_stride_s16_le dst dp src sp dst_stride src_stride count scaler =
     (if dst_stride = src_stride \<and> dst_stride = 2 then mix_loop ld_s16 st_s16 (stride_sum_s16 scaler) dst dp 2 src sp 2 count
      else if dst_stride = src_stride \<and> dst_stride = 4 then mix_loop ld_s16 st_s16 (stride_sum_s16 scaler) dst dp 4 src sp 4 count
      else mix_loop ld_s16 st_s16 (stride_sum_s16 scaler) dst dp dst_stride src sp src_stride count)"

subsection \<open>Signed 24 bit in four bytes\<close>

definition S24_MAX :: int where "S24_MAX = 0x7fffff"
definition S24_MIN :: int where "S24_MIN = - 0x800000"

text \<open>The sum of two \<open>int32_t\<close> overflows at 32 bits.\<close>

definition scale_s24_le :: "int \<Rightarrow> real \<Rightarrow> int" where
  "scale_s24_le value scaler =
     (let value = s32 (u32 (u32 (value AND 0x00ffffff) * 2 ^ 8));
          value = cvt 32 (fmul value scaler)
      in value div 2 ^ 8)"

definition cras_mix_add_clip_s24_le :: "bytes \<Rightarrow> nat \<Rightarrow> bytes \<Rightarrow> nat \<Rightarrow> nat \<Rightarrow> bytes" where
  "cras_mix_add_clip_s24_le dst dp src sp count =
     mix_loop ld_s32 st_s32 (\<lambda>d s. limit S24_MIN S24_MAX (s32 (d + s))) dst dp 4 src sp 4 count"

definition scale_add_clip_s24_le :: "bytes \<Rightarrow> nat \<Rightarrow> bytes \<Rightarrow> nat \<Rightarrow> nat \<Rightarrow> real \<Rightarrow> bytes" where
  "scale_add_clip_s24_le dst dp src sp count vol =
     (if vol > MAX_VOLUME_TO_SCALE then cras_mix_add_clip_s24_le dst dp src sp count
      else mix_loop ld_s32 st_s32 (\<lambda>d s. limit S24_MIN S24_MAX (s32 (d + cvt 32 (fmul s vol)))) dst dp 4 src sp 4 count)"

definition copy_scaled_s24_le :: "bytes \<Rightarrow> nat \<Rightarrow> bytes \<Rightarrow> nat \<Rightarrow> nat \<Rightarrow> real \<Rightarrow> bytes" where
  "copy_scaled_s24_le dst dp src sp count volume_scaler =
     (if volume_scaler > MAX_VOLUME_TO_SCALE then memcpy dst dp src sp (4 * count)
      else copy_loop ld_s32 st_s32 (\<lambda>s. scale_s24_le s volume_scaler) dst dp 4 src sp 4 count)"

definition cras_scale_buffer_inc_s24_le :: "bytes \<Rightarrow> nat \<Rightarrow> nat \<Rightarrow> real \<Rightarrow> real \<Rightarrow> real \<Rightarrow> nat \<Rightarrow> bytes" where
  "cras_scale_buffer_inc_s24_le buf p count scaler increment target step =
     (if scaler < MIN_VOLUME_TO_SCALE \<and> increment < 0 then memset_zero buf p (4 * count)
      else ramp_loop ld_s32 st_s32 4 scale_s24_le increment target step (count div step) buf p scaler)"

definition cras_scale_buffer_s24_le :: "bytes \<Rightarrow> nat \<Rightarrow> nat \<Rightarrow> real \<Rightarrow> bytes" where
  "cras_scale_buffer_s24_le buf p count scaler =
     (if scaler > MAX_VOLUME_TO_SCALE then buf
      else if scaler < MIN_VOLUME_TO_SCALE then memset_zero buf p (4 * count)
      else scale_loop ld_s32 st_s32 (\<lambda>v. scale_s24_le v scaler) buf p 4 count)"

definition cras_mix_add_s24_le :: "bytes \<Rightarrow> nat \<Rightarrow> bytes \<Rightarrow> nat \<Rightarrow> nat \<Rightarrow> nat \<Rightarrow> bool \<Rightarrow> real \<Rightarrow> bytes" where
  "cras_mix_add_s24_le dst dp src sp count index muted mix_vol =
     (if muted \<or> mix_vol < MIN_VOLUME_TO_SCALE then if index = 0 then memset_zero dst dp (4 * count) else dst
      else if index = 0 then copy_scaled_s24_le dst dp src sp count mix_vol
      else scale_add_clip_s24_le dst dp src sp count mix_vol)"

definition stride_sum_s24 :: "real \<Rightarrow> int \<Rightarrow> int \<Rightarrow> int" where
  "stride_sum_s24 scaler d s =
     limit S24_MIN S24_MAX (s32 (if need_to_scale scaler then d + scale_s24_le s scaler else d + s))"

definition cras_mix_add_scale_stride_s24_le :: "bytes \<Rightarrow> nat \<Rightarrow> bytes \<Rightarrow> nat \<Rightarrow> nat \<Rightarrow> nat \<Rightarrow> nat \<Rightarrow> real \<Rightarrow> bytes" where
  "cras_mix_add_scale_stride_s24_le dst dp src sp dst_stride src_stride count scaler =
     (if dst_stride = src_stride \<and> dst_stride = 4 then mix_loop ld_s32 st_s32 (stride_sum_s24 scaler) dst dp 4 src sp 4 count
      else mix_loop ld_s32 st_s32 (stride_sum_s24 scaler) dst dp dst_stride src sp src_stride count)"

subsection \<open>Signed 32 bit\<close>

definition cras_mix_add_clip_s32_le :: "bytes \<Rightarrow> nat \<Rightarrow> bytes \<Rightarrow> nat \<Rightarrow> nat \<Rightarrow> bytes" where
  "cras_mix_add_clip_s32_le dst dp src sp count =
     mix_loop ld_s32 st_s32 (\<lambda>d s. limit INT32_MIN INT32_MAX (d + s)) dst dp 4 src sp 4 count"

definition scale_add_clip_s32_le :: "bytes \<Rightarrow> nat \<Rightarrow> bytes \<Rightarrow> nat \<Rightarrow> nat \<Rightarrow> real \<Rightarrow> bytes" where
  "scale_add_clip_s32_le dst dp src sp count vol =
     (if vol > MAX_VOLUME_TO_SCALE then cras_mix_add_clip_s32_le dst dp src sp count
      else mix_loop ld_s32 st_s32 (\<lambda>d s. limit INT32_MIN INT32_MAX (d + cvt 64 (fmul s vol))) dst dp 4 src sp 4 count)"

definition copy_scaled_s32_le :: "bytes \<Rightarrow> nat \<Rightarrow> bytes \<Rightarrow> nat \<Rightarrow> nat \<Rightarrow> real \<Rightarrow> bytes" where
  "copy_scaled_s32_le dst dp src sp count volume_scaler =
     (if volume_scaler > MAX_VOLUME_TO_SCALE then memcpy dst dp src sp (4 * count)
      else copy_loop ld_s32 st_s32 (\<lambda>s. cvt 32 (fmul s volume_scaler)) dst dp 4 src sp 4 count)"

definition cras_scale_buffer_inc_s32_le :: "bytes \<Rightarrow> nat \<Rightarrow> nat \<Rightarrow> real \<Rightarrow> real \<Rightarrow> real \<Rightarrow> nat \<Rightarrow> bytes" where
  "cras_scale_buffer_inc_s32_le buf p count scaler increment target step =
     (if scaler < MIN_VOLUME_TO_SCALE \<and> increment < 0 then memset_zero buf p (4 * count)
      else ramp_loop ld_s32 st_s32 4 (\<lambda>v x. cvt 32 (fmul v x)) increment target step (count div step) buf p scaler)"

definition cras_scale_buffer_s32_le :: "bytes \<Rightarrow> nat \<Rightarrow> nat \<Rightarrow> real \<Rightarrow> bytes" where
  "cras_scale_buffer_s32_le buf p count scaler =
     (if scaler > MAX_VOLUME_TO_SCALE then buf
      else if scaler < MIN_VOLUME_TO_SCALE then memset_zero buf p (4 * count)
      else scale_loop ld_s32 st_s32 (\<lambda>v. cvt 32 (fmul v scaler)) buf p 4 count)"

definition cras_mix_add_s32_le :: "bytes \<Rightarrow> nat \<Rightarrow> bytes \<Rightarrow> nat \<Rightarrow> nat \<Rightarrow> nat \<Rightarrow> bool \<Rightarrow> real \<Rightarrow> bytes" where
  "cras_mix_add_s32_le dst dp src sp count index muted mix_vol =
     (if muted \<or> mix_vol < MIN_VOLUME_TO_SCALE then if index = 0 then memset_zero dst dp (4 * count) else dst
      else if index = 0 then copy_scaled_s32_le dst dp src sp count mix_vol
      else scale_add_clip_s32_le dst dp src sp count mix_vol)"

text \<open>Without scaling the sum is computed in \<open>int\<close>, before it is stored in an \<open>int64_t\<close>.\<close>

definition stride_sum_s32 :: "real \<Rightarrow> int \<Rightarrow> int \<Rightarrow> int" where
  "stride_sum_s32 scaler d s =
     limit INT32_MIN INT32_MAX
       (if need_to_scale scaler then cvt 64 (f32 (f32 (of_int d) + fmul s scaler)) else s32 (d + s))"

definition cras_mix_add_scale_stride_s32_le :: "bytes \<Rightarrow> nat \<Rightarrow> bytes \<Rightarrow> nat \<Rightarrow> nat \<Rightarrow> nat \<Rightarrow> nat \<Rightarrow> real \<Rightarrow> bytes" where
  "cras_mix_add_scale_stride_s32_le dst dp src sp dst_stride src_stride count scaler =
     (if dst_stride = src_stride \<and> dst_stride = 4 then mix_loop ld_s32 st_s32 (stride_sum_s32 scaler) dst dp 4 src sp 4 count
      else mix_loop ld_s32 st_s32 (stride_sum_s32 scaler) dst dp dst_stride src sp src_stride count)"

subsection \<open>Signed 24 bit in three bytes\<close>

abbreviation ld_s243 where "ld_s243 \<equiv> convert_single_s243le_to_s32le"
abbreviation st_s243 where "st_s243 \<equiv> convert_single_s32le_to_s243le"

definition cras_mix_add_clip_s24_3le :: "bytes \<Rightarrow> nat \<Rightarrow> bytes \<Rightarrow> nat \<Rightarrow> nat \<Rightarrow> bytes" where
  "cras_mix_add_clip_s24_3le dst dp src sp count =
     mix_loop ld_s243 st_s243 (\<lambda>d s. limit INT32_MIN INT32_MAX (d + s)) dst dp 3 src sp 3 count"

definition scale_add_clip_s24_3le :: "bytes \<Rightarrow> nat \<Rightarrow> bytes \<Rightarrow> nat \<Rightarrow> nat \<Rightarrow> real \<Rightarrow> bytes" where
  "scale_add_clip_s24_3le dst dp src sp count vol =
     (if vol > MAX_VOLUME_TO_SCALE then cras_mix_add_clip_s24_3le dst dp src sp count
      else mix_loop ld_s243 st_s243 (\<lambda>d s. limit INT32_MIN INT32_MAX (d + cvt 64 (fmul s vol))) dst dp 3 src sp 3 count)"

definition copy_scaled_s24_3le :: "bytes \<Rightarrow> nat \<Rightarrow> bytes \<Rightarrow> nat \<Rightarrow> nat \<Rightarrow> real \<Rightarrow> bytes" where
  "copy_scaled_s24_3le dst dp src sp count volume_scaler =
     (if volume_scaler > MAX_VOLUME_TO_SCALE then memcpy dst dp src sp (3 * count)
      else copy_loop ld_s243 st_s243 (\<lambda>s. cvt 32 (fmul s volume_scaler)) dst dp 3 src sp 3 count)"

definition cras_scale_buffer_inc_s24_3le :: "bytes \<Rightarrow> nat \<Rightarrow> nat \<Rightarrow> real \<Rightarrow> real \<Rightarrow> real \<Rightarrow> nat \<Rightarrow> bytes" where
  "cras_scale_buffer_inc_s24_3le buf p count scaler increment target step =
     (if scaler < MIN_VOLUME_TO_SCALE \<and> increment < 0 then memset_zero buf p (3 * count)
      else ramp_loop ld_s243 st_s243 3 (\<lambda>v x. cvt 32 (fmul v x)) increment target step (count div step) buf p scaler)"

definition cras_scale_buffer_s24_3le :: "bytes \<Rightarrow> nat \<Rightarrow> nat \<Rightarrow> real \<Rightarrow> bytes" where
  "cras_scale_buffer_s24_3le buf p count scaler =
     (if scaler > MAX_VOLUME_TO_SCALE then buf
      else if scaler < MIN_VOLUME_TO_SCALE then memset_zero buf p (3 * count)
      else scale_loop ld_s243 st_s243 (\<lambda>v. cvt 32 (fmul v scaler)) buf p 3 count)"

definition cras_mix_add_s24_3le :: "bytes \<Rightarrow> nat \<Rightarrow> bytes \<Rightarrow> nat \<Rightarrow> nat \<Rightarrow> nat \<Rightarrow> bool \<Rightarrow> real \<Rightarrow> bytes" where
  "cras_mix_add_s24_3le dst dp src sp count index muted mix_vol =
     (if muted \<or> mix_vol < MIN_VOLUME_TO_SCALE then if index = 0 then memset_zero dst dp (3 * count) else dst
      else if index = 0 then copy_scaled_s24_3le dst dp src sp count mix_vol
      else scale_add_clip_s24_3le dst dp src sp count mix_vol)"

definition stride_sum_s24_3 :: "real \<Rightarrow> int \<Rightarrow> int \<Rightarrow> int" where
  "stride_sum_s24_3 scaler d s =
     limit INT32_MIN INT32_MAX
       (if need_to_scale scaler then cvt 64 (f32 (f32 (of_int d) + fmul s scaler)) else d + s)"

definition cras_mix_add_scale_stride_s24_3le :: "bytes \<Rightarrow> nat \<Rightarrow> bytes \<Rightarrow> nat \<Rightarrow> nat \<Rightarrow> nat \<Rightarrow> nat \<Rightarrow> real \<Rightarrow> bytes" where
  "cras_mix_add_scale_stride_s24_3le dst dp src sp dst_stride src_stride count scaler =
     mix_loop ld_s243 st_s243 (stride_sum_s24_3 scaler) dst dp dst_stride src sp src_stride count"

subsection \<open>Dispatch\<close>

definition cras_scale_buffer_increment :: "int \<Rightarrow> bytes \<Rightarrow> nat \<Rightarrow> nat \<Rightarrow> real \<Rightarrow> real \<Rightarrow> real \<Rightarrow> nat \<Rightarrow> bytes" where
  "cras_scale_buffer_increment fmt buf p frames scaler increment target channel =
     (let count = frames * channel in
      if fmt = SND_PCM_FORMAT_S16_LE then cras_scale_buffer_inc_s16_le buf p count scaler increment target channel
      else if fmt = SND_PCM_FORMAT_S24_LE then cras_scale_buffer_inc_s24_le buf p count scaler increment target channel
      else if fmt = SND_PCM_FORMAT_S32_LE then cras_scale_buffer_inc_s32_le buf p count scaler increment target channel
      else if fmt = SND_PCM_FORMAT_S24_3LE then cras_scale_buffer_inc_s24_3le buf p count scaler increment target channel
      else buf)"

definition cras_scale_buffer :: "int \<Rightarrow> bytes \<Rightarrow> nat \<Rightarrow> nat \<Rightarrow> real \<Rightarrow> bytes" where
  "cras_scale_buffer fmt buf p count scaler =
     (if fmt = SND_PCM_FORMAT_S16_LE then cras_scale_buffer_s16_le buf p count scaler
      else if fmt = SND_PCM_FORMAT_S24_LE then cras_scale_buffer_s24_le buf p count scaler
      else if fmt = SND_PCM_FORMAT_S32_LE then cras_scale_buffer_s32_le buf p count scaler
      else if fmt = SND_PCM_FORMAT_S24_3LE then cras_scale_buffer_s24_3le buf p count scaler
      else buf)"

definition cras_mix_add :: "int \<Rightarrow> bytes \<Rightarrow> nat \<Rightarrow> bytes \<Rightarrow> nat \<Rightarrow> nat \<Rightarrow> nat \<Rightarrow> bool \<Rightarrow> real \<Rightarrow> bytes" where
  "cras_mix_add fmt dst dp src sp count index muted mix_vol =
     (if fmt = SND_PCM_FORMAT_S16_LE then cras_mix_add_s16_le dst dp src sp count index muted mix_vol
      else if fmt = SND_PCM_FORMAT_S24_LE then cras_mix_add_s24_le dst dp src sp count index muted mix_vol
      else if fmt = SND_PCM_FORMAT_S32_LE then cras_mix_add_s32_le dst dp src sp count index muted mix_vol
      else if fmt = SND_PCM_FORMAT_S24_3LE then cras_mix_add_s24_3le dst dp src sp count index muted mix_vol
      else dst)"

definition cras_mix_add_scale_stride :: "int \<Rightarrow> bytes \<Rightarrow> nat \<Rightarrow> bytes \<Rightarrow> nat \<Rightarrow> nat \<Rightarrow> nat \<Rightarrow> nat \<Rightarrow> real \<Rightarrow> bytes" where
  "cras_mix_add_scale_stride fmt dst dp src sp count dst_stride src_stride scaler =
     (if fmt = SND_PCM_FORMAT_S16_LE then cras_mix_add_scale_stride_s16_le dst dp src sp dst_stride src_stride count scaler
      else if fmt = SND_PCM_FORMAT_S24_LE then cras_mix_add_scale_stride_s24_le dst dp src sp dst_stride src_stride count scaler
      else if fmt = SND_PCM_FORMAT_S32_LE then cras_mix_add_scale_stride_s32_le dst dp src sp dst_stride src_stride count scaler
      else if fmt = SND_PCM_FORMAT_S24_3LE then cras_mix_add_scale_stride_s24_3le dst dp src sp dst_stride src_stride count scaler
      else dst)"

definition cras_mix_mute_buffer :: "bytes \<Rightarrow> nat \<Rightarrow> nat \<Rightarrow> nat \<Rightarrow> bytes \<times> nat" where
  "cras_mix_mute_buffer dst dp frame_bytes count = (memset_zero dst dp (count * frame_bytes), count)"

section \<open>Scaling a sample\<close>

lemma fround_repr:
  assumes "p > 0"
  obtains k :: int and e where "\<bar>k\<bar> < 2 ^ p" "fround p x = of_int k * 2 powi e"
proof -
  have pos: "\<exists>k e. \<bar>k\<bar> < 2 ^ p \<and> fround_pos p y = of_int k * 2 powi e" if y: "y > 0" for y
  proof -
    let ?e = "ilog2 y - (int p - 1)" and ?k = "rne (y / 2 powi (ilog2 y - (int p - 1)))"
    have eq: "fround_pos p y = of_int ?k * 2 powi ?e" by (simp add: fround_pos_def Let_def)
    have top: "2 powi (ilog2 y + 1) = of_int (2 ^ p) * (2::real) powi ?e" by (simp flip: power_int_of_nat power_int_add)
    then have "of_int ?k * (2::real) powi ?e \<le> of_int (2 ^ p) * 2 powi ?e" using fround_pos_bounds(2) [OF y assms] eq by simp
    then have le: "?k \<le> 2 ^ p" by (simp add: mult_le_cancel_right del: of_int_power)
    have ge: "0 \<le> ?k" using y by (intro rne_ge) simp
    show ?thesis
    proof (cases "?k = 2 ^ p")
      case True
      then have "fround_pos p y = of_int 1 * 2 powi (ilog2 y + 1)" using eq top by simp
      then show ?thesis using assms by (intro exI [of _ 1] exI [of _ "ilog2 y + 1"]) auto
    next
      case False
      then have "\<bar>?k\<bar> < 2 ^ p" using le ge by simp
      then show ?thesis using eq by blast
    qed
  qed
  consider "x = 0" | "x > 0" | "x < 0" by linarith
  then show thesis
  proof cases
    case 1
    then show ?thesis using that [of 0 0] by simp
  next
    case 2
    then show ?thesis using pos [of x] that by (auto simp: fround_def)
  next
    case 3
    then obtain k e where "\<bar>k\<bar> < 2 ^ p" "fround_pos p (- x) = of_int k * 2 powi e" using pos [of "- x"] by auto
    then show ?thesis using that [of "- k" e] 3 by (simp add: fround_def)
  qed
qed

lemma fround_idem: "p > 0 \<Longrightarrow> fround p (fround p x) = fround p x"
  by (rule fround_repr [of p x]) (simp_all add: fround_exact)

lemma volume_bounds:
  "0 < MIN_VOLUME_TO_SCALE" "MIN_VOLUME_TO_SCALE < MAX_VOLUME_TO_SCALE" "MAX_VOLUME_TO_SCALE \<le> 16777215 / 16777216"
proof -
  have e: "(2::real) powi (- 24) = 1 / 16777216" by (simp add: power_int_minus)
  have "of_int 1 * 2 powi (- 24) \<le> f64 (1 / 10000000)" by (rule fround_ge) (simp_all add: e)
  then have lo: "1 / 16777216 \<le> MIN_VOLUME_TO_SCALE" unfolding e MIN_VOLUME_TO_SCALE_def by simp
  then show "0 < MIN_VOLUME_TO_SCALE" by linarith
  have "f64 (1 / 10000000) \<le> of_int 2 * 2 powi (- 24)" by (rule fround_le) (simp_all add: e)
  then have up: "MIN_VOLUME_TO_SCALE \<le> 2 / 16777216" unfolding e MIN_VOLUME_TO_SCALE_def by simp
  have "of_int 8388608 * 2 powi (- 24) \<le> f64 (9999999 / 10000000)" by (rule fround_ge) (simp_all add: e)
  then have "8388608 / 16777216 \<le> MAX_VOLUME_TO_SCALE" unfolding e MAX_VOLUME_TO_SCALE_def by simp
  then show "MIN_VOLUME_TO_SCALE < MAX_VOLUME_TO_SCALE" using up by linarith
  have "f64 (9999999 / 10000000) \<le> of_int 16777215 * 2 powi (- 24)" by (rule fround_le) (simp_all add: e)
  then show "MAX_VOLUME_TO_SCALE \<le> 16777215 / 16777216" unfolding e MAX_VOLUME_TO_SCALE_def by simp
qed

text \<open>Scaling down keeps the sign and never makes a sample louder.\<close>

lemma fmul_pos:
  assumes "0 \<le> x" "x \<le> 1" "0 \<le> v"
  shows "0 \<le> fmul v x" "fmul v x \<le> f32 (of_int v)"
proof -
  have F: "0 \<le> f32 (of_int v)" using assms by (intro fround_nonneg) auto
  then show "0 \<le> fmul v x" unfolding fmul_def using assms by (intro fround_nonneg) auto
  have "f32 (f32 (of_int v) * x) \<le> f32 (f32 (of_int v))" using F assms by (intro fround_mono) (auto intro: mult_left_le)
  then show "fmul v x \<le> f32 (of_int v)" by (simp add: fmul_def fround_idem)
qed

lemma fmul_minus: "fmul (- v) x = - fmul v x"
  by (simp add: fmul_def fround_minus)

lemma f32_int: "\<bar>v\<bar> < 16777216 \<Longrightarrow> f32 (of_int v) = of_int v"
  by (rule fround_int) auto

lemma f32_of_s32:
  assumes "in_s 32 v"
  shows "\<bar>f32 (of_int v)\<bar> \<le> 2147483648"
proof -
  have "f32 (of_int v) \<le> of_int 1 * 2 powi 31" "of_int (- 1) * 2 powi 31 \<le> f32 (of_int v)"
    using assms by (intro fround_le fround_ge; simp add: in_s_def)+
  then show ?thesis by (simp add: abs_le_iff)
qed

lemma fmul_volume:
  assumes "in_s 32 v" "0 \<le> x" "x \<le> 16777215 / 16777216"
  shows "\<bar>fmul v x\<bar> \<le> 2147483520"
proof -
  have pos: "fmul v x \<le> 2147483520" if v: "in_s 32 v \<or> v = 2147483648" "0 \<le> v" for v
  proof -
    have F: "0 \<le> f32 (of_int v)" using v by (intro fround_nonneg) auto
    have "f32 (of_int v) \<le> of_int 1 * 2 powi 31" using v by (intro fround_le) (auto simp: in_s_def)
    then have "f32 (of_int v) * x \<le> 2147483648 * (16777215 / 16777216)" using F assms by (intro mult_mono) auto
    then have "f32 (f32 (of_int v) * x) \<le> of_int 16777215 * 2 powi 7" by (intro fround_le) auto
    then show ?thesis by (simp add: fmul_def)
  qed
  show ?thesis
  proof (cases "0 \<le> v")
    case True
    then show ?thesis using pos [of v] fmul_pos(1) [of x v] assms by auto
  next
    case False
    then have "in_s 32 (- v) \<or> - v = 2147483648" using assms(1) by (auto simp: in_s_def)
    then show ?thesis using pos [of "- v"] fmul_pos(1) [of x "- v"] False assms by (auto simp: fmul_minus)
  qed
qed

text \<open>The sample that is mixed at a volume.\<close>

definition scaled :: "real \<Rightarrow> int \<Rightarrow> int" where
  "scaled vol s = (if vol > MAX_VOLUME_TO_SCALE then s else c_trunc (fmul s vol))"

lemma c_trunc_abs: "\<bar>x\<bar> \<le> of_int k \<Longrightarrow> \<bar>c_trunc x\<bar> \<le> k"
  using c_trunc_le [of x k] c_trunc_ge [of "- k" x] by (auto simp: abs_le_iff)

lemma cvt_volume:
  assumes "in_s 32 v" "MIN_VOLUME_TO_SCALE \<le> x" "\<not> x > MAX_VOLUME_TO_SCALE"
  shows "cvt 32 (fmul v x) = scaled x v" "cvt 64 (fmul v x) = scaled x v"
proof -
  have "\<bar>c_trunc (fmul v x)\<bar> \<le> 2147483520"
    using fmul_volume [of v x] assms volume_bounds by (intro c_trunc_abs) auto
  then show "cvt 32 (fmul v x) = scaled x v" "cvt 64 (fmul v x) = scaled x v" using assms(3) by (auto simp: cvt_def in_s_def scaled_def)
qed

lemma scaled_shrinks:
  assumes "MIN_VOLUME_TO_SCALE \<le> vol" "\<bar>s\<bar> < 16777216"
  shows "\<bar>scaled vol s\<bar> \<le> \<bar>s\<bar>" "0 \<le> scaled vol s * s"
proof -
  have pos: "0 \<le> scaled vol v \<and> scaled vol v \<le> v" if "0 \<le> v" "v < 16777216" for v
    using fmul_pos [of vol v] f32_int [of v] that assms volume_bounds by (auto simp: scaled_def intro: c_trunc_le c_trunc_ge)
  have neg: "scaled vol (- v) = - scaled vol v" for v by (simp add: scaled_def fmul_minus c_trunc_minus)
  show "\<bar>scaled vol s\<bar> \<le> \<bar>s\<bar>" "0 \<le> scaled vol s * s"
    using pos [of s] pos [of "- s"] neg [of s] assms(2) by (cases "0 \<le> s"; auto simp: mult_nonneg_nonneg mult_nonpos_nonpos)+
qed

section \<open>Samples of a buffer\<close>

definition mix_format :: "int \<Rightarrow> bool" where
  "mix_format fmt \<longleftrightarrow> fmt \<in> {SND_PCM_FORMAT_S16_LE, SND_PCM_FORMAT_S24_LE, SND_PCM_FORMAT_S32_LE, SND_PCM_FORMAT_S24_3LE}"

definition sample_size :: "int \<Rightarrow> nat" where
  "sample_size fmt = (if fmt = SND_PCM_FORMAT_S16_LE then 2 else if fmt = SND_PCM_FORMAT_S24_3LE then 3 else 4)"

definition sample_load :: "int \<Rightarrow> bytes \<Rightarrow> nat \<Rightarrow> int" where
  "sample_load fmt = (if fmt = SND_PCM_FORMAT_S16_LE then ld_s16 else if fmt = SND_PCM_FORMAT_S24_3LE then ld_s243 else ld_s32)"

text \<open>Sample \<open>i\<close> at \<open>p\<close>, a packed one as the \<open>int32_t\<close> whose lowest byte is 0.\<close>

definition sample :: "int \<Rightarrow> bytes \<Rightarrow> nat \<Rightarrow> nat \<Rightarrow> int" where
  "sample fmt mem p i = sample_load fmt mem (p + i * sample_size fmt)"

definition sample_min :: "int \<Rightarrow> int" where
  "sample_min fmt = (if fmt = SND_PCM_FORMAT_S16_LE then SHRT_MIN else if fmt = SND_PCM_FORMAT_S24_LE then S24_MIN else INT32_MIN)"

definition sample_max :: "int \<Rightarrow> int" where
  "sample_max fmt = (if fmt = SND_PCM_FORMAT_S16_LE then SHRT_MAX else if fmt = SND_PCM_FORMAT_S24_LE then S24_MAX else INT32_MAX)"

text \<open>What a store of a value within these bounds keeps of it.\<close>

definition sample_norm :: "int \<Rightarrow> int \<Rightarrow> int" where
  "sample_norm fmt v = (if fmt = SND_PCM_FORMAT_S24_3LE then v - v mod 256 else v)"

lemmas format_consts = SND_PCM_FORMAT_S16_LE_def SND_PCM_FORMAT_S24_LE_def SND_PCM_FORMAT_S32_LE_def SND_PCM_FORMAT_S24_3LE_def
lemmas limit_consts = SHRT_MIN_def SHRT_MAX_def S24_MIN_def S24_MAX_def INT32_MIN_def INT32_MAX_def
lemmas sample_defs = sample_def sample_load_def sample_size_def sample_min_def sample_max_def sample_norm_def format_consts

lemma limit_clip: "lo \<le> hi \<Longrightarrow> limit lo hi v = clip lo hi v"
  by (auto simp: limit_def clip_def)

lemma limits: "limit SHRT_MIN SHRT_MAX v = clip SHRT_MIN SHRT_MAX v" "limit S24_MIN S24_MAX v = clip S24_MIN S24_MAX v"
  "limit INT32_MIN INT32_MAX v = clip INT32_MIN INT32_MAX v"
  by (simp_all add: limit_clip limit_consts)

lemma stored_clip:
  "s16 (clip SHRT_MIN SHRT_MAX v) = clip SHRT_MIN SHRT_MAX v" "s32 (clip S24_MIN S24_MAX v) = clip S24_MIN S24_MAX v"
  "s32 (clip INT32_MIN INT32_MAX v) = clip INT32_MIN INT32_MAX v"
  by (rule in_s_wrap_id; auto simp: in_s_def clip_def limit_consts)+

lemma drop_low_byte_s32:
  assumes "in_s 32 v"
  shows "drop_low_byte v = v - v mod 256"
proof -
  have "in_s 32 (v - v mod 256)" using assms by (simp add: in_s_def) presburger
  then show ?thesis by (simp add: drop_low_byte_def in_s_wrap_id)
qed

lemma stored_clip_packed: "drop_low_byte (clip INT32_MIN INT32_MAX v) = sample_norm SND_PCM_FORMAT_S24_3LE (clip INT32_MIN INT32_MAX v)"
  by (subst drop_low_byte_s32) (simp_all add: sample_norm_def in_s_def clip_def limit_consts)

lemma load_range: "in_s 16 (ld_s16 mem p)" "in_s 32 (ld_s32 mem p)" "in_s 32 (ld_s243 mem p)"
  by (simp_all add: ld_s16_def ld_s32_def convert_single_s243le_to_s32le_def)

lemma in_s_16_32: "in_s 16 v \<Longrightarrow> in_s 32 v"
  by (simp add: in_s_def)

lemma scaled_s16:
  assumes "in_s 16 v" "MIN_VOLUME_TO_SCALE \<le> vol"
  shows "s16 (scaled vol v) = scaled vol v"
proof -
  have "\<bar>scaled vol v\<bar> \<le> \<bar>v\<bar>" "0 \<le> scaled vol v * v" using scaled_shrinks [of vol v] assms by (auto simp: in_s_def)
  then have "in_s 16 (scaled vol v)" using assms(1)
    by (cases "v = 0") (auto simp: in_s_def abs_le_iff zero_le_mult_iff)
  then show ?thesis by (simp add: in_s_wrap_id)
qed

lemma scaled_s32:
  assumes "in_s 32 v" "MIN_VOLUME_TO_SCALE \<le> vol"
  shows "in_s 32 (scaled vol v)"
proof (cases "vol > MAX_VOLUME_TO_SCALE")
  case False
  have "\<bar>c_trunc (fmul v vol)\<bar> \<le> 2147483520"
    using fmul_volume [of v vol] assms volume_bounds False by (intro c_trunc_abs) auto
  then show ?thesis using False by (auto simp: scaled_def in_s_def abs_le_iff)
qed (use assms in \<open>simp add: scaled_def\<close>)

text \<open>A sum of two 24 bit samples does not overflow.\<close>

lemma scaled_s24_sum:
  assumes "in_s 24 d" "in_s 24 v" "MIN_VOLUME_TO_SCALE \<le> vol"
  shows "s32 (d + scaled vol v) = d + scaled vol v"
proof (rule in_s_wrap_id)
  have "\<bar>scaled vol v\<bar> \<le> \<bar>v\<bar>" using scaled_shrinks(1) [of vol v] assms by (auto simp: in_s_def)
  then show "in_s 32 (d + scaled vol v)" using assms(1,2) by (auto simp: in_s_def abs_le_iff)
qed simp

section \<open>Mixing saturates\<close>

lemma mix_add_loop:
  assumes "mix_format fmt" "index \<noteq> 0" "\<not> muted" "MIN_VOLUME_TO_SCALE \<le> vol"
    and fit: "samples_fit (sample_size fmt) dst dp (sample_size fmt) count"
    and s24: "fmt = SND_PCM_FORMAT_S24_LE \<Longrightarrow> i < count \<Longrightarrow> in_s 24 (sample fmt dst dp i) \<and> in_s 24 (sample fmt src sp i)"
  shows "length (cras_mix_add fmt dst dp src sp count index muted vol) = length dst"
    and "j < length dst \<Longrightarrow> \<not> in_sample (sample_size fmt) dp (sample_size fmt) count j \<Longrightarrow>
      cras_mix_add fmt dst dp src sp count index muted vol ! j = dst ! j"
    and "i < count \<Longrightarrow> sample fmt (cras_mix_add fmt dst dp src sp count index muted vol) dp i
      = sample_norm fmt (clip (sample_min fmt) (sample_max fmt) (sample fmt dst dp i + scaled vol (sample fmt src sp i)))"
proof -
  have vol: "\<not> vol < MIN_VOLUME_TO_SCALE" using assms(4) by simp
  note rules = cras_mix_add_def cras_mix_add_s16_le_def cras_mix_add_s24_le_def cras_mix_add_s32_le_def cras_mix_add_s24_3le_def
    scale_add_clip_s16_le_def scale_add_clip_s24_le_def scale_add_clip_s32_le_def scale_add_clip_s24_3le_def
    cras_mix_add_clip_s16_le_def cras_mix_add_clip_s24_le_def cras_mix_add_clip_s32_le_def cras_mix_add_clip_s24_3le_def
  from assms(1) consider (a) "fmt = SND_PCM_FORMAT_S16_LE" | (b) "fmt = SND_PCM_FORMAT_S24_LE" | (c) "fmt = SND_PCM_FORMAT_S32_LE"
    | (d) "fmt = SND_PCM_FORMAT_S24_3LE" by (auto simp: mix_format_def)
  then have "length (cras_mix_add fmt dst dp src sp count index muted vol) = length dst \<and>
    (j < length dst \<longrightarrow> \<not> in_sample (sample_size fmt) dp (sample_size fmt) count j \<longrightarrow>
      cras_mix_add fmt dst dp src sp count index muted vol ! j = dst ! j) \<and>
    (i < count \<longrightarrow> sample fmt (cras_mix_add fmt dst dp src sp count index muted vol) dp i
      = sample_norm fmt (clip (sample_min fmt) (sample_max fmt) (sample fmt dst dp i + scaled vol (sample fmt src sp i))))"
  proof cases
    case a
    have fit2: "samples_fit 2 dst dp 2 count" using fit a by (simp add: sample_defs)
    show ?thesis using a assms(2,3) vol s16_acc.mix_loop_frame [OF fit2] s16_acc.load_mix_loop [OF fit2, of i]
      cvt_volume(1) [OF in_s_16_32 [OF load_range(1)] assms(4), of src "sp + i * 2"] scaled_s16 [OF load_range(1) assms(4), of src "sp + i * 2"]
      by (simp add: rules sample_defs limits stored_clip) (simp add: scaled_def)
  next
    case b
    have fit4: "samples_fit 4 dst dp 4 count" using fit b by (simp add: sample_defs)
    have no: "i < count \<Longrightarrow> s32 (ld_s32 dst (dp + i * 4) + scaled vol (ld_s32 src (sp + i * 4))) = ld_s32 dst (dp + i * 4) + scaled vol (ld_s32 src (sp + i * 4))"
      using s24 b assms(4) by (intro scaled_s24_sum) (auto simp: sample_defs)
    show ?thesis using b assms(2,3) vol s32_acc.mix_loop_frame [OF fit4] s32_acc.load_mix_loop [OF fit4, of i] no
      cvt_volume(1) [OF load_range(2) assms(4), of src "sp + i * 4"]
      by (cases "vol > MAX_VOLUME_TO_SCALE") (simp_all add: rules sample_defs limits stored_clip scaled_def)
  next
    case c
    have fit4: "samples_fit 4 dst dp 4 count" using fit c by (simp add: sample_defs)
    show ?thesis using c assms(2,3) vol s32_acc.mix_loop_frame [OF fit4] s32_acc.load_mix_loop [OF fit4, of i]
      cvt_volume(2) [OF load_range(2) assms(4), of src "sp + i * 4"]
      by (simp add: rules sample_defs limits stored_clip) (simp add: scaled_def)
  next
    case d
    have fit3: "samples_fit 3 dst dp 3 count" using fit d by (simp add: sample_defs)
    show ?thesis using d assms(2,3) vol s243_acc.mix_loop_frame [OF fit3] s243_acc.load_mix_loop [OF fit3, of i]
      cvt_volume(2) [OF load_range(3) assms(4), of src "sp + i * 3"]
      by (simp add: rules sample_defs limits stored_clip_packed) (simp add: scaled_def sample_defs)
  qed
  then show "length (cras_mix_add fmt dst dp src sp count index muted vol) = length dst"
    "j < length dst \<Longrightarrow> \<not> in_sample (sample_size fmt) dp (sample_size fmt) count j \<Longrightarrow>
      cras_mix_add fmt dst dp src sp count index muted vol ! j = dst ! j"
    "i < count \<Longrightarrow> sample fmt (cras_mix_add fmt dst dp src sp count index muted vol) dp i
      = sample_norm fmt (clip (sample_min fmt) (sample_max fmt) (sample fmt dst dp i + scaled vol (sample fmt src sp i)))" by auto
qed


text \<open>A full-scale stream at full volume in a buffer that holds 1000.\<close>

definition mix_example :: bytes where "mix_example = le 2 1000 @ le 2 (- 1000)"
definition loud_example :: bytes where "loud_example = le 2 32767 @ le 2 (- 500)"

lemma mix_example_samples:
  "sample SND_PCM_FORMAT_S16_LE mix_example 0 0 = 1000" "sample SND_PCM_FORMAT_S16_LE loud_example 0 0 = 32767"
  "samples_fit (sample_size SND_PCM_FORMAT_S16_LE) mix_example 0 (sample_size SND_PCM_FORMAT_S16_LE) 2"
  by (simp_all add: sample_defs mix_example_def loud_example_def ld_s16_def ld_def le_val_def wrap_s_def numeral_2_eq_2 samples_fit_def less_Suc_eq)

lemma volume_one: "MIN_VOLUME_TO_SCALE \<le> 1" "1 > MAX_VOLUME_TO_SCALE"
  using volume_bounds by linarith+


section \<open>Volume ramps\<close>

text \<open>The scaler of frame \<open>n\<close>, before it is limited by the target.\<close>

fun ramp_scaler :: "real \<Rightarrow> real \<Rightarrow> nat \<Rightarrow> real" where
  "ramp_scaler scaler increment 0 = scaler"
| "ramp_scaler scaler increment (Suc n) = ramp_scaler (f32 (scaler + increment)) increment n"

context sample_access begin

lemma ramp_loop_frame:
  assumes "p + k * step * n \<le> length mem"
  shows "length (ramp_loop load store k scale increment target step n mem p scaler) = length mem \<and>
    (\<forall>j<p. j < length mem \<longrightarrow> ramp_loop load store k scale increment target step n mem p scaler ! j = mem ! j)"
  using assms
proof (induction n arbitrary: mem p scaler)
  case (Suc n)
  let ?f = "\<lambda>d _. apply_scaler scale (applied_scaler scaler increment target) d"
  let ?m = "mix_loop load store ?f mem p k mem p k step"
  have room: "p + k * step + k * step * n \<le> length mem" using Suc.prems by (simp add: algebra_simps)
  have fit: "samples_fit k mem p k step" using room by (intro samples_fit_packed) simp
  have len: "length ?m = length mem" by (rule mix_loop_frame(1) [OF fit])
  have "?m ! j = mem ! j" if "j < p" "j < length mem" for j
    using that by (intro mix_loop_frame(2) [OF fit]) (auto simp: in_sample_def)
  then show ?case using Suc.IH [of "p + k * step" ?m "f32 (scaler + increment)"] room len by simp
qed simp

lemma load_ramp_loop:
  assumes "p + k * step * n \<le> length mem" "f < n" "c < step"
  shows "load (ramp_loop load store k scale increment target step n mem p scaler) (p + (f * step + c) * k)
    = norm (apply_scaler scale (applied_scaler (ramp_scaler scaler increment f) increment target) (load mem (p + (f * step + c) * k)))"
  using assms
proof (induction n arbitrary: mem p scaler f)
  case (Suc n)
  let ?f = "\<lambda>d _. apply_scaler scale (applied_scaler scaler increment target) d"
  let ?m = "mix_loop load store ?f mem p k mem p k step" and ?p = "p + k * step"
  have room: "?p + k * step * n \<le> length mem" using Suc.prems by (simp add: algebra_simps)
  have fit: "samples_fit k mem p k step" using room by (intro samples_fit_packed) simp
  have len: "length ?m = length mem" by (rule mix_loop_frame(1) [OF fit])
  show ?case
  proof (cases f)
    case 0
    let ?r = "ramp_loop load store k scale increment target step n ?m ?p (f32 (scaler + increment))"
    note r = ramp_loop_frame [of ?p step n ?m scale increment target "f32 (scaler + increment)"]
    have c: "p + c * k + k \<le> ?p" using Suc.prems(3) by (metis Suc_leI add.assoc add_le_cancel_left mult.commute mult_Suc mult_le_mono1 add.commute)
    have "load ?r (p + c * k) = load ?m (p + c * k)" using r c room len by (intro load_cong) auto
    then show ?thesis using 0 load_mix_loop [OF fit Suc.prems(3), of ?f mem p k] by simp
  next
    case (Suc g)
    have pos: "p + (f * step + c) * k = ?p + (g * step + c) * k" using Suc by (simp add: algebra_simps)
    have g: "g < n" using Suc Suc.prems(2) by simp
    have "(g * step + c + 1) * k \<le> k * step * n"
    proof -
      have "Suc g * step \<le> n * step" using g by (intro mult_le_mono1) simp
      then have "g * step + c + 1 \<le> step * n" using Suc.prems(3) by (simp add: mult.commute)
      then have "(g * step + c + 1) * k \<le> (step * n) * k" by (rule mult_le_mono1)
      then show ?thesis by (simp only: ac_simps)
    qed
    then have room': "?p + (g * step + c) * k + k \<le> length mem" using room by (simp add: algebra_simps)
    have "?m ! j = mem ! j" if "?p \<le> j" "j < length mem" for j
    proof (rule mix_loop_frame(2) [OF fit that(2)])
      have "i * k + k \<le> k * step" if "i < step" for i
        using mult_le_mono1 [OF Suc_leI [OF that], of k] by (simp add: mult.commute)
      then show "\<not> in_sample k p k step j" using that(1) by (force simp: in_sample_def not_less)
    qed
    then have "load ?m (?p + (g * step + c) * k) = load mem (?p + (g * step + c) * k)"
      using room' len by (intro load_cong) auto
    then show ?thesis using Suc.IH [of ?p ?m g "f32 (scaler + increment)"] room len g Suc.prems(3) unfolding pos by (simp add: Suc)
  qed
qed simp

end

text \<open>What the formats do to a sample, and what a store keeps of the result.\<close>

definition sample_scale :: "int \<Rightarrow> int \<Rightarrow> real \<Rightarrow> int" where
  "sample_scale fmt = (if fmt = SND_PCM_FORMAT_S24_LE then scale_s24_le else (\<lambda>v x. cvt 32 (fmul v x)))"

definition store_norm :: "int \<Rightarrow> int \<Rightarrow> int" where
  "store_norm fmt = (if fmt = SND_PCM_FORMAT_S16_LE then s16 else if fmt = SND_PCM_FORMAT_S24_3LE then drop_low_byte else s32)"

lemma ld_memset_zero:
  assumes "p \<le> q" "q + k \<le> p + n" "p + n \<le> length mem"
  shows "ld k (memset_zero mem p n) q = 0"
proof -
  have "take k (drop q (memset_zero mem p n)) = replicate k 0"
    using assms by (intro nth_equalityI) (auto simp: memset_zero_def length_store_at nth_store_at)
  moreover have "le_val (replicate k 0) = 0" by (induction k) (auto simp: le_val_def)
  ultimately show ?thesis by (simp add: ld_def)
qed

lemma sample_bound: "i < count \<Longrightarrow> p + i * k \<ge> p \<and> p + i * k + k \<le> p + k * count" for k :: nat
  using mult_le_mono1 [OF Suc_leI, of i count k] by (simp add: mult.commute)

lemma s243_norm: "drop_low_byte (ld_s243 mem p) = ld_s243 mem p"
proof -
  have "s32 (256 * x) mod 256 = 0" for x
  proof -
    have "(256 * x + 2147483648) mod 4294967296 = 256 * ((x + 8388608) mod 16777216)"
      using mult_mod_right [of 256 "x + 8388608" 16777216] by (simp add: algebra_simps)
    then have "s32 (256 * x) = 256 * ((x + 8388608) mod 16777216 - 8388608)" by (simp add: wrap_s_def)
    then show ?thesis by simp
  qed
  then show ?thesis unfolding drop_low_byte_s32 [OF load_range(3)] by (simp add: convert_single_s243le_to_s32le_def)
qed

lemma load_norm [simp]: "s16 (ld_s16 mem p) = ld_s16 mem p" "s32 (ld_s32 mem p) = ld_s32 mem p"
  by (simp_all add: ld_s16_def ld_s32_def)

lemma store_norm_0 [simp]: "s16 0 = 0" "s32 0 = 0" "drop_low_byte 0 = 0"
  by (simp_all add: wrap_s_def drop_low_byte_def)

lemma scale_buffer_sample:
  assumes "mix_format fmt" "p + sample_size fmt * count \<le> length buf" "i < count"
  shows "sample fmt (cras_scale_buffer fmt buf p count x) p i = store_norm fmt (apply_scaler (sample_scale fmt) x (sample fmt buf p i))"
proof -
  from assms(1) consider (a) "fmt = SND_PCM_FORMAT_S16_LE" | (b) "fmt = SND_PCM_FORMAT_S24_LE" | (c) "fmt = SND_PCM_FORMAT_S32_LE"
    | (d) "fmt = SND_PCM_FORMAT_S24_3LE" by (auto simp: mix_format_def)
  then show ?thesis
  proof cases
    case a
    then have len: "p + 2 * count \<le> length buf" using assms(2) by (simp add: sample_defs)
    show ?thesis using a s16_acc.load_mix_loop [OF samples_fit_packed [OF len] assms(3)]
        ld_memset_zero [of p "p + i * 2" 2 "2 * count" buf] sample_bound [OF assms(3), of p 2] len
      by (simp add: cras_scale_buffer_def cras_scale_buffer_s16_le_def apply_scaler_def sample_defs sample_scale_def store_norm_def ld_s16_def [of "memset_zero _ _ _"])
  next
    case b
    then have len: "p + 4 * count \<le> length buf" using assms(2) by (simp add: sample_defs)
    show ?thesis using b s32_acc.load_mix_loop [OF samples_fit_packed [OF len] assms(3)]
        ld_memset_zero [of p "p + i * 4" 4 "4 * count" buf] sample_bound [OF assms(3), of p 4] len
      by (simp add: cras_scale_buffer_def cras_scale_buffer_s24_le_def apply_scaler_def sample_defs sample_scale_def store_norm_def ld_s32_def [of "memset_zero _ _ _"])
  next
    case c
    then have len: "p + 4 * count \<le> length buf" using assms(2) by (simp add: sample_defs)
    show ?thesis using c s32_acc.load_mix_loop [OF samples_fit_packed [OF len] assms(3)]
        ld_memset_zero [of p "p + i * 4" 4 "4 * count" buf] sample_bound [OF assms(3), of p 4] len
      by (simp add: cras_scale_buffer_def cras_scale_buffer_s32_le_def apply_scaler_def sample_defs sample_scale_def store_norm_def ld_s32_def [of "memset_zero _ _ _"])
  next
    case d
    then have len: "p + 3 * count \<le> length buf" using assms(2) by (simp add: sample_defs)
    show ?thesis using d s243_acc.load_mix_loop [OF samples_fit_packed [OF len] assms(3)]
        ld_memset_zero [of p "p + i * 3" 3 "3 * count" buf] sample_bound [OF assms(3), of p 3] len
      by (simp add: cras_scale_buffer_def cras_scale_buffer_s24_3le_def apply_scaler_def sample_defs sample_scale_def store_norm_def s243_norm
          convert_single_s243le_to_s32le_def [of "memset_zero _ _ _"])
  qed
qed

lemma ramp_sample:
  assumes "mix_format fmt" "p + sample_size fmt * (frames * channels) \<le> length buf" "f < frames" "c < channels"
    and "\<not> (scaler < MIN_VOLUME_TO_SCALE \<and> increment < 0)"
  shows "sample fmt (cras_scale_buffer_increment fmt buf p frames scaler increment target channels) p (f * channels + c)
    = store_norm fmt (apply_scaler (sample_scale fmt) (applied_scaler (ramp_scaler scaler increment f) increment target)
        (sample fmt buf p (f * channels + c)))"
proof -
  have ch: "frames * channels div channels = frames" and no: "(scaler < MIN_VOLUME_TO_SCALE \<and> increment < 0) = False"
    using assms(4,5) by auto
  have len: "p + sample_size fmt * channels * frames \<le> length buf" using assms(2) by (simp add: ac_simps)
  note rules = cras_scale_buffer_increment_def Let_def cras_scale_buffer_inc_s16_le_def cras_scale_buffer_inc_s24_le_def
    cras_scale_buffer_inc_s32_le_def cras_scale_buffer_inc_s24_3le_def sample_scale_def store_norm_def
  from assms(1) consider (a) "fmt = SND_PCM_FORMAT_S16_LE" | (b) "fmt = SND_PCM_FORMAT_S24_LE" | (c) "fmt = SND_PCM_FORMAT_S32_LE"
    | (d) "fmt = SND_PCM_FORMAT_S24_3LE" by (auto simp: mix_format_def)
  then show ?thesis
  proof cases
    case a
    then show ?thesis using s16_acc.load_ramp_loop [of p channels frames buf f c] len assms(3,4) ch by (simp add: rules sample_defs no)
  next
    case b
    then show ?thesis using s32_acc.load_ramp_loop [of p channels frames buf f c] len assms(3,4) ch by (simp add: rules sample_defs no)
  next
    case c
    then show ?thesis using s32_acc.load_ramp_loop [of p channels frames buf f c] len assms(3,4) ch by (simp add: rules sample_defs no)
  next
    case d
    then show ?thesis using s243_acc.load_ramp_loop [of p channels frames buf f c] len assms(3,4) ch by (simp add: rules sample_defs no)
  qed
qed

text \<open>C28. A volume ramp gives every frame what \<open>cras_scale_buffer\<close> would give it with the frame's own scaler: the start value
  plus one increment per frame, and the target from the frame on at which the target is passed, so that a
  ramp never overshoots. All channels of a frame get the same volume. This holds in all four formats.\<close>

theorem ramp_scales_frames:
  fixes target :: real
  assumes "mix_format fmt" "p + sample_size fmt * (frames * channels) \<le> length buf" "f < frames" "c < channels"
    and "\<not> (scaler < MIN_VOLUME_TO_SCALE \<and> increment < 0)"
  defines "x \<equiv> applied_scaler (ramp_scaler scaler increment f) increment target"
  shows "sample fmt (cras_scale_buffer_increment fmt buf p frames scaler increment target channels) p (f * channels + c)
      = sample fmt (cras_scale_buffer fmt buf p (frames * channels) x) p (f * channels + c) \<and>
    (increment > 0 \<longrightarrow> x \<le> target) \<and> (increment < 0 \<longrightarrow> target \<le> x)"
proof -
  have "f * channels + c < frames * channels"
    using mult_le_mono1 [OF Suc_leI [OF assms(3)], of channels] assms(4) by simp
  then show ?thesis using ramp_sample [OF assms(1-5)] scale_buffer_sample [OF assms(1,2)] by (auto simp: x_def applied_scaler_def)
qed

lemma f32_quarters: "f32 (3 / 4) = 3 / 4"
  using fround_exact [of 3 24 "- 2"] by (simp add: power_int_minus)

lemma ramp_example_scaler: "applied_scaler (ramp_scaler (1 / 2) (1 / 4) 1) (1 / 4) 1 = 3 / 4"
  by (simp add: f32_quarters applied_scaler_def)

theorem ramp_scales_frames_witness:
  "sample SND_PCM_FORMAT_S16_LE (cras_scale_buffer_increment SND_PCM_FORMAT_S16_LE mix_example 0 2 (1 / 2) (1 / 4) 1 1) 0 1 = - 750"
proof -
  have fmt: "mix_format SND_PCM_FORMAT_S16_LE" "0 + sample_size SND_PCM_FORMAT_S16_LE * (2 * 1) \<le> length mix_example"
    by (simp_all add: mix_format_def sample_defs mix_example_def)
  have "\<not> 3 / 4 > MAX_VOLUME_TO_SCALE" "\<not> 3 / 4 < MIN_VOLUME_TO_SCALE"
  proof -
    have e: "(2::real) powi (- 2) = 1 / 4" by (simp add: power_int_minus)
    have "of_int 3 * 2 powi (- 2) \<le> f64 (9999999 / 10000000)" by (rule fround_ge) (simp_all add: e)
    then show "\<not> 3 / 4 > MAX_VOLUME_TO_SCALE" unfolding e MAX_VOLUME_TO_SCALE_def by simp
    have "f64 (1 / 10000000) \<le> of_int 1 * 2 powi (- 2)" by (rule fround_le) (simp_all add: e)
    then show "\<not> 3 / 4 < MIN_VOLUME_TO_SCALE" unfolding e MIN_VOLUME_TO_SCALE_def by simp
  qed
  then have "apply_scaler (sample_scale SND_PCM_FORMAT_S16_LE) (3 / 4) (- 1000) = - 750"
    using f32_int [of "- 1000"] f32_int [of "- 750"] by (simp add: apply_scaler_def sample_scale_def format_consts fmul_def cvt_def c_trunc_def in_s_def)
  moreover have "sample SND_PCM_FORMAT_S16_LE mix_example 0 1 = - 1000"
    by (simp add: sample_defs mix_example_def ld_s16_def ld_def le_val_def wrap_s_def numeral_2_eq_2)
  ultimately show ?thesis
    using ramp_scales_frames [OF fmt, of 1 0 "1 / 2" "1 / 4" 1, unfolded ramp_example_scaler] scale_buffer_sample [OF fmt, of 1 "3 / 4"]
    by (simp add: store_norm_def format_consts wrap_s_def)
qed

section \<open>Copies of captured samples\<close>

text \<open>C40. Captured samples of 32 bits that are added without a gain are not limited: the sum is computed at 32 bits
  before the comparison with the limits, so that it wraps around, and two loud samples give a loud sample of the
  opposite sign. Mixing for playback (\<open>cras_mix_add\<close>) limits the same sum.\<close>

theorem capture_sum_wraps:
  fixes src :: bytes and sp src_stride :: nat
  assumes "\<not> need_to_scale scaler" "samples_fit 4 dst dp dst_stride count" "i < count"
  defines "d \<equiv> ld_s32 dst (dp + i * dst_stride)" and "s \<equiv> ld_s32 src (sp + i * src_stride)"
  assumes "d + s > INT32_MAX"
  shows "ld_s32 (cras_mix_add_scale_stride SND_PCM_FORMAT_S32_LE dst dp src sp count dst_stride src_stride scaler) (dp + i * dst_stride) = d + s - 2 ^ 32 \<and>
    d + s - 2 ^ 32 < 0"
proof -
  have r: "in_s 32 d" "in_s 32 s" unfolding d_def s_def by (rule load_range)+
  then have neg: "d + s - 2 ^ 32 < 0" "in_s 32 (d + s - 2 ^ 32)" using assms(6) by (auto simp: in_s_def INT32_MAX_def)
  have "s32 (d + s) = s32 (d + s - 2 ^ 32)" by (metis minus_mod_self2 wrap_s_mod)
  then have w: "s32 (d + s) = d + s - 2 ^ 32" using neg(2) by (simp add: in_s_wrap_id)
  have "stride_sum_s32 scaler d s = d + s - 2 ^ 32" using assms(1) w neg by (simp add: stride_sum_s32_def limit_def INT32_MAX_def INT32_MIN_def in_s_def)
  then show ?thesis using s32_acc.load_mix_loop [OF assms(2,3), of "stride_sum_s32 scaler" src sp src_stride] w neg
    by (auto simp: cras_mix_add_scale_stride_def cras_mix_add_scale_stride_s32_le_def format_consts d_def s_def in_s_wrap_id)
qed

definition loud_s32 :: bytes where "loud_s32 = le 4 1500000000"

lemma loud_s32_sample: "ld_s32 loud_s32 0 = 1500000000"
  using ld_st [of 0 4 loud_s32 1500000000] by (simp add: loud_s32_def st_def store_at_def ld_s32_def wrap_s_def)

lemma no_scale_1: "\<not> need_to_scale 1"
proof -
  have "f64 (99 / 100) \<le> of_int 1 * 2 powi 0" "of_int 1 * 2 powi 0 \<le> f64 (101 / 100)" by (intro fround_le fround_ge; simp)+
  then show ?thesis by (simp add: need_to_scale_def)
qed

theorem capture_sum_wraps_witness:
  "ld_s32 (cras_mix_add_scale_stride SND_PCM_FORMAT_S32_LE loud_s32 0 loud_s32 0 1 4 4 1) 0 = - 1294967296"
  using capture_sum_wraps [OF no_scale_1, of loud_s32 0 4 1 0 loud_s32 0 4] by (simp add: loud_s32_sample INT32_MAX_def samples_fit_def loud_s32_def [THEN arg_cong [where f = length]])

text \<open>A gain of two or more inverts loud samples of 24 bits in four bytes: \<open>scale_s24_le\<close> converts the product to an
  \<open>int32_t\<close> before anything limits it. The conversion of a value that does not fit is undefined in C, and
  the processor's conversion gives the smallest integer: from half of full scale on, a positive sample becomes
  the most negative one.\<close>

lemma capture_gain_inverts:
  fixes src :: bytes and sp src_stride :: nat
  assumes "need_to_scale scaler" "2 \<le> scaler" "samples_fit 4 dst dp dst_stride count" "i < count"
  defines "d \<equiv> ld_s32 dst (dp + i * dst_stride)" and "s \<equiv> ld_s32 src (sp + i * src_stride)"
  assumes "2 ^ 22 \<le> s" "s < 2 ^ 23" "in_s 24 d"
  shows "\<not> in_s 32 (c_trunc (fmul (256 * s) scaler)) \<and>
    ld_s32 (cras_mix_add_scale_stride SND_PCM_FORMAT_S24_LE dst dp src sp count dst_stride src_stride scaler) (dp + i * dst_stride)
      = clip S24_MIN S24_MAX (d + S24_MIN)"
proof -
  have "s AND 0x00ffffff = take_bit 24 s" by (simp add: take_bit_eq_mask mask_eq_exp_minus_1)
  then have and24: "s AND 0x00ffffff = s" using assms(7,8) by (simp add: take_bit_eq_mod)
  have "of_int 1 * 2 powi 30 \<le> f32 (of_int (256 * s))" using assms(7) by (intro fround_ge) auto
  then have "2 ^ 30 * 2 \<le> f32 (of_int (256 * s)) * scaler" using assms(2) by (intro mult_mono) auto
  then have "of_int 1 * 2 powi 31 \<le> f32 (f32 (of_int (256 * s)) * scaler)" by (intro fround_ge) auto
  then have "2147483648 \<le> c_trunc (fmul (256 * s) scaler)" by (intro c_trunc_ge) (simp add: fmul_def)
  then have over: "\<not> in_s 32 (c_trunc (fmul (256 * s) scaler))" by (simp add: in_s_def)
  have "s32 (u32 (u32 (s AND 0x00ffffff) * 2 ^ 8)) = 256 * s"
    unfolding and24 using assms(7,8) by (simp add: wrap_u_def wrap_s_def)
  then have "scale_s24_le s scaler = S24_MIN" using over by (simp add: scale_s24_le_def Let_def cvt_def S24_MIN_def)
  moreover have "s32 (d + S24_MIN) = d + S24_MIN" using assms(9) by (intro in_s_wrap_id) (auto simp: in_s_def S24_MIN_def)
  ultimately have "stride_sum_s24 scaler d s = clip S24_MIN S24_MAX (d + S24_MIN)" using assms(1) by (simp add: stride_sum_s24_def limits)
  then show ?thesis using over s32_acc.load_mix_loop [OF assms(3,4), of "stride_sum_s24 scaler" src sp src_stride]
    by (auto simp: cras_mix_add_scale_stride_def cras_mix_add_scale_stride_s24_le_def format_consts d_def s_def stored_clip)
qed

definition half_s24 :: bytes where "half_s24 = le 4 4194304"

lemma half_s24_sample: "ld_s32 half_s24 0 = 4194304" "ld_s32 (le 4 0) 0 = 0"
  using ld_st [of 0 4 half_s24 4194304] ld_st [of 0 4 half_s24 0] by (simp_all add: half_s24_def st_def store_at_def ld_s32_def wrap_s_def)

lemma scale_2: "need_to_scale 2"
proof -
  have e: "(2::real) powi (- 1) = 1 / 2" by (simp add: power_int_minus)
  have "f64 (101 / 100) \<le> of_int 3 * 2 powi (- 1)" by (rule fround_le) (simp_all add: e)
  then show ?thesis unfolding e need_to_scale_def by simp
qed

section \<open>The first stream\<close>

lemma ld_memcpy:
  assumes "dp \<le> q" "q + k \<le> dp + n" "dp + n \<le> length dst" "sp + n \<le> length src"
  shows "ld k (memcpy dst dp src sp n) q = ld k src (sp + (q - dp))"
proof -
  have "take k (drop q (memcpy dst dp src sp n)) = take k (drop (sp + (q - dp)) src)"
    using assms by (intro nth_equalityI) (auto simp: memcpy_def length_store_at nth_store_at add.assoc)
  then show ?thesis by (simp add: ld_def)
qed

lemma copy_scaled_sample:
  assumes "mix_format fmt" "fmt \<noteq> SND_PCM_FORMAT_S24_LE" "\<not> muted" "MIN_VOLUME_TO_SCALE \<le> vol" "i < count"
    and "dp + sample_size fmt * count \<le> length dst" "sp + sample_size fmt * count \<le> length src"
  shows "sample fmt (cras_mix_add fmt dst dp src sp count 0 muted vol) dp i = sample_norm fmt (scaled vol (sample fmt src sp i))"
proof -
  have vol: "\<not> vol < MIN_VOLUME_TO_SCALE" using assms(4) by simp
  note rules = cras_mix_add_def cras_mix_add_s16_le_def cras_mix_add_s32_le_def cras_mix_add_s24_3le_def
    copy_scaled_s16_le_def copy_scaled_s32_le_def copy_scaled_s24_3le_def sample_defs
  from assms(1,2) consider (a) "fmt = SND_PCM_FORMAT_S16_LE" | (c) "fmt = SND_PCM_FORMAT_S32_LE" | (d) "fmt = SND_PCM_FORMAT_S24_3LE"
    by (auto simp: mix_format_def)
  then show ?thesis
  proof cases
    case a
    then have len: "dp + 2 * count \<le> length dst" "sp + 2 * count \<le> length src" using assms(6,7) by (simp_all add: sample_defs)
    show ?thesis using a assms(3) vol s16_acc.load_mix_loop [OF samples_fit_packed [OF len(1)] assms(5)] len sample_bound [OF assms(5), of dp 2]
        ld_memcpy [of dp "dp + i * 2" 2 "2 * count" dst sp src] scaled_s16 [OF load_range(1) assms(4), of src "sp + i * 2"]
        cvt_volume(1) [OF in_s_16_32 [OF load_range(1)] assms(4), of src "sp + i * 2"]
      by (cases "vol > MAX_VOLUME_TO_SCALE") (simp_all add: rules ld_s16_def [of "memcpy _ _ _ _ _"] scaled_def ld_s16_def [symmetric])
  next
    case c
    then have len: "dp + 4 * count \<le> length dst" "sp + 4 * count \<le> length src" using assms(6,7) by (simp_all add: sample_defs)
    show ?thesis using c assms(3) vol s32_acc.load_mix_loop [OF samples_fit_packed [OF len(1)] assms(5)] len sample_bound [OF assms(5), of dp 4]
        ld_memcpy [of dp "dp + i * 4" 4 "4 * count" dst sp src] in_s_wrap_id [OF _ scaled_s32 [OF load_range(2) assms(4), of src "sp + i * 4"]]
        cvt_volume(1) [OF load_range(2) assms(4), of src "sp + i * 4"]
      by (cases "vol > MAX_VOLUME_TO_SCALE") (simp_all add: rules ld_s32_def [of "memcpy _ _ _ _ _"] scaled_def ld_s32_def [symmetric])
  next
    case d
    then have len: "dp + 3 * count \<le> length dst" "sp + 3 * count \<le> length src" using assms(6,7) by (simp_all add: sample_defs)
    have low: "ld_s243 m q - ld_s243 m q mod 256 = ld_s243 m q" for m q
      using s243_norm [of m q] drop_low_byte_s32 [OF load_range(3), of m q] by simp
    show ?thesis using d assms(3) vol s243_acc.load_mix_loop [OF samples_fit_packed [OF len(1)] assms(5)] len sample_bound [OF assms(5), of dp 3]
        ld_memcpy [of dp "dp + i * 3" 3 "3 * count" dst sp src] drop_low_byte_s32 [OF scaled_s32 [OF load_range(3) assms(4), of src "sp + i * 3"]]
        cvt_volume(1) [OF load_range(3) assms(4), of src "sp + i * 3"] low [of src "sp + i * 3"]
      by (cases "vol > MAX_VOLUME_TO_SCALE")
        (simp_all add: rules convert_single_s243le_to_s32le_def [of "memcpy _ _ _ _ _"] scaled_def convert_single_s243le_to_s32le_def [symmetric])
  qed
qed

text \<open>The shortcut for the first stream of a mix, which copies instead of adding, gives what mixing into a silent
  buffer gives, at any volume, in the formats of 16, 32 and packed 24 bits, whatever the buffer held before. (In the
  format of 24 bits in four bytes the two round negative samples differently.)\<close>

lemma first_stream_as_mix:
  assumes "mix_format fmt" "fmt \<noteq> SND_PCM_FORMAT_S24_LE" "i < count" "index \<noteq> 0"
    and "dp + sample_size fmt * count \<le> length dst" "sp + sample_size fmt * count \<le> length src"
    and "length silent = length dst" "sample fmt silent dp i = 0" "\<not> muted" "MIN_VOLUME_TO_SCALE \<le> vol"
  shows "sample fmt (cras_mix_add fmt dst dp src sp count 0 muted vol) dp i
    = sample fmt (cras_mix_add fmt silent dp src sp count index muted vol) dp i"
proof -
  let ?s = "scaled vol (sample fmt src sp i)"
  have fit: "samples_fit (sample_size fmt) silent dp (sample_size fmt) count" using assms(5,7) by (intro samples_fit_packed) simp
  have "clip (sample_min fmt) (sample_max fmt) ?s = ?s"
  proof (cases "fmt = SND_PCM_FORMAT_S16_LE")
    case True
    have "in_s 16 ?s" using scaled_s16 [OF load_range(1) assms(10), of src "sp + i * 2"] True in_s_wrap_s [of 16]
      by (metis sample_def sample_load_def sample_size_def zero_less_numeral)
    then show ?thesis using True by (intro clip_id) (auto simp: sample_min_def sample_max_def in_s_def limit_consts)
  next
    case False
    have "in_s 32 ?s" using False assms(10) load_range by (auto simp: sample_def sample_load_def intro!: scaled_s32)
    then show ?thesis using False assms(2) by (intro clip_id) (auto simp: sample_min_def sample_max_def in_s_def limit_consts)
  qed
  then show ?thesis
    using mix_add_loop(3) [OF assms(1,4,9,10) fit, of i src sp] copy_scaled_sample [OF assms(1,2,9,10,3,5,6)] assms(2,3,8) by simp
qed

end
