(* ===== verification/Audio_Area.thy ===== *)
theory Audio_Area
  imports Cras_Mix
begin

text \<open>
  Audio areas (\<open>cras/src/server/cras_audio_area.c\<close> and its header): descriptors of memory in which each channel
  has its own start and distance between samples. A channel's \<open>buf\<close> is an index into the memory that the
  area describes, which is an argument of the operations; \<open>cras_audio_area_copy\<close> returns the destination's
  memory. Channel sets are bit sets.
\<close>

unbundle bit_operations_syntax

section \<open>Model\<close>

record cras_channel_area =
  ch_set :: int
  step_bytes :: nat
  ca_buf :: nat

record cras_audio_area =
  aa_frames :: nat
  aa_num_channels :: nat
  aa_channels :: "cras_channel_area list"

definition channel_area_set_channel :: "cras_channel_area \<Rightarrow> nat \<Rightarrow> cras_channel_area" where
  "channel_area_set_channel ca channel = ca\<lparr>ch_set := ch_set ca OR 2 ^ channel\<rparr>"

definition cras_audio_area_create :: "nat \<Rightarrow> cras_audio_area" where
  "cras_audio_area_create n =
     \<lparr>aa_frames = 0, aa_num_channels = n,
      aa_channels = replicate n \<lparr>ch_set = 0, step_bytes = 0, ca_buf = 0\<rparr>\<rparr>"

text \<open>The body of the loops, and the loops. The difference of the unsigned frames and offset wraps around.\<close>

definition copy_channel ::
  "cras_audio_area \<Rightarrow> nat \<Rightarrow> cras_audio_format \<Rightarrow> bytes \<Rightarrow> cras_audio_area \<Rightarrow> nat \<Rightarrow> real \<Rightarrow> nat \<Rightarrow> nat \<Rightarrow> nat \<Rightarrow> bytes \<Rightarrow> bytes" where
  "copy_channel dst dst_offset dst_fmt src_mem src src_offset software_gain_scaler ncopy src_idx dst_idx dst_mem =
     (let sc = aa_channels src ! src_idx; dc = aa_channels dst ! dst_idx in
      if ch_set sc AND ch_set dc = 0 then dst_mem
      else cras_mix_add_scale_stride (format dst_fmt) dst_mem (ca_buf dc + dst_offset * step_bytes dc)
             src_mem (ca_buf sc + src_offset * step_bytes sc) ncopy (step_bytes dc) (step_bytes sc) software_gain_scaler)"

definition cras_audio_area_copy ::
  "bytes \<Rightarrow> cras_audio_area \<Rightarrow> nat \<Rightarrow> cras_audio_format \<Rightarrow> bytes \<Rightarrow> cras_audio_area \<Rightarrow> nat \<Rightarrow> real \<Rightarrow> nat \<times> bytes" where
  "cras_audio_area_copy dst_mem dst dst_offset dst_fmt src_mem src src_offset software_gain_scaler =
     (if dst_offset \<ge> aa_frames dst \<or> src_offset \<ge> aa_frames src then (0, dst_mem)
      else
        let ncopy = min (nat (u32 (int (aa_frames src) - int src_offset))) (nat (u32 (int (aa_frames dst) - int dst_offset)))
        in (ncopy,
            for_frames (aa_num_channels src) (\<lambda>src_idx.
              for_frames (aa_num_channels dst) (\<lambda>dst_idx.
                copy_channel dst dst_offset dst_fmt src_mem src src_offset software_gain_scaler ncopy src_idx dst_idx)) dst_mem))"

definition cras_audio_area_config_channels :: "cras_audio_area \<Rightarrow> cras_audio_format \<Rightarrow> cras_audio_area" where
  "cras_audio_area_config_channels area fmt =
     (if num_channels fmt = 1 \<and> (channel_layout fmt ! Audio_Format.CRAS_CH_FC = 0 \<or> channel_layout fmt ! Audio_Format.CRAS_CH_FL = 0)
      then area\<lparr>aa_channels := (aa_channels area)[0 :=
             channel_area_set_channel (channel_area_set_channel (aa_channels area ! 0) Audio_Format.CRAS_CH_FL) Audio_Format.CRAS_CH_FR]\<rparr>
      else area\<lparr>aa_channels :=
             for_frames (nat (num_channels fmt)) (\<lambda>i chans.
               chans[i := for_frames CRAS_CH_MAX
                 (\<lambda>ch ca. if channel_layout fmt ! ch = int i then channel_area_set_channel ca ch else ca) ((chans ! i)\<lparr>ch_set := 0\<rparr>)])
             (aa_channels area)\<rparr>)"

definition cras_audio_area_config_buf_pointers ::
  "(int \<Rightarrow> int) \<Rightarrow> cras_audio_area \<Rightarrow> cras_audio_format \<Rightarrow> nat \<Rightarrow> cras_audio_area" where
  "cras_audio_area_config_buf_pointers width area fmt base_buffer =
     (let sample_size = nat (width (format fmt) sdiv 8) in
      area\<lparr>aa_channels :=
        for_frames (aa_num_channels area) (\<lambda>i chans.
          chans[i := (chans ! i)\<lparr>step_bytes := nat (cras_get_format_bytes width fmt), ca_buf := base_buffer + i * sample_size\<rparr>])
        (aa_channels area)\<rparr>)"

section \<open>Positions of samples\<close>

definition area_pos :: "cras_audio_area \<Rightarrow> nat \<Rightarrow> nat \<Rightarrow> nat" where
  "area_pos a c f = ca_buf (aa_channels a ! c) + f * step_bytes (aa_channels a ! c)"

text \<open>The area lies within its memory, and its samples do not overlap.\<close>

definition area_ok :: "nat \<Rightarrow> bytes \<Rightarrow> cras_audio_area \<Rightarrow> bool" where
  "area_ok k mem a \<longleftrightarrow> (\<forall>c<aa_num_channels a. k \<le> step_bytes (aa_channels a ! c) \<and>
     (\<forall>f<aa_frames a. area_pos a c f + k \<le> length mem))"

definition area_disjoint :: "nat \<Rightarrow> cras_audio_area \<Rightarrow> bool" where
  "area_disjoint k a \<longleftrightarrow> (\<forall>c<aa_num_channels a. \<forall>c'<aa_num_channels a. c \<noteq> c' \<longrightarrow>
     (\<forall>f<aa_frames a. \<forall>f'<aa_frames a. area_pos a c f + k \<le> area_pos a c' f' \<or> area_pos a c' f' + k \<le> area_pos a c f))"

text \<open>The bytes of the frames \<open>from ..< from + n\<close>.\<close>

definition in_frames :: "nat \<Rightarrow> cras_audio_area \<Rightarrow> nat \<Rightarrow> nat \<Rightarrow> nat \<Rightarrow> bool" where
  "in_frames k a start n j \<longleftrightarrow> (\<exists>c<aa_num_channels a. \<exists>f<n. area_pos a c (start + f) \<le> j \<and> j < area_pos a c (start + f) + k)"

definition stride_sum :: "int \<Rightarrow> real \<Rightarrow> int \<Rightarrow> int \<Rightarrow> int" where
  "stride_sum fmt = (if fmt = SND_PCM_FORMAT_S16_LE then stride_sum_s16 else if fmt = SND_PCM_FORMAT_S24_LE then stride_sum_s24
     else if fmt = SND_PCM_FORMAT_S32_LE then stride_sum_s32 else stride_sum_s24_3)"

definition sample_store :: "int \<Rightarrow> bytes \<Rightarrow> nat \<Rightarrow> int \<Rightarrow> bytes" where
  "sample_store fmt = (if fmt = SND_PCM_FORMAT_S16_LE then st_s16 else if fmt = SND_PCM_FORMAT_S24_3LE then st_s243 else st_s32)"

text \<open>The loops that are specialised to a distance do what the general one does.\<close>

lemma stride_eq:
  assumes "mix_format fmt"
  shows "cras_mix_add_scale_stride fmt dst dp src sp count ds ss x =
    mix_loop (sample_load fmt) (sample_store fmt) (stride_sum fmt x) dst dp ds src sp ss count"
  using assms by (auto simp: mix_format_def cras_mix_add_scale_stride_def cras_mix_add_scale_stride_s16_le_def
      cras_mix_add_scale_stride_s24_le_def cras_mix_add_scale_stride_s32_le_def cras_mix_add_scale_stride_s24_3le_def
      sample_load_def sample_store_def stride_sum_def format_consts)

lemma fmt_access:
  assumes "mix_format fmt"
  shows "sample_access (sample_size fmt) (sample_load fmt) (sample_store fmt) (store_norm fmt)"
  using assms s16_acc.sample_access_axioms s32_acc.sample_access_axioms s243_acc.sample_access_axioms
  by (auto simp: mix_format_def sample_size_def sample_load_def sample_store_def store_norm_def format_consts)

section \<open>What a copy writes\<close>

lemma copy_channel_frame:
  fixes src :: cras_audio_area and src_mem :: bytes and src_offset s :: nat and x :: real
  assumes "mix_format (format fmt)" "area_ok (sample_size (format fmt)) mem dst" "d < aa_num_channels dst" "dst_offset + n \<le> aa_frames dst"
  defines "res \<equiv> copy_channel dst dst_offset fmt src_mem src src_offset x n s d mem"
  shows "length res = length mem"
    and "j < length mem \<Longrightarrow> \<forall>f<n. \<not> (area_pos dst d (dst_offset + f) \<le> j \<and> j < area_pos dst d (dst_offset + f) + sample_size (format fmt)) \<Longrightarrow> res ! j = mem ! j"
    and "f < n \<Longrightarrow> sample_load (format fmt) res (area_pos dst d (dst_offset + f)) =
      (if ch_set (aa_channels src ! s) AND ch_set (aa_channels dst ! d) = 0 then sample_load (format fmt) mem (area_pos dst d (dst_offset + f))
       else store_norm (format fmt) (stride_sum (format fmt) x (sample_load (format fmt) mem (area_pos dst d (dst_offset + f)))
              (sample_load (format fmt) src_mem (area_pos src s (src_offset + f)))))"
proof -
  let ?k = "sample_size (format fmt)" and ?dc = "aa_channels dst ! d" and ?sc = "aa_channels src ! s"
  let ?dp = "ca_buf ?dc + dst_offset * step_bytes ?dc"
  have pos: "?dp + f * step_bytes ?dc = area_pos dst d (dst_offset + f)" for f by (simp add: area_pos_def algebra_simps)
  have spos: "ca_buf ?sc + src_offset * step_bytes ?sc + f * step_bytes ?sc = area_pos src s (src_offset + f)" for f
    by (simp add: area_pos_def algebra_simps)
  have fit: "samples_fit ?k mem ?dp (step_bytes ?dc) n"
    using assms(2-4) unfolding samples_fit_def pos area_ok_def by auto
  note acc = fmt_access [OF assms(1)]
  have eq: "res = (if ch_set ?sc AND ch_set ?dc = 0 then mem else mix_loop (sample_load (format fmt)) (sample_store (format fmt)) (stride_sum (format fmt) x)
      mem ?dp (step_bytes ?dc) src_mem (ca_buf ?sc + src_offset * step_bytes ?sc) (step_bytes ?sc) n)"
    by (simp add: res_def copy_channel_def Let_def stride_eq [OF assms(1)])
  show "length res = length mem" using sample_access.mix_loop_frame(1) [OF acc fit] by (simp add: eq)
  show "res ! j = mem ! j" if "j < length mem"
    "\<forall>f<n. \<not> (area_pos dst d (dst_offset + f) \<le> j \<and> j < area_pos dst d (dst_offset + f) + ?k)"
    using sample_access.mix_loop_frame(2) [OF acc fit that(1)] that(2) by (auto simp: eq in_sample_def pos)
  show "sample_load (format fmt) res (area_pos dst d (dst_offset + f)) =
      (if ch_set ?sc AND ch_set ?dc = 0 then sample_load (format fmt) mem (area_pos dst d (dst_offset + f))
       else store_norm (format fmt) (stride_sum (format fmt) x (sample_load (format fmt) mem (area_pos dst d (dst_offset + f)))
              (sample_load (format fmt) src_mem (area_pos src s (src_offset + f)))))" if "f < n"
    using sample_access.load_mix_loop [OF acc fit that] by (simp add: eq pos spos)
qed

text \<open>What all source channels together make of a destination sample.\<close>

definition mixed_channels :: "int \<Rightarrow> real \<Rightarrow> bytes \<Rightarrow> cras_audio_area \<Rightarrow> nat \<Rightarrow> int \<Rightarrow> nat \<Rightarrow> int \<Rightarrow> int" where
  "mixed_channels fmt x src_mem src f chans n v =
     foldl (\<lambda>v s. if ch_set (aa_channels src ! s) AND chans = 0 then v
                  else store_norm fmt (stride_sum fmt x v (sample_load fmt src_mem (area_pos src s f)))) v [0..<n]"

lemma mixed_channels_Suc:
  "mixed_channels fmt x src_mem src f chans (Suc n) v =
     (if ch_set (aa_channels src ! n) AND chans = 0 then mixed_channels fmt x src_mem src f chans n v
      else store_norm fmt (stride_sum fmt x (mixed_channels fmt x src_mem src f chans n v) (sample_load fmt src_mem (area_pos src n f))))"
  by (simp add: mixed_channels_def)

text \<open>The state of the destination while the channels \<open>s\<close> are copied: \<open>D\<close> says how many source channels a destination channel has
  received.\<close>

definition copied ::
  "cras_audio_area \<Rightarrow> nat \<Rightarrow> int \<Rightarrow> bytes \<Rightarrow> bytes \<Rightarrow> cras_audio_area \<Rightarrow> nat \<Rightarrow> real \<Rightarrow> nat \<Rightarrow> (nat \<Rightarrow> nat) \<Rightarrow> bytes \<Rightarrow> bool" where
  "copied dst dst_offset fmt mem0 src_mem src src_offset x n D mem \<longleftrightarrow> length mem = length mem0 \<and>
     (\<forall>j<length mem0. \<not> in_frames (sample_size fmt) dst dst_offset n j \<longrightarrow> mem ! j = mem0 ! j) \<and>
     (\<forall>d<aa_num_channels dst. \<forall>f<n. sample_load fmt mem (area_pos dst d (dst_offset + f)) =
        mixed_channels fmt x src_mem src (src_offset + f) (ch_set (aa_channels dst ! d)) (D d) (sample_load fmt mem0 (area_pos dst d (dst_offset + f))))"

lemma copied_step:
  assumes "mix_format (format fmt)" "area_ok (sample_size (format fmt)) mem0 dst" "area_disjoint (sample_size (format fmt)) dst"
    and "d < aa_num_channels dst" "dst_offset + n \<le> aa_frames dst" "D d = s"
    and c: "copied dst dst_offset (format fmt) mem0 src_mem src src_offset x n D mem"
  shows "copied dst dst_offset (format fmt) mem0 src_mem src src_offset x n (D(d := Suc s))
    (copy_channel dst dst_offset fmt src_mem src src_offset x n s d mem)"
proof -
  let ?k = "sample_size (format fmt)" and ?res = "copy_channel dst dst_offset fmt src_mem src src_offset x n s d mem"
  note acc = fmt_access [OF assms(1)]
  have len: "length mem = length mem0" using c by (simp add: copied_def)
  then have ok: "area_ok ?k mem dst" using assms(2) by (simp add: area_ok_def)
  note cc = copy_channel_frame [OF assms(1) ok assms(4,5), where s = s and src = src and src_mem = src_mem and src_offset = src_offset and x = x]
  have other: "sample_load (format fmt) ?res (area_pos dst d' (dst_offset + f)) = sample_load (format fmt) mem (area_pos dst d' (dst_offset + f))"
    if d': "d' < aa_num_channels dst" "d' \<noteq> d" "f < n" for d' f
  proof (rule sample_access.load_cong [OF acc])
    show "length ?res = length mem" by (rule cc(1))
    show "area_pos dst d' (dst_offset + f) + ?k \<le> length ?res" using ok d' assms(5) unfolding cc(1) area_ok_def by auto
    fix j assume j: "area_pos dst d' (dst_offset + f) \<le> j" "j < area_pos dst d' (dst_offset + f) + ?k"
    have "j < length mem" using j ok d' assms(5) unfolding area_ok_def by (meson add_less_cancel_left less_le_trans)
    moreover have "\<not> (area_pos dst d (dst_offset + g) \<le> j \<and> j < area_pos dst d (dst_offset + g) + ?k)" if "g < n" for g
    proof -
      have "area_pos dst d (dst_offset + g) + ?k \<le> area_pos dst d' (dst_offset + f) \<or> area_pos dst d' (dst_offset + f) + ?k \<le> area_pos dst d (dst_offset + g)"
        using assms(3-5) d' that unfolding area_disjoint_def by (metis add_less_cancel_left less_le_trans)
      then show ?thesis using j by auto
    qed
    ultimately show "?res ! j = mem ! j" using cc(2) by blast
  qed
  show ?thesis unfolding copied_def
  proof (intro conjI allI impI)
    show "length ?res = length mem0" using cc(1) len by simp
    show "?res ! j = mem0 ! j" if "j < length mem0" "\<not> in_frames ?k dst dst_offset n j" for j
      using cc(2) [of j] that c len assms(4) by (auto simp: copied_def in_frames_def)
    fix d' f assume d': "d' < aa_num_channels dst" "f < n"
    show "sample_load (format fmt) ?res (area_pos dst d' (dst_offset + f)) = mixed_channels (format fmt) x src_mem src (src_offset + f)
        (ch_set (aa_channels dst ! d')) ((D(d := Suc s)) d') (sample_load (format fmt) mem0 (area_pos dst d' (dst_offset + f)))"
    proof (cases "d' = d")
      case True
      then show ?thesis using cc(3) [OF d'(2)] c assms(4,6) d'(2) by (simp add: copied_def mixed_channels_Suc)
    next
      case False
      then show ?thesis using other [OF d'(1) False d'(2)] c d' by (simp add: copied_def)
    qed
  qed
qed

lemma copied_inner:
  assumes "mix_format (format fmt)" "area_ok (sample_size (format fmt)) mem0 dst" "area_disjoint (sample_size (format fmt)) dst" "dst_offset + n \<le> aa_frames dst"
    and "copied dst dst_offset (format fmt) mem0 src_mem src src_offset x n (\<lambda>_. s) mem" "m \<le> aa_num_channels dst"
  shows "copied dst dst_offset (format fmt) mem0 src_mem src src_offset x n (\<lambda>d. if d < m then Suc s else s)
    (for_frames m (copy_channel dst dst_offset fmt src_mem src src_offset x n s) mem)"
  using assms(6)
proof (induction m)
  case (Suc m)
  have "(\<lambda>d. if d < m then Suc s else s)(m := Suc s) = (\<lambda>d. if d < Suc m then Suc s else s)" by (auto simp: less_Suc_eq)
  then show ?case using copied_step [OF assms(1-3) _ assms(4), of m "\<lambda>d. if d < m then Suc s else s" s] Suc by simp
qed (use assms(5) in simp)

lemma copied_outer:
  assumes "mix_format (format fmt)" "area_ok (sample_size (format fmt)) mem dst" "area_disjoint (sample_size (format fmt)) dst" "dst_offset + n \<le> aa_frames dst"
  shows "copied dst dst_offset (format fmt) mem src_mem src src_offset x n (\<lambda>_. m)
    (for_frames m (\<lambda>s. for_frames (aa_num_channels dst) (copy_channel dst dst_offset fmt src_mem src src_offset x n s)) mem)"
proof (induction m)
  case 0
  then show ?case by (simp add: copied_def mixed_channels_def)
next
  case (Suc m)
  from copied_inner [OF assms Suc, of "aa_num_channels dst"] show ?case by (auto simp: copied_def)
qed


section \<open>Interleaved areas\<close>

lemma for_frames_update:
  "length (for_frames n (\<lambda>i xs. xs[i := g i (xs ! i)]) xs) = length xs \<and>
   (\<forall>i<length xs. for_frames n (\<lambda>i xs. xs[i := g i (xs ! i)]) xs ! i = (if i < n then g i (xs ! i) else xs ! i))"
  by (induction n) (auto simp: nth_list_update less_Suc_eq)

text \<open>\<open>cras_audio_area_config_buf_pointers\<close> describes interleaved frames: the frames lie one after the other and the
  channels of a frame too, so that the conditions of a copy hold for every area it sets up over enough memory.\<close>

lemma config_buf_pointers_pos:
  assumes "aa_num_channels a \<le> length (aa_channels a)" "c < aa_num_channels a"
  shows "area_pos (cras_audio_area_config_buf_pointers width a fmt base) c f
    = base + c * nat (width (format fmt) sdiv 8) + f * nat (cras_get_format_bytes width fmt)"
    "step_bytes (aa_channels (cras_audio_area_config_buf_pointers width a fmt base) ! c) = nat (cras_get_format_bytes width fmt)"
  using assms for_frames_update [of "aa_num_channels a"
      "\<lambda>i ca. ca\<lparr>step_bytes := nat (cras_get_format_bytes width fmt), ca_buf := base + i * nat (width (format fmt) sdiv 8)\<rparr>" "aa_channels a"]
  by (simp_all add: area_pos_def cras_audio_area_config_buf_pointers_def Let_def)

lemma interleaved_area:
  assumes "aa_num_channels a = nat (num_channels fmt)" "aa_num_channels a \<le> length (aa_channels a)" "0 < num_channels fmt"
    and "width (format fmt) sdiv 8 = int (sample_size (format fmt))" "num_channels fmt < 2 ^ 32"
    and "base + aa_frames a * nat (cras_get_format_bytes width fmt) \<le> length mem"
  defines "b \<equiv> cras_audio_area_config_buf_pointers width a fmt base"
  shows "area_ok (sample_size (format fmt)) mem b" "area_disjoint (sample_size (format fmt)) b"
proof -
  let ?k = "sample_size (format fmt)" and ?n = "aa_num_channels a"
  have k: "0 < ?k" "?k \<le> 4" by (simp_all add: sample_size_def)
  have small: "int ?k * num_channels fmt < 2 ^ 64"
  proof -
    have "int ?k * num_channels fmt \<le> 4 * 2 ^ 32" using k assms(3,5) by (intro mult_mono) auto
    then show ?thesis by simp
  qed
  have fb: "nat (cras_get_format_bytes width fmt) = ?k * ?n"
  proof -
    have "u64 (int ?k) = int ?k" using k by (intro wrap_u_id) auto
    then have "cras_get_format_bytes width fmt = int ?k * num_channels fmt"
      using assms(3) small by (simp add: cras_get_format_bytes_def assms(4) wrap_u_id)
    then show ?thesis using assms(1,3) by (simp add: nat_mult_distrib)
  qed
  have pos: "area_pos b c f = base + c * ?k + f * (?k * ?n)" "step_bytes (aa_channels b ! c) = ?k * ?n" if "c < ?n" for c f
    using config_buf_pointers_pos [OF assms(2) that, of width fmt base] by (simp_all add: b_def fb assms(4))
  have n: "aa_num_channels b = ?n" "aa_frames b = aa_frames a" by (simp_all add: b_def cras_audio_area_config_buf_pointers_def Let_def)
  have chan: "c * ?k + ?k \<le> ?k * ?n" if "c < ?n" for c
    using mult_le_mono1 [OF Suc_leI [OF that], of ?k] by (simp add: mult.commute)
  have frm: "f * (?k * ?n) + ?k * ?n \<le> g * (?k * ?n)" if "f < g" for f g
    using mult_le_mono1 [OF Suc_leI [OF that], of "?k * ?n"] by simp
  show "area_ok ?k mem b" unfolding area_ok_def n
  proof (intro allI impI conjI)
    fix c assume c: "c < ?n"
    show "?k \<le> step_bytes (aa_channels b ! c)" using pos(2) [OF c] c by (cases ?n) auto
    fix f assume "f < aa_frames a"
    then show "area_pos b c f + ?k \<le> length mem" using pos(1) [OF c, of f] chan [OF c] frm [of f "aa_frames a"] assms(6) by (simp add: fb)
  qed
  show "area_disjoint ?k b" unfolding area_disjoint_def n
  proof (intro allI impI)
    fix c c' f f' :: nat assume c: "c < ?n" "c' < ?n" "c \<noteq> c'"
    note cs = chan [OF c(1)] chan [OF c(2)] and p = pos(1) [OF c(1), of f] pos(1) [OF c(2), of f']
    consider "f < f'" | "f' < f" | "f = f'" "c < c'" | "f = f'" "c' < c" using c(3) by linarith
    then show "area_pos b c f + ?k \<le> area_pos b c' f' \<or> area_pos b c' f' + ?k \<le> area_pos b c f"
    proof cases
      case 1
      then show ?thesis using frm [OF 1] cs p by simp
    next
      case 2
      then show ?thesis using frm [OF 2] cs p by simp
    next
      case 3
      have "Suc c * ?k \<le> c' * ?k" using 3 by (intro mult_le_mono1) simp
      then show ?thesis using 3 p by simp
    next
      case 4
      have "Suc c' * ?k \<le> c * ?k" using 4 by (intro mult_le_mono1) simp
      then show ?thesis using 4 p by simp
    qed
  qed
qed

text \<open>A stereo frame is copied into the second of two frames.\<close>

definition stereo_s16 :: cras_audio_format where
  "stereo_s16 = cras_audio_format_create SND_PCM_FORMAT_S16_LE 48000 2"

definition s16_width :: "int \<Rightarrow> int" where "s16_width _ = 16"

definition stereo_area :: "nat \<Rightarrow> cras_audio_area" where
  "stereo_area frames = cras_audio_area_config_buf_pointers s16_width
     ((cras_audio_area_config_channels (cras_audio_area_create 2) stereo_s16)\<lparr>aa_frames := frames\<rparr>) stereo_s16 0"

lemma stereo_area_eq:
  "stereo_area frames = \<lparr>aa_frames = frames, aa_num_channels = 2,
     aa_channels = [\<lparr>ch_set = 1, step_bytes = 4, ca_buf = 0\<rparr>, \<lparr>ch_set = 2, step_bytes = 4, ca_buf = 2\<rparr>]\<rparr>"
  by (simp add: stereo_area_def cras_audio_area_config_buf_pointers_def cras_audio_area_config_channels_def cras_audio_area_create_def
      stereo_s16_def cras_audio_format_create_def s16_width_def cras_get_format_bytes_def channel_area_set_channel_def
      CRAS_CH_MAX_def for_frames_def upt_rec numeral_2_eq_2 sdiv_eq_div wrap_u_def)

lemma stereo_area_ok:
  assumes "4 * frames \<le> length mem"
  shows "area_ok (sample_size (format stereo_s16)) mem (stereo_area frames)" "area_disjoint (sample_size (format stereo_s16)) (stereo_area frames)"
proof -
  let ?a = "(cras_audio_area_config_channels (cras_audio_area_create 2) stereo_s16)\<lparr>aa_frames := frames\<rparr>"
  have a: "aa_num_channels ?a = nat (num_channels stereo_s16)" "aa_num_channels ?a \<le> length (aa_channels ?a)" "0 < num_channels stereo_s16"
    "s16_width (format stereo_s16) sdiv 8 = int (sample_size (format stereo_s16))" "num_channels stereo_s16 < 2 ^ 32"
    "0 + aa_frames ?a * nat (cras_get_format_bytes s16_width stereo_s16) \<le> length mem"
    using assms by (simp_all add: cras_audio_area_config_channels_def cras_audio_area_create_def stereo_s16_def cras_audio_format_create_def
      sample_size_def format_consts s16_width_def cras_get_format_bytes_def for_frames_def upt_rec CRAS_CH_MAX_def sdiv_eq_div wrap_u_def)
  show "area_ok (sample_size (format stereo_s16)) mem (stereo_area frames)" "area_disjoint (sample_size (format stereo_s16)) (stereo_area frames)"
    using interleaved_area [OF a] by (simp_all add: stereo_area_def)
qed


end
