(* ===== verification/Linear_Resampler.thy ===== *)
theory Linear_Resampler
  imports Cras_Mix
begin

text \<open>
  The linear resampler (\<open>cras/src/server/linear_resampler.c\<close>), with which a device's clock is followed: it makes
  a stream slightly faster or slower by interpolating between adjacent frames. \<open>float\<close> and \<open>double\<close>
  results are rounded to 24 and 53 bits; an \<open>unsigned int\<close> converted to \<open>float\<close> is rounded, to \<open>double\<close> it is exact.
  The rates are positive.

  The source and the destination are different buffers. None is the loop that never ends of
  \<open>linear_resampler_resample\<close>, when both rates are below 0.01.
\<close>

section \<open>Model\<close>

record linear_resampler =
  lr_num_channels :: nat
  lr_format_bytes :: nat
  lr_format_width :: nat
  lr_src_offset :: int
  lr_dst_offset :: int
  lr_to_times_100 :: int
  lr_from_times_100 :: int
  lr_f :: real

definition linear_resampler_set_rates :: "linear_resampler \<Rightarrow> real \<Rightarrow> real \<Rightarrow> linear_resampler" where
  "linear_resampler_set_rates lr src_rate dst_rate =
     lr\<lparr>lr_f := f32 (dst_rate / src_rate), lr_to_times_100 := u32 (c_trunc (f32 (dst_rate * 100))),
        lr_from_times_100 := u32 (c_trunc (f32 (src_rate * 100))), lr_src_offset := 0, lr_dst_offset := 0\<rparr>"

definition linear_resampler_create :: "bool \<Rightarrow> nat \<Rightarrow> nat \<Rightarrow> real \<Rightarrow> real \<Rightarrow> linear_resampler option" where
  "linear_resampler_create alloc channels format_bytes src_rate dst_rate =
     (let lr = \<lparr>lr_num_channels = channels, lr_format_bytes = format_bytes, lr_format_width = format_bytes div channels,
               lr_src_offset = 0, lr_dst_offset = 0, lr_to_times_100 = 0, lr_from_times_100 = 0, lr_f = 0\<rparr>
      in if \<not> alloc then None
         else if lr_format_width lr \<noteq> 2 \<and> lr_format_width lr \<noteq> 4 then None
         else Some (linear_resampler_set_rates lr src_rate dst_rate))"

definition linear_resampler_out_frames_to_in :: "linear_resampler \<Rightarrow> int \<Rightarrow> int" where
  "linear_resampler_out_frames_to_in lr frames =
     (if frames = 0 then 0
      else
        let in_frames = f32 (f32 (of_int (u32 (lr_dst_offset lr + frames))) / lr_f lr)
        in if in_frames > f32 (of_int (lr_src_offset lr))
           then u32 (1 + u32 (c_trunc (f32 (in_frames - f32 (of_int (lr_src_offset lr)))))) else 1)"

definition linear_resampler_in_frames_to_out :: "linear_resampler \<Rightarrow> int \<Rightarrow> int" where
  "linear_resampler_in_frames_to_out lr frames =
     (if frames = 0 then 0
      else
        let out_frames = f32 (lr_f lr * f32 (of_int (u32 (lr_src_offset lr + frames - 1))))
        in if out_frames > f32 (of_int (lr_dst_offset lr))
           then u32 (1 + u32 (c_trunc (f32 (out_frames - f32 (of_int (lr_dst_offset lr)))))) else 1)"

definition linear_resampler_needed :: "linear_resampler \<Rightarrow> bool" where
  "linear_resampler_needed lr \<longleftrightarrow> lr_from_times_100 lr \<noteq> lr_to_times_100 lr"

text \<open>The position in the source of destination frame \<open>dst_idx\<close>.\<close>

definition src_position :: "linear_resampler \<Rightarrow> nat \<Rightarrow> real" where
  "src_position lr dst_idx =
     (let src_pos = f64 (of_int (u32 (lr_dst_offset lr + int dst_idx)) / lr_f lr)
      in if src_pos > of_int (lr_src_offset lr) then f64 (src_pos - of_int (lr_src_offset lr)) else 0)"

text \<open>One sample: \<open>v\<close> and \<open>w\<close> are the samples of the frame and of the next one. The difference of two samples is an
  \<open>int\<close>.\<close>

definition interpolate :: "real \<Rightarrow> nat \<Rightarrow> int \<Rightarrow> int \<Rightarrow> int" where
  "interpolate src_pos src_idx v v' =
     cvt 32 (f64 (of_int v + f64 (f64 (src_pos - of_nat src_idx) * of_int (s32 (v' - v)))))"

definition resample_frame :: "linear_resampler \<Rightarrow> bytes \<Rightarrow> nat \<Rightarrow> nat \<Rightarrow> nat \<Rightarrow> real \<Rightarrow> bytes \<Rightarrow> nat \<Rightarrow> nat \<Rightarrow> bytes" where
  "resample_frame lr src sp src_frames src_idx src_pos dst dp dst_idx =
     (let inp = sp + src_idx * lr_format_bytes lr; out = dp + dst_idx * lr_format_bytes lr; nc = lr_num_channels lr in
      if lr_format_width lr = 2 then
        for_frames nc (\<lambda>ch dst. st_s16 dst (out + ch * 2)
          (if src_idx = src_frames - 1 then ld_s16 src (inp + ch * 2)
           else interpolate src_pos src_idx (ld_s16 src (inp + ch * 2)) (ld_s16 src (inp + (nc + ch) * 2)))) dst
      else if lr_format_width lr = 4 then
        for_frames nc (\<lambda>ch dst. st_s32 dst (out + ch * 4)
          (if src_idx = src_frames - 1 then ld_s32 src (inp + ch * 4)
           else interpolate src_pos src_idx (ld_s32 src (inp + ch * 4)) (ld_s32 src (inp + (nc + ch) * 4)))) dst
      else dst)"

text \<open>The loop over \<open>dst_idx\<close>: \<open>src_idx\<close> and \<open>dst_idx\<close> at its end, and the destination. It leaves at the latest
  at \<open>dst_frames\<close>.\<close>

function resample_loop :: "linear_resampler \<Rightarrow> bytes \<Rightarrow> nat \<Rightarrow> nat \<Rightarrow> nat \<Rightarrow> nat \<Rightarrow> bytes \<Rightarrow> nat \<Rightarrow> nat \<times> nat \<times> bytes" where
  "resample_loop lr src sp src_frames dp dst_frames dst dst_idx =
     (let src_pos = src_position lr dst_idx; src_idx = nat \<lfloor>src_pos\<rfloor> in
      if src_pos > of_nat (src_frames - 1) \<or> dst_idx \<ge> dst_frames then
        (if src_pos > of_nat (src_frames - 1) then src_frames - 1 else src_idx, dst_idx, dst)
      else resample_loop lr src sp src_frames dp dst_frames
             (resample_frame lr src sp src_frames src_idx src_pos dst dp dst_idx) (Suc dst_idx))"
  by pat_completeness auto
termination
  by (relation "measure (\<lambda>(lr, src, sp, src_frames, dp, dst_frames, dst, dst_idx). dst_frames - dst_idx)") auto

declare resample_loop.simps [simp del]

text \<open>The \<open>while\<close> loop that keeps the offsets small.\<close>

partial_function (option) reduce_offsets :: "int \<Rightarrow> int \<Rightarrow> int \<Rightarrow> int \<Rightarrow> (int \<times> int) option" where
  "reduce_offsets from100 to100 src_offset dst_offset =
     (if src_offset > from100 \<and> dst_offset > to100
      then reduce_offsets from100 to100 (src_offset - from100) (dst_offset - to100)
      else Some (src_offset, dst_offset))"

text \<open>The result: the frames written, \<open>*src_frames\<close>, the resampler and the destination.\<close>

definition linear_resampler_resample ::
  "linear_resampler \<Rightarrow> bytes \<Rightarrow> nat \<Rightarrow> nat \<Rightarrow> bytes \<Rightarrow> nat \<Rightarrow> nat \<Rightarrow> (nat \<times> nat \<times> linear_resampler \<times> bytes) option" where
  "linear_resampler_resample lr src sp src_frames dst dp dst_frames =
     (if dst_frames = 0 \<or> src_frames = 0 then Some (0, 0, lr, dst)
      else
        let (src_idx, dst_idx, dst) = resample_loop lr src sp src_frames dp dst_frames dst 0;
            used = src_idx + 1
        in case reduce_offsets (lr_from_times_100 lr) (lr_to_times_100 lr)
                  (u32 (lr_src_offset lr + int used)) (u32 (lr_dst_offset lr + int dst_idx)) of
             None \<Rightarrow> None
           | Some (so, d) \<Rightarrow> Some (dst_idx, used, lr\<lparr>lr_src_offset := so, lr_dst_offset := d\<rparr>, dst))"

section \<open>Positions\<close>

definition lr_ok :: "linear_resampler \<Rightarrow> bool" where
  "lr_ok lr \<longleftrightarrow> 0 < lr_num_channels lr \<and> (lr_format_width lr = 2 \<or> lr_format_width lr = 4) \<and>
     lr_format_bytes lr = lr_num_channels lr * lr_format_width lr \<and> 0 < lr_f lr \<and>
     0 \<le> lr_from_times_100 lr \<and> 0 \<le> lr_to_times_100 lr \<and> 0 < lr_from_times_100 lr + lr_to_times_100 lr"

lemma src_position_nonneg: "0 < lr_f lr \<Longrightarrow> 0 \<le> src_position lr i"
  by (auto simp: src_position_def Let_def intro!: fround_nonneg)

lemma reduce_offsets_returns:
  assumes "0 \<le> from100" "0 \<le> to100" "0 < from100 + to100"
  shows "\<exists>s d. reduce_offsets from100 to100 so d0 = Some (s, d) \<and> s \<le> so \<and> d \<le> d0 \<and> (0 \<le> so \<longrightarrow> 0 \<le> s) \<and> (0 \<le> d0 \<longrightarrow> 0 \<le> d)"
proof (induction "nat so + nat d0" arbitrary: so d0 rule: less_induct)
  case less
  show ?case
  proof (cases "so > from100 \<and> d0 > to100")
    case True
    then have "nat (so - from100) + nat (d0 - to100) < nat so + nat d0" using assms by linarith
    from less [OF this] True assms show ?thesis by (subst reduce_offsets.simps) fastforce
  next
    case False
    then show ?thesis by (subst reduce_offsets.simps) auto
  qed
qed

section \<open>Loops that store\<close>

context sample_access begin

lemma store_loop_frame:
  assumes "samples_fit k dst dp step count"
  shows "length (for_frames count (\<lambda>i dst. store dst (dp + i * step) (g i)) dst) = length dst \<and>
    (\<forall>j<length dst. j < dp \<or> dp + count * step \<le> j \<longrightarrow> for_frames count (\<lambda>i dst. store dst (dp + i * step) (g i)) dst ! j = dst ! j)"
  using assms
proof (induction count)
  case (Suc n)
  then have room: "dp + n * step + k \<le> length dst" "k \<le> step" and IH: "samples_fit k dst dp step n" by (simp_all add: samples_fit_def)
  show ?case using Suc.IH [OF IH] room by (auto simp: length_store intro: store_other [THEN trans])
qed simp

lemma load_store_loop:
  assumes "samples_fit k dst dp step count" "i < count"
  shows "load (for_frames count (\<lambda>i dst. store dst (dp + i * step) (g i)) dst) (dp + i * step) = norm (g i)"
  using assms
proof (induction count)
  case (Suc n)
  let ?m = "for_frames n (\<lambda>i dst. store dst (dp + i * step) (g i)) dst"
  have fit: "samples_fit k dst dp step n" and room: "dp + n * step + k \<le> length dst" "k \<le> step" using Suc.prems by (simp_all add: samples_fit_def)
  have len: "length ?m = length dst" using store_loop_frame [OF fit] by blast
  show ?case
  proof (cases "i = n")
    case True
    then show ?thesis using room len by (simp add: load_store)
  next
    case False
    then have i: "i < n" using Suc.prems by simp
    have sep: "dp + i * step + k \<le> dp + n * step" using mult_le_mono1 [OF Suc_leI [OF i], of step] room(2) by simp
    have "load (store ?m (dp + n * step) (g n)) (dp + i * step) = load ?m (dp + i * step)"
      using room len sep by (intro load_cong) (auto simp: length_store intro!: store_other)
    then show ?thesis using Suc.IH [OF fit i] by simp
  qed
qed simp

end

section \<open>One frame\<close>

definition frame_sample :: "linear_resampler \<Rightarrow> bytes \<Rightarrow> nat \<Rightarrow> nat \<Rightarrow> nat \<Rightarrow> int" where
  "frame_sample lr mem p i ch =
     (if lr_format_width lr = 2 then ld_s16 else ld_s32) mem (p + i * lr_format_bytes lr + ch * lr_format_width lr)"

text \<open>What the resampler makes of the source for destination frame \<open>i\<close>.\<close>

definition resampled :: "linear_resampler \<Rightarrow> bytes \<Rightarrow> nat \<Rightarrow> nat \<Rightarrow> nat \<Rightarrow> nat \<Rightarrow> int" where
  "resampled lr src sp src_frames i ch =
     (let pos = src_position lr i; k = nat \<lfloor>pos\<rfloor>; v = frame_sample lr src sp k ch in
      if k = src_frames - 1 then v else (if lr_format_width lr = 2 then s16 else s32) (interpolate pos k v (frame_sample lr src sp (Suc k) ch)))"

lemma resample_frame_spec:
  assumes "lr_ok lr" "dp + i * lr_format_bytes lr + lr_format_bytes lr \<le> length dst"
  defines "pos \<equiv> src_position lr i"
  shows "length (resample_frame lr src sp src_frames (nat \<lfloor>pos\<rfloor>) pos dst dp i) = length dst"
    and "j < length dst \<Longrightarrow> j < dp + i * lr_format_bytes lr \<or> dp + i * lr_format_bytes lr + lr_format_bytes lr \<le> j \<Longrightarrow>
      resample_frame lr src sp src_frames (nat \<lfloor>pos\<rfloor>) pos dst dp i ! j = dst ! j"
    and "ch < lr_num_channels lr \<Longrightarrow> frame_sample lr (resample_frame lr src sp src_frames (nat \<lfloor>pos\<rfloor>) pos dst dp i) dp i ch
      = resampled lr src sp src_frames i ch"
proof -
  let ?out = "dp + i * lr_format_bytes lr" and ?n = "lr_num_channels lr" and ?r = "resample_frame lr src sp src_frames (nat \<lfloor>pos\<rfloor>) pos dst dp i"
  have sum: "a + (n + c) * w = a + n * w + c * w" for a n c w :: nat by (simp add: algebra_simps)
  have "length ?r = length dst \<and> (\<forall>j<length dst. j < ?out \<or> ?out + lr_format_bytes lr \<le> j \<longrightarrow> ?r ! j = dst ! j) \<and>
     (ch < ?n \<longrightarrow> frame_sample lr ?r dp i ch = resampled lr src sp src_frames i ch)"
  proof (cases "lr_format_width lr = 2")
    case True
    have fb: "lr_format_bytes lr = ?n * 2" using assms(1) True by (simp add: lr_ok_def)
    have fit: "samples_fit 2 dst ?out 2 ?n" using assms(2) fb by (intro samples_fit_packed) simp
    show ?thesis using True fb s16_acc.store_loop_frame [OF fit] s16_acc.load_store_loop [OF fit, of ch]
      by (simp add: resample_frame_def Let_def frame_sample_def resampled_def pos_def sum algebra_simps)
  next
    case False
    then have w: "lr_format_width lr = 4" "lr_format_bytes lr = ?n * 4" using assms(1) by (auto simp: lr_ok_def)
    have fit: "samples_fit 4 dst ?out 4 ?n" using assms(2) w by (intro samples_fit_packed) simp
    show ?thesis using w s32_acc.store_loop_frame [OF fit] s32_acc.load_store_loop [OF fit, of ch]
      by (simp add: resample_frame_def Let_def frame_sample_def resampled_def pos_def sum algebra_simps)
  qed
  then show "length ?r = length dst" "j < length dst \<Longrightarrow> j < ?out \<or> ?out + lr_format_bytes lr \<le> j \<Longrightarrow> ?r ! j = dst ! j"
    "ch < ?n \<Longrightarrow> frame_sample lr ?r dp i ch = resampled lr src sp src_frames i ch" by auto
qed

section \<open>The whole buffer\<close>

lemma frame_room: "i < n \<Longrightarrow> dp + n * fb \<le> len \<Longrightarrow> dp + i * fb + fb \<le> len" for dp fb len :: nat
  using mult_le_mono1 [OF Suc_leI, of i n fb] by simp

lemma frame_sample_cong:
  assumes "lr_ok lr" "ch < lr_num_channels lr" "length mem = length mem'" "p + i * lr_format_bytes lr + lr_format_bytes lr \<le> length mem"
    and "\<And>j. p + i * lr_format_bytes lr \<le> j \<Longrightarrow> j < p + i * lr_format_bytes lr + lr_format_bytes lr \<Longrightarrow> mem ! j = mem' ! j"
  shows "frame_sample lr mem p i ch = frame_sample lr mem' p i ch"
proof -
  have fb: "ch * lr_format_width lr + lr_format_width lr \<le> lr_format_bytes lr"
    using mult_le_mono1 [OF Suc_leI [OF assms(2)], of "lr_format_width lr"] assms(1) by (simp add: lr_ok_def)
  show ?thesis
  proof (cases "lr_format_width lr = 2")
    case True
    then show ?thesis unfolding frame_sample_def using fb assms(3-5) by (auto intro!: s16_acc.load_cong)
  next
    case False
    then have "lr_format_width lr = 4" using assms(1) by (simp add: lr_ok_def)
    then show ?thesis unfolding frame_sample_def using fb assms(3-5) by (auto intro!: s32_acc.load_cong)
  qed
qed

lemma resample_loop_spec:
  assumes "lr_ok lr" "0 < src_frames" "dp + dst_frames * lr_format_bytes lr \<le> length dst" "i \<le> dst_frames"
    and "resample_loop lr src sp src_frames dp dst_frames dst i = (si, di, dst')"
  shows "si < src_frames \<and> i \<le> di \<and> di \<le> dst_frames \<and> length dst' = length dst \<and>
    (\<forall>j<length dst. j < dp + i * lr_format_bytes lr \<or> dp + di * lr_format_bytes lr \<le> j \<longrightarrow> dst' ! j = dst ! j) \<and>
    (\<forall>g. i \<le> g \<longrightarrow> g < di \<longrightarrow> src_position lr g \<le> real (src_frames - 1) \<and>
       (\<forall>ch<lr_num_channels lr. frame_sample lr dst' dp g ch = resampled lr src sp src_frames g ch))"
  using assms
proof (induction lr src sp src_frames dp dst_frames dst i rule: resample_loop.induct)
  case (1 lr src sp src_frames dp dst_frames dst i)
  let ?pos = "src_position lr i" and ?fb = "lr_format_bytes lr"
  let ?r = "resample_frame lr src sp src_frames (nat \<lfloor>src_position lr i\<rfloor>) (src_position lr i) dst dp i"
  show ?case
  proof (cases "?pos > real (src_frames - 1) \<or> i \<ge> dst_frames")
    case True
    then have r: "si = (if ?pos > real (src_frames - 1) then src_frames - 1 else nat \<lfloor>?pos\<rfloor>)" "di = i" "dst' = dst"
      using "1.prems"(5) by (auto simp: resample_loop.simps [of lr src sp src_frames dp dst_frames dst i] Let_def)
    have "0 \<le> ?pos" using "1.prems"(1) by (intro src_position_nonneg) (simp add: lr_ok_def)
    then have "\<not> ?pos > real (src_frames - 1) \<Longrightarrow> nat \<lfloor>?pos\<rfloor> \<le> src_frames - 1" by linarith
    then show ?thesis using r "1.prems"(4) "1.prems"(2) by auto
  next
    case False
    have i: "i < dst_frames" using False by simp
    note room = frame_room [OF i "1.prems"(3)]
    note spec = resample_frame_spec [OF "1.prems"(1) room]
    have run: "resample_loop lr src sp src_frames dp dst_frames ?r (Suc i) = (si, di, dst')"
      using "1.prems"(5) False by (simp add: resample_loop.simps [of lr src sp src_frames dp dst_frames dst i] Let_def)
    have IH: "si < src_frames \<and> Suc i \<le> di \<and> di \<le> dst_frames \<and> length dst' = length ?r \<and>
      (\<forall>j<length ?r. j < dp + Suc i * ?fb \<or> dp + di * ?fb \<le> j \<longrightarrow> dst' ! j = ?r ! j) \<and>
      (\<forall>g. Suc i \<le> g \<longrightarrow> g < di \<longrightarrow> src_position lr g \<le> real (src_frames - 1) \<and>
         (\<forall>ch<lr_num_channels lr. frame_sample lr dst' dp g ch = resampled lr src sp src_frames g ch))"
    proof -
      have "dp + dst_frames * ?fb \<le> length ?r" using "1.prems"(3) spec(1) by simp
      from "1.IH" [OF refl refl False "1.prems"(1,2) this Suc_leI [OF i] run] show ?thesis .
    qed
    have keep: "frame_sample lr dst' dp i ch = resampled lr src sp src_frames i ch" if ch: "ch < lr_num_channels lr" for ch
    proof -
      have "frame_sample lr dst' dp i ch = frame_sample lr ?r dp i ch"
        using IH room spec(1) by (intro frame_sample_cong [OF "1.prems"(1) ch]) auto
      then show ?thesis using spec(3) [OF ch] by simp
    qed
    have di: "dp + i * ?fb + ?fb \<le> dp + di * ?fb" using IH mult_le_mono1 [of "Suc i" di ?fb] by simp
    have "dst' ! j = dst ! j" if "j < length dst" "j < dp + i * ?fb \<or> dp + di * ?fb \<le> j" for j
      using IH spec(1) spec(2) [OF that(1)] that di by auto
    moreover have "src_position lr g \<le> real (src_frames - 1) \<and> (\<forall>ch<lr_num_channels lr. frame_sample lr dst' dp g ch = resampled lr src sp src_frames g ch)"
      if "i \<le> g" "g < di" for g
      using IH keep False that by (cases "g = i") auto
    ultimately show ?thesis using IH spec(1) by auto
  qed
qed

text \<open>The source is read within its frames only.\<close>

lemma resample_frame_cong:
  assumes "lr_ok lr" "length src = length src'" "sp + src_frames * lr_format_bytes lr \<le> length src" "k < src_frames"
    and "\<And>j. sp \<le> j \<Longrightarrow> j < sp + src_frames * lr_format_bytes lr \<Longrightarrow> src ! j = src' ! j"
  shows "resample_frame lr src sp src_frames k pos dst dp i = resample_frame lr src' sp src_frames k pos dst dp i"
proof -
  let ?fb = "lr_format_bytes lr" and ?w = "lr_format_width lr"
  have eq: "frame_sample lr src sp g ch = frame_sample lr src' sp g ch" if "ch < lr_num_channels lr" "g < src_frames" for g ch
    using frame_room [OF that(2) assms(3)] mult_le_mono1 [OF Suc_leI [OF that(2)], of ?fb] assms(5)
    by (intro frame_sample_cong [OF assms(1) that(1) assms(2)]) auto
  have nxt: "sp + k * ?fb + (lr_num_channels lr + ch) * ?w = sp + Suc k * ?fb + ch * ?w" for ch
    using assms(1) by (simp add: lr_ok_def algebra_simps)
  have for_cong: "for_frames n b m = for_frames n b' m" if "\<And>i. i < n \<Longrightarrow> b i = b' i" for n m and b b' :: "nat \<Rightarrow> bytes \<Rightarrow> bytes"
    using that by (induction n) auto
  let ?v = "\<lambda>ld src ch. if k = src_frames - 1 then ld src (sp + k * ?fb + ch * ?w)
    else interpolate pos k (ld src (sp + k * ?fb + ch * ?w)) (ld src (sp + k * ?fb + (lr_num_channels lr + ch) * ?w))"
  have val: "?v (if ?w = 2 then ld_s16 else ld_s32) src ch = ?v (if ?w = 2 then ld_s16 else ld_s32) src' ch" if "ch < lr_num_channels lr" for ch
    unfolding nxt using eq [OF that assms(4)] eq [OF that, of "Suc k"] assms(4) by (cases "k = src_frames - 1") (simp_all only: frame_sample_def if_True if_False, simp)
  show ?thesis
  proof (cases "?w = 2")
    case True
    show ?thesis unfolding resample_frame_def Let_def True if_P [OF refl]
      by (intro for_cong ext arg_cong [where f = "st_s16 _ _"]) (use val in \<open>simp only: True if_True simp_thms\<close>)
  next
    case False
    then have w: "?w = 4" using assms(1) by (simp add: lr_ok_def)
    show ?thesis unfolding resample_frame_def Let_def if_not_P [OF False] if_P [OF w]
      by (intro for_cong ext arg_cong [where f = "st_s32 _ _"]) (use val in \<open>simp only: w if_False numeral_eq_iff num.inject num.distinct simp_thms\<close>)
  qed
qed

lemma resample_loop_cong:
  assumes "lr_ok lr" "length src = length src'" "sp + src_frames * lr_format_bytes lr \<le> length src" "0 < src_frames"
    and "\<And>j. sp \<le> j \<Longrightarrow> j < sp + src_frames * lr_format_bytes lr \<Longrightarrow> src ! j = src' ! j"
  shows "resample_loop lr src sp src_frames dp dst_frames dst i = resample_loop lr src' sp src_frames dp dst_frames dst i"
proof (induction "dst_frames - i" arbitrary: dst i)
  case 0
  then show ?case by (subst (1 2) resample_loop.simps) (simp add: Let_def)
next
  case (Suc m)
  show ?case
  proof (cases "src_position lr i > real (src_frames - 1)")
    case False
    have "0 \<le> src_position lr i" using assms(1) by (intro src_position_nonneg) (simp add: lr_ok_def)
    then have "nat \<lfloor>src_position lr i\<rfloor> < src_frames" using False assms(4) by linarith
    from resample_frame_cong [OF assms(1-3) this assms(5)] Suc(1) [of "Suc i"] Suc(2)
    show ?thesis by (subst (1 2) resample_loop.simps) (simp add: Let_def)
  qed (subst (1 2) resample_loop.simps, simp add: Let_def)
qed

lemma resample_spec:
  assumes "lr_ok lr" "sp + src_frames * lr_format_bytes lr \<le> length src" "dp + dst_frames * lr_format_bytes lr \<le> length dst"
  shows "\<exists>n used lr' dst'. linear_resampler_resample lr src sp src_frames dst dp dst_frames = Some (n, used, lr', dst') \<and>
    n \<le> dst_frames \<and> used \<le> src_frames \<and> (0 < src_frames \<and> 0 < dst_frames \<longrightarrow> 0 < used) \<and> length dst' = length dst \<and>
    (\<forall>j<length dst. j < dp \<or> dp + n * lr_format_bytes lr \<le> j \<longrightarrow> dst' ! j = dst ! j) \<and>
    (\<forall>g<n. \<forall>ch<lr_num_channels lr. frame_sample lr dst' dp g ch = resampled lr src sp src_frames g ch) \<and>
    (\<forall>src'. length src' = length src \<and> (\<forall>j. sp \<le> j \<and> j < sp + src_frames * lr_format_bytes lr \<longrightarrow> src ! j = src' ! j) \<longrightarrow>
       linear_resampler_resample lr src' sp src_frames dst dp dst_frames = Some (n, used, lr', dst'))"
proof (cases "dst_frames = 0 \<or> src_frames = 0")
  case True
  then show ?thesis by (auto simp: linear_resampler_resample_def)
next
  case False
  obtain si di dst' where run: "resample_loop lr src sp src_frames dp dst_frames dst 0 = (si, di, dst')" using prod_cases3 by blast
  note spec = resample_loop_spec [OF assms(1) _ assms(3) _ run]
  obtain s d where red: "reduce_offsets (lr_from_times_100 lr) (lr_to_times_100 lr) (u32 (lr_src_offset lr + int (si + 1)))
      (u32 (lr_dst_offset lr + int di)) = Some (s, d)"
    using reduce_offsets_returns [of "lr_from_times_100 lr" "lr_to_times_100 lr"] assms(1) unfolding lr_ok_def by blast
  have eq: "linear_resampler_resample lr src sp src_frames dst dp dst_frames = Some (di, si + 1, lr\<lparr>lr_src_offset := s, lr_dst_offset := d\<rparr>, dst')"
    using False run red by (simp add: linear_resampler_resample_def)
  have "linear_resampler_resample lr src' sp src_frames dst dp dst_frames = Some (di, si + 1, lr\<lparr>lr_src_offset := s, lr_dst_offset := d\<rparr>, dst')"
    if "length src' = length src" "\<forall>j. sp \<le> j \<and> j < sp + src_frames * lr_format_bytes lr \<longrightarrow> src ! j = src' ! j" for src'
  proof -
    have "resample_loop lr src' sp src_frames dp dst_frames dst 0 = (si, di, dst')"
      using resample_loop_cong [OF assms(1) that(1) [symmetric] assms(2), of dp dst_frames dst 0] that(2) False run by auto
    then show ?thesis using False red by (simp add: linear_resampler_resample_def)
  qed
  then show ?thesis using eq spec False by (intro exI [of _ di] exI [of _ "si + 1"] exI [of _ "lr\<lparr>lr_src_offset := s, lr_dst_offset := d\<rparr>"] exI [of _ dst']) auto
qed


section \<open>Interpolation\<close>

lemma f64_int: "\<bar>v\<bar> < 9007199254740992 \<Longrightarrow> f64 (of_int v) = of_int v"
  by (rule fround_int) auto

lemma f64_between:
  assumes "of_int a \<le> x" "x \<le> of_int b" "\<bar>a\<bar> < 9007199254740992" "\<bar>b\<bar> < 9007199254740992"
  shows "of_int a \<le> f64 x" "f64 x \<le> of_int b"
  using fround_mono [OF assms(1), of 53] fround_mono [OF assms(2), of 53] f64_int [OF assms(3)] f64_int [OF assms(4)] by simp_all

lemma interpolate_between:
  assumes "in_s 32 v" "in_s 32 v'" "\<bar>v' - v\<bar> < 2 ^ 31" "of_nat k \<le> pos" "pos < of_nat k + 1"
  shows "min v v' \<le> interpolate pos k v v' \<and> interpolate pos k v v' \<le> max v v'"
proof -
  let ?d = "v' - v" and ?t = "f64 (pos - of_nat k)"
  have d: "s32 ?d = ?d" using assms(3) by (intro in_s_wrap_id) (auto simp: in_s_def)
  have t: "0 \<le> ?t" "?t \<le> 1" using f64_between [of 0 "pos - of_nat k" 1] assms(4,5) by simp_all
  have D: "\<bar>?d\<bar> < 9007199254740992" "\<bar>v\<bar> < 9007199254740992" "\<bar>v'\<bar> < 9007199254740992" using assms(1,2) by (auto simp: in_s_def)
  have m: "of_int (min 0 ?d) \<le> ?t * of_int ?d \<and> ?t * of_int ?d \<le> of_int (max 0 ?d)"
  proof (cases "0 \<le> ?d")
    case True
    then have "0 \<le> ?t * of_int ?d" "?t * of_int ?d \<le> 1 * of_int ?d" using t by (intro mult_nonneg_nonneg mult_right_mono; simp)+
    then show ?thesis using True by simp
  next
    case False
    then have "?t * of_int ?d \<le> 0" "1 * of_int ?d \<le> ?t * of_int ?d" using t by (intro mult_nonneg_nonpos mult_right_mono_neg; simp)+
    then show ?thesis using False by simp
  qed
  from f64_between [OF m [THEN conjunct1] m [THEN conjunct2]] D have p: "of_int (min 0 ?d) \<le> f64 (?t * of_int ?d)" "f64 (?t * of_int ?d) \<le> of_int (max 0 ?d)" by auto
  have "of_int (min v v') = of_int v + of_int (min 0 ?d)" "of_int (max v v') = of_int v + (of_int (max 0 ?d) :: real)"
    by (simp_all add: min_def max_def)
  then have "of_int (min v v') \<le> of_int v + f64 (?t * of_int ?d)" "of_int v + f64 (?t * of_int ?d) \<le> of_int (max v v')" using p by linarith+
  from f64_between [OF this] D have "of_int (min v v') \<le> f64 (of_int v + f64 (?t * of_int ?d))" "f64 (of_int v + f64 (?t * of_int ?d)) \<le> of_int (max v v')"
    by (auto simp: min_def max_def)
  then have b: "min v v' \<le> c_trunc (f64 (of_int v + f64 (?t * of_int ?d)))" "c_trunc (f64 (of_int v + f64 (?t * of_int ?d))) \<le> max v v'"
    by (blast intro: c_trunc_ge c_trunc_le)+
  then have "in_s 32 (c_trunc (f64 (of_int v + f64 (?t * of_int ?d))))" using assms(1,2) by (auto simp: in_s_def)
  then show ?thesis using b by (simp add: interpolate_def d cvt_def)
qed

lemma frame_sample_range: "in_s 32 (frame_sample lr mem p i ch)" "lr_format_width lr = 2 \<Longrightarrow> in_s 16 (frame_sample lr mem p i ch)"
  using load_range(1) load_range(2) in_s_16_32 by (auto simp: frame_sample_def)

lemma resampled_between:
  fixes src :: bytes and sp src_frames ch i :: nat
  assumes "lr_ok lr"
  defines "k \<equiv> nat \<lfloor>src_position lr i\<rfloor>"
  defines "v \<equiv> frame_sample lr src sp k ch"
  defines "v' \<equiv> (if k = src_frames - 1 then v else frame_sample lr src sp (Suc k) ch)"
  assumes "\<bar>v' - v\<bar> < 2 ^ 31"
  shows "min v v' \<le> resampled lr src sp src_frames i ch" "resampled lr src sp src_frames i ch \<le> max v v'"
proof -
  have pos: "0 \<le> src_position lr i" using assms(1) by (intro src_position_nonneg) (simp add: lr_ok_def)
  have k: "real k \<le> src_position lr i" "src_position lr i < real k + 1" using pos unfolding k_def by auto
  have "min v v' \<le> resampled lr src sp src_frames i ch \<and> resampled lr src sp src_frames i ch \<le> max v v'"
  proof (cases "k = src_frames - 1")
    case True
    then show ?thesis by (simp add: resampled_def Let_def v'_def v_def k_def)
  next
    case False
    have b: "min v v' \<le> interpolate (src_position lr i) k v v' \<and> interpolate (src_position lr i) k v v' \<le> max v v'"
      using frame_sample_range(1) False assms(5) k by (intro interpolate_between) (auto simp: v_def v'_def)
    have "(if lr_format_width lr = 2 then s16 else s32) (interpolate (src_position lr i) k v v') = interpolate (src_position lr i) k v v'"
    proof (cases "lr_format_width lr = 2")
      case True
      have "in_s 16 v" "in_s 16 v'" using frame_sample_range(2) [OF True] by (auto simp: v_def v'_def)
      then show ?thesis using b True by (auto simp: in_s_def intro!: in_s_wrap_id)
    next
      case False
      have "in_s 32 v" "in_s 32 v'" using frame_sample_range(1) by (auto simp: v_def v'_def)
      then show ?thesis using b False by (auto simp: in_s_def intro!: in_s_wrap_id)
    qed
    then show ?thesis using b False by (simp add: resampled_def Let_def v'_def v_def k_def)
  qed
  then show "min v v' \<le> resampled lr src sp src_frames i ch" "resampled lr src sp src_frames i ch \<le> max v v'" by auto
qed

text \<open>C29. Resampling never overshoots: every sample that the resampler writes lies between the two source samples
  it is made of, in spite of the rounding of the position and of the products, so that it neither clips nor wraps. For samples of 16 bits
  this always holds; samples of 32 bits must be less than \<open>2 ^ 31\<close> apart.\<close>

theorem resample_no_overshoot:
  assumes "lr_ok lr" "sp + src_frames * lr_format_bytes lr \<le> length src" "dp + dst_frames * lr_format_bytes lr \<le> length dst"
    and "linear_resampler_resample lr src sp src_frames dst dp dst_frames = Some (n, used, lr', dst')" "i < n" "ch < lr_num_channels lr"
  defines "k \<equiv> nat \<lfloor>src_position lr i\<rfloor>"
  defines "v \<equiv> frame_sample lr src sp k ch"
  defines "v' \<equiv> (if k = src_frames - 1 then v else frame_sample lr src sp (Suc k) ch)"
  assumes "lr_format_width lr = 4 \<longrightarrow> \<bar>v' - v\<bar> < 2 ^ 31"
  shows "min v v' \<le> frame_sample lr dst' dp i ch \<and> frame_sample lr dst' dp i ch \<le> max v v'"
proof -
  have "frame_sample lr dst' dp i ch = resampled lr src sp src_frames i ch"
    using resample_spec [OF assms(1-3)] assms(4-6) by auto
  moreover have "\<bar>v' - v\<bar> < 2 ^ 31"
  proof (cases "lr_format_width lr = 2")
    case True
    have "in_s 16 v" "in_s 16 v'" using frame_sample_range(2) [OF True] by (auto simp: v_def v'_def)
    then show ?thesis by (auto simp: in_s_def)
  next
    case False
    then have "lr_format_width lr = 4" using assms(1) by (simp add: lr_ok_def)
    then show ?thesis using assms(10) by blast
  qed
  ultimately show ?thesis using resampled_between [OF assms(1), of i src_frames src sp ch] unfolding v_def v'_def k_def by simp
qed

text \<open>Adjacent samples of 32 bits that are further apart overflow the \<open>int\<close> in which their difference is computed: halfway between the largest
  and the smallest sample the result is the largest one.\<close>

lemma interpolate_overflows: "interpolate (1 / 2) 0 2147483647 (- 2147483648) = 2147483647"
proof -
  have d: "s32 (- 2147483648 - 2147483647) = 1" by (simp add: wrap_s_def)
  have h: "f64 (1 / 2) = 1 / 2" using fround_exact [of 1 53 "- 1"] by (simp add: power_int_minus)
  have "f64 (4294967295 / 2) = 4294967295 / 2" using fround_exact [of 4294967295 53 "- 1"] by (simp add: power_int_minus)
  then have e: "f64 (of_int 2147483647 + f64 (f64 (1 / 2 - of_nat 0) * of_int 1)) = 4294967295 / 2" by (simp add: h)
  show ?thesis unfolding interpolate_def d e by (simp add: cvt_def c_trunc_def in_s_def floor_divide_eq_div_numeral)
qed

section \<open>Equal rates\<close>

lemma src_position_unit:
  assumes "lr_f lr = 1" "lr_src_offset lr = lr_dst_offset lr" "0 \<le> lr_dst_offset lr" "lr_dst_offset lr + int i < 2 ^ 32"
  shows "src_position lr i = real i"
proof -
  have "u32 (lr_dst_offset lr + int i) = lr_dst_offset lr + int i" using assms(3,4) by (intro wrap_u_id) auto
  then show ?thesis using f64_int [of "lr_dst_offset lr + int i"] f64_int [of "int i"] assms by (simp add: src_position_def Let_def)
qed

lemma interpolate_at: "in_s 32 v \<Longrightarrow> interpolate (real k) k v v' = v"
  using f64_int [of v] by (auto simp: interpolate_def cvt_def in_s_def)

lemma resampled_unit:
  assumes "src_position lr i = real i"
  shows "resampled lr src sp src_frames i ch = frame_sample lr src sp i ch"
  using assms frame_sample_range [of lr src sp i ch]
  by (auto simp: resampled_def Let_def interpolate_at in_s_wrap_id)

lemma resample_loop_unit:
  assumes "\<And>g. g \<le> dst_frames \<Longrightarrow> src_position lr g = real g" "0 < src_frames" "src_frames \<le> dst_frames" "i \<le> src_frames"
    and "resample_loop lr src sp src_frames dp dst_frames dst i = (si, di, dst')"
  shows "si = src_frames - 1 \<and> di = src_frames"
  using assms(4,5)
proof (induction "src_frames - i" arbitrary: i dst)
  case 0
  then have i: "i = src_frames" by simp
  then have pos: "src_position lr i = real i" using assms(1,3) by simp
  then have "src_position lr i > real (src_frames - 1)" using assms(2) i by simp
  then show ?case using 0(3) i by (subst (asm) resample_loop.simps) (auto simp: Let_def)
next
  case (Suc m)
  then have i: "i < src_frames" by simp
  then have "src_position lr i = real i" using assms(1,3) by simp
  then have "\<not> (src_position lr i > real (src_frames - 1) \<or> i \<ge> dst_frames)" using i assms(2,3) by (auto simp: of_nat_diff)
  then show ?case using Suc(4) Suc(1) [of "Suc i"] Suc(2) i by (subst (asm) resample_loop.simps) (simp add: Let_def)
qed

lemma reduce_same: "0 < r \<Longrightarrow> reduce_offsets r r a a = Some (s, d) \<Longrightarrow> s = d"
proof (induction "nat a" arbitrary: a rule: less_induct)
  case less
  show ?case
  proof (cases "a > r")
    case True
    then have "reduce_offsets r r (a - r) (a - r) = Some (s, d)" using less.prems(2) by (simp add: reduce_offsets.simps [of r r a a])
    then show ?thesis using less.prems(1) less.hyps [of "a - r"] True by simp
  next
    case False
    then show ?thesis using less.prems(2) by (subst (asm) reduce_offsets.simps) auto
  qed
qed

text \<open>With equal rates the resampler is the identity: when there is room for them, all source frames are copied unchanged,
  counted as used, and the resampler is left in a state in which this holds again.\<close>

lemma resample_identity:
  assumes "lr_ok lr" "lr_f lr = 1" "lr_src_offset lr = lr_dst_offset lr" "0 \<le> lr_dst_offset lr" "lr_dst_offset lr + int dst_frames < 2 ^ 32"
    and "lr_from_times_100 lr = lr_to_times_100 lr" "src_frames \<le> dst_frames"
    and "sp + src_frames * lr_format_bytes lr \<le> length src" "dp + dst_frames * lr_format_bytes lr \<le> length dst"
  shows "\<exists>lr' dst'. linear_resampler_resample lr src sp src_frames dst dp dst_frames = Some (src_frames, src_frames, lr', dst') \<and>
    (\<forall>g<src_frames. \<forall>ch<lr_num_channels lr. frame_sample lr dst' dp g ch = frame_sample lr src sp g ch) \<and>
    lr_src_offset lr' = lr_dst_offset lr' \<and> lr' = lr\<lparr>lr_src_offset := lr_dst_offset lr', lr_dst_offset := lr_dst_offset lr'\<rparr>"
proof (cases "src_frames = 0")
  case True
  then show ?thesis using assms(3) by (auto simp: linear_resampler_resample_def)
next
  case False
  have pos: "src_position lr g = real g" if "g \<le> dst_frames" for g using assms(2-5) that by (intro src_position_unit) auto
  obtain si di dst' where run: "resample_loop lr src sp src_frames dp dst_frames dst 0 = (si, di, dst')" using prod_cases3 by blast
  have n: "si = src_frames - 1" "di = src_frames" using resample_loop_unit [OF pos _ assms(7) _ run] False by auto
  let ?o = "u32 (lr_dst_offset lr + int src_frames)"
  have r: "0 < lr_to_times_100 lr" using assms(1,6) by (simp add: lr_ok_def)
  obtain s d where red: "reduce_offsets (lr_to_times_100 lr) (lr_to_times_100 lr) ?o ?o = Some (s, d)"
    using reduce_offsets_returns [of "lr_to_times_100 lr" "lr_to_times_100 lr" ?o ?o] r by auto
  have sd: "s = d" using reduce_same [OF r red] .
  have c: "src_frames - 1 + 1 = src_frames" and z: "(dst_frames = 0 \<or> src_frames = 0) = False" using False assms(7) by auto
  have eq: "linear_resampler_resample lr src sp src_frames dst dp dst_frames = Some (src_frames, src_frames, lr\<lparr>lr_src_offset := d, lr_dst_offset := d\<rparr>, dst')"
    unfolding linear_resampler_resample_def run n c z Let_def assms(3,6) prod.case if_False red option.case sd ..
  moreover have "frame_sample lr dst' dp g ch = frame_sample lr src sp g ch" if "g < src_frames" "ch < lr_num_channels lr" for g ch
    using resample_loop_spec [OF assms(1) _ assms(9) _ run] False n that resampled_unit [OF pos] assms(7) by auto
  ultimately show ?thesis by auto
qed

text \<open>A mono resampler of 16 bits with equal rates, and one that is slightly faster.\<close>

definition mono_lr :: "real \<Rightarrow> linear_resampler" where
  "mono_lr f = \<lparr>lr_num_channels = 1, lr_format_bytes = 2, lr_format_width = 2, lr_src_offset = 0, lr_dst_offset = 0,
     lr_to_times_100 = 4800000, lr_from_times_100 = 4800000, lr_f = f\<rparr>"


theorem resample_no_overshoot_witness:
  "\<exists>lr' dst'. linear_resampler_resample (mono_lr 1) mix_example 0 2 (replicate 4 0) 0 2 = Some (2, 2, lr', dst') \<and>
     - 1000 \<le> frame_sample (mono_lr 1) dst' 0 0 0 \<and> frame_sample (mono_lr 1) dst' 0 0 0 \<le> 1000"
proof -
  obtain lr' dst' where run: "linear_resampler_resample (mono_lr 1) mix_example 0 2 (replicate 4 0) 0 2 = Some (2, 2, lr', dst')"
    using resample_spec [of "mono_lr 1" 0 2 mix_example 0 2 "replicate 4 0"] resample_loop_unit [of 2 "mono_lr 1" 2 0 mix_example 0 0 "replicate 4 0"]
      src_position_unit [of "mono_lr 1"]
    by (auto simp: lr_ok_def mono_lr_def mix_example_def linear_resampler_resample_def split: prod.splits option.splits)
  have pos: "src_position (mono_lr 1) 0 = 0" using src_position_unit [of "mono_lr 1" 0] by (simp add: mono_lr_def)
  have "frame_sample (mono_lr 1) mix_example 0 0 0 = 1000" "frame_sample (mono_lr 1) mix_example 0 (Suc 0) 0 = - 1000"
    by (simp_all add: frame_sample_def mono_lr_def mix_example_def ld_s16_def ld_def le_val_def wrap_s_def numeral_2_eq_2)
  then show ?thesis using run resample_no_overshoot [OF _ _ _ run, of 0 0] pos by (auto simp: lr_ok_def mono_lr_def mix_example_def)
qed

end
