(* ===== verification/Fmt_Conv_Mtx.thy ===== *)
theory Fmt_Conv_Mtx
  imports Cras_Mix
begin

text \<open>
  The channel converters that compute with \<open>float\<close>: the down-mixes from 5.1 and the conversion by a coefficient
  matrix of \<open>cras/src/server/cras_fmt_conv_ops.c\<close>, and the matrices that \<open>cras/src/server/cras_fmt_conv.c\<close> makes for
  it. Buffers are as in \<open>Fmt_Conv_Ops\<close>, matrices as in \<open>Audio_Format\<close>; an access outside a matrix is \<open>None\<close>.
  The down-mixes are shown not to wrap around for any input, and the conversion by a routing matrix is
  shown to be exact for samples of 16 bits.
\<close>

section \<open>Model\<close>

subsection \<open>Down-mixes of 5.1\<close>

text \<open>The bodies are shared by the copies for samples of \<open>w\<close> bits. \<open>0.707\<close> and \<open>0.5\<close> are of type \<open>double\<close>, the
  normalized factor is a \<open>float\<close>. The two products of \<open>half_center\<close> and \<open>lfe\<close> are computed in \<open>double\<close>, the others in \<open>float\<close>.\<close>

definition mix_part :: "nat \<Rightarrow> real \<Rightarrow> real \<Rightarrow> int \<Rightarrow> int" where
  "mix_part w coef normalized_factor v = cvt w (f64 (f64 (of_int v * coef) * normalized_factor))"

definition surround_51_to_stereo :: "nat \<Rightarrow> int list \<Rightarrow> nat \<Rightarrow> int list \<Rightarrow> int list" where
  "surround_51_to_stereo w inp in_frames out =
     (let normalized_factor = f32 (585 / 1000) in
      for_frames in_frames (\<lambda>i.
        let half_center = mix_part w (f64 (707 / 1000)) normalized_factor (inp ! (6 * i + 2))
        in store_frame 2 i
          [(0, cvt w (f32 (fmul (inp ! (6 * i)) normalized_factor + f32 (of_int half_center)))),
           (1, cvt w (f32 (fmul (inp ! (6 * i + 1)) normalized_factor + f32 (of_int half_center))))]) out)"

definition s16_51_to_stereo :: "int list \<Rightarrow> nat \<Rightarrow> int list \<Rightarrow> int list" where
  "s16_51_to_stereo = surround_51_to_stereo 16"

definition s32_51_to_stereo :: "int list \<Rightarrow> nat \<Rightarrow> int list \<Rightarrow> int list" where
  "s32_51_to_stereo = surround_51_to_stereo 32"

definition surround_51_to_quad :: "nat \<Rightarrow> int list \<Rightarrow> nat \<Rightarrow> int list \<Rightarrow> int list" where
  "surround_51_to_quad w inp in_frames out =
     (let normalized_factor = f32 (453 / 1000) in
      for_frames in_frames (\<lambda>i.
        let half_center = mix_part w (f64 (707 / 1000)) normalized_factor (inp ! (6 * i + 2));
            lfe = mix_part w (1 / 2) normalized_factor (inp ! (6 * i + 3));
            front = (\<lambda>v. cvt w (f32 (f32 (fmul v normalized_factor + f32 (of_int half_center)) + f32 (of_int lfe))));
            rear = (\<lambda>v. cvt w (f32 (fmul v normalized_factor + f32 (of_int lfe))))
        in store_frame 4 i
          [(0, front (inp ! (6 * i))), (1, front (inp ! (6 * i + 1))),
           (2, rear (inp ! (6 * i + 4))), (3, rear (inp ! (6 * i + 5)))]) out)"

definition s16_51_to_quad :: "int list \<Rightarrow> nat \<Rightarrow> int list \<Rightarrow> int list" where
  "s16_51_to_quad = surround_51_to_quad 16"

definition s32_51_to_quad :: "int list \<Rightarrow> nat \<Rightarrow> int list \<Rightarrow> int list" where
  "s32_51_to_quad = surround_51_to_quad 32"

subsection \<open>Conversion by a matrix\<close>

text \<open>\<open>sum\<close> is an integer of \<open>2 * w\<close> bits that a \<open>float\<close> is added to: it is converted to \<open>float\<close> and back in each step.
  The vectors are lists; the access to an element that is not there is excluded where the matrix is made.\<close>

definition add_product :: "nat \<Rightarrow> real list \<Rightarrow> int list \<Rightarrow> nat \<Rightarrow> int \<Rightarrow> int" where
  "add_product w coef buf i s = cvt w (f32 (f32 (of_int s) + f32 (coef ! i * f32 (of_int (buf ! i)))))"

definition s16_multiply_buf_with_coef :: "real list \<Rightarrow> int list \<Rightarrow> nat \<Rightarrow> int" where
  "s16_multiply_buf_with_coef coef buf n =
     (let s = for_frames n (add_product 32 coef buf) 0; s = max s (- 0x8000); s = min s 0x7fff in s16 s)"

definition s32_multiply_buf_with_coef :: "real list \<Rightarrow> int list \<Rightarrow> nat \<Rightarrow> int" where
  "s32_multiply_buf_with_coef coef buf n =
     (let s = for_frames n (add_product 64 coef buf) 0; s = max s INT32_MIN; s = min s INT32_MAX in s32 s)"

definition convert_channels_with ::
  "(real list \<Rightarrow> int list \<Rightarrow> nat \<Rightarrow> int) \<Rightarrow> real list list \<Rightarrow> nat \<Rightarrow> nat \<Rightarrow> int list \<Rightarrow> nat \<Rightarrow> int list \<Rightarrow> int list" where
  "convert_channels_with multiply ch_conv_mtx num_in_ch num_out_ch inp in_frames out =
     for_frames in_frames (\<lambda>fr.
       for_frames num_out_ch (\<lambda>i out.
         out[fr * num_out_ch + i := multiply (ch_conv_mtx ! i) (drop (fr * num_in_ch) inp) num_in_ch])) out"

definition s16_convert_channels :: "real list list \<Rightarrow> nat \<Rightarrow> nat \<Rightarrow> int list \<Rightarrow> nat \<Rightarrow> int list \<Rightarrow> int list" where
  "s16_convert_channels = convert_channels_with s16_multiply_buf_with_coef"

definition s32_convert_channels :: "real list list \<Rightarrow> nat \<Rightarrow> nat \<Rightarrow> int list \<Rightarrow> nat \<Rightarrow> int list \<Rightarrow> int list" where
  "s32_convert_channels = convert_channels_with s32_multiply_buf_with_coef"

subsection \<open>Matrices\<close>

definition CRAS_CH_RL :: nat where "CRAS_CH_RL = 2"
definition CRAS_CH_RR :: nat where "CRAS_CH_RR = 3"
definition CRAS_CH_LFE :: nat where "CRAS_CH_LFE = 5"
definition CRAS_CH_SL :: nat where "CRAS_CH_SL = 6"
definition CRAS_CH_SR :: nat where "CRAS_CH_SR = 7"

definition STEREO_L :: nat where "STEREO_L = 0"
definition STEREO_R :: nat where "STEREO_R = 1"

definition internal_spk_channel_mapping :: "matrix" where
  "internal_spk_channel_mapping =
     (let c = f32 (707 / 1000);
          left = [1, 0, 1, 0, c, 1 / 2, 1, 0, c, 1, 0]; right = [0, 1, 0, 1, c, 1 / 2, 0, 1, c, 0, 1];
          none = replicate 11 0
      in [left, right, left, right, none, none, left, right, none, none, none])"

definition is_channel_layout_equal :: "cras_audio_format \<Rightarrow> cras_audio_format \<Rightarrow> bool" where
  "is_channel_layout_equal a b \<longleftrightarrow> list_all (\<lambda>ch. channel_layout a ! ch = channel_layout b ! ch) [0..<CRAS_CH_MAX]"

definition normalize_factor :: "real list \<Rightarrow> nat \<Rightarrow> real" where
  "normalize_factor buf n =
     (let abs_sum = for_frames n (\<lambda>i abs_sum. f32 (f64 (abs_sum + \<bar>buf ! i\<bar>))) 0
      in if abs_sum = 0 then 0 else f32 (f64 (1 / abs_sum)))"

text \<open>\<open>mtx[r][c] = f(mtx[r][c])\<close>.\<close>

definition mtx_upd :: "int \<Rightarrow> int \<Rightarrow> (real \<Rightarrow> real) \<Rightarrow> matrix \<Rightarrow> matrix option" where
  "mtx_upd r c f m =
     (if 0 \<le> r \<and> r < int (length m) \<and> 0 \<le> c \<and> c < int (length (m ! nat r))
      then Some (m[nat r := (m ! nat r)[nat c := f (m ! nat r ! nat c)]]) else None)"

fun mtx_upds :: "(int \<times> int \<times> (real \<Rightarrow> real)) list \<Rightarrow> matrix \<Rightarrow> matrix option" where
  "mtx_upds [] m = Some m"
| "mtx_upds ((r, c, f) # us) m = (case mtx_upd r c f m of None \<Rightarrow> None | Some m' \<Rightarrow> mtx_upds us m')"

definition normalize :: "matrix \<Rightarrow> nat \<Rightarrow> nat \<Rightarrow> real \<Rightarrow> matrix option" where
  "normalize mtx m n factor =
     mtx_upds [(int i, int j, \<lambda>x. f32 (x * factor)). i \<leftarrow> [0..<m], j \<leftarrow> [0..<n]] mtx"

text \<open>The assignments of the two down-mix matrices, in the order of the source.\<close>

definition mtx_pair :: "int list \<Rightarrow> nat \<Rightarrow> nat \<Rightarrow> (int \<times> int \<times> (real \<Rightarrow> real)) list \<Rightarrow> (int \<times> int \<times> (real \<Rightarrow> real)) list" where
  "mtx_pair layout a b us = (if layout ! a \<noteq> - 1 \<and> layout ! b \<noteq> - 1 then us else [])"

definition stereo_downmix_stores :: "int list \<Rightarrow> (int \<times> int \<times> (real \<Rightarrow> real)) list" where
  "stereo_downmix_stores layout =
     (let L = int STEREO_L; R = int STEREO_R; put = (\<lambda>r ch v. (r, layout ! ch, \<lambda>_. f32 v));
          FL = Audio_Format.CRAS_CH_FL; FR = Audio_Format.CRAS_CH_FR; FC = Audio_Format.CRAS_CH_FC
      in mtx_pair layout FC FC [put L FC (707 / 1000), put R FC (707 / 1000)] @
         mtx_pair layout FL FR [put L FL 1, put R FR 1] @
         mtx_pair layout CRAS_CH_SL CRAS_CH_SR [put L CRAS_CH_SL 1, put R CRAS_CH_SR 1] @
         mtx_pair layout CRAS_CH_RL CRAS_CH_RR
           [put L CRAS_CH_RL (866 / 1000), put R CRAS_CH_RL (1 / 2), put R CRAS_CH_RR (866 / 1000), put L CRAS_CH_RR (1 / 2)] @
         mtx_pair layout CRAS_CH_LFE CRAS_CH_LFE [put L CRAS_CH_LFE (707 / 1000), put R CRAS_CH_LFE (707 / 1000)])"

definition surround51_to_stereo_downmix_mtx :: "matrix \<Rightarrow> int list \<Rightarrow> matrix option" where
  "surround51_to_stereo_downmix_mtx mtx layout =
     (case mtx_upds (stereo_downmix_stores layout) mtx of
        None \<Rightarrow> None
      | Some m \<Rightarrow> normalize m 2 6 (normalize_factor (m ! STEREO_L) 6))"

definition quad_downmix_stores :: "int list \<Rightarrow> (int \<times> int \<times> (real \<Rightarrow> real)) list" where
  "quad_downmix_stores layout =
     (let put = (\<lambda>r ch v. (int r, layout ! ch, \<lambda>_. f32 v));
          FL = Audio_Format.CRAS_CH_FL; FR = Audio_Format.CRAS_CH_FR; FC = Audio_Format.CRAS_CH_FC
      in mtx_pair layout FL FR [put FL FL 1, put FR FR 1] @
         mtx_pair layout CRAS_CH_RL CRAS_CH_RR [put CRAS_CH_RL CRAS_CH_RL 1, put CRAS_CH_RR CRAS_CH_RR 1] @
         mtx_pair layout CRAS_CH_SL CRAS_CH_SR [put CRAS_CH_RL CRAS_CH_SL 1, put CRAS_CH_RR CRAS_CH_SR 1] @
         mtx_pair layout FC FC [put FL FC (707 / 1000), put FR FC (707 / 1000)] @
         mtx_pair layout CRAS_CH_LFE CRAS_CH_LFE
           [put FL CRAS_CH_LFE (1 / 2), put FR CRAS_CH_LFE (1 / 2), put CRAS_CH_RL CRAS_CH_LFE (1 / 2), put CRAS_CH_RR CRAS_CH_LFE (1 / 2)])"

definition surround51_to_quad_downmix_mtx :: "matrix \<Rightarrow> int list \<Rightarrow> matrix option" where
  "surround51_to_quad_downmix_mtx mtx layout =
     (case mtx_upds (quad_downmix_stores layout) mtx of
        None \<Rightarrow> None
      | Some m \<Rightarrow> normalize m 4 6 (normalize_factor (m ! Audio_Format.CRAS_CH_FL) 6))"

text \<open>The result \<open>NoMatrix\<close> is the null pointer for a layout that is not valid; the row \<open>out->channel_layout[STEREO_L]\<close> that gives
  the factor need not exist.\<close>

definition cras_internal_spk_channel_conv_matrix_create :: "cras_audio_format \<Rightarrow> cras_audio_format \<Rightarrow> conv_result" where
  "cras_internal_spk_channel_conv_matrix_create fin fout =
     (let lin = channel_layout fin; lout = channel_layout fout in
      if list_ex (\<lambda>i. lin ! i \<ge> s32 (num_channels fin) \<or> lout ! i \<ge> s32 (num_channels fout)) [0..<CRAS_CH_MAX] then NoMatrix
      else
        case mtx_upds
          [(lout ! i, lin ! j, \<lambda>x. f32 (x + internal_spk_channel_mapping ! i ! j)).
             i \<leftarrow> [0..<CRAS_CH_MAX], j \<leftarrow> [0..<CRAS_CH_MAX],
             internal_spk_channel_mapping ! i ! j \<noteq> 0 \<and> lout ! i \<noteq> - 1 \<and> lin ! j \<noteq> - 1]
          (cras_channel_conv_matrix_alloc (num_channels fin) (num_channels fout)) of
          None \<Rightarrow> OutOfBounds
        | Some m \<Rightarrow>
            if lout ! STEREO_L < 0 then OutOfBounds
            else case normalize m (nat (num_channels fout)) (nat (num_channels fin))
                        (normalize_factor (m ! nat (lout ! STEREO_L)) (nat (num_channels fin))) of
                   None \<Rightarrow> OutOfBounds
                 | Some m' \<Rightarrow> Matrix m')"

section \<open>The down-mixes\<close>

text \<open>A value that stays below full scale is converted without wrapping around.\<close>

lemma c_trunc_unit:
  assumes "\<bar>x\<bar> \<le> b" "b < 2 ^ (w - 1)" "w > 0"
  shows "cvt w x = c_trunc x" "in_s w (c_trunc x)"
proof -
  have "\<bar>real_of_int (c_trunc x)\<bar> < 2 ^ (w - 1)" using c_trunc_abs_le [of x] assms by linarith
  then have "\<bar>c_trunc x\<bar> < 2 ^ (w - 1)" by (metis of_int_abs of_int_less_numeral_power_cancel_iff)
  then show "in_s w (c_trunc x)" by (auto simp: in_s_def)
  then show "cvt w x = c_trunc x" by (simp add: cvt_def)
qed

lemma f32_sample:
  assumes "in_s w v" "w > 0"
  shows "\<bar>f32 (of_int v)\<bar> \<le> 2 powi (int w - 1)" "\<bar>f32 (of_int v) - of_int v\<bar> \<le> 2 powi (int w - 25)" "\<bar>real_of_int v\<bar> \<le> 2 powi (int w - 1)"
proof -
  have e: "(2::real) powi (int w - 1) = 2 ^ (w - 1)" using assms(2) power_int_of_nat [of "2::real" "w - 1"] by (simp add: of_nat_diff)
  have "\<bar>v\<bar> \<le> 2 ^ (w - 1)" using assms(1) by (auto simp: in_s_def)
  then have "\<bar>real_of_int v\<bar> \<le> 2 ^ (w - 1)" by (metis of_int_abs of_int_le_numeral_power_cancel_iff)
  then show v: "\<bar>real_of_int v\<bar> \<le> 2 powi (int w - 1)" by (simp add: e)
  then show "\<bar>f32 (of_int v)\<bar> \<le> 2 powi (int w - 1)" using fround_abs_le [of "of_int v" 1 "int w - 1" 24] by simp
  have "\<bar>f32 (of_int v) - of_int v\<bar> \<le> \<bar>real_of_int v\<bar> / 2 ^ 24" using fround_err [of 24 "of_int v"] by simp
  also have "\<dots> \<le> 2 powi (int w - 1) / 2 ^ 24" using v by (rule divide_right_mono) simp
  also have "\<dots> = 2 powi (int w - 25)"
    using power_int_diff [of "2::real" "int w - 1" 24] by simp
  finally show "\<bar>f32 (of_int v) - of_int v\<bar> \<le> 2 powi (int w - 25)" .
qed

text \<open>A product with a factor \<open>x\<close> that is the rounded \<open>c\<close>.\<close>

lemma fmul_near:
  assumes "in_s w v" "w > 0" "0 \<le> c" "c \<le> of_int k / 65536" "0 < k" "k < 65536"
  defines "V \<equiv> 2 powi (int w - 1) :: real" and "E \<equiv> 2 powi (int w - 25) :: real"
  shows "\<bar>fmul v (f32 c)\<bar> \<le> of_int k / 65536 * V" "\<bar>fmul v (f32 c) - c * of_int v\<bar> \<le> 3 * (of_int k / 65536) * E" "0 \<le> f32 c" "f32 c \<le> of_int k / 65536"
    "\<bar>f32 c - c\<bar> \<le> of_int k / 65536 / 2 ^ 24"
proof -
  let ?q = "real_of_int k / 65536"
  have q: "?q = of_int k * 2 powi (- 16)" by (simp add: power_int_minus)
  show nf: "0 \<le> f32 c" using assms(3) by (rule fround_nonneg) simp
  show nf': "f32 c \<le> ?q" unfolding q using assms(4-6) by (intro fround_le) (simp_all add: q [symmetric])
  have VE: "E = V / 2 ^ 24" using power_int_diff [of "2::real" "int w - 1" 24] by (simp add: E_def V_def)
  have pos: "V > 0" "E > 0" by (simp_all add: V_def E_def)
  note s = f32_sample [OF assms(1,2), folded V_def E_def]
  have p: "\<bar>f32 (of_int v) * f32 c\<bar> \<le> ?q * V" unfolding abs_mult using s(1) nf nf' by (subst mult.commute, intro mult_mono) auto
  have "?q * V = of_int k * 2 powi (int w - 17)" by (simp add: V_def power_int_diff)
  then show "\<bar>fmul v (f32 c)\<bar> \<le> ?q * V" using fround_abs_le [of "f32 (of_int v) * f32 c" k "int w - 17" 24] p assms(5,6) by (simp add: fmul_def)
  show cerr: "\<bar>f32 c - c\<bar> \<le> ?q / 2 ^ 24"
    using fround_err [of 24 c] divide_right_mono [OF assms(4), of "2 ^ 24"] assms(3) by simp
  have "\<bar>fmul v (f32 c) - f32 (of_int v) * f32 c\<bar> \<le> ?q * V / 2 ^ 24"
    using fround_err [of 24 "f32 (of_int v) * f32 c"] divide_right_mono [OF p, of "2 ^ 24"] by (simp add: fmul_def)
  then have 1: "\<bar>fmul v (f32 c) - f32 (of_int v) * f32 c\<bar> \<le> ?q * E" by (simp add: VE)
  have "\<bar>f32 (of_int v) * (f32 c - c)\<bar> \<le> V * (?q / 2 ^ 24)" unfolding abs_mult using s(1) cerr by (intro mult_mono) auto
  then have 2: "\<bar>f32 (of_int v) * f32 c - f32 (of_int v) * c\<bar> \<le> ?q * E" by (simp add: VE right_diff_distrib mult.commute)
  have "\<bar>(f32 (of_int v) - of_int v) * c\<bar> \<le> E * ?q" unfolding abs_mult using s(2) assms(3,4) pos by (intro mult_mono) auto
  then have 3: "\<bar>f32 (of_int v) * c - c * of_int v\<bar> \<le> ?q * E" by (simp add: algebra_simps)
  show "\<bar>fmul v (f32 c) - c * of_int v\<bar> \<le> 3 * ?q * E" using 1 2 3 unfolding mult.assoc by linarith
qed

lemma mix_part_near:
  assumes "in_s w v" "w > 0" "0 \<le> c" "c \<le> of_int k / 65536" "0 < k" "k < 65536" "0 \<le> d" "d \<le> of_int m / 65536" "0 < m" "m < 65536"
    and "m * k \<le> 2000000000"
  defines "V \<equiv> 2 powi (int w - 1) :: real" and "E \<equiv> 2 powi (int w - 25) :: real"
  shows "\<bar>real_of_int (mix_part w (f64 d) (f32 c) v)\<bar> \<le> of_int (m * k) / 4294967296 * V"
    "\<bar>real_of_int (mix_part w (f64 d) (f32 c) v) - c * d * of_int v\<bar> \<le> 1 + E / 2"
proof -
  let ?q = "real_of_int k / 65536" and ?r = "real_of_int m / 65536" and ?d = "f64 d" and ?c = "f32 c"
  have r: "?r = of_int m * 2 powi (- 16)" by (simp add: power_int_minus)
  note c = fmul_near(3-5) [OF assms(1-6)]
  have d: "0 \<le> ?d" using assms(7) by (rule fround_nonneg) simp
  have d': "?d \<le> ?r" unfolding r using assms(8-10) by (intro fround_le) (simp_all add: r [symmetric])
  have VE: "E = V / 2 ^ 24" using power_int_diff [of "2::real" "int w - 1" 24] by (simp add: E_def V_def)
  have pos: "V > 0" "E > 0" by (simp_all add: V_def E_def)
  have v: "\<bar>real_of_int v\<bar> \<le> V" using f32_sample(3) [OF assms(1,2)] by (simp add: V_def)
  have one: "?q \<le> 1" "?r \<le> 1" using assms(6,10) by auto
  define p where "p = f64 (of_int v * ?d)"
  have vd: "\<bar>real_of_int v * ?d\<bar> \<le> ?r * V" unfolding abs_mult using v d d' pos by (subst mult.commute, intro mult_mono) auto
  have "?r * V = of_int m * 2 powi (int w - 17)" by (simp add: V_def power_int_diff)
  then have p: "\<bar>p\<bar> \<le> ?r * V" using fround_abs_le [of "of_int v * ?d" m "int w - 17" 53] vd assms(9,10) by (simp add: p_def)
  have pc: "\<bar>p * ?c\<bar> \<le> ?r * V * ?q" unfolding abs_mult using p c pos assms(9) by (intro mult_mono) auto
  define x where "x = f64 (p * ?c)"
  have eq: "?r * V * ?q = of_int (m * k) * 2 powi (int w - 33)" by (simp add: V_def power_int_diff)
  have "\<bar>m * k\<bar> < 2 ^ 53" using assms(5,9,11) by (simp add: abs_mult)
  then have x: "\<bar>x\<bar> \<le> ?r * V * ?q" unfolding x_def eq by (intro fround_abs_le pc [unfolded eq]) simp_all
  have rq: "?r * V * ?q = of_int (m * k) / 4294967296 * V" by simp
  have "real_of_int (m * k) \<le> 2000000000" using assms(11) by (metis of_int_le_iff of_int_numeral)
  then have mk: "real_of_int (m * k) / 4294967296 \<le> 1 / 2 - 1 / 64" by linarith
  have half: "?r * V * ?q \<le> (1 / 2 - 1 / 64) * V" unfolding rq using mk pos by (intro mult_right_mono) auto
  have Vw: "V = 2 ^ (w - 1)" using assms(2) power_int_of_nat [of "2::real" "w - 1"] by (simp add: V_def of_nat_diff)
  have t: "mix_part w ?d ?c v = c_trunc x"
    unfolding mix_part_def p_def [symmetric] x_def [symmetric]
    using le_less_trans [OF half, of V] pos(1) Vw by (intro c_trunc_unit(1) [OF x _ assms(2)]) simp
  show b: "\<bar>real_of_int (mix_part w ?d ?c v)\<bar> \<le> of_int (m * k) / 4294967296 * V" using c_trunc_abs_le [of x] x unfolding t rq by linarith
  have le: "a / 2 ^ 53 \<le> E / 536870912" if "a \<le> V" for a :: real using that by (simp add: VE)
  have rV: "?r * V \<le> V" "?r * V * ?q \<le> V" using one pos(1) order_trans [OF half, of V] by simp_all
  have 1: "\<bar>x - p * ?c\<bar> \<le> E / 536870912" using fround_err [of 53 "p * ?c"] le [of "\<bar>p * ?c\<bar>"] pc rV by (simp add: x_def)
  have 2: "\<bar>p - of_int v * ?d\<bar> \<le> E / 536870912" using fround_err [of 53 "of_int v * ?d"] le [of "\<bar>of_int v * ?d\<bar>"] vd rV by (simp add: p_def)
  have "\<bar>of_int v * (?d - d)\<bar> \<le> V * (1 / 2 ^ 53)" unfolding abs_mult
    using v fround_err [of 53 d] assms(7,8) one by (intro mult_mono) auto
  then have 3: "\<bar>of_int v * ?d - of_int v * d\<bar> \<le> E / 536870912" by (simp add: VE right_diff_distrib)
  have "\<bar>p - of_int v * d\<bar> \<le> 2 * E / 536870912" using 2 3 by linarith
  then have "\<bar>(p - of_int v * d) * ?c\<bar> \<le> (2 * E / 536870912) * 1" unfolding abs_mult using c one(1) pos by (intro mult_mono) auto
  moreover have "\<bar>(of_int v * d) * (?c - c)\<bar> \<le> (V * ?r) * (?q / 2 ^ 24)" unfolding abs_mult
    using v assms(7,8,9) c pos by (intro mult_mono) auto
  moreover have "(V * ?r) * (?q / 2 ^ 24) \<le> (1 / 2 - 1 / 64) * E" using half by (simp add: VE algebra_simps)
  moreover have "(p - of_int v * d) * ?c + (of_int v * d) * (?c - c) = p * ?c - c * d * of_int v" by (simp add: algebra_simps)
  ultimately have "\<bar>p * ?c - c * d * of_int v\<bar> \<le> 2 * E / 536870912 + (1 / 2 - 1 / 64) * E" by linarith
  moreover have "2 * E / 536870912 + (1 / 2 - 1 / 64) * E \<le> 63 / 128 * E" "E / 536870912 \<le> 1 / 128 * E" using pos(2) by simp_all
  ultimately have "\<bar>p * ?c - c * d * of_int v\<bar> \<le> 63 / 128 * E" "\<bar>x - p * ?c\<bar> \<le> 1 / 128 * E" using 1 by (blast intro: order_trans)+
  then show "\<bar>real_of_int (mix_part w ?d ?c v) - c * d * of_int v\<bar> \<le> 1 + E / 2"
    using c_trunc_err [of x] unfolding t by linarith
qed

lemma add_part_near:
  fixes a :: real and b :: int
  assumes "\<bar>a\<bar> \<le> of_int A / 65536 * V" "\<bar>real_of_int b\<bar> \<le> of_int B / 65536 * V" "0 \<le> A" "0 \<le> B" "A + B < 65536" "V = 2 powi (int w - 1)" "E = 2 powi (int w - 25)"
  defines "s \<equiv> f32 (a + f32 (of_int b))"
  shows "\<bar>s\<bar> \<le> of_int (A + B) / 65536 * V" "\<bar>s - (a + of_int b)\<bar> \<le> of_int (A + 2 * B) / 65536 * E"
proof -
  have u: "real_of_int k / 65536 * V = of_int k * 2 powi (int w - 17)" for k by (simp add: assms(6) power_int_diff)
  have VE: "E = V / 2 ^ 24" using power_int_diff [of "2::real" "int w - 1" 24] by (simp add: assms(6,7))
  have b: "\<bar>f32 (of_int b)\<bar> \<le> of_int B / 65536 * V" unfolding u using assms(2-5) by (intro fround_abs_le) (simp_all only: u, simp_all)
  have ab: "\<bar>a + f32 (of_int b)\<bar> \<le> of_int (A + B) / 65536 * V" using assms(1) b by (simp add: add_divide_distrib distrib_right)
  then show "\<bar>s\<bar> \<le> of_int (A + B) / 65536 * V" unfolding u s_def using assms(3-5) by (intro fround_abs_le) (simp_all only: u, simp_all)
  have "\<bar>s - (a + f32 (of_int b))\<bar> \<le> of_int (A + B) / 65536 * E" "\<bar>f32 (of_int b) - real_of_int b\<bar> \<le> of_int B / 65536 * E"
    using fround_err [of 24 "a + f32 (of_int b)"] divide_right_mono [OF ab, of "2 ^ 24"] fround_err [of 24 "of_int b"] divide_right_mono [OF assms(2), of "2 ^ 24"]
    by (simp_all add: s_def VE)
  moreover have "of_int (A + 2 * B) / 65536 * E = of_int (A + B) / 65536 * E + of_int B / 65536 * E" by (simp add: algebra_simps add_divide_distrib)
  ultimately show "\<bar>s - (a + of_int b)\<bar> \<le> of_int (A + 2 * B) / 65536 * E" by linarith
qed

lemma mix_stereo_near:
  assumes "in_s w v" "in_s w c" "w > 0"
  defines "E \<equiv> 2 powi (int w - 25) :: real" and "nf \<equiv> f32 (585 / 1000)"
  defines "x \<equiv> f32 (fmul v nf + f32 (of_int (mix_part w (f64 (707 / 1000)) nf c)))"
  shows "in_s w (c_trunc x)" "\<bar>of_int (cvt w x) - 585 / 1000 * (of_int v + 707 / 1000 * of_int c)\<bar> \<le> 2 + 4 * E"
proof -
  let ?V = "2 powi (int w - 1) :: real" and ?h = "mix_part w (f64 (707 / 1000)) nf c"
  have a: "\<bar>fmul v nf\<bar> \<le> of_int 38339 / 65536 * ?V" "\<bar>fmul v nf - 585 / 1000 * of_int v\<bar> \<le> 3 * (of_int 38339 / 65536) * E"
    unfolding nf_def E_def by (rule fmul_near(1,2) [OF assms(1,3)]; simp)+
  have b: "\<bar>real_of_int ?h\<bar> \<le> of_int (46334 * 38339) / 4294967296 * ?V" "\<bar>real_of_int ?h - 585 / 1000 * (707 / 1000) * of_int c\<bar> \<le> 1 + E / 2"
    unfolding nf_def E_def by (rule mix_part_near [OF assms(2,3), where m = 46334 and k = 38339]; simp)+
  have "real_of_int (46334 * 38339) / 4294967296 * ?V \<le> of_int 27106 / 65536 * ?V" by (rule mult_right_mono) simp_all
  then have "\<bar>real_of_int ?h\<bar> \<le> of_int 27106 / 65536 * ?V" using b(1) by linarith
  from add_part_near [OF a(1) this _ _ _ refl refl]
  have s: "\<bar>x\<bar> \<le> of_int (38339 + 27106) / 65536 * ?V" "\<bar>x - (fmul v nf + of_int ?h)\<bar> \<le> of_int (38339 + 2 * 27106) / 65536 * E"
    unfolding x_def E_def by simp_all
  have E: "E > 0" by (simp add: E_def)
  have w: "of_int (38339 + 27106) / 65536 * ?V < 2 ^ (w - 1)"
    using assms(3) power_int_of_nat [of "2::real" "w - 1"] by (simp add: of_nat_diff)
  note t = c_trunc_unit [OF s(1) w assms(3)]
  show "\<bar>of_int (cvt w x) - 585 / 1000 * (of_int v + 707 / 1000 * of_int c)\<bar> \<le> 2 + 4 * E"
    using s(2) a(2) b(2) c_trunc_err [of x] E unfolding t(1) of_int_add of_int_mult of_int_numeral abs_le_iff abs_less_iff by argo
  show "in_s w (c_trunc x)" by (rule t(2))
qed

lemma mix_quad_near:
  assumes "in_s w v" "in_s w c" "in_s w l" "w > 0"
  defines "E \<equiv> 2 powi (int w - 25) :: real" and "nf \<equiv> f32 (453 / 1000)"
  defines "h \<equiv> mix_part w (f64 (707 / 1000)) nf c" and "lfe \<equiv> mix_part w (1 / 2) nf l"
  defines "x \<equiv> f32 (f32 (fmul v nf + f32 (of_int h)) + f32 (of_int lfe))" and "y \<equiv> f32 (fmul v nf + f32 (of_int lfe))"
  shows "in_s w (c_trunc x)" "\<bar>of_int (cvt w x) - 453 / 1000 * (of_int v + 707 / 1000 * of_int c + 1 / 2 * of_int l)\<bar> \<le> 3 + 5 * E"
    "in_s w (c_trunc y)" "\<bar>of_int (cvt w y) - 453 / 1000 * (of_int v + 1 / 2 * of_int l)\<bar> \<le> 2 + 4 * E"
proof -
  let ?V = "2 powi (int w - 1) :: real"
  have f: "f64 (1 / 2) = 1 / 2" using fround_exact [of 1 53 "- 1"] by (simp add: power_int_minus)
  have a: "\<bar>fmul v nf\<bar> \<le> of_int 29688 / 65536 * ?V" "\<bar>fmul v nf - 453 / 1000 * of_int v\<bar> \<le> 3 * (of_int 29688 / 65536) * E"
    unfolding nf_def E_def by (rule fmul_near(1,2) [OF assms(1,4)]; simp)+
  have b: "\<bar>real_of_int h\<bar> \<le> of_int (46334 * 29688) / 4294967296 * ?V" "\<bar>real_of_int h - 453 / 1000 * (707 / 1000) * of_int c\<bar> \<le> 1 + E / 2"
    unfolding nf_def E_def h_def by (rule mix_part_near [OF assms(2,4), where m = 46334 and k = 29688]; simp)+
  have l: "\<bar>real_of_int lfe\<bar> \<le> of_int (32768 * 29688) / 4294967296 * ?V" "\<bar>real_of_int lfe - 453 / 1000 * (1 / 2) * of_int l\<bar> \<le> 1 + E / 2"
    unfolding nf_def E_def lfe_def by (rule mix_part_near [OF assms(3,4), where m = 32768 and k = 29688 and d = "1 / 2", unfolded f]; simp)+
  have "real_of_int (46334 * 29688) / 4294967296 * ?V \<le> of_int 20990 / 65536 * ?V" "real_of_int (32768 * 29688) / 4294967296 * ?V \<le> of_int 14844 / 65536 * ?V"
    by (rule mult_right_mono; simp)+
  then have b': "\<bar>real_of_int h\<bar> \<le> of_int 20990 / 65536 * ?V" and l': "\<bar>real_of_int lfe\<bar> \<le> of_int 14844 / 65536 * ?V" using b(1) l(1) by linarith+
  define z where "z = f32 (fmul v nf + f32 (of_int h))"
  from add_part_near [OF a(1) b' _ _ _ refl refl]
  have s: "\<bar>z\<bar> \<le> of_int (29688 + 20990) / 65536 * ?V" "\<bar>z - (fmul v nf + of_int h)\<bar> \<le> of_int (29688 + 2 * 20990) / 65536 * E"
    unfolding z_def E_def by simp_all
  from add_part_near [OF s(1) l' _ _ _ refl refl]
  have t: "\<bar>x\<bar> \<le> of_int (29688 + 20990 + 14844) / 65536 * ?V" "\<bar>x - (z + of_int lfe)\<bar> \<le> of_int (29688 + 20990 + 2 * 14844) / 65536 * E"
    unfolding x_def z_def [symmetric] E_def by simp_all
  from add_part_near [OF a(1) l' _ _ _ refl refl]
  have u: "\<bar>y\<bar> \<le> of_int (29688 + 14844) / 65536 * ?V" "\<bar>y - (fmul v nf + of_int lfe)\<bar> \<le> of_int (29688 + 2 * 14844) / 65536 * E"
    unfolding y_def E_def by simp_all
  have E: "E > 0" by (simp add: E_def)
  have w: "of_int k / 65536 * ?V < 2 ^ (w - 1)" if "k < 65536" for k
    using that assms(4) power_int_of_nat [of "2::real" "w - 1"] by (simp add: of_nat_diff)
  have cx: "cvt w x = c_trunc x" "in_s w (c_trunc x)" by (rule c_trunc_unit [OF t(1) w assms(4)]; simp)+
  have cy: "cvt w y = c_trunc y" "in_s w (c_trunc y)" by (rule c_trunc_unit [OF u(1) w assms(4)]; simp)+
  show "\<bar>of_int (cvt w x) - 453 / 1000 * (of_int v + 707 / 1000 * of_int c + 1 / 2 * of_int l)\<bar> \<le> 3 + 5 * E"
    using t(2) s(2) a(2) b(2) l(2) c_trunc_err [of x] E unfolding cx(1) of_int_add of_int_mult of_int_numeral abs_le_iff abs_less_iff by argo
  show "\<bar>of_int (cvt w y) - 453 / 1000 * (of_int v + 1 / 2 * of_int l)\<bar> \<le> 2 + 4 * E"
    using u(2) a(2) l(2) c_trunc_err [of y] E unfolding cy(1) of_int_add of_int_mult of_int_numeral abs_le_iff abs_less_iff by argo
  show "in_s w (c_trunc x)" "in_s w (c_trunc y)" by (rule cx(2), rule cy(2))
qed

lemma surround_stereo_frame:
  fixes w :: nat and inp :: "int list"
  assumes "2 * n \<le> length out" "6 * n \<le> length inp" "i < n"
  defines "nf \<equiv> f32 (585 / 1000)" and "f \<equiv> frame 6 i inp"
  defines "h \<equiv> mix_part w (f64 (707 / 1000)) nf (f ! 2)"
  shows "frame 2 i (surround_51_to_stereo w inp n out)
      = map (\<lambda>c. cvt w (f32 (fmul (f ! c) nf + f32 (of_int h)))) [0, 1]"
    "drop (2 * n) (surround_51_to_stereo w inp n out) = drop (2 * n) out"
proof -
  let ?ws = "\<lambda>i. let h = mix_part w (f64 (707 / 1000)) nf (inp ! (6 * i + 2))
    in [(0::int, cvt w (f32 (fmul (inp ! (6 * i)) nf + f32 (of_int h)))), (1, cvt w (f32 (fmul (inp ! (6 * i + 1)) nf + f32 (of_int h))))]"
  have eq: "surround_51_to_stereo w inp n out = for_frames n (\<lambda>i. store_frame 2 i (?ws i)) out"
    by (simp add: surround_51_to_stereo_def Let_def nf_def)
  have ok: "stores_ok 2 (?ws j)" for j by (simp add: Let_def)
  have len: "length (frame 2 i out) = 2" using frame_bound [OF assms(3,1)] by simp
  have f: "f ! c = inp ! (6 * i + c)" if "c < 6" for c using frame_bound [OF assms(3,2)] that by (simp add: f_def nth_frame)
  show "frame 2 i (surround_51_to_stereo w inp n out)
      = map (\<lambda>c. cvt w (f32 (fmul (f ! c) nf + f32 (of_int h)))) [0, 1]"
    unfolding eq frame_for_frames [OF ok assms(1,3)]
    by (rule nth_equalityI) (use len f in \<open>auto simp: Let_def h_def less_2_cases_iff nth_list_update\<close>)
  show "drop (2 * n) (surround_51_to_stereo w inp n out) = drop (2 * n) out" unfolding eq by (rule drop_for_frames [OF ok assms(1)])
qed

lemma surround_quad_frame:
  fixes w :: nat and inp :: "int list"
  assumes "4 * n \<le> length out" "6 * n \<le> length inp" "i < n"
  defines "nf \<equiv> f32 (453 / 1000)" and "f \<equiv> frame 6 i inp"
  defines "h \<equiv> mix_part w (f64 (707 / 1000)) nf (f ! 2)" and "lfe \<equiv> mix_part w (1 / 2) nf (f ! 3)"
  shows "frame 4 i (surround_51_to_quad w inp n out)
      = map (\<lambda>c. cvt w (f32 (f32 (fmul (f ! c) nf + f32 (of_int h)) + f32 (of_int lfe)))) [0, 1]
        @ map (\<lambda>c. cvt w (f32 (fmul (f ! c) nf + f32 (of_int lfe)))) [4, 5]"
    "drop (4 * n) (surround_51_to_quad w inp n out) = drop (4 * n) out"
proof -
  let ?ws = "\<lambda>i. let h = mix_part w (f64 (707 / 1000)) nf (inp ! (6 * i + 2)); lfe = mix_part w (1 / 2) nf (inp ! (6 * i + 3));
      front = (\<lambda>v. cvt w (f32 (f32 (fmul v nf + f32 (of_int h)) + f32 (of_int lfe)))); rear = (\<lambda>v. cvt w (f32 (fmul v nf + f32 (of_int lfe))))
    in [(0::int, front (inp ! (6 * i))), (1, front (inp ! (6 * i + 1))), (2, rear (inp ! (6 * i + 4))), (3, rear (inp ! (6 * i + 5)))]"
  have eq: "surround_51_to_quad w inp n out = for_frames n (\<lambda>i. store_frame 4 i (?ws i)) out"
    by (simp add: surround_51_to_quad_def Let_def nf_def)
  have ok: "stores_ok 4 (?ws j)" for j by (simp add: Let_def)
  obtain a b c d where len: "frame 4 i out = [a, b, c, d]"
  proof -
    have "length (frame 4 i out) = Suc (Suc (Suc (Suc 0)))" using frame_bound [OF assms(3,1)] by simp
    then show ?thesis using that by (auto simp: length_Suc_conv)
  qed
  have f: "f ! c = inp ! (6 * i + c)" if "c < 6" for c using frame_bound [OF assms(3,2)] that by (simp add: f_def nth_frame)
  show "frame 4 i (surround_51_to_quad w inp n out)
      = map (\<lambda>c. cvt w (f32 (f32 (fmul (f ! c) nf + f32 (of_int h)) + f32 (of_int lfe)))) [0, 1]
        @ map (\<lambda>c. cvt w (f32 (fmul (f ! c) nf + f32 (of_int lfe)))) [4, 5]"
    unfolding eq frame_for_frames [OF ok assms(1,3)] len by (simp add: Let_def h_def lfe_def f)
  show "drop (4 * n) (surround_51_to_quad w inp n out) = drop (4 * n) out" unfolding eq by (rule drop_for_frames [OF ok assms(1)])
qed

text \<open>The value before the last conversion is in the range of the samples, so that nothing wraps around.\<close>

lemma surround_51_near:
  assumes "\<forall>v\<in>set inp. in_s w v" "w > 0" "6 * n \<le> length inp" "i < n"
  defines "f \<equiv> frame 6 i inp" and "E \<equiv> 2 powi (int w - 25) :: real"
  shows "2 * n \<le> length out \<Longrightarrow> c < 2 \<Longrightarrow>
      \<bar>of_int (frame 2 i (surround_51_to_stereo w inp n out) ! c) - 585 / 1000 * (of_int (f ! c) + 707 / 1000 * of_int (f ! 2))\<bar> \<le> 2 + 4 * E"
    and "4 * n \<le> length out4 \<Longrightarrow> c < 2 \<Longrightarrow>
      \<bar>of_int (frame 4 i (surround_51_to_quad w inp n out4) ! c)
        - 453 / 1000 * (of_int (f ! c) + 707 / 1000 * of_int (f ! 2) + 1 / 2 * of_int (f ! 3))\<bar> \<le> 3 + 5 * E"
    and "4 * n \<le> length out4 \<Longrightarrow> c < 2 \<Longrightarrow>
      \<bar>of_int (frame 4 i (surround_51_to_quad w inp n out4) ! (2 + c)) - 453 / 1000 * (of_int (f ! (4 + c)) + 1 / 2 * of_int (f ! 3))\<bar> \<le> 2 + 4 * E"
proof -
  have b: "6 * i + 6 \<le> length inp" using frame_bound [OF assms(4,3)] by simp
  have s: "in_s w (f ! k)" if "k < 6" for k using assms(1) that b unfolding f_def by (simp add: nth_frame)
  have idx: "[0, 1] ! c = c" if "c < 2" using that by (auto simp: less_2_cases_iff)
  show "\<bar>of_int (frame 2 i (surround_51_to_stereo w inp n out) ! c) - 585 / 1000 * (of_int (f ! c) + 707 / 1000 * of_int (f ! 2))\<bar> \<le> 2 + 4 * E"
    if "2 * n \<le> length out" "c < 2"
    using surround_stereo_frame(1) [OF that(1) assms(3,4), of w, folded f_def] mix_stereo_near(2) [OF s s assms(2), of c 2, folded E_def] that(2) idx
    by (auto simp: less_2_cases_iff)
  show "\<bar>of_int (frame 4 i (surround_51_to_quad w inp n out4) ! c)
        - 453 / 1000 * (of_int (f ! c) + 707 / 1000 * of_int (f ! 2) + 1 / 2 * of_int (f ! 3))\<bar> \<le> 3 + 5 * E"
    if "4 * n \<le> length out4" "c < 2"
    using surround_quad_frame(1) [OF that(1) assms(3,4), of w, folded f_def] mix_quad_near(2) [OF s s s assms(2), of c 2 3, folded E_def] that(2)
    by (auto simp: less_2_cases_iff)
  show "\<bar>of_int (frame 4 i (surround_51_to_quad w inp n out4) ! (2 + c)) - 453 / 1000 * (of_int (f ! (4 + c)) + 1 / 2 * of_int (f ! 3))\<bar> \<le> 2 + 4 * E"
    if "4 * n \<le> length out4" "c < 2"
    using surround_quad_frame(1) [OF that(1) assms(3,4), of w, folded f_def] mix_quad_near(4) [OF s s s assms(2), of "4 + c" 2 3, folded E_def] that(2)
    by (auto simp: less_2_cases_iff)
qed

text \<open>C30. The down-mixes of 5.1 surround give what they document: left and right are the front channel plus 0.707 of the
  center, normalized by 0.585; for four speakers the front also gets half of the low frequencies and the rear the rear channel
  plus half of the low frequencies, normalized by 0.453. For every input the sample differs from this by two to three
  steps at most (by the precision of \<open>float\<close> for samples of 32 bits); in particular no loud input wraps around.\<close>

theorem downmix_51_accurate:
  assumes "\<forall>v\<in>set inp. in_s 16 v" "\<forall>v\<in>set inp32. in_s 32 v" "6 * n \<le> length inp" "length inp32 = length inp"
    and "2 * n \<le> length out" "4 * n \<le> length out4" "i < n" "c < 2"
  defines "f \<equiv> frame 6 i inp" and "g \<equiv> frame 6 i inp32"
  shows "\<bar>of_int (frame 2 i (s16_51_to_stereo inp n out) ! c) - 585 / 1000 * (of_int (f ! c) + 707 / 1000 * of_int (f ! 2))\<bar> \<le> 2 + 1 / (128::real) \<and>
    \<bar>of_int (frame 2 i (s32_51_to_stereo inp32 n out) ! c) - 585 / 1000 * (of_int (g ! c) + 707 / 1000 * of_int (g ! 2))\<bar> \<le> (514::real) \<and>
    \<bar>of_int (frame 4 i (s16_51_to_quad inp n out4) ! c) - 453 / 1000 * (of_int (f ! c) + 707 / 1000 * of_int (f ! 2) + 1 / 2 * of_int (f ! 3))\<bar> \<le> 3 + 1 / (64::real) \<and>
    \<bar>of_int (frame 4 i (s32_51_to_quad inp32 n out4) ! c) - 453 / 1000 * (of_int (g ! c) + 707 / 1000 * of_int (g ! 2) + 1 / 2 * of_int (g ! 3))\<bar> \<le> (643::real) \<and>
    \<bar>of_int (frame 4 i (s16_51_to_quad inp n out4) ! (2 + c)) - 453 / 1000 * (of_int (f ! (4 + c)) + 1 / 2 * of_int (f ! 3))\<bar> \<le> 2 + 1 / (128::real) \<and>
    \<bar>of_int (frame 4 i (s32_51_to_quad inp32 n out4) ! (2 + c)) - 453 / 1000 * (of_int (g ! (4 + c)) + 1 / 2 * of_int (g ! 3))\<bar> \<le> (514::real)"
proof -
  have e: "(2::real) powi (int 16 - 25) = 1 / 512" "(2::real) powi (int 32 - 25) = 128" by (simp_all add: power_int_def power_divide)
  have n: "6 * n \<le> length inp32" using assms(3,4) by simp
  note s = surround_51_near [OF assms(1) _ assms(3,7), folded f_def, unfolded e(1)]
  note t = surround_51_near [OF assms(2) _ n assms(7), folded g_def, unfolded e(2)]
  show ?thesis
    unfolding s16_51_to_stereo_def s32_51_to_stereo_def s16_51_to_quad_def s32_51_to_quad_def
    using s(1) [OF _ assms(5,8)] s(2) [OF _ assms(6,8)] s(3) [OF _ assms(6,8)] t(1) [OF _ assms(5,8)] t(2) [OF _ assms(6,8)] t(3) [OF _ assms(6,8)]
    by simp
qed

text \<open>A frame at full scale.\<close>

theorem downmix_51_accurate_witness:
  "\<bar>of_int (frame 2 0 (s16_51_to_stereo (replicate 6 32767) 1 [0, 0]) ! 0) - 585 / 1000 * (32767 + 707 / 1000 * 32767)\<bar> \<le> 2 + 1 / (128::real)"
  using downmix_51_accurate [of "replicate 6 32767" "replicate 6 0" 1 "[0, 0]" "[0, 0, 0, 0]" 0 0]
  by (simp add: in_s_def frame_def)

section \<open>Conversion by a matrix\<close>

lemma store_frame_all:
  assumes "j \<le> length xs"
  shows "store_frame k 0 (map (\<lambda>c. (int c, g c)) [0..<j]) xs = map g [0..<j] @ drop j xs"
  using assms
proof (induction j)
  case (Suc j)
  then have "drop j xs = xs ! j # drop (Suc j) xs" by (simp add: Cons_nth_drop_Suc)
  with Suc show ?case by (simp add: store_frame_def list_update_append)
qed simp

lemma convert_channels_frames:
  "convert_channels_with multiply mtx m k inp n out
   = for_frames n (\<lambda>fr. store_frame k fr (map (\<lambda>c. (int c, multiply (mtx ! c) (drop (fr * m) inp) m)) [0..<k])) out"
  unfolding convert_channels_with_def by (simp add: for_frames_def store_frame_def foldl_map mult.commute)

lemma convert_channels_frame:
  assumes "k * n \<le> length out" "i < n"
  shows "frame k i (convert_channels_with multiply mtx m k inp n out) = map (\<lambda>c. multiply (mtx ! c) (drop (i * m) inp) m) [0..<k]"
    "drop (k * n) (convert_channels_with multiply mtx m k inp n out) = drop (k * n) out"
proof -
  let ?ws = "\<lambda>fr. map (\<lambda>c. (int c, multiply (mtx ! c) (drop (fr * m) inp) m)) [0..<k]"
  have ok: "stores_ok k (?ws j)" for j by (auto simp: list_all_iff)
  have len: "length (frame k i out) = k" using frame_bound [OF assms(2,1)] by simp
  show "frame k i (convert_channels_with multiply mtx m k inp n out) = map (\<lambda>c. multiply (mtx ! c) (drop (i * m) inp) m) [0..<k]"
    unfolding convert_channels_frames frame_for_frames [OF ok assms] using store_frame_all [of k "frame k i out"] len by simp
  show "drop (k * n) (convert_channels_with multiply mtx m k inp n out) = drop (k * n) out"
    unfolding convert_channels_frames by (rule drop_for_frames [OF ok assms(1)])
qed

text \<open>With coefficients 0 and 1 and few channels the sums fit the precision of \<open>float\<close>.\<close>

lemma route_sum:
  assumes "\<forall>j<n. coef ! j = 0 \<or> coef ! j = 1" "\<forall>j<n. in_s 16 (buf ! j)" "n \<le> 256"
  defines "S \<equiv> \<lambda>k. \<Sum>j<k. if coef ! j = 1 then buf ! j else 0"
  shows "k \<le> n \<Longrightarrow> for_frames k (add_product 32 coef buf) 0 = S k \<and> \<bar>S k\<bar> \<le> int k * 32768"
proof (induction k)
  case (Suc k)
  let ?v = "if coef ! k = 1 then buf ! k else 0"
  have "in_s 16 (buf ! k)" using assms(2) Suc.prems by simp
  then have v: "\<bar>buf ! k\<bar> \<le> 32768" by (auto simp: in_s_def)
  have IH: "for_frames k (add_product 32 coef buf) 0 = S k" "\<bar>S k\<bar> \<le> int k * 32768" using Suc by auto
  have b: "\<bar>S k\<bar> < 2 ^ 24" "\<bar>S k + ?v\<bar> < 2 ^ 23 + 1" "\<bar>?v\<bar> < 2 ^ 24" using IH(2) v Suc.prems assms(3) by auto
  have "coef ! k = 0 \<or> coef ! k = 1" using assms(1) Suc.prems by simp
  then have c: "coef ! k * of_int (buf ! k) = of_int ?v" by auto
  have i: "f32 (of_int x) = of_int x" if "\<bar>x\<bar> < 2 ^ 24" for x :: int using that by (intro fround_int) auto
  have "add_product 32 coef buf k (S k) = cvt 32 (f32 (of_int (S k) + f32 (of_int ?v)))"
    unfolding add_product_def using i [of "S k"] i [of "buf ! k"] b(1) v c by simp
  also have "\<dots> = cvt 32 (f32 (of_int (S k + ?v)))" using i [OF b(3)] by simp
  also have "\<dots> = cvt 32 (of_int (S k + ?v))" using b(2) by (subst i) auto
  also have "\<dots> = S k + ?v" using b(2) unfolding cvt_def c_trunc_of_int by (auto simp: in_s_def)
  finally have "for_frames (Suc k) (add_product 32 coef buf) 0 = S (Suc k)" by (simp add: IH(1) S_def)
  moreover have "\<bar>S (Suc k)\<bar> \<le> int (Suc k) * 32768" using IH(2) v by (auto simp: S_def)
  ultimately show ?case by simp
qed (simp add: S_def)

lemma multiply_routes:
  assumes "\<forall>j<n. coef ! j = 0 \<or> coef ! j = 1" "\<forall>j<n. in_s 16 (buf ! j)" "n \<le> 256"
  shows "s16_multiply_buf_with_coef coef buf n = clip SHRT_MIN SHRT_MAX (\<Sum>j<n. if coef ! j = 1 then buf ! j else 0)"
proof -
  have "s16 (min (max s (- 0x8000)) 0x7fff) = clip SHRT_MIN SHRT_MAX s" for s :: int
    by (subst wrap_s_id) (auto simp: in_s_def clip_def SHRT_MIN_def SHRT_MAX_def)
  then show ?thesis using route_sum [OF assms, of n] by (simp add: s16_multiply_buf_with_coef_def Let_def)
qed

text \<open>C32. Routing the channels of one layout to another is exact for samples of 16 bits: with the matrix of
  \<open>cras_channel_conv_matrix_create\<close>, whose coefficients are 0 and 1, every output sample is the sum of the input samples
  routed to its channel, limited to the range of the samples, although it is computed in \<open>float\<close>; nothing beyond the output frames changes.\<close>

theorem channel_routing_exact:
  fixes fin fout :: cras_audio_format
  assumes "cras_channel_conv_matrix_create fin fout = Matrix mtx" "cras_audio_format_valid fin" "cras_audio_format_valid fout"
    and "0 \<le> num_channels fin" "num_channels fin \<le> 256" "0 \<le> num_channels fout" "num_channels fout \<le> 256" "\<forall>v\<in>set inp. in_s 16 v"
  defines "m \<equiv> nat (num_channels fin)" and "k \<equiv> nat (num_channels fout)"
  defines "goes \<equiv> \<lambda>j c. \<exists>ch<CRAS_CH_MAX. routed (channel_layout fin) (channel_layout fout) ch (int c) (int j)"
  assumes "m * n \<le> length inp" "k * n \<le> length out" "i < n" "c < k"
  shows "frame k i (s16_convert_channels mtx m k inp n out) ! c
      = clip SHRT_MIN SHRT_MAX (\<Sum>j<m. if goes j c then frame m i inp ! j else 0) \<and>
    drop (k * n) (s16_convert_channels mtx m k inp n out) = drop (k * n) out"
proof -
  have coef: "mtx ! c ! j = (if goes j c then 1 else 0)" if "j < m" for j
  proof -
    have "\<forall>r c. 0 \<le> r \<and> r < num_channels fout \<and> 0 \<le> c \<and> c < num_channels fin \<longrightarrow> mtx ! nat r ! nat c =
        (if \<exists>ch<CRAS_CH_MAX. routed (channel_layout fin) (channel_layout fout) ch r c then 1 else 0)"
      using conv_matrix_spec [OF assms(2-4) _ assms(6)] assms(1,5,7) by simp
    from this [rule_format, of "int c" "int j"] that assms(15)
    have "mtx ! nat (int c) ! nat (int j) = (if goes j c then 1 else 0)" unfolding goes_def m_def k_def by linarith
    then show ?thesis by simp
  qed
  have b: "m * i + m \<le> length inp" using frame_bound [OF assms(14,12)] by simp
  have f: "drop (i * m) inp ! j = frame m i inp ! j" "in_s 16 (drop (i * m) inp ! j)" if "j < m" for j
    using b that assms(8) by (simp_all add: nth_frame mult.commute)
  have "s16_multiply_buf_with_coef (mtx ! c) (drop (i * m) inp) m = clip SHRT_MIN SHRT_MAX (\<Sum>j<m. if mtx ! c ! j = 1 then drop (i * m) inp ! j else 0)"
    using coef f(2) assms(5) by (intro multiply_routes) (auto simp: m_def)
  also have "(\<Sum>j<m. if mtx ! c ! j = 1 then drop (i * m) inp ! j else 0) = (\<Sum>j<m. if goes j c then frame m i inp ! j else 0)"
    using coef f(1) by (intro sum.cong) auto
  finally show ?thesis
    using convert_channels_frame [OF assms(13,14), of s16_multiply_buf_with_coef mtx m inp] assms(15)
    unfolding s16_convert_channels_def by simp
qed

lemma routed_code [code]:
  "routed lin lout i r c \<longleftrightarrow> lin ! i = c \<and> c \<noteq> - 1 \<and> (case route lin lout i of None \<Rightarrow> False | Some d \<Rightarrow> lout ! d = r)"
  by (auto simp: routed_def split: option.splits)

text \<open>The side channels go to the rear.\<close>

theorem channel_routing_exact_witness:
  "\<exists>mtx. cras_channel_conv_matrix_create side_format quad_format = Matrix mtx \<and>
     frame 4 0 (s16_convert_channels mtx 4 4 [11, 12, 13, 14] 1 [0, 0, 0, 0]) ! 2 = 13"
proof -
  have v: "cras_audio_format_valid side_format" "cras_audio_format_valid quad_format"
    by (simp_all add: cras_audio_format_valid_def quad_layout side_layout CRAS_CH_MAX_def wrap_s_def upt_rec)
  have n: "num_channels side_format = 4" "num_channels quad_format = 4" by (simp_all add: quad_layout side_layout)
  obtain m where m: "cras_channel_conv_matrix_create side_format quad_format = Matrix m"
    using conv_matrix_spec [OF v] n side_layout(1)
    by (cases "cras_channel_conv_matrix_create side_format quad_format") (auto simp: Audio_Format.CRAS_CH_FC_def)
  have g: "(\<exists>ch<CRAS_CH_MAX. routed (channel_layout side_format) (channel_layout quad_format) ch 2 (int j)) \<longleftrightarrow> j = 2" if "j < 4" for j
    proof -
    have "j = 0 \<or> j = 1 \<or> j = 2 \<or> j = 3" using that by auto
    then show ?thesis unfolding quad_layout side_layout CRAS_CH_MAX_def by (elim disjE; simp; code_simp)
  qed
  have "\<forall>v\<in>set [11, 12, 13, 14::int]. in_s 16 v" by (simp add: in_s_def)
  from channel_routing_exact [OF m v _ _ _ _ this, of 1 "[0, 0, 0, 0]" 0 2, unfolded n nat_numeral]
  have "frame 4 0 (s16_convert_channels m 4 4 [11, 12, 13, 14] 1 [0, 0, 0, 0]) ! 2
      = clip SHRT_MIN SHRT_MAX (\<Sum>j<4. if \<exists>ch<CRAS_CH_MAX. routed (channel_layout side_format) (channel_layout quad_format) ch 2 (int j)
          then frame 4 0 [11, 12, 13, 14] ! j else 0)"
    by simp
  also have "(\<Sum>j<4. if \<exists>ch<CRAS_CH_MAX. routed (channel_layout side_format) (channel_layout quad_format) ch 2 (int j)
          then frame 4 0 [11, 12, 13, 14] ! j else 0) = (\<Sum>j<4::nat. if j = 2 then frame 4 0 [11, 12, 13, 14::int] ! j else 0)"
    using g by (intro sum.cong) auto
  finally show ?thesis using m by (auto simp: frame_def clip_def SHRT_MIN_def SHRT_MAX_def sum.delta)
qed

section \<open>Matrices\<close>

lemma mtx_upds_ok:
  assumes "matrix_shape r c m" "\<forall>(a, b, f)\<in>set us. 0 \<le> a \<and> a < int r \<and> 0 \<le> b \<and> b < int c"
  shows "\<exists>m'. mtx_upds us m = Some m' \<and> matrix_shape r c m'"
  using assms
proof (induction us arbitrary: m)
  case (Cons u us)
  obtain a b f where u: "u = (a, b, f)" by (cases u)
  have ab: "0 \<le> a" "a < int r" "0 \<le> b" "b < int c" using Cons.prems(2) u by auto
  have len: "length m = r" "length (m ! nat a) = c" using Cons.prems(1) ab by (auto simp: matrix_shape_def)
  let ?m = "m[nat a := (m ! nat a)[nat b := f (m ! nat a ! nat b)]]"
  have "set ?m \<subseteq> insert ((m ! nat a)[nat b := f (m ! nat a ! nat b)]) (set m)" by (rule set_update_subset_insert)
  then have "matrix_shape r c ?m" using Cons.prems(1) len by (auto simp: matrix_shape_def)
  moreover have "mtx_upd a b f m = Some ?m" using ab len by (simp add: mtx_upd_def)
  ultimately show ?case using Cons.IH [of ?m] Cons.prems(2) u by auto
qed simp

lemma normalize_ok: "matrix_shape r c m \<Longrightarrow> \<exists>m'. normalize m r c x = Some m' \<and> matrix_shape r c m'"
  unfolding normalize_def by (rule mtx_upds_ok) auto

lemmas channel_defs = STEREO_L_def STEREO_R_def Audio_Format.CRAS_CH_FL_def Audio_Format.CRAS_CH_FR_def Audio_Format.CRAS_CH_FC_def
  CRAS_CH_RL_def CRAS_CH_RR_def CRAS_CH_LFE_def CRAS_CH_SL_def CRAS_CH_SR_def

text \<open>The down-mix matrices are filled within their bounds for every layout of six channels.\<close>

lemma layout_idx: "layout_ok l n \<Longrightarrow> i < 11 \<Longrightarrow> l ! i \<noteq> - 1 \<Longrightarrow> 0 \<le> l ! i \<and> l ! i < int n"
  by (force simp: layout_ok_def CRAS_CH_MAX_def)

lemma downmix_stores_ok:
  assumes "layout_ok layout 6"
  shows "\<forall>(a, b, f)\<in>set (stereo_downmix_stores layout). 0 \<le> a \<and> a < int 2 \<and> 0 \<le> b \<and> b < int 6"
    "\<forall>(a, b, f)\<in>set (quad_downmix_stores layout). 0 \<le> a \<and> a < int 4 \<and> 0 \<le> b \<and> b < int 6"
proof -
  have l: "layout ! i \<noteq> - 1 \<longrightarrow> 0 \<le> layout ! i \<and> layout ! i < 6" if "i < 11" for i using layout_idx [OF assms that] by simp
  note ls = l [of 0, simplified] l [of 1, simplified] l [of 2, simplified] l [of 3, simplified] l [of 4, simplified] l [of 5, simplified]
    l [of 6, simplified] l [of 7, simplified]
  show "\<forall>(a, b, f)\<in>set (stereo_downmix_stores layout). 0 \<le> a \<and> a < int 2 \<and> 0 \<le> b \<and> b < int 6"
    using ls unfolding list_all_iff [symmetric] by (simp add: stereo_downmix_stores_def mtx_pair_def channel_defs Let_def split: if_split)
  show "\<forall>(a, b, f)\<in>set (quad_downmix_stores layout). 0 \<le> a \<and> a < int 4 \<and> 0 \<le> b \<and> b < int 6"
    using ls unfolding list_all_iff [symmetric] by (simp add: quad_downmix_stores_def mtx_pair_def channel_defs Let_def split: if_split)
qed

lemma downmix_mtx_ok:
  assumes "layout_ok layout 6"
  shows "matrix_shape 2 6 m \<Longrightarrow> \<exists>m'. surround51_to_stereo_downmix_mtx m layout = Some m' \<and> matrix_shape 2 6 m'"
    and "matrix_shape 4 6 m \<Longrightarrow> \<exists>m'. surround51_to_quad_downmix_mtx m layout = Some m' \<and> matrix_shape 4 6 m'"
  using mtx_upds_ok [OF _ downmix_stores_ok(1) [OF assms], of m] mtx_upds_ok [OF _ downmix_stores_ok(2) [OF assms], of m] normalize_ok
  by (fastforce simp: surround51_to_stereo_downmix_mtx_def surround51_to_quad_downmix_mtx_def)+

text \<open>The matrix for internal speakers is made within its bounds exactly when the output has a front left channel: otherwise the code
  reads the row before the first one to find the factor.\<close>

lemma internal_spk_matrix:
  assumes "layout_ok (channel_layout fin) (nat (num_channels fin))" "layout_ok (channel_layout fout) (nat (num_channels fout))"
    and "0 \<le> num_channels fin" "num_channels fin < 2 ^ 31" "0 \<le> num_channels fout" "num_channels fout < 2 ^ 31"
  shows "if channel_layout fout ! STEREO_L = - 1 then cras_internal_spk_channel_conv_matrix_create fin fout = OutOfBounds
    else \<exists>m. cras_internal_spk_channel_conv_matrix_create fin fout = Matrix m \<and> matrix_shape (nat (num_channels fout)) (nat (num_channels fin)) m"
proof -
  let ?in = "channel_layout fin" and ?out = "channel_layout fout" and ?r = "nat (num_channels fout)" and ?c = "nat (num_channels fin)"
  let ?us = "[(?out ! i, ?in ! j, \<lambda>x. f32 (x + internal_spk_channel_mapping ! i ! j)). i \<leftarrow> [0..<CRAS_CH_MAX], j \<leftarrow> [0..<CRAS_CH_MAX],
             internal_spk_channel_mapping ! i ! j \<noteq> 0 \<and> ?out ! i \<noteq> - 1 \<and> ?in ! j \<noteq> - 1]"
  have n: "s32 (num_channels fin) = num_channels fin" "s32 (num_channels fout) = num_channels fout"
    using assms by (auto intro!: wrap_s_id)
  have valid: "\<not> list_ex (\<lambda>i. ?in ! i \<ge> s32 (num_channels fin) \<or> ?out ! i \<ge> s32 (num_channels fout)) [0..<CRAS_CH_MAX]"
    using assms(1,2) assms(3,5) by (auto simp: list_ex_iff layout_ok_def n)
  have "\<forall>(a, b, f)\<in>set ?us. 0 \<le> a \<and> a < int ?r \<and> 0 \<le> b \<and> b < int ?c"
    using layout_idx [OF assms(1)] layout_idx [OF assms(2)] by (auto simp: CRAS_CH_MAX_def)
  then obtain m where m: "mtx_upds ?us (cras_channel_conv_matrix_alloc (num_channels fin) (num_channels fout)) = Some m" "matrix_shape ?r ?c m"
    using mtx_upds_ok [OF matrix_shape_alloc] by blast
  obtain m' where "normalize m ?r ?c (normalize_factor (m ! nat (?out ! STEREO_L)) ?c) = Some m'" "matrix_shape ?r ?c m'"
    using normalize_ok [OF m(2)] by blast
  moreover have "?out ! STEREO_L < 0 \<longleftrightarrow> ?out ! STEREO_L = - 1" using assms(2) by (force simp: STEREO_L_def layout_ok_def CRAS_CH_MAX_def)
  ultimately show ?thesis using valid m(1) unfolding cras_internal_spk_channel_conv_matrix_create_def Let_def by simp
qed

end
