(* ===== verification/Fmt_Conv.thy ===== *)
theory Fmt_Conv
  imports Fmt_Conv_Mtx Linear_Resampler Cras_Time Rstream "HOL-Library.Monad_Syntax"
begin

text \<open>
  The format converter (\<open>cras/src/server/cras_fmt_conv.c\<close>): it chooses the converters that lead from one audio format to
  another and runs audio through them, from buffer to buffer. A buffer is a list of bytes. A function pointer is a constructor
  of a datatype, and \<open>run_format_converter\<close>, \<open>run_channel_converter\<close> call the function it stands for.
  The speex resampler is a parameter, and so is ALSA's \<open>snd_pcm_format_physical_width\<close>; allocation of the
  resamplers and buffers may fail. The result \<open>None\<close> of a stage is an access outside a buffer or a failed \<open>CRAS_CHECK\<close>.
\<close>

section \<open>Model\<close>

datatype format_converter =
  F_u8_to_s16le | F_s243le_to_s16le | F_s24le_to_s16le | F_s32le_to_s16le | F_s24le_to_s32le | F_s243le_to_s32le
| F_s16le_to_u8 | F_s16le_to_s243le | F_s16le_to_s24le | F_s16le_to_s32le | F_s32le_to_s24le | F_s32le_to_s243le

datatype channel_converter =
  C_mono_to_stereo | C_mono_to_5 | C_mono_to_51 | C_stereo_to_mono | C_stereo_to_quad | C_quad_to_stereo | C_stereo_to_5
| C_stereo_to_51 | C_quad_to_51 | C_mono_to_71 | C_stereo_to_71 | C_quad_to_71 | C_51_to_71 | C_51_to_quad | C_51_to_stereo
| C_convert_channels | C_default_all_to_all | C_default_some_to_some

text \<open>\<open>speex_resampler_init\<close> and \<open>speex_resampler_process_interleaved_int\<close>: from the samples, the frames given and the
  frames that fit, the frames used, the frames made and their samples.\<close>

record 's speex =
  sx_init :: "int \<Rightarrow> int \<Rightarrow> int \<Rightarrow> 's option"
  sx_process :: "'s \<Rightarrow> int list \<Rightarrow> nat \<Rightarrow> nat \<Rightarrow> nat \<times> nat \<times> int list \<times> 's"

record 's cras_fmt_conv =
  fc_speex_state :: "'s option"
  fc_channel_converter :: "channel_converter option"
  fc_ch_conv_mtx :: "matrix option"
  fc_in_format_converter :: "format_converter option"
  fc_out_format_converter :: "format_converter option"
  fc_resampler :: linear_resampler
  fc_in_fmt :: cras_audio_format
  fc_out_fmt :: cras_audio_format
  fc_tmp_bufs :: "bytes list"
  fc_tmp_buf_frames :: nat
  fc_pre_linear_resample :: bool
  fc_num_converters :: nat

definition MAX_NUM_CONVERTERS :: nat where "MAX_NUM_CONVERTERS = 5"
definition CRAS_NODE_TYPE_INTERNAL_SPEAKER :: int where "CRAS_NODE_TYPE_INTERNAL_SPEAKER = 0"

definition is_supported_format :: "cras_audio_format \<Rightarrow> bool" where
  "is_supported_format fmt \<longleftrightarrow>
     format fmt \<in> {SND_PCM_FORMAT_U8, SND_PCM_FORMAT_S16_LE, SND_PCM_FORMAT_S24_3LE, SND_PCM_FORMAT_S24_LE, SND_PCM_FORMAT_S32_LE}"

definition s32_formats :: "(int \<Rightarrow> int) \<Rightarrow> cras_audio_format \<Rightarrow> cras_audio_format \<Rightarrow> bool" where
  "s32_formats width fin fout \<longleftrightarrow> width (format fin) > 16 \<and> width (format fout) > 16 \<and> frame_rate fin = frame_rate fout"

definition use_s32_conversion :: "(int \<Rightarrow> int) \<Rightarrow> 's cras_fmt_conv \<Rightarrow> bool" where
  "use_s32_conversion width conv = s32_formats width (fc_in_fmt conv) (fc_out_fmt conv)"

subsection \<open>Running one converter\<close>

text \<open>A function on the elements of two buffers: \<open>m\<close> elements of \<open>iw\<close> bytes are read, \<open>k\<close> elements of \<open>ow\<close> bytes may be
  written. Elements of one byte are unsigned, the others signed.\<close>

definition elems :: "nat \<Rightarrow> nat \<Rightarrow> bytes \<Rightarrow> int list" where
  "elems w n mem = map (\<lambda>i. if w = 1 then ld 1 mem i else wrap_s (8 * w) (ld w mem (w * i))) [0..<n]"

definition run_elems :: "nat \<Rightarrow> nat \<Rightarrow> nat \<Rightarrow> nat \<Rightarrow> (int list \<Rightarrow> int list \<Rightarrow> int list) \<Rightarrow> bytes \<Rightarrow> bytes \<Rightarrow> bytes option" where
  "run_elems iw m ow k f src dst =
     (if iw * m \<le> length src \<and> ow * k \<le> length dst
      then Some (store_at dst 0 (concat (map (le ow) (take k (f (elems iw m src) (elems ow k dst)))))) else None)"

definition run_format_converter :: "format_converter \<Rightarrow> nat \<Rightarrow> bytes \<Rightarrow> bytes \<Rightarrow> bytes option" where
  "run_format_converter c n =
     (case c of
        F_u8_to_s16le \<Rightarrow> run_elems 1 n 2 n (\<lambda>inp out. convert_u8_to_s16le inp n out)
      | F_s243le_to_s16le \<Rightarrow> run_elems 1 (3 * n) 2 n (\<lambda>inp out. convert_s243le_to_s16le inp n out)
      | F_s24le_to_s16le \<Rightarrow> run_elems 4 n 2 n (\<lambda>inp out. convert_s24le_to_s16le inp n out)
      | F_s32le_to_s16le \<Rightarrow> run_elems 4 n 2 n (\<lambda>inp out. convert_s32le_to_s16le inp n out)
      | F_s24le_to_s32le \<Rightarrow> run_elems 4 n 4 n (\<lambda>inp out. convert_s24le_to_s32le inp n out)
      | F_s243le_to_s32le \<Rightarrow> run_elems 1 (3 * n) 1 (4 * n) (\<lambda>inp out. convert_s243le_to_s32le inp n out)
      | F_s16le_to_u8 \<Rightarrow> run_elems 2 n 1 n (\<lambda>inp out. convert_s16le_to_u8 inp n out)
      | F_s16le_to_s243le \<Rightarrow> run_elems 2 n 1 (3 * n) (\<lambda>inp out. convert_s16le_to_s243le inp n out)
      | F_s16le_to_s24le \<Rightarrow> run_elems 2 n 4 n (\<lambda>inp out. convert_s16le_to_s24le inp n out)
      | F_s16le_to_s32le \<Rightarrow> run_elems 2 n 4 n (\<lambda>inp out. convert_s16le_to_s32le inp n out)
      | F_s32le_to_s24le \<Rightarrow> run_elems 4 n 4 n (\<lambda>inp out. convert_s32le_to_s24le inp n out)
      | F_s32le_to_s243le \<Rightarrow> run_elems 1 (4 * n) 1 (3 * n) (\<lambda>inp out. convert_s32le_to_s243le inp n out))"

text \<open>A channel index that the layout gives is in the frame, or \<open>-1\<close>.\<close>

definition idx_ok :: "int list \<Rightarrow> nat list \<Rightarrow> nat \<Rightarrow> bool" where
  "idx_ok layout chs n \<longleftrightarrow> list_all (\<lambda>ch. - 1 \<le> layout ! ch \<and> layout ! ch < int n) chs"

definition layout_fun :: "int list \<Rightarrow> channel_layout" where
  "layout_fun l = (\<lambda>ch. l ! (case ch of cras_channel.CRAS_CH_FL \<Rightarrow> 0 | cras_channel.CRAS_CH_FR \<Rightarrow> 1 | cras_channel.CRAS_CH_RL \<Rightarrow> 2
     | cras_channel.CRAS_CH_RR \<Rightarrow> 3 | cras_channel.CRAS_CH_FC \<Rightarrow> 4 | cras_channel.CRAS_CH_LFE \<Rightarrow> 5 | cras_channel.CRAS_CH_SL \<Rightarrow> 6
     | cras_channel.CRAS_CH_SR \<Rightarrow> 7 | CRAS_CH_RC \<Rightarrow> 8 | CRAS_CH_FLC \<Rightarrow> 9 | CRAS_CH_FRC \<Rightarrow> 10))"

text \<open>\<open>mono_to_stereo\<close>, \<dots>, \<open>convert_channels\<close>: the functions that a channel converter may be. \<open>default_some_to_some\<close> clears
  the output by the frame size of the output format and not of the samples.\<close>

definition run_channel_converter :: "(int \<Rightarrow> int) \<Rightarrow> 's cras_fmt_conv \<Rightarrow> channel_converter \<Rightarrow> nat \<Rightarrow> bytes \<Rightarrow> bytes \<Rightarrow> bytes option" where
  "run_channel_converter width conv c n src dst =
     (let lin = channel_layout (fc_in_fmt conv); lout = channel_layout (fc_out_fmt conv);
          FL = lout ! 0; FR = lout ! 1; RL = lout ! 2; RR = lout ! 3; FC = lout ! 4;
          m = nat (num_channels (fc_in_fmt conv)); k = nat (num_channels (fc_out_fmt conv));
          w = if use_s32_conversion width conv then 4 else 2;
          pick = (\<lambda>long short inp out. if use_s32_conversion width conv then long inp n out else short inp n out);
          run = (\<lambda>ok mi ko f. if ok then run_elems w (mi * n) w (ko * n) f src dst else None)
      in case c of
        C_mono_to_stereo \<Rightarrow> run True 1 2 (pick s32_mono_to_stereo s16_mono_to_stereo)
      | C_stereo_to_mono \<Rightarrow> run True 2 1 (pick s32_stereo_to_mono s16_stereo_to_mono)
      | C_mono_to_5 \<Rightarrow> run (idx_ok lout [0, 1] 5) 1 5 (pick (s32_mono_to_5 FL FR) (s16_mono_to_5 FL FR))
      | C_mono_to_51 \<Rightarrow> run (idx_ok lout [0, 1, 4] 6) 1 6 (pick (s32_mono_to_51 FL FR FC) (s16_mono_to_51 FL FR FC))
      | C_stereo_to_5 \<Rightarrow> run (idx_ok lout [0, 1] 5) 2 5 (pick (s32_stereo_to_5 FL FR) (s16_stereo_to_5 FL FR))
      | C_stereo_to_51 \<Rightarrow> run (idx_ok lout [0, 1, 4] 6) 2 6 (pick (s32_stereo_to_51 FL FR FC) (s16_stereo_to_51 FL FR FC))
      | C_quad_to_51 \<Rightarrow> run (idx_ok lout [0, 1, 2, 3] 6) 4 6 (pick (s32_quad_to_51 FL FR RL RR) (s16_quad_to_51 FL FR RL RR))
      | C_mono_to_71 \<Rightarrow> run (idx_ok lout [0, 1, 4] 8) 1 8 (pick (s32_mono_to_71 FL FR FC) (s16_mono_to_71 FL FR FC))
      | C_stereo_to_71 \<Rightarrow> run (idx_ok lout [0, 1, 4] 8) 2 8 (pick (s32_stereo_to_71 FL FR FC) (s16_stereo_to_71 FL FR FC))
      | C_quad_to_71 \<Rightarrow> run (idx_ok lout [0, 1, 2, 3] 8) 4 8 (pick (s32_quad_to_71 FL FR RL RR) (s16_quad_to_71 FL FR RL RR))
      | C_51_to_71 \<Rightarrow> run (idx_ok lin [0..<8] 6 \<and> idx_ok lout [0..<8] 8) 6 8
          (pick (s32_51_to_71 (layout_fun lin) (layout_fun lout)) (s16_51_to_71 (layout_fun lin) (layout_fun lout)))
      | C_51_to_stereo \<Rightarrow> run True 6 2 (pick s32_51_to_stereo s16_51_to_stereo)
      | C_51_to_quad \<Rightarrow> run True 6 4 (pick s32_51_to_quad s16_51_to_quad)
      | C_stereo_to_quad \<Rightarrow> run (idx_ok lout [0, 1] 4) 2 4 (pick (s32_stereo_to_quad FL FR) (s16_stereo_to_quad FL FR))
      | C_quad_to_stereo \<Rightarrow> run (idx_ok lin [0, 1, 2, 3] 4) 4 2
          (pick (s32_quad_to_stereo (lin ! 0) (lin ! 1) (lin ! 2) (lin ! 3)) (s16_quad_to_stereo (lin ! 0) (lin ! 1) (lin ! 2) (lin ! 3)))
      | C_default_all_to_all \<Rightarrow> run (m > 0) m k (pick (s32_default_all_to_all m k) (s16_default_all_to_all m k))
      | C_default_some_to_some \<Rightarrow>
          (let z = n * nat (cras_get_format_bytes width (fc_out_fmt conv)) in
           if z \<le> length dst
           then run_elems w (m * n) w (k * n) (pick (s32_some_to_some 0 m k) (s16_some_to_some 0 m k)) src (memset_zero dst 0 z)
           else None)
      | C_convert_channels \<Rightarrow>
          (case fc_ch_conv_mtx conv of
             None \<Rightarrow> None
           | Some mtx \<Rightarrow> run (k \<le> length mtx \<and> list_all (\<lambda>row. m \<le> length row) (take k mtx)) m k
               (pick (s32_convert_channels mtx m k) (s16_convert_channels mtx m k))))"

subsection \<open>Creation\<close>

definition in_format_converter_for :: "bool \<Rightarrow> int \<Rightarrow> format_converter option" where
  "in_format_converter_for use32 f =
     (if use32 then
        if f = SND_PCM_FORMAT_S24_LE then Some F_s24le_to_s32le else if f = SND_PCM_FORMAT_S24_3LE then Some F_s243le_to_s32le else None
      else
        if f = SND_PCM_FORMAT_U8 then Some F_u8_to_s16le else if f = SND_PCM_FORMAT_S24_LE then Some F_s24le_to_s16le
        else if f = SND_PCM_FORMAT_S32_LE then Some F_s32le_to_s16le else if f = SND_PCM_FORMAT_S24_3LE then Some F_s243le_to_s16le else None)"

definition out_format_converter_for :: "bool \<Rightarrow> int \<Rightarrow> format_converter option" where
  "out_format_converter_for use32 f =
     (if use32 then
        if f = SND_PCM_FORMAT_S24_LE then Some F_s32le_to_s24le else if f = SND_PCM_FORMAT_S24_3LE then Some F_s32le_to_s243le else None
      else
        if f = SND_PCM_FORMAT_U8 then Some F_s16le_to_u8 else if f = SND_PCM_FORMAT_S24_LE then Some F_s16le_to_s24le
        else if f = SND_PCM_FORMAT_S32_LE then Some F_s16le_to_s32le else if f = SND_PCM_FORMAT_S24_3LE then Some F_s16le_to_s243le else None)"

text \<open>The choice of the channel converter: the converter and the matrix, \<open>Inl\<close> of \<open>None\<close> if none is needed. \<open>Inr\<close> is an access
  outside a matrix.\<close>

definition matrix_or_all :: "conv_result \<Rightarrow> ((channel_converter \<times> matrix option) option, unit) sum" where
  "matrix_or_all r = (case r of Matrix m \<Rightarrow> Inl (Some (C_convert_channels, Some m)) | NoMatrix \<Rightarrow> Inl (Some (C_default_all_to_all, None))
     | OutOfBounds \<Rightarrow> Inr ())"

definition downmix_converter :: "cras_audio_format \<Rightarrow> cras_audio_format \<Rightarrow> ((channel_converter \<times> matrix option) option, unit) sum" where
  "downmix_converter fin fout =
     (if list_ex (\<lambda>i. channel_layout fin ! i \<noteq> - 1) [0..<CRAS_CH_MAX] then
        (let mtx = cras_channel_conv_matrix_alloc (num_channels fin) (num_channels fout) in
         case (if num_channels fout = 4 then surround51_to_quad_downmix_mtx mtx (channel_layout fin)
               else surround51_to_stereo_downmix_mtx mtx (channel_layout fin)) of
           None \<Rightarrow> Inr ()
         | Some m \<Rightarrow> Inl (Some (C_convert_channels, Some m)))
      else Inl (Some (if num_channels fout = 4 then C_51_to_quad else C_51_to_stereo, None)))"

definition channel_converter_for :: "cras_audio_format \<Rightarrow> cras_audio_format \<Rightarrow> int \<Rightarrow> ((channel_converter \<times> matrix option) option, unit) sum" where
  "channel_converter_for fin fout node_type =
     (let m = num_channels fin; k = num_channels fout; conv = (\<lambda>c. Inl (Some (c, None))) in
      if node_type = CRAS_NODE_TYPE_INTERNAL_SPEAKER \<and> k > 2 \<and> m > 1 then
        matrix_or_all (cras_internal_spk_channel_conv_matrix_create fin fout)
      else if m \<noteq> k then
        if m = 1 \<and> k = 2 then conv C_mono_to_stereo
        else if m = 1 \<and> k = 5 then conv C_mono_to_5
        else if m = 1 \<and> k = 6 then conv C_mono_to_51
        else if m = 2 \<and> k = 1 then conv C_stereo_to_mono
        else if m = 2 \<and> k = 4 then conv C_stereo_to_quad
        else if m = 4 \<and> k = 2 then conv C_quad_to_stereo
        else if m = 2 \<and> k = 5 then conv C_stereo_to_5
        else if m = 2 \<and> k = 6 then conv C_stereo_to_51
        else if m = 4 \<and> k = 6 then conv C_quad_to_51
        else if m = 1 \<and> k = 8 then conv C_mono_to_71
        else if m = 2 \<and> k = 8 then conv C_stereo_to_71
        else if m = 4 \<and> k = 8 then conv C_quad_to_71
        else if m = 6 \<and> k = 8 then conv C_51_to_71
        else if m = 6 \<and> (k = 2 \<or> k = 4) then downmix_converter fin fout
        else if m \<le> 8 \<and> k \<le> 8 then conv C_default_all_to_all
        else conv C_default_some_to_some
      else if m > 2 \<and> \<not> is_channel_layout_equal fin fout then matrix_or_all (cras_channel_conv_matrix_create fin fout)
      else Inl None)"

text \<open>The outer \<open>None\<close> is an access outside a matrix or a failed \<open>CRAS_CHECK\<close>, the inner one the null pointer. \<open>alloc\<close> tells whether the allocations
  of the resampler and of the temporary buffers succeed.\<close>

definition cras_fmt_conv_create ::
  "(int \<Rightarrow> int) \<Rightarrow> 's speex \<Rightarrow> bool \<Rightarrow> cras_audio_format \<Rightarrow> cras_audio_format \<Rightarrow> nat \<Rightarrow> bool \<Rightarrow> int \<Rightarrow> 's cras_fmt_conv option option" where
  "cras_fmt_conv_create width sx alloc fin fout max_frames pre_linear_resample node_type =
     (if \<not> is_supported_format fin \<or> \<not> is_supported_format fout then Some None
      else
        let use32 = s32_formats width fin fout; direct = (if use32 then SND_PCM_FORMAT_S32_LE else SND_PCM_FORMAT_S16_LE);
            n1 = (if format fin \<noteq> direct then 1 else 0) + (if format fout \<noteq> direct then 1 else 0)
        in case channel_converter_for fin fout node_type of
          Inr _ \<Rightarrow> None
        | Inl ch \<Rightarrow>
            let n2 = n1 + (if ch = None then 0 else 1);
                src = frame_rate fin \<noteq> frame_rate fout;
                speex = (if src then sx_init sx (num_channels fout) (frame_rate fin) (frame_rate fout) else None);
                n3 = n2 + (if src then 1 else 0);
                num_converters = n3 + 1
            in if src \<and> speex = None then Some None
               else
                 (case linear_resampler_create alloc (nat (num_channels fout)) ((if use32 then 4 else 2) * nat (num_channels fout))
                         (f32 (of_int (frame_rate fout))) (f32 (of_int (frame_rate fout))) of
                    None \<Rightarrow> Some None
                  | Some lr \<Rightarrow>
                      if num_converters > MAX_NUM_CONVERTERS then None
                      else Some (Some \<lparr>fc_speex_state = speex, fc_channel_converter = map_option fst ch, fc_ch_conv_mtx = Option.bind ch snd,
                             fc_in_format_converter = (if format fin \<noteq> direct then in_format_converter_for use32 (format fin) else None),
                             fc_out_format_converter = (if format fout \<noteq> direct then out_format_converter_for use32 (format fout) else None),
                             fc_resampler = lr, fc_in_fmt = fin, fc_out_fmt = fout,
                             fc_tmp_bufs = replicate (num_converters - 1)
                               (replicate (max_frames * 4 * max (nat (num_channels fin)) (nat (num_channels fout))) 0),
                             fc_tmp_buf_frames = max_frames, fc_pre_linear_resample = pre_linear_resample,
                             fc_num_converters = num_converters\<rparr>)))"

definition config_format_converter ::
  "(int \<Rightarrow> int) \<Rightarrow> 's speex \<Rightarrow> bool \<Rightarrow> int \<Rightarrow> cras_audio_format \<Rightarrow> cras_audio_format \<Rightarrow> int \<Rightarrow> nat \<Rightarrow> (int \<times> 's cras_fmt_conv option) option" where
  "config_format_converter width sx alloc dir from to node_type frames =
     (let target = (if dir = CRAS_STREAM_INPUT then from\<lparr>format := format to, frame_rate := frame_rate to\<rparr> else to) in
      case cras_fmt_conv_create width sx alloc from target frames (dir = CRAS_STREAM_INPUT) node_type of
        None \<Rightarrow> None
      | Some None \<Rightarrow> Some (- ENOMEM, None)
      | Some (Some conv) \<Rightarrow> Some (0, Some conv))"

subsection \<open>Rates and frame counts\<close>

definition cras_fmt_conv_in_frames_to_out :: "'s cras_fmt_conv \<Rightarrow> int \<Rightarrow> int" where
  "cras_fmt_conv_in_frames_to_out conv in_frames =
     (let n = (if fc_pre_linear_resample conv then linear_resampler_in_frames_to_out (fc_resampler conv) (u32 in_frames) else in_frames);
          n = cras_frames_at_rate (frame_rate (fc_in_fmt conv)) n (frame_rate (fc_out_fmt conv))
      in if \<not> fc_pre_linear_resample conv then linear_resampler_in_frames_to_out (fc_resampler conv) (u32 n) else n)"

definition cras_fmt_conv_out_frames_to_in :: "'s cras_fmt_conv \<Rightarrow> int \<Rightarrow> int" where
  "cras_fmt_conv_out_frames_to_in conv out_frames =
     (let n = (if \<not> fc_pre_linear_resample conv then linear_resampler_out_frames_to_in (fc_resampler conv) (u32 out_frames) else out_frames);
          n = cras_frames_at_rate (frame_rate (fc_out_fmt conv)) n (frame_rate (fc_in_fmt conv))
      in if fc_pre_linear_resample conv then linear_resampler_out_frames_to_in (fc_resampler conv) (u32 n) else n)"

definition cras_fmt_conv_set_linear_resample_rates :: "'s cras_fmt_conv \<Rightarrow> real \<Rightarrow> real \<Rightarrow> 's cras_fmt_conv" where
  "cras_fmt_conv_set_linear_resample_rates conv from to =
     conv\<lparr>fc_resampler := linear_resampler_set_rates (fc_resampler conv) from to\<rparr>"

definition cras_fmt_conversion_needed :: "'s cras_fmt_conv \<Rightarrow> bool" where
  "cras_fmt_conversion_needed conv \<longleftrightarrow> linear_resampler_needed (fc_resampler conv) \<or> fc_num_converters conv > 1"

subsection \<open>Conversion\<close>

text \<open>\<open>buffers\<close> and \<open>buf_idx\<close>: a stage reads one buffer of the array and writes the next one. An entry that is not
  set, or the null pointer, is \<open>None\<close>.\<close>

type_synonym buffers = "bytes option list"

definition buffers_for :: "'s cras_fmt_conv \<Rightarrow> nat \<Rightarrow> bytes \<Rightarrow> bytes \<Rightarrow> buffers" where
  "buffers_for conv used_converters in_buf out_buf =
     (let tmp = (\<lambda>i. if i < length (fc_tmp_bufs conv) then Some (fc_tmp_bufs conv ! i) else None)
      in [Some in_buf, tmp 0, tmp 1, tmp 2, tmp 3, None][used_converters := Some out_buf])"

definition run_stage :: "(bytes \<Rightarrow> bytes \<Rightarrow> (bytes \<times> 'r) option) \<Rightarrow> buffers \<Rightarrow> nat \<Rightarrow> (buffers \<times> nat \<times> 'r) option" where
  "run_stage f bufs idx =
     (if Suc idx < length bufs then
        case (bufs ! idx, bufs ! Suc idx) of
          (Some src, Some dst) \<Rightarrow> (case f src dst of None \<Rightarrow> None | Some (dst', r) \<Rightarrow> Some (bufs[Suc idx := Some dst'], Suc idx, r))
        | _ \<Rightarrow> None
      else None)"

text \<open>A stage that is not there does nothing.\<close>

definition opt_stage :: "bool \<Rightarrow> (bytes \<Rightarrow> bytes \<Rightarrow> (bytes \<times> 'r) option) \<Rightarrow> 'r \<Rightarrow> buffers \<Rightarrow> nat \<Rightarrow> (buffers \<times> nat \<times> 'r) option" where
  "opt_stage on f r bufs idx = (if on then run_stage f bufs idx else Some (bufs, idx, r))"

definition with_unit :: "bytes option \<Rightarrow> (bytes \<times> unit) option" where
  "with_unit r = map_option (\<lambda>b. (b, ())) r"

text \<open>The resamplers: the frames made, the frames used, and the resampler.\<close>

definition linear_stage :: "linear_resampler \<Rightarrow> nat \<Rightarrow> nat \<Rightarrow> bytes \<Rightarrow> bytes \<Rightarrow> (bytes \<times> nat \<times> nat \<times> linear_resampler) option" where
  "linear_stage lr frames max_out src dst =
     (if frames * lr_format_bytes lr \<le> length src \<and> max_out * lr_format_bytes lr \<le> length dst then
        case linear_resampler_resample lr src 0 frames dst 0 max_out of
          None \<Rightarrow> None
        | Some (n, used, lr', dst') \<Rightarrow> Some (dst', n, used, lr')
      else None)"

definition speex_stage :: "'s speex \<Rightarrow> nat \<Rightarrow> 's \<Rightarrow> nat \<Rightarrow> nat \<Rightarrow> bytes \<Rightarrow> bytes \<Rightarrow> (bytes \<times> nat \<times> nat \<times> 's) option" where
  "speex_stage sx channels state fr_in fr_out src dst =
     (if fr_in * channels * 2 \<le> length src \<and> fr_out * channels * 2 \<le> length dst then
        let (used, made, samples, state') = sx_process sx state (elems 2 (fr_in * channels) src) fr_in fr_out
        in Some (store_at dst 0 (concat (map (le 2) samples)), made, used, state')
      else None)"

definition pre_limit :: "'s cras_fmt_conv \<Rightarrow> nat \<Rightarrow> nat" where
  "pre_limit conv out_frames =
     (let max_out = u32 (int out_frames);
          max_out = (if fc_speex_state conv \<noteq> None
                   then let l = u32 (u64 (max_out * frame_rate (fc_in_fmt conv)) div frame_rate (fc_out_fmt conv)) in if l = 0 then 1 else l
                   else max_out)
      in min (nat max_out) (fc_tmp_buf_frames conv))"

definition src_limit :: "'s cras_fmt_conv \<Rightarrow> bool \<Rightarrow> nat \<Rightarrow> nat \<Rightarrow> nat" where
  "src_limit conv post fr_in out_frames =
     (let out_limit = u32 (int out_frames);
          out_limit = (if post then linear_resampler_out_frames_to_in (fc_resampler conv) out_limit else out_limit);
          fr_out = u32 (cras_frames_at_rate (frame_rate (fc_in_fmt conv)) (int fr_in) (frame_rate (fc_out_fmt conv)))
      in nat (min fr_out out_limit))"

text \<open>The result: the frames made, \<open>*in_frames\<close>, the converter and the output buffer.\<close>

definition cras_fmt_conv_convert_frames ::
  "(int \<Rightarrow> int) \<Rightarrow> 's speex \<Rightarrow> 's cras_fmt_conv \<Rightarrow> bytes \<Rightarrow> bytes \<Rightarrow> nat \<Rightarrow> nat \<Rightarrow> (nat \<times> nat \<times> 's cras_fmt_conv \<times> bytes) option" where
  "cras_fmt_conv_convert_frames width sx conv in_buf out_buf in_frames out_frames =
     (let needed = linear_resampler_needed (fc_resampler conv);
          post = (needed \<and> \<not> fc_pre_linear_resample conv); pre = (needed \<and> fc_pre_linear_resample conv);
          m = nat (num_channels (fc_in_fmt conv)); k = nat (num_channels (fc_out_fmt conv));
          speex = (fc_speex_state conv \<noteq> None);
          fr_in = (if speex then in_frames else min in_frames out_frames);
          used_converters = (if needed then fc_num_converters conv else fc_num_converters conv - 1)
      in if \<not> in_frames \<le> fc_tmp_buf_frames conv then None
         else do {
           let bufs = buffers_for conv used_converters in_buf out_buf;
           (bufs, idx, _) \<leftarrow> opt_stage (fc_in_format_converter conv \<noteq> None)
             (\<lambda>src dst. with_unit (run_format_converter (the (fc_in_format_converter conv)) (fr_in * m) src dst)) () bufs 0;
           (bufs, idx, fr1, linear_used, lr) \<leftarrow> opt_stage pre
             (linear_stage (fc_resampler conv) fr_in (pre_limit conv out_frames)) (fr_in, 0, fc_resampler conv) bufs idx;
           (bufs, idx, _) \<leftarrow> opt_stage (fc_channel_converter conv \<noteq> None)
             (\<lambda>src dst. with_unit (run_channel_converter width conv (the (fc_channel_converter conv)) fr1 src dst)) () bufs idx;
           (bufs, idx, fr_out, fr2, state) \<leftarrow> opt_stage speex
             (\<lambda>src dst. map_option (\<lambda>(d, made, used, state). (d, made, used, Some state))
                (speex_stage sx k (the (fc_speex_state conv)) fr1 (src_limit conv post fr1 out_frames) src dst))
             (fr_in, fr1, None) bufs idx;
           (bufs, idx, fr_out, _, lr) \<leftarrow> opt_stage post
             (linear_stage lr fr_out (min (fc_tmp_buf_frames conv) out_frames)) (fr_out, 0, lr) bufs idx;
           (bufs, idx, _) \<leftarrow> opt_stage (fc_out_format_converter conv \<noteq> None)
             (\<lambda>src dst. with_unit (run_format_converter (the (fc_out_format_converter conv)) (fr_out * k) src dst)) () bufs idx;
           let in_used = (if pre then if speex \<and> fr2 = 0 then 0 else linear_used else fr2);
           Some (fr_out, in_used,
             conv\<lparr>fc_resampler := lr, fc_speex_state := state,
                  fc_tmp_bufs := map (\<lambda>i. if Suc i = used_converters then fc_tmp_bufs conv ! i else the (bufs ! Suc i)) [0..<length (fc_tmp_bufs conv)]\<rparr>,
             the (bufs ! used_converters))
         })"

subsection \<open>Remixing\<close>

text \<open>The converter of \<open>cras_channel_remix_conv_create\<close> is its number of channels and its matrix.\<close>

definition cras_channel_remix_conv_create :: "nat \<Rightarrow> real list \<Rightarrow> nat \<times> matrix" where
  "cras_channel_remix_conv_create n coefficient =
     (n, map (\<lambda>out_ch. map (\<lambda>in_ch. coefficient ! (in_ch + out_ch * n)) [0..<n]) [0..<n])"

definition cras_channel_remix_convert :: "nat \<times> matrix \<Rightarrow> cras_audio_format \<Rightarrow> int list \<Rightarrow> nat \<Rightarrow> int list" where
  "cras_channel_remix_convert conv fmt buf nframes =
     (let (n, mtx) = conv in
      if format fmt \<noteq> SND_PCM_FORMAT_S16_LE then buf
      else if num_channels fmt \<noteq> int n then buf
      else for_frames nframes (\<lambda>fr buf.
        let tmp = map (\<lambda>ch. s16_multiply_buf_with_coef (mtx ! ch) (drop (fr * n) buf) n) [0..<n]
        in store_frame n fr (map (\<lambda>ch. (int ch, tmp ! ch)) [0..<n]) buf) buf)"

end
