(* ===== verification/Fmt_Conv_Safe.thy ===== *)
theory Fmt_Conv_Safe
  imports Fmt_Conv
begin

text \<open>
  The safety of the format converter: every converter that can be made from valid formats runs audio through its chain within the
  buffers, and reports no more frames than it was given or has room for (\<open>convert_frames_ok\<close>). A converter keeps its
  well-formedness \<open>fc_wf\<close> from its creation through changes of the rate and conversions.
\<close>

section \<open>One converter\<close>

lemma length_concat_le: "length (concat (map (le w) xs)) = w * length xs"
  by (induction xs) auto

lemma length_store_prefix: "length xs \<le> length mem \<Longrightarrow> length (store_at mem 0 xs) = length mem"
  by (simp add: length_store_at)

lemma run_elems_ok:
  assumes "iw * m \<le> length src" "ow * k \<le> length dst"
  shows "\<exists>dst'. run_elems iw m ow k f src dst = Some dst' \<and> length dst' = length dst"
proof -
  have "ow * min k x \<le> ow * k" for x by simp
  then have "ow * length (take k (f (elems iw m src) (elems ow k dst))) \<le> length dst"
    using assms(2) by (metis length_take min.commute order_trans)
  then show ?thesis using assms by (simp add: run_elems_def length_concat_le length_store_prefix)
qed

text \<open>The bytes of a sample, and what a converter needs for one.\<close>

definition fmt_size :: "int \<Rightarrow> nat" where
  "fmt_size f = (if f = SND_PCM_FORMAT_U8 then 1 else if f = SND_PCM_FORMAT_S16_LE then 2 else if f = SND_PCM_FORMAT_S24_3LE then 3 else 4)"

definition width_ok :: "(int \<Rightarrow> int) \<Rightarrow> bool" where
  "width_ok width \<longleftrightarrow> width SND_PCM_FORMAT_U8 = 8 \<and> width SND_PCM_FORMAT_S16_LE = 16 \<and> width SND_PCM_FORMAT_S24_3LE = 24 \<and>
     width SND_PCM_FORMAT_S24_LE = 32 \<and> width SND_PCM_FORMAT_S32_LE = 32"

lemmas all_formats = pcm_formats SND_PCM_FORMAT_S24_3LE_def

fun converter_sizes :: "format_converter \<Rightarrow> nat \<times> nat" where
  "converter_sizes F_u8_to_s16le = (1, 2)" | "converter_sizes F_s243le_to_s16le = (3, 2)" | "converter_sizes F_s24le_to_s16le = (4, 2)"
| "converter_sizes F_s32le_to_s16le = (4, 2)" | "converter_sizes F_s24le_to_s32le = (4, 4)" | "converter_sizes F_s243le_to_s32le = (3, 4)"
| "converter_sizes F_s16le_to_u8 = (2, 1)" | "converter_sizes F_s16le_to_s243le = (2, 3)" | "converter_sizes F_s16le_to_s24le = (2, 4)"
| "converter_sizes F_s16le_to_s32le = (2, 4)" | "converter_sizes F_s32le_to_s24le = (4, 4)" | "converter_sizes F_s32le_to_s243le = (4, 3)"

lemma run_format_converter_ok:
  assumes "converter_sizes c = (a, b)" "a * n \<le> length src" "b * n \<le> length dst"
  shows "\<exists>dst'. run_format_converter c n src dst = Some dst' \<and> length dst' = length dst"
  using assms by (cases c) (simp_all add: run_format_converter_def run_elems_ok)

text \<open>The sizes fit the formats: samples inside the chain have \<open>chain_size\<close> bytes.\<close>

definition chain_size :: "bool \<Rightarrow> nat" where "chain_size use32 = (if use32 then 4 else 2)"
definition chain_format :: "bool \<Rightarrow> int" where "chain_format use32 = (if use32 then SND_PCM_FORMAT_S32_LE else SND_PCM_FORMAT_S16_LE)"

lemma fmt_size_chain: "fmt_size (chain_format use32) = chain_size use32"
  by (simp add: fmt_size_def chain_format_def chain_size_def all_formats)

lemma format_converters:
  assumes "is_supported_format fmt" "format fmt \<noteq> chain_format use32" "use32 \<longrightarrow> width (format fmt) > 16" "width_ok width"
  obtains c c' where "in_format_converter_for use32 (format fmt) = Some c" "converter_sizes c = (fmt_size (format fmt), chain_size use32)"
    "out_format_converter_for use32 (format fmt) = Some c'" "converter_sizes c' = (chain_size use32, fmt_size (format fmt))"
  using assms that unfolding is_supported_format_def in_format_converter_for_def out_format_converter_for_def chain_size_def chain_format_def fmt_size_def width_ok_def
  by (cases use32) (auto simp: all_formats)


lemma format_bytes:
  assumes "is_supported_format fmt" "width_ok width" "0 < num_channels fmt" "num_channels fmt < 2 ^ 31"
  shows "nat (cras_get_format_bytes width fmt) = fmt_size (format fmt) * nat (num_channels fmt)"
proof -
  have w: "width (format fmt) sdiv 8 = int (fmt_size (format fmt))" and f: "fmt_size (format fmt) \<le> 4"
    using assms(1,2) by (auto simp: is_supported_format_def width_ok_def fmt_size_def all_formats sdiv_eq_div)
  have "int (fmt_size (format fmt)) * num_channels fmt \<le> 4 * 2 ^ 31" using f assms(3,4) by (intro mult_mono) auto
  then have "cras_get_format_bytes width fmt = int (fmt_size (format fmt)) * num_channels fmt"
    unfolding cras_get_format_bytes_def w using assms(3) f by (simp add: wrap_u_id)
  then show ?thesis using assms(3) by (simp add: nat_mult_distrib)
qed

section \<open>The channel converter\<close>

text \<open>The converter that is chosen runs within its buffers for any number of frames.\<close>

definition chan_ok :: "(int \<Rightarrow> int) \<Rightarrow> 's cras_fmt_conv \<Rightarrow> bool" where
  "chan_ok width conv \<longleftrightarrow>
     (let m = nat (num_channels (fc_in_fmt conv)); k = nat (num_channels (fc_out_fmt conv)); w = chain_size (use_s32_conversion width conv) in
      case fc_channel_converter conv of
        None \<Rightarrow> m = k
      | Some c \<Rightarrow> \<forall>n src dst. w * (m * n) \<le> length src \<and> w * (k * n) \<le> length dst \<and> fmt_size (format (fc_out_fmt conv)) * (k * n) \<le> length dst \<longrightarrow>
          (\<exists>dst'. run_channel_converter width conv c n src dst = Some dst' \<and> length dst' = length dst))"

lemma run_channel_converter_same:
  assumes "fc_in_fmt conv' = fc_in_fmt conv" "fc_out_fmt conv' = fc_out_fmt conv" "fc_ch_conv_mtx conv' = fc_ch_conv_mtx conv"
  shows "run_channel_converter width conv' = run_channel_converter width conv"
  by (intro ext) (simp only: run_channel_converter_def use_s32_conversion_def assms)

lemma chan_ok_same:
  assumes "fc_in_fmt conv' = fc_in_fmt conv" "fc_out_fmt conv' = fc_out_fmt conv" "fc_ch_conv_mtx conv' = fc_ch_conv_mtx conv"
    and "fc_channel_converter conv' = fc_channel_converter conv"
  shows "chan_ok width conv' = chan_ok width conv"
  unfolding chan_ok_def run_channel_converter_same [OF assms(1-3)] use_s32_conversion_def assms ..

definition fmt_ok :: "cras_audio_format \<Rightarrow> bool" where
  "fmt_ok fmt \<longleftrightarrow> is_supported_format fmt \<and> cras_audio_format_valid fmt \<and> 0 < num_channels fmt \<and> num_channels fmt < 2 ^ 31 \<and>
     0 < frame_rate fmt \<and> frame_rate fmt \<le> 1000000"

lemma fmt_ok_layout: "fmt_ok fmt \<Longrightarrow> layout_ok (channel_layout fmt) (nat (num_channels fmt))"
proof -
  assume fmt: "fmt_ok fmt"
  then have "s32 (num_channels fmt) = num_channels fmt" by (intro wrap_s_id) (auto simp: fmt_ok_def)
  then show ?thesis using fmt by (auto simp: fmt_ok_def layout_ok_def format_valid_iff)
qed

lemma idx_ok_layout: "layout_ok l n \<Longrightarrow> set chs \<subseteq> {..<11} \<Longrightarrow> idx_ok l chs n"
  by (auto simp: idx_ok_def list_all_iff layout_ok_def CRAS_CH_MAX_def)

lemma matrix_ok: "matrix_shape k m mtx \<Longrightarrow> k \<le> length mtx \<and> list_all (\<lambda>row. m \<le> length row) (take k mtx)"
  by (auto simp: matrix_shape_def list_all_iff)

lemma channel_converter_matrix:
  assumes "channel_converter_for fin fout node = Inl (Some (C_convert_channels, mtx))" "fmt_ok fin" "fmt_ok fout"
  shows "\<exists>mt. mtx = Some mt \<and> matrix_shape (nat (num_channels fout)) (nat (num_channels fin)) mt"
proof -
  have n: "0 \<le> num_channels fin" "num_channels fin < 2 ^ 31" "0 \<le> num_channels fout" "num_channels fout < 2 ^ 31"
    and v: "cras_audio_format_valid fin" "cras_audio_format_valid fout" using assms(2,3) by (auto simp: fmt_ok_def)
  note spk = internal_spk_matrix [OF fmt_ok_layout [OF assms(2)] fmt_ok_layout [OF assms(3)] n]
  note mat = conv_matrix_spec [OF v n]
  have dm: "layout_ok (channel_layout fin) 6" if "num_channels fin = 6" using fmt_ok_layout [OF assms(2)] that by simp
  have al: "matrix_shape (nat r) 6 (cras_channel_conv_matrix_alloc 6 r)" for r using matrix_shape_alloc [of r 6] by simp
  consider "matrix_or_all (cras_internal_spk_channel_conv_matrix_create fin fout) = Inl (Some (C_convert_channels, mtx))"
    | "matrix_or_all (cras_channel_conv_matrix_create fin fout) = Inl (Some (C_convert_channels, mtx))"
    | "num_channels fin = 6" "num_channels fout = 2 \<or> num_channels fout = 4" "downmix_converter fin fout = Inl (Some (C_convert_channels, mtx))"
    using assms(1) by (auto simp: channel_converter_for_def Let_def split: if_splits)
  then show ?thesis
  proof cases
    case 1
    then show ?thesis using spk by (auto simp: matrix_or_all_def split: conv_result.splits if_splits)
  next
    case 2
    then show ?thesis using mat by (auto simp: matrix_or_all_def split: conv_result.splits)
  next
    case 3
    then show ?thesis using downmix_mtx_ok [OF dm] al [of 2] al [of 4]
      by (fastforce simp: downmix_converter_def Let_def split: if_splits option.splits)
  qed
qed

lemma channel_converter_counts:
  assumes "channel_converter_for fin fout node = Inl (Some (c, mtx))" "c \<noteq> C_convert_channels"
  shows "case c of C_mono_to_stereo \<Rightarrow> num_channels fin = 1 \<and> num_channels fout = 2 | C_mono_to_5 \<Rightarrow> num_channels fin = 1 \<and> num_channels fout = 5
    | C_mono_to_51 \<Rightarrow> num_channels fin = 1 \<and> num_channels fout = 6 | C_stereo_to_mono \<Rightarrow> num_channels fin = 2 \<and> num_channels fout = 1
    | C_stereo_to_quad \<Rightarrow> num_channels fin = 2 \<and> num_channels fout = 4 | C_quad_to_stereo \<Rightarrow> num_channels fin = 4 \<and> num_channels fout = 2
    | C_stereo_to_5 \<Rightarrow> num_channels fin = 2 \<and> num_channels fout = 5 | C_stereo_to_51 \<Rightarrow> num_channels fin = 2 \<and> num_channels fout = 6
    | C_quad_to_51 \<Rightarrow> num_channels fin = 4 \<and> num_channels fout = 6 | C_mono_to_71 \<Rightarrow> num_channels fin = 1 \<and> num_channels fout = 8
    | C_stereo_to_71 \<Rightarrow> num_channels fin = 2 \<and> num_channels fout = 8 | C_quad_to_71 \<Rightarrow> num_channels fin = 4 \<and> num_channels fout = 8
    | C_51_to_71 \<Rightarrow> num_channels fin = 6 \<and> num_channels fout = 8 | C_51_to_quad \<Rightarrow> num_channels fin = 6 \<and> num_channels fout = 4
    | C_51_to_stereo \<Rightarrow> num_channels fin = 6 \<and> num_channels fout = 2 | _ \<Rightarrow> True"
  using assms
  by (auto simp: channel_converter_for_def downmix_converter_def matrix_or_all_def Let_def split: if_splits conv_result.splits option.splits)

lemma memset_zero_length: "z \<le> length dst \<Longrightarrow> length (memset_zero dst 0 z) = length dst"
  by (simp add: memset_zero_def length_store_prefix)

lemma chan_ok_created:
  assumes "channel_converter_for (fc_in_fmt conv) (fc_out_fmt conv) node = Inl ch" "fmt_ok (fc_in_fmt conv)" "fmt_ok (fc_out_fmt conv)" "width_ok width"
    and "fc_channel_converter conv = map_option fst ch" "fc_ch_conv_mtx conv = Option.bind ch snd"
  shows "chan_ok width conv"
proof (cases ch)
  case None
  have "num_channels (fc_in_fmt conv) = num_channels (fc_out_fmt conv)"
    using assms(1) None by (auto simp: channel_converter_for_def downmix_converter_def matrix_or_all_def Let_def split: if_splits conv_result.splits option.splits)
  then show ?thesis using None assms(5) by (simp add: chan_ok_def)
next
  case (Some cm)
  obtain c mtx where cm: "cm = (c, mtx)" by (cases cm)
  let ?m = "nat (num_channels (fc_in_fmt conv))" and ?k = "nat (num_channels (fc_out_fmt conv))"
  note lin = idx_ok_layout [OF fmt_ok_layout [OF assms(2)]] and lout = idx_ok_layout [OF fmt_ok_layout [OF assms(3)]]
  have z: "n * nat (cras_get_format_bytes width (fc_out_fmt conv)) = fmt_size (format (fc_out_fmt conv)) * (?k * n)" for n
    using format_bytes [of "fc_out_fmt conv" width] assms(3,4) by (simp add: fmt_ok_def)
  have i8: "set [0..<8] \<subseteq> {..<11::nat}" by auto
  have m: "0 < ?m" using assms(2) by (simp add: fmt_ok_def)
  have "\<exists>dst'. run_channel_converter width conv c n src dst = Some dst' \<and> length dst' = length dst"
    if n: "chain_size (use_s32_conversion width conv) * (?m * n) \<le> length src" "chain_size (use_s32_conversion width conv) * (?k * n) \<le> length dst"
      "fmt_size (format (fc_out_fmt conv)) * (?k * n) \<le> length dst" for n src dst
  proof (cases "c = C_convert_channels")
    case True
    then obtain mt where mt: "mtx = Some mt" "matrix_shape ?k ?m mt"
      using channel_converter_matrix [of "fc_in_fmt conv" "fc_out_fmt conv" node mtx] assms(1-3) Some cm by auto
    show ?thesis using True mt(1) matrix_ok [OF mt(2)] assms(6) Some cm n
      by (simp add: run_channel_converter_def Let_def run_elems_ok chain_size_def)
  next
    case False
    note counts = channel_converter_counts [OF _ False, of "fc_in_fmt conv" "fc_out_fmt conv" node mtx]
    show ?thesis
    proof (cases c)
      case C_default_some_to_some
      let ?z = "n * nat (cras_get_format_bytes width (fc_out_fmt conv))"
      have "?z \<le> length dst" using n(3) unfolding z .
      then show ?thesis using C_default_some_to_some n(1,2) memset_zero_length [of ?z dst] run_elems_ok [of _ "?m * n" src _ "?k * n" "memset_zero dst 0 ?z"]
        by (cases "use_s32_conversion width conv") (simp_all add: run_channel_converter_def Let_def chain_size_def)
    qed (use counts assms(1) Some cm False n lin lout lin [OF i8] lout [OF i8] m in \<open>simp_all add: run_channel_converter_def Let_def run_elems_ok chain_size_def\<close>)
  qed
  then show ?thesis using Some cm assms(5) by (auto simp: chan_ok_def Let_def)
qed

section \<open>The chain\<close>

text \<open>The buffers up to the output are there and have their sizes; a stage keeps this.\<close>

definition bufs_ok :: "(nat \<Rightarrow> nat) \<Rightarrow> nat \<Rightarrow> buffers \<Rightarrow> bool" where
  "bufs_ok cap used bufs \<longleftrightarrow> used < length bufs \<and> (\<forall>j\<le>used. \<exists>b. bufs ! j = Some b \<and> length b = cap j)"

lemma opt_stage_ok:
  assumes "bufs_ok cap used bufs" "on \<Longrightarrow> idx < used" "\<not> on \<Longrightarrow> P r0"
    and "\<And>src dst. on \<Longrightarrow> length src = cap idx \<Longrightarrow> length dst = cap (Suc idx) \<Longrightarrow> \<exists>dst' r. f src dst = Some (dst', r) \<and> length dst' = length dst \<and> P r"
  obtains bufs' r where "opt_stage on f r0 bufs idx = Some (bufs', idx + of_bool on, r)" "bufs_ok cap used bufs'" "P r" "\<not> on \<Longrightarrow> r = r0 \<and> bufs' = bufs"
proof (cases on)
  case True
  have i: "idx \<le> used" "Suc idx \<le> used" "Suc idx < length bufs" using assms(1,2) True by (auto simp: bufs_ok_def)
  obtain src dst where sd: "bufs ! idx = Some src" "length src = cap idx" "bufs ! Suc idx = Some dst" "length dst = cap (Suc idx)"
    using assms(1) i unfolding bufs_ok_def by metis
  obtain dst' r where f: "f src dst = Some (dst', r)" "length dst' = length dst" "P r" using assms(4) True sd by blast
  have "opt_stage on f r0 bufs idx = Some (bufs[Suc idx := Some dst'], idx + of_bool on, r)"
    using True i sd f by (simp add: opt_stage_def run_stage_def)
  moreover have "bufs_ok cap used (bufs[Suc idx := Some dst'])" using assms(1) i(3) f(2) sd(4) by (auto simp: bufs_ok_def nth_list_update)
  ultimately show ?thesis using that f(3) True by blast
next
  case False
  then show ?thesis using that assms(1,3) by (simp add: opt_stage_def)
qed

text \<open>What a converter satisfies from its creation on.\<close>

definition fc_wf :: "(int \<Rightarrow> int) \<Rightarrow> 's cras_fmt_conv \<Rightarrow> bool" where
  "fc_wf width conv \<longleftrightarrow>
     (let fin = fc_in_fmt conv; fout = fc_out_fmt conv; use32 = use_s32_conversion width conv; lr = fc_resampler conv;
          m = nat (num_channels fin); k = nat (num_channels fout)
      in fmt_ok fin \<and> fmt_ok fout \<and> chan_ok width conv \<and>
         fc_in_format_converter conv = (if format fin \<noteq> chain_format use32 then in_format_converter_for use32 (format fin) else None) \<and>
         fc_out_format_converter conv = (if format fout \<noteq> chain_format use32 then out_format_converter_for use32 (format fout) else None) \<and>
         (fc_speex_state conv \<noteq> None \<longleftrightarrow> frame_rate fin \<noteq> frame_rate fout) \<and>
         fc_num_converters conv = 1 + of_bool (fc_in_format_converter conv \<noteq> None) + of_bool (fc_out_format_converter conv \<noteq> None)
           + of_bool (fc_channel_converter conv \<noteq> None) + of_bool (fc_speex_state conv \<noteq> None) \<and>
         length (fc_tmp_bufs conv) = fc_num_converters conv - 1 \<and>
         (\<forall>b\<in>set (fc_tmp_bufs conv). length b = fc_tmp_buf_frames conv * 4 * max m k) \<and>
         lr_ok lr \<and> lr_num_channels lr = k \<and> lr_format_width lr = chain_size use32 \<and>
         (fc_pre_linear_resample conv \<longrightarrow> m = k))"

text \<open>What speex promises: it uses and makes no more frames than it is given room for, and gives the samples it makes.\<close>

definition speex_ok :: "'s speex \<Rightarrow> nat \<Rightarrow> bool" where
  "speex_ok sx channels \<longleftrightarrow> (\<forall>s samples fr_in fr_out used made out s'. sx_process sx s samples fr_in fr_out = (used, made, out, s') \<longrightarrow>
     used \<le> fr_in \<and> made \<le> fr_out \<and> length out = made * channels)"

lemma linear_stage_ok:
  assumes "lr_ok lr" "frames * lr_format_bytes lr \<le> length src" "room * lr_format_bytes lr \<le> length dst"
  shows "\<exists>dst' n used lr'. linear_stage lr frames room src dst = Some (dst', n, used, lr') \<and> length dst' = length dst \<and>
    n \<le> room \<and> used \<le> frames \<and> lr_ok lr' \<and> lr_num_channels lr' = lr_num_channels lr \<and> lr_format_width lr' = lr_format_width lr"
proof -
  obtain n used lr' dst' where r: "linear_resampler_resample lr src 0 frames dst 0 room = Some (n, used, lr', dst')"
    "n \<le> room" "used \<le> frames" "length dst' = length dst" using resample_spec [OF assms(1), of 0 frames src 0 room dst] assms(2,3) by auto
  have "\<exists>so d. lr' = lr\<lparr>lr_src_offset := so, lr_dst_offset := d\<rparr>"
  proof (cases "room = 0 \<or> frames = 0")
    case True
    then have "lr' = lr" using r(1) by (auto simp: linear_resampler_resample_def)
    then show ?thesis by (intro exI [of _ "lr_src_offset lr"] exI [of _ "lr_dst_offset lr"]) simp
  next
    case False
    then show ?thesis using r(1) by (auto simp: linear_resampler_resample_def Let_def split: prod.splits option.splits)
  qed
  then have "lr_ok lr'" "lr_num_channels lr' = lr_num_channels lr" "lr_format_width lr' = lr_format_width lr" using assms(1) by (auto simp: lr_ok_def)
  then show ?thesis using r assms by (simp add: linear_stage_def)
qed

lemma speex_stage_ok:
  assumes "speex_ok sx channels" "fr_in * channels * 2 \<le> length src" "fr_out * channels * 2 \<le> length dst"
  shows "\<exists>dst' made used s'. speex_stage sx channels s fr_in fr_out src dst = Some (dst', made, used, s') \<and> length dst' = length dst \<and>
    made \<le> fr_out \<and> used \<le> fr_in"
proof -
  obtain used made out s' where p: "sx_process sx s (elems 2 (fr_in * channels) src) fr_in fr_out = (used, made, out, s')" using prod_cases4 by blast
  then have "used \<le> fr_in" "made \<le> fr_out" "length out = made * channels" using assms(1) unfolding speex_ok_def by blast+
  moreover have "2 * length out \<le> length dst"
    using order_trans [OF mult_le_mono1 [OF \<open>made \<le> fr_out\<close>, of "channels * 2"]] assms(3) \<open>length out = made * channels\<close>
    by (metis mult.assoc mult.commute)
  ultimately show ?thesis using assms(2,3) p by (simp add: speex_stage_def length_concat_le length_store_prefix)
qed

text \<open>The frames that speex may make fit the temporary buffers, which have four bytes for each of its samples of two.\<close>

definition src_fits :: "'s cras_fmt_conv \<Rightarrow> nat \<Rightarrow> nat \<Rightarrow> bool" where
  "src_fits conv in_frames out_frames \<longleftrightarrow> fc_speex_state conv = None \<or>
     ((linear_resampler_needed (fc_resampler conv) \<longrightarrow> fc_pre_linear_resample conv) \<and> out_frames \<le> 2 * fc_tmp_buf_frames conv) \<or>
     ((linear_resampler_needed (fc_resampler conv) \<longrightarrow> \<not> fc_pre_linear_resample conv) \<and>
        cras_frames_at_rate (frame_rate (fc_in_fmt conv)) (int in_frames) (frame_rate (fc_out_fmt conv)) \<le> 2 * int (fc_tmp_buf_frames conv))"

lemma pre_limit_le:
  "pre_limit conv out_frames \<le> fc_tmp_buf_frames conv"
  "fc_speex_state conv = None \<Longrightarrow> pre_limit conv out_frames \<le> out_frames"
proof -
  show "pre_limit conv out_frames \<le> fc_tmp_buf_frames conv" by (simp add: pre_limit_def Let_def)
  have "nat (u32 (int out_frames)) \<le> out_frames" using wrap_u_le [of "int out_frames" 32] by simp
  then show "pre_limit conv out_frames \<le> out_frames" if "fc_speex_state conv = None" using that by (simp add: pre_limit_def Let_def)
qed

lemma src_limit_le:
  shows "\<not> post \<Longrightarrow> src_limit conv post n out_frames \<le> out_frames"
    "0 < frame_rate (fc_in_fmt conv) \<Longrightarrow> int (src_limit conv post n out_frames) \<le> cras_frames_at_rate (frame_rate (fc_in_fmt conv)) (int n) (frame_rate (fc_out_fmt conv))"
proof -
  show "src_limit conv post n out_frames \<le> out_frames" if "\<not> post"
    using that wrap_u_le [of "int out_frames" 32] by (simp add: src_limit_def Let_def)
  assume r: "0 < frame_rate (fc_in_fmt conv)"
  let ?x = "cras_frames_at_rate (frame_rate (fc_in_fmt conv)) (int n) (frame_rate (fc_out_fmt conv))"
  have "0 \<le> ?x" unfolding cras_frames_at_rate_def using r by (intro pos_imp_zdiv_nonneg_iff [THEN iffD2]) auto
  then have x: "u32 ?x \<le> ?x" "0 \<le> ?x" using wrap_u_le by auto
  have "int (nat (min (u32 ?x) y)) \<le> ?x" for y using x by auto
  then show "int (src_limit conv post n out_frames) \<le> ?x" by (simp only: src_limit_def Let_def)
qed

lemma buffers_for_ok:
  assumes "length (fc_tmp_bufs conv) = N - 1" "\<forall>b\<in>set (fc_tmp_bufs conv). length b = T" "used \<le> N" "used \<le> 5"
  shows "bufs_ok (\<lambda>j. if j = used then length out_buf else if j = 0 then length in_buf else T) used (buffers_for conv used in_buf out_buf)"
proof -
  define tmp where "tmp = (\<lambda>i. if i < length (fc_tmp_bufs conv) then Some (fc_tmp_bufs conv ! i) else None)"
  define base where "base = [Some in_buf, tmp 0, tmp 1, tmp 2, tmp 3, None]"
  have eq: "buffers_for conv used in_buf out_buf = base[used := Some out_buf]" by (simp only: buffers_for_def base_def tmp_def Let_def)
  have len: "length base = 6" by (simp add: base_def)
  have t: "\<exists>b. base ! Suc i = Some b \<and> length b = T" if "Suc i < used" for i
  proof -
    have "i = 0 \<or> i = 1 \<or> i = 2 \<or> i = 3" using that assms(4) by auto
    then have "base ! Suc i = tmp i" by (auto simp: base_def)
    moreover have "i < length (fc_tmp_bufs conv)" using assms(1,3) that by simp
    ultimately show ?thesis using assms(2) by (simp add: tmp_def)
  qed
  have "\<exists>b. base[used := Some out_buf] ! j = Some b \<and> length b = (if j = used then length out_buf else if j = 0 then length in_buf else T)"
    if j: "j \<le> used" for j
  proof (cases "j = used")
    case True
    then show ?thesis using len assms(4) by simp
  next
    case False
    have b0: "base ! 0 = Some in_buf" by (simp add: base_def)
    have "base[used := Some out_buf] ! j = base ! j" using False by simp
    then show ?thesis using False j t [of "j - 1"] b0 by (cases j) auto
  qed
  then show ?thesis unfolding eq bufs_ok_def using len assms(4) by auto
qed

lemma convert_frames_ok:
  fixes conv :: "'s cras_fmt_conv"
  assumes "fc_wf width conv" "width_ok width" "speex_ok sx (nat (num_channels (fc_out_fmt conv)))" "in_frames \<le> fc_tmp_buf_frames conv"
    and "in_frames * (fmt_size (format (fc_in_fmt conv)) * nat (num_channels (fc_in_fmt conv))) \<le> length in_buf"
    and "out_frames * (fmt_size (format (fc_out_fmt conv)) * nat (num_channels (fc_out_fmt conv))) \<le> length out_buf"
    and "src_fits conv in_frames out_frames"
  shows "\<exists>fr_out in_used conv' out'. cras_fmt_conv_convert_frames width sx conv in_buf out_buf in_frames out_frames = Some (fr_out, in_used, conv', out') \<and>
    fr_out \<le> out_frames \<and> in_used \<le> in_frames \<and> length out' = length out_buf \<and> fc_wf width conv' \<and>
    fc_in_fmt conv' = fc_in_fmt conv \<and> fc_out_fmt conv' = fc_out_fmt conv \<and> fc_tmp_buf_frames conv' = fc_tmp_buf_frames conv \<and>
    fc_pre_linear_resample conv' = fc_pre_linear_resample conv"
proof -
  define fin fout use32 m k F where "fin = fc_in_fmt conv" "fout = fc_out_fmt conv" "use32 = use_s32_conversion width conv"
    "m = nat (num_channels fin)" "k = nat (num_channels fout)" "F = fc_tmp_buf_frames conv"
  note defs = this
  define w isz osz T where "w = chain_size use32" "isz = fmt_size (format fin)" "osz = fmt_size (format fout)" "T = F * 4 * max m k"
  note defs2 = this
  define a c d f where "a = (fc_in_format_converter conv \<noteq> None)" "c = (fc_channel_converter conv \<noteq> None)" "d = (fc_speex_state conv \<noteq> None)"
    "f = (fc_out_format_converter conv \<noteq> None)"
  note on = this
  define needed where "needed = linear_resampler_needed (fc_resampler conv)"
  define b e where "b = (needed \<and> fc_pre_linear_resample conv)" "e = (needed \<and> \<not> fc_pre_linear_resample conv)"
  note lin = this
  have wf: "fmt_ok fin" "fmt_ok fout" "chan_ok width conv"
    "fc_in_format_converter conv = (if format fin \<noteq> chain_format use32 then in_format_converter_for use32 (format fin) else None)"
    "fc_out_format_converter conv = (if format fout \<noteq> chain_format use32 then out_format_converter_for use32 (format fout) else None)"
    "d \<longleftrightarrow> frame_rate fin \<noteq> frame_rate fout"
    "fc_num_converters conv = 1 + of_bool a + of_bool f + of_bool c + of_bool d" "length (fc_tmp_bufs conv) = fc_num_converters conv - 1"
    "\<forall>b\<in>set (fc_tmp_bufs conv). length b = T" "lr_ok (fc_resampler conv)" "lr_num_channels (fc_resampler conv) = k"
    "lr_format_width (fc_resampler conv) = w" "fc_pre_linear_resample conv \<longrightarrow> m = k"
    using assms(1) by (auto simp: fc_wf_def Let_def defs defs2 on)
  have mk: "0 < m" "0 < k" using wf(1,2) by (auto simp: defs fmt_ok_def)
  have sizes: "w \<le> 4" "isz \<le> 4" "osz \<le> 4" by (simp_all add: defs2 chain_size_def fmt_size_def)
  have sup: "is_supported_format fin" "is_supported_format fout" and w16: "use32 \<longrightarrow> width (format fin) > 16" "use32 \<longrightarrow> width (format fout) > 16"
    using wf(1,2) by (auto simp: fmt_ok_def defs use_s32_conversion_def s32_formats_def)
  obtain ci where ci: "a \<Longrightarrow> fc_in_format_converter conv = Some ci \<and> converter_sizes ci = (isz, w)" "\<not> a \<Longrightarrow> isz = w"
  proof (cases "format fin = chain_format use32")
    case True
    then show ?thesis using that wf(4) fmt_size_chain [of use32] by (simp add: on defs2)
  next
    case False
    then show ?thesis using that wf(4) format_converters [OF sup(1) False w16(1) assms(2)] by (metis (lifting) on(1) defs2(1,2) option.distinct(1))
  qed
  obtain co where co: "f \<Longrightarrow> fc_out_format_converter conv = Some co \<and> converter_sizes co = (w, osz)" "\<not> f \<Longrightarrow> osz = w"
  proof (cases "format fout = chain_format use32")
    case True
    then show ?thesis using that wf(5) fmt_size_chain [of use32] by (simp add: on defs2)
  next
    case False
    then show ?thesis using that wf(5) format_converters [OF sup(2) False w16(2) assms(2)] by (metis (lifting) on(4) defs2(1,3) option.distinct(1))
  qed
  have mk_eq: "\<not> c \<Longrightarrow> m = k" "b \<Longrightarrow> m = k" using wf(3,13) by (auto simp: chan_ok_def Let_def on lin defs split: option.splits)
  have w2: "w = 2" if d using wf(6) that by (simp add: defs2 chain_size_def defs use_s32_conversion_def s32_formats_def)
  have lb: "lr_format_bytes (fc_resampler conv) = w * k" using wf(10-12) by (simp add: lr_ok_def mult.commute)
  define used where "used = (if needed then fc_num_converters conv else fc_num_converters conv - 1)"
  have used: "used = of_bool a + of_bool b + of_bool c + of_bool d + of_bool e + of_bool f" using wf(7) by (auto simp: used_def lin)
  have used5: "used \<le> 5" "used \<le> fc_num_converters conv" using wf(7) by (auto simp: used_def of_bool_def)
  define cap where "cap = (\<lambda>j. if j = used then length out_buf else if j = 0 then length in_buf else T)"
  have B0: "bufs_ok cap used (buffers_for conv used in_buf out_buf)" unfolding cap_def by (rule buffers_for_ok [OF wf(8,9) used5(2,1)])
  have T: "x * (n * y) \<le> T" if "x \<le> 4" "n \<le> F" "y = m \<or> y = k" for x y n
  proof -
    have "x * (n * y) \<le> 4 * (F * max m k)" using that by (intro mult_le_mono) auto
    then show ?thesis by (simp add: defs2)
  qed
  have T2: "2 * (n * k) \<le> T" if "n \<le> 2 * F" for n
  proof -
    have "2 * (n * k) \<le> 2 * (2 * F * max m k)" using that by (intro mult_le_mono) auto
    then show ?thesis by (simp add: defs2)
  qed
  have I: "isz * (n * m) \<le> length in_buf" if "n \<le> in_frames" for n
    using order_trans [OF mult_le_mono1 [OF that] assms(5)] by (simp add: defs defs2 mult.left_commute)
  have O: "osz * (n * k) \<le> length out_buf" if "n \<le> out_frames" for n
    using order_trans [OF mult_le_mono1 [OF that] assms(6)] by (simp add: defs defs2 mult.left_commute)
  define fr_in where "fr_in = (if d then in_frames else min in_frames out_frames)"
  have fr: "fr_in \<le> in_frames" "fr_in \<le> F" "\<not> d \<Longrightarrow> fr_in \<le> out_frames" using assms(4) by (auto simp: fr_in_def defs)
  have last: "cap (Suc idx) = (if Suc idx = used then length out_buf else T)" and first: "idx < used \<Longrightarrow> cap idx = (if idx = 0 then length in_buf else T)" for idx
    by (simp_all add: cap_def)
  have capu: "cap used = length out_buf" by (simp add: cap_def)
  obtain bufs1 where s1: "opt_stage a (\<lambda>src dst. with_unit (run_format_converter (the (fc_in_format_converter conv)) (fr_in * m) src dst)) () (buffers_for conv used in_buf out_buf) 0
      = Some (bufs1, of_bool a, ())" "bufs_ok cap used bufs1"
  proof (rule opt_stage_ok [OF B0, where on = a and idx = 0 and P = "\<lambda>_. True"])
    show "0 < used" if a using that used by simp
    fix src dst :: bytes assume A: a "length src = cap 0" "length dst = cap (Suc 0)"
    have "isz * (fr_in * m) \<le> length src" using A used I [OF fr(1)] by (simp add: first)
    moreover have "w * (fr_in * m) \<le> length dst"
    proof (cases "Suc 0 = used")
      case True
      then have "\<not> c" "\<not> d" "\<not> f" using A(1) used by (auto simp: of_bool_def split: if_splits)
      then show ?thesis using O [OF fr(3)] co(2) mk_eq(1) True A(3) by (simp add: last capu)
    next
      case False
      then show ?thesis using T [OF sizes(1) fr(2)] A(3) by (simp add: last)
    qed
    ultimately show "\<exists>dst' r. with_unit (run_format_converter (the (fc_in_format_converter conv)) (fr_in * m) src dst) = Some (dst', r) \<and> length dst' = length dst \<and> True"
      using run_format_converter_ok [of ci isz w "fr_in * m" src dst] ci(1) [OF A(1)] by (auto simp: with_unit_def)
  qed (auto intro: that)
  let ?lr = "fc_resampler conv"
  define P2 where "P2 = (\<lambda>(fr1, u, lr). fr1 \<le> F \<and> u \<le> fr_in \<and> (\<not> d \<longrightarrow> fr1 \<le> out_frames) \<and> (\<not> b \<longrightarrow> fr1 = fr_in \<and> lr = ?lr) \<and>
    lr_ok lr \<and> lr_num_channels lr = k \<and> lr_format_width lr = w)"
  obtain bufs2 r2 where s2: "opt_stage b (linear_stage ?lr fr_in (pre_limit conv out_frames)) (fr_in, 0, ?lr) bufs1 (of_bool a)
      = Some (bufs2, of_bool a + of_bool b, r2)" "bufs_ok cap used bufs2" "P2 r2"
  proof (rule opt_stage_ok [OF s1(2), where on = b and idx = "of_bool a" and P = P2])
    show "of_bool a < used" if b using that used by simp
    show "P2 (fr_in, 0, ?lr)" if "\<not> b" using that fr wf(10-12) by (simp add: P2_def)
    fix src dst :: bytes assume A: b "length src = cap (of_bool a)" "length dst = cap (Suc (of_bool a))"
    have lim: "pre_limit conv out_frames \<le> F" "\<not> d \<Longrightarrow> pre_limit conv out_frames \<le> out_frames" using pre_limit_le [of conv out_frames] by (auto simp: defs on)
    have "fr_in * (w * k) \<le> length src"
    proof (cases a)
      case True
      then show ?thesis using A used T [OF sizes(1) fr(2), of k] by (simp add: first mult.left_commute)
    next
      case False
      then show ?thesis using A used I [OF fr(1)] ci(2) mk_eq(2) by (simp add: first mult.left_commute)
    qed
    moreover have "pre_limit conv out_frames * (w * k) \<le> length dst"
    proof (cases "Suc (of_bool a) = used")
      case True
      then have "\<not> d" "\<not> f" using A(1) used by (auto simp: of_bool_def split: if_splits)
      then show ?thesis using O [OF lim(2)] co(2) True A(3) by (simp add: last capu mult.left_commute)
    next
      case False
      then show ?thesis using T [OF sizes(1) lim(1), of k] A(3) by (simp add: last mult.left_commute)
    qed
    ultimately obtain dst' n u lr' where "linear_stage ?lr fr_in (pre_limit conv out_frames) src dst = Some (dst', n, u, lr')" "length dst' = length dst"
      "n \<le> pre_limit conv out_frames" "u \<le> fr_in" "lr_ok lr'" "lr_num_channels lr' = k" "lr_format_width lr' = w"
      using linear_stage_ok [OF wf(10), of fr_in src "pre_limit conv out_frames" dst] wf(11,12) lb by auto
    then show "\<exists>dst' r. linear_stage ?lr fr_in (pre_limit conv out_frames) src dst = Some (dst', r) \<and> length dst' = length dst \<and> P2 r"
      using lim A(1) by (auto simp: P2_def)
  qed (auto intro: that)
  obtain fr1 lu lr where r2: "r2 = (fr1, lu, lr)" by (cases r2)
  have fr1: "fr1 \<le> F" "lu \<le> fr_in" "\<not> d \<Longrightarrow> fr1 \<le> out_frames" "\<not> b \<Longrightarrow> fr1 = fr_in \<and> lr = ?lr" "lr_ok lr" "lr_num_channels lr = k" "lr_format_width lr = w"
    using s2(3) by (auto simp: r2 P2_def)
  obtain bufs3 where s3: "opt_stage c (\<lambda>src dst. with_unit (run_channel_converter width conv (the (fc_channel_converter conv)) fr1 src dst)) () bufs2 (of_bool a + of_bool b)
      = Some (bufs3, of_bool a + of_bool b + of_bool c, ())" "bufs_ok cap used bufs3"
  proof (rule opt_stage_ok [OF s2(2), where on = c and idx = "of_bool a + of_bool b" and P = "\<lambda>_. True"])
    show "of_bool a + of_bool b < used" if c using that used by simp
    fix src dst :: bytes assume A: c "length src = cap (of_bool a + of_bool b)" "length dst = cap (Suc (of_bool a + of_bool b))"
    have src: "w * (m * fr1) \<le> length src"
    proof (cases "of_bool a + of_bool b = (0::nat)")
      case True
      then have "\<not> a" "\<not> b" by auto
      then show ?thesis using A used I [OF fr(1)] ci(2) fr1(4) by (simp add: first mult.commute [of m])
    next
      case False
      then show ?thesis using A used T [OF sizes(1) fr1(1), of m] by (auto simp: first mult.commute [of m])
    qed
    have dst: "w * (k * fr1) \<le> length dst \<and> osz * (k * fr1) \<le> length dst"
    proof (cases "Suc (of_bool a + of_bool b) = used")
      case True
      then have "\<not> d" "\<not> f" using A(1) used by (auto simp: of_bool_def split: if_splits)
      then show ?thesis using O [OF fr1(3)] co(2) True A(3) by (simp add: last capu mult.commute [of k])
    next
      case False
      then show ?thesis using T [OF sizes(1) fr1(1), of k] T [OF sizes(3) fr1(1), of k] A(3) by (simp add: last mult.commute [of k])
    qed
    obtain cc where cc: "fc_channel_converter conv = Some cc" using A(1) on by auto
    have "\<exists>dst'. run_channel_converter width conv cc fr1 src dst = Some dst' \<and> length dst' = length dst"
      using wf(3) src dst unfolding chan_ok_def Let_def cc by (simp add: defs defs2)
    then show "\<exists>dst' r. with_unit (run_channel_converter width conv (the (fc_channel_converter conv)) fr1 src dst) = Some (dst', r) \<and> length dst' = length dst \<and> True"
      using cc by (auto simp: with_unit_def)
  qed (auto intro: that)
  define lim where "lim = src_limit conv e fr1 out_frames"
  have lim: "\<not> e \<Longrightarrow> lim \<le> out_frames" using src_limit_le(1) by (simp add: lim_def)
  have lim2: "lim \<le> 2 * F" if d
  proof (cases "e = False \<and> out_frames \<le> 2 * F")
    case True
    then show ?thesis using lim by simp
  next
    case False
    then have "\<not> b" "cras_frames_at_rate (frame_rate fin) (int in_frames) (frame_rate fout) \<le> 2 * int F"
      using assms(7) that by (auto simp: src_fits_def on lin needed_def defs)
    moreover then have "fr1 = in_frames" using fr1(4) that by (simp add: fr_in_def)
    ultimately show ?thesis using src_limit_le(2) [of conv e fr1 out_frames] wf(1) by (simp add: lim_def fmt_ok_def defs)
  qed
  define P4 where "P4 = (\<lambda>(fo, f2, sp::'s option). f2 \<le> fr1 \<and> (d \<longrightarrow> fo \<le> lim \<and> sp \<noteq> None) \<and> (\<not> d \<longrightarrow> fo = fr_in \<and> f2 = fr1 \<and> sp = None))"
  obtain bufs4 r4 where s4: "opt_stage d (\<lambda>src dst. map_option (\<lambda>(x, made, u, sp). (x, made, u, Some sp)) (speex_stage sx k (the (fc_speex_state conv)) fr1 lim src dst))
      (fr_in, fr1, None) bufs3 (of_bool a + of_bool b + of_bool c) = Some (bufs4, of_bool a + of_bool b + of_bool c + of_bool d, r4)"
    "bufs_ok cap used bufs4" "P4 r4"
  proof (rule opt_stage_ok [OF s3(2), where on = d and idx = "of_bool a + of_bool b + of_bool c" and P = P4])
    show "of_bool a + of_bool b + of_bool c < used" if d using that used by simp
    show "P4 (fr_in, fr1, None)" if "\<not> d" using that by (simp add: P4_def)
    fix src dst :: bytes assume A: d "length src = cap (of_bool a + of_bool b + of_bool c)" "length dst = cap (Suc (of_bool a + of_bool b + of_bool c))"
    have "fr1 * k * 2 \<le> length src"
    proof (cases "of_bool a + of_bool b + of_bool c = (0::nat)")
      case True
      then have "\<not> a" "\<not> b" "\<not> c" by auto
      then show ?thesis using A used I [OF fr(1)] ci(2) fr1(4) mk_eq(1) w2 by (simp add: first mult.commute [of 2])
    next
      case False
      then show ?thesis using A used T [OF sizes(1) fr1(1), of k] w2 by (auto simp: first mult.commute [of 2])
    qed
    moreover have "lim * k * 2 \<le> length dst"
    proof (cases "Suc (of_bool a + of_bool b + of_bool c) = used")
      case True
      then have "\<not> e" "\<not> f" using A(1) used by (auto simp: of_bool_def split: if_splits)
      then show ?thesis using O [OF lim] co(2) w2 True A(1,3) by (simp add: last capu mult.commute [of 2])
    next
      case False
      then show ?thesis using T2 [OF lim2] A(1,3) by (simp add: last mult.commute [of 2])
    qed
    ultimately obtain dst' made u sp where "speex_stage sx k (the (fc_speex_state conv)) fr1 lim src dst = Some (dst', made, u, sp)" "length dst' = length dst" "made \<le> lim" "u \<le> fr1"
      using speex_stage_ok [of sx k fr1 src lim dst "the (fc_speex_state conv)"] assms(3) by (auto simp: defs)
    then show "\<exists>dst' r. map_option (\<lambda>(x, made, u, sp). (x, made, u, Some sp)) (speex_stage sx k (the (fc_speex_state conv)) fr1 lim src dst) = Some (dst', r) \<and>
        length dst' = length dst \<and> P4 r" using A(1) by (auto simp: P4_def)
  qed (auto intro: that)
  obtain fo f2 sp where r4: "r4 = (fo, f2, sp)" by (cases r4)
  have fo: "f2 \<le> fr1" "d \<Longrightarrow> fo \<le> lim" "\<not> d \<Longrightarrow> fo = fr_in \<and> f2 = fr1" "d \<longleftrightarrow> sp \<noteq> None" using s4(3) by (auto simp: r4 P4_def)
  have foT: "w * (fo * k) \<le> T" using T2 [of fo] T [OF sizes(1), of fo k] lim2 fo(2,3) fr(2) w2 by (cases d) auto
  have foO: "\<not> e \<Longrightarrow> fo \<le> out_frames" using fo lim fr(3) by (cases d) auto
  have foI: "w * (fo * k) \<le> length in_buf" if "\<not> a" "\<not> b" "\<not> c" "\<not> d" using that fo(3) I [OF fr(1)] ci(2) mk_eq(1) by simp
  define room where "room = min F out_frames"
  define P5 where "P5 = (\<lambda>(fo', u::nat, lr'). fo' \<le> out_frames \<and> w * (fo' * k) \<le> T \<and> (\<not> e \<longrightarrow> fo' = fo \<and> lr' = lr) \<and> lr_ok lr' \<and> lr_num_channels lr' = k \<and> lr_format_width lr' = w)"
  let ?i4 = "of_bool a + of_bool b + of_bool c + of_bool d :: nat"
  have lre: "lr = ?lr" if e using that fr1(4) by (auto simp: lin)
  obtain bufs5 r5 where s5: "opt_stage e (linear_stage lr fo room) (fo, 0, lr) bufs4 ?i4 = Some (bufs5, ?i4 + of_bool e, r5)" "bufs_ok cap used bufs5" "P5 r5"
  proof (rule opt_stage_ok [OF s4(2), where on = e and idx = ?i4 and P = P5])
    show "?i4 < used" if e using that used by simp
    show "P5 (fo, 0, lr)" if "\<not> e" using that foO foT fr1(5-7) by (simp add: P5_def)
    fix src dst :: bytes assume A: e "length src = cap ?i4" "length dst = cap (Suc ?i4)"
    have "fo * (w * k) \<le> length src"
      using A used foT foI by (cases "a \<or> b \<or> c \<or> d") (auto simp: first mult.left_commute)
    moreover have "room * (w * k) \<le> length dst"
    proof (cases "Suc ?i4 = used")
      case True
      then have "\<not> f" using A(1) used by (auto simp: of_bool_def split: if_splits)
      then show ?thesis using O [of room] co(2) True A(3) by (simp add: last capu mult.left_commute room_def)
    next
      case False
      then show ?thesis using T [OF sizes(1), of room k] A(3) by (simp add: last mult.left_commute room_def)
    qed
    ultimately obtain dst' n u lr' where "linear_stage lr fo room src dst = Some (dst', n, u, lr')" "length dst' = length dst"
      "n \<le> room" "lr_ok lr'" "lr_num_channels lr' = k" "lr_format_width lr' = w"
      using linear_stage_ok [OF wf(10), of fo src room dst] wf(11,12) lb lre [OF A(1)] by auto
    then show "\<exists>dst' r. linear_stage lr fo room src dst = Some (dst', r) \<and> length dst' = length dst \<and> P5 r"
      using A(1) T [OF sizes(1), of n k] by (auto simp: P5_def room_def)
  qed (auto intro: that)
  obtain fo' u5 lr' where r5: "r5 = (fo', u5, lr')" by (cases r5)
  have fo': "fo' \<le> out_frames" "w * (fo' * k) \<le> T" "\<not> e \<Longrightarrow> fo' = fo" "lr_ok lr'" "lr_num_channels lr' = k" "lr_format_width lr' = w"
    using s5(3) by (auto simp: r5 P5_def)
  let ?i5 = "?i4 + of_bool e"
  obtain bufs6 where s6: "opt_stage f (\<lambda>src dst. with_unit (run_format_converter (the (fc_out_format_converter conv)) (fo' * k) src dst)) () bufs5 ?i5
      = Some (bufs6, ?i5 + of_bool f, ())" "bufs_ok cap used bufs6"
  proof (rule opt_stage_ok [OF s5(2), where on = f and idx = ?i5 and P = "\<lambda>_. True"])
    show "?i5 < used" if f using that used by simp
    fix src dst :: bytes assume A: f "length src = cap ?i5" "length dst = cap (Suc ?i5)"
    have "w * (fo' * k) \<le> length src"
      using A used fo'(2,3) foI by (cases "a \<or> b \<or> c \<or> d \<or> e") (auto simp: first)
    moreover have "osz * (fo' * k) \<le> length dst" using A used O [OF fo'(1)] by (simp add: last capu)
    ultimately show "\<exists>dst' r. with_unit (run_format_converter (the (fc_out_format_converter conv)) (fo' * k) src dst) = Some (dst', r) \<and> length dst' = length dst \<and> True"
      using run_format_converter_ok [of co w osz "fo' * k" src dst] co(1) [OF A(1)] by (auto simp: with_unit_def)
  qed (auto intro: that)
  define in_used where "in_used = (if b then if d \<and> f2 = 0 then 0 else lu else f2)"
  define tmp where "tmp = map (\<lambda>i. if Suc i = used then fc_tmp_bufs conv ! i else the (bufs6 ! Suc i)) [0..<length (fc_tmp_bufs conv)]"
  define conv' where "conv' = conv\<lparr>fc_resampler := lr', fc_speex_state := sp, fc_tmp_bufs := tmp\<rparr>"
  have run: "cras_fmt_conv_convert_frames width sx conv in_buf out_buf in_frames out_frames = Some (fo', in_used, conv', the (bufs6 ! used))"
    using assms(4)
    unfolding cras_fmt_conv_convert_frames_def Let_def
    by (simp only: needed_def [symmetric] lin [symmetric] on [symmetric] defs [symmetric] used_def [symmetric] fr_in_def [symmetric] room_def [symmetric]
        lim_def [symmetric] s1(1) s2(1) r2 s3(1) s4(1) r4 s5(1) r5 s6(1) Option.bind.simps prod.case if_True not_True_eq_False if_False tmp_def [symmetric] conv'_def [symmetric] in_used_def [symmetric])
  have out: "length (the (bufs6 ! used)) = length out_buf" using s6(2) unfolding bufs_ok_def capu [symmetric] by auto
  have tl: "length (the (bufs6 ! Suc i)) = T" if "Suc i < used" for i
    using s6(2) that unfolding bufs_ok_def by (metis Zero_not_Suc cap_def less_imp_le nat_neq_iff option.sel)
  have "Suc i < used" if "i < length (fc_tmp_bufs conv)" "Suc i \<noteq> used" for i
    using that wf(8) by (simp add: used_def split: if_splits)
  then have tmp: "length tmp = length (fc_tmp_bufs conv)" "\<forall>b\<in>set tmp. length b = T" using wf(9) tl by (auto simp: tmp_def)
  have same: "fc_in_fmt conv' = fc_in_fmt conv" "fc_out_fmt conv' = fc_out_fmt conv" "fc_ch_conv_mtx conv' = fc_ch_conv_mtx conv"
    "fc_channel_converter conv' = fc_channel_converter conv" "fc_in_format_converter conv' = fc_in_format_converter conv" "fc_out_format_converter conv' = fc_out_format_converter conv"
    "fc_num_converters conv' = fc_num_converters conv" "fc_tmp_buf_frames conv' = fc_tmp_buf_frames conv" "fc_pre_linear_resample conv' = fc_pre_linear_resample conv"
    "fc_resampler conv' = lr'" "fc_speex_state conv' = sp" "fc_tmp_bufs conv' = tmp"
    by (simp_all add: conv'_def)
  have u32: "use_s32_conversion width conv' = use32" by (simp add: use_s32_conversion_def same defs)
  have "fc_wf width conv'"
    unfolding fc_wf_def Let_def u32 chan_ok_same [OF same(1-4)] same
    using wf tmp fo'(4-6) fo(4) unfolding defs2 defs on by simp
  moreover have "in_used \<le> in_frames" using fr(1) fr1 fo(1) by (auto simp: in_used_def)
  ultimately show ?thesis using run fo'(1) out same by (intro exI [of _ fo'] exI [of _ in_used] exI [of _ conv'] exI [of _ "the (bufs6 ! used)"]) simp
qed

section \<open>Creation\<close>

definition rate_ok :: "real \<Rightarrow> bool" where
  "rate_ok r \<longleftrightarrow> 1 \<le> r \<and> r \<le> 1000000"

lemma rate_times_100:
  assumes "rate_ok r"
  shows "100 \<le> u32 (c_trunc (f32 (r * 100)))"
proof -
  have "f32 100 = 100" "f32 100000000 = 100000000" using fround_int [of 100 24] fround_pos_exact [of 390625 24 8] by (simp_all add: fround_def)
  moreover have "f32 100 \<le> f32 (r * 100)" "f32 (r * 100) \<le> f32 100000000" using assms by (auto simp: rate_ok_def intro!: fround_mono)
  ultimately have "100 \<le> c_trunc (f32 (r * 100))" "c_trunc (f32 (r * 100)) \<le> 100000000" by (auto simp: c_trunc_def le_floor_iff floor_le_iff)
  then show ?thesis by (simp add: wrap_u_id)
qed

lemma rate_f32: "0 < r \<Longrightarrow> r \<le> 1000000 \<Longrightarrow> rate_ok (f32 (of_int r))"
  using fround_mono [of 1 "of_int r" 24] fround_mono [of "of_int r" 1000000 24] fround_int [of 1 24] fround_int [of 1000000 24] by (simp add: rate_ok_def)

lemma set_rates_ok:
  assumes "0 < lr_num_channels lr" "lr_format_width lr = 2 \<or> lr_format_width lr = 4" "lr_format_bytes lr = lr_num_channels lr * lr_format_width lr"
    and "rate_ok from" "rate_ok to"
  shows "lr_ok (linear_resampler_set_rates lr from to)"
proof -
  have "0 < to / from" using assms(4,5) by (simp add: rate_ok_def)
  then have "0 < f32 (to / from)" using fround_pos_pos [of "to / from" 24] by (auto simp: fround_def)
  then show ?thesis using assms(1-3) rate_times_100 [OF assms(4)] rate_times_100 [OF assms(5)] by (simp add: lr_ok_def linear_resampler_set_rates_def)
qed

lemma create_wf:
  assumes "cras_fmt_conv_create width sx alloc fin fout F pre node = Some (Some conv)" "fmt_ok fin" "fmt_ok fout" "width_ok width"
    and "pre \<Longrightarrow> num_channels fin = num_channels fout"
  shows "fc_wf width conv" "fc_tmp_buf_frames conv = F" "fc_pre_linear_resample conv = pre" "fc_in_fmt conv = fin" "fc_out_fmt conv = fout"
    "\<not> linear_resampler_needed (fc_resampler conv)"
    "cras_fmt_conversion_needed conv \<longleftrightarrow> (format fin \<noteq> chain_format (s32_formats width fin fout) \<or> format fout \<noteq> chain_format (s32_formats width fin fout) \<or>
      frame_rate fin \<noteq> frame_rate fout \<or> channel_converter_for fin fout node \<noteq> Inl None)"
    "linear_resampler_set_rates (fc_resampler conv) (f32 (of_int (frame_rate fout))) (f32 (of_int (frame_rate fout))) = fc_resampler conv"
proof -
  let ?use32 = "s32_formats width fin fout" and ?k = "nat (num_channels fout)" and ?r = "f32 (of_int (frame_rate fout))"
  have k: "0 < ?k" and sup: "is_supported_format fin" "is_supported_format fout" using assms(2,3) by (auto simp: fmt_ok_def)
  have r: "rate_ok ?r" using assms(3) by (intro rate_f32) (auto simp: fmt_ok_def)
  obtain ch where ch: "channel_converter_for fin fout node = Inl ch"
    using assms(1) sup by (auto simp: cras_fmt_conv_create_def Let_def split: sum.splits)
  obtain lr where lr: "linear_resampler_create alloc ?k ((if ?use32 then 4 else 2) * ?k) ?r ?r = Some lr"
    using assms(1) sup ch by (auto simp: cras_fmt_conv_create_def Let_def split: option.splits if_splits)
  have lrw: "lr_num_channels lr = ?k" "lr_format_width lr = chain_size ?use32" "lr_format_bytes lr = ?k * chain_size ?use32"
    using lr k by (auto simp: linear_resampler_create_def Let_def linear_resampler_set_rates_def chain_size_def split: if_splits)
  have lr2: "linear_resampler_set_rates lr ?r ?r = lr"
    using lr by (auto simp: linear_resampler_create_def Let_def linear_resampler_set_rates_def split: if_splits)
  then have lrok: "lr_ok lr" using set_rates_ok [of lr ?r ?r] lrw k r by (auto simp: chain_size_def)
  define direct where "direct = (if ?use32 then SND_PCM_FORMAT_S32_LE else SND_PCM_FORMAT_S16_LE)"
  define src speex where "src = (frame_rate fin \<noteq> frame_rate fout)"
    "speex = (if src then sx_init sx (num_channels fout) (frame_rate fin) (frame_rate fout) else None)"
  define N where "N = (if format fin \<noteq> direct then 1 else 0) + (if format fout \<noteq> direct then 1 else 0) + (if ch = None then 0 else 1) + (if src then 1 else 0) + (1::nat)"
  define rec where "rec = \<lparr>fc_speex_state = speex, fc_channel_converter = map_option fst ch, fc_ch_conv_mtx = Option.bind ch snd,
      fc_in_format_converter = (if format fin \<noteq> direct then in_format_converter_for ?use32 (format fin) else None),
      fc_out_format_converter = (if format fout \<noteq> direct then out_format_converter_for ?use32 (format fout) else None),
      fc_resampler = lr, fc_in_fmt = fin, fc_out_fmt = fout,
      fc_tmp_bufs = replicate (N - 1) (replicate (F * 4 * max (nat (num_channels fin)) ?k) 0),
      fc_tmp_buf_frames = F, fc_pre_linear_resample = pre, fc_num_converters = N\<rparr>"
  have "cras_fmt_conv_create width sx alloc fin fout F pre node =
      (if src \<and> speex = None then Some None else if N > MAX_NUM_CONVERTERS then None else Some (Some rec))"
    unfolding cras_fmt_conv_create_def Let_def rec_def
    by (simp only: sup ch lr direct_def [symmetric] src_speex_def [symmetric] N_def [symmetric] sum.case option.case not_True_eq_False disj_not1 simp_thms if_False)
  then have conv: "conv = rec" "\<not> (src \<and> speex = None)" using assms(1) by (auto split: if_splits)
  have fld: "fc_in_fmt conv = fin" "fc_out_fmt conv = fout" "fc_resampler conv = lr" "fc_tmp_buf_frames conv = F" "fc_pre_linear_resample conv = pre"
      "fc_channel_converter conv = map_option fst ch" "fc_ch_conv_mtx conv = Option.bind ch snd"
      "fc_in_format_converter conv = (if format fin \<noteq> chain_format ?use32 then in_format_converter_for ?use32 (format fin) else None)"
      "fc_out_format_converter conv = (if format fout \<noteq> chain_format ?use32 then out_format_converter_for ?use32 (format fout) else None)"
      "fc_speex_state conv \<noteq> None \<longleftrightarrow> frame_rate fin \<noteq> frame_rate fout"
      "fc_num_converters conv = 1 + of_bool (format fin \<noteq> chain_format ?use32) + of_bool (format fout \<noteq> chain_format ?use32) + of_bool (ch \<noteq> None)
         + of_bool (frame_rate fin \<noteq> frame_rate fout)"
      "fc_tmp_bufs conv = replicate (fc_num_converters conv - 1) (replicate (F * 4 * max (nat (num_channels fin)) ?k) 0)"
    using conv(2) by (simp_all add: conv(1) rec_def N_def src_speex_def direct_def chain_format_def split del: if_split) (auto simp: of_bool_def)
  show "fc_tmp_buf_frames conv = F" "fc_pre_linear_resample conv = pre" "fc_in_fmt conv = fin" "fc_out_fmt conv = fout" by (fact fld)+
  show "linear_resampler_set_rates (fc_resampler conv) ?r ?r = fc_resampler conv" using lr2 by (simp add: fld(3))
  show nd: "\<not> linear_resampler_needed (fc_resampler conv)"
    using arg_cong [OF lr2, of linear_resampler_needed] by (simp add: fld(3) linear_resampler_needed_def linear_resampler_set_rates_def)
  show "cras_fmt_conversion_needed conv \<longleftrightarrow> (format fin \<noteq> chain_format (s32_formats width fin fout) \<or> format fout \<noteq> chain_format (s32_formats width fin fout) \<or>
      frame_rate fin \<noteq> frame_rate fout \<or> channel_converter_for fin fout node \<noteq> Inl None)"
    using nd ch by (auto simp: cras_fmt_conversion_needed_def fld(11))
  have use: "use_s32_conversion width conv = ?use32" by (simp add: use_s32_conversion_def fld)
  have w16: "?use32 \<longrightarrow> width (format fin) > 16" "?use32 \<longrightarrow> width (format fout) > 16" by (auto simp: s32_formats_def)
  have cf: "fc_in_format_converter conv \<noteq> None \<longleftrightarrow> format fin \<noteq> chain_format ?use32" "fc_out_format_converter conv \<noteq> None \<longleftrightarrow> format fout \<noteq> chain_format ?use32"
    unfolding fld(8,9)
    by (cases "format fin = chain_format ?use32"; use format_converters [OF sup(1) _ w16(1) assms(4)] in fastforce)
       (cases "format fout = chain_format ?use32"; use format_converters [OF sup(2) _ w16(2) assms(4)] in fastforce)
  have "chan_ok width conv" using chan_ok_created [of conv node ch width] ch assms(2-4) fld by simp
  then show "fc_wf width conv"
    unfolding fc_wf_def Let_def cf use using assms(2,3,5) fld lrok lrw by (simp add: set_replicate_conv_if)
qed

text \<open>A converter can be made for every pair of valid formats, unless memory or speex fails; for internal speakers the output needs a front left channel.\<close>

definition spk_layout_ok :: "int \<Rightarrow> cras_audio_format \<Rightarrow> cras_audio_format \<Rightarrow> bool" where
  "spk_layout_ok node fin fout \<longleftrightarrow> node \<noteq> CRAS_NODE_TYPE_INTERNAL_SPEAKER \<or> num_channels fout \<le> 2 \<or> num_channels fin \<le> 1 \<or> channel_layout fout ! STEREO_L \<noteq> - 1"

lemma channel_converter_exists:
  assumes "fmt_ok fin" "fmt_ok fout"
  shows "(\<exists>ch. channel_converter_for fin fout node = Inl ch) \<longleftrightarrow> spk_layout_ok node fin fout"
proof -
  have n: "0 \<le> num_channels fin" "num_channels fin < 2 ^ 31" "0 \<le> num_channels fout" "num_channels fout < 2 ^ 31"
    and v: "cras_audio_format_valid fin" "cras_audio_format_valid fout" using assms by (auto simp: fmt_ok_def)
  have spk: "(\<exists>ch. matrix_or_all (cras_internal_spk_channel_conv_matrix_create fin fout) = Inl ch) \<longleftrightarrow> channel_layout fout ! STEREO_L \<noteq> - 1"
    using internal_spk_matrix [OF fmt_ok_layout [OF assms(1)] fmt_ok_layout [OF assms(2)] n] by (auto simp: matrix_or_all_def split: if_splits)
  have mat: "\<exists>ch. matrix_or_all (cras_channel_conv_matrix_create fin fout) = Inl ch"
    using conv_matrix_spec [OF v n] by (auto simp: matrix_or_all_def split: conv_result.splits)
  have dm: "\<exists>ch. downmix_converter fin fout = Inl ch" if "num_channels fin = 6" "num_channels fout = 2 \<or> num_channels fout = 4"
  proof -
    have l: "layout_ok (channel_layout fin) 6" using fmt_ok_layout [OF assms(1)] that by simp
    have al: "matrix_shape (nat r) 6 (cras_channel_conv_matrix_alloc 6 r)" for r using matrix_shape_alloc [of r 6] by simp
    show ?thesis using that downmix_mtx_ok [OF l] al [of 2] al [of 4] by (fastforce simp: downmix_converter_def Let_def)
  qed
  show ?thesis
  proof (cases "node = CRAS_NODE_TYPE_INTERNAL_SPEAKER \<and> num_channels fout > 2 \<and> num_channels fin > 1")
    case True
    then show ?thesis using spk by (simp add: channel_converter_for_def spk_layout_ok_def)
  next
    case False
    then have "spk_layout_ok node fin fout" by (auto simp: spk_layout_ok_def)
    moreover have "\<exists>ch. channel_converter_for fin fout node = Inl ch"
      unfolding channel_converter_for_def Let_def if_not_P [OF False] using mat dm by (auto split: if_split)
    ultimately show ?thesis by simp
  qed
qed

text \<open>The target of a converter, and when one changes anything.\<close>

definition target_format :: "int \<Rightarrow> cras_audio_format \<Rightarrow> cras_audio_format \<Rightarrow> cras_audio_format" where
  "target_format dir from to = (if dir = CRAS_STREAM_INPUT then from\<lparr>format := format to, frame_rate := frame_rate to\<rparr> else to)"

definition converter_changes :: "(int \<Rightarrow> int) \<Rightarrow> int \<Rightarrow> cras_audio_format \<Rightarrow> cras_audio_format \<Rightarrow> bool" where
  "converter_changes width node fin fout \<longleftrightarrow>
     (let chain = chain_format (s32_formats width fin fout) in format fin \<noteq> chain \<or> format fout \<noteq> chain \<or>
      frame_rate fin \<noteq> frame_rate fout \<or> channel_converter_for fin fout node \<noteq> Inl None)"

lemma config_target:
  "config_format_converter width sx alloc dir from to node F =
     (case cras_fmt_conv_create width sx alloc from (target_format dir from to) F (dir = CRAS_STREAM_INPUT) node of
        None \<Rightarrow> None | Some None \<Rightarrow> Some (- ENOMEM, None) | Some (Some conv) \<Rightarrow> Some (0, Some conv))"
  by (simp only: config_format_converter_def target_format_def Let_def)

lemma target_format_ok: "fmt_ok from \<Longrightarrow> fmt_ok to \<Longrightarrow> fmt_ok (target_format dir from to)"
  by (simp add: target_format_def fmt_ok_def is_supported_format_def cras_audio_format_valid_def)

lemma created_wf:
  assumes "config_format_converter width sx alloc dir from to node F = Some (0, Some conv)" "fmt_ok from" "fmt_ok to" "width_ok width"
  shows "fc_wf width conv" "fc_tmp_buf_frames conv = F" "fc_pre_linear_resample conv \<longleftrightarrow> dir = CRAS_STREAM_INPUT" "fc_in_fmt conv = from"
    "fc_out_fmt conv = target_format dir from to" "\<not> linear_resampler_needed (fc_resampler conv)"
    "cras_fmt_conversion_needed conv \<longleftrightarrow> converter_changes width node from (target_format dir from to)"
    "linear_resampler_set_rates (fc_resampler conv) (f32 (of_int (frame_rate to))) (f32 (of_int (frame_rate to))) = fc_resampler conv"
proof -
  have c: "cras_fmt_conv_create width sx alloc from (target_format dir from to) F (dir = CRAS_STREAM_INPUT) node = Some (Some conv)"
    using assms(1) by (auto simp: config_target split: option.splits)
  have ch: "num_channels from = num_channels (target_format dir from to)" if "dir = CRAS_STREAM_INPUT" using that by (simp add: target_format_def)
  note w = create_wf [OF c assms(2) target_format_ok [OF assms(2,3)] assms(4) ch]
  show "fc_wf width conv" "fc_tmp_buf_frames conv = F" "fc_pre_linear_resample conv \<longleftrightarrow> dir = CRAS_STREAM_INPUT" "fc_in_fmt conv = from"
    "fc_out_fmt conv = target_format dir from to" "\<not> linear_resampler_needed (fc_resampler conv)"
    "cras_fmt_conversion_needed conv \<longleftrightarrow> converter_changes width node from (target_format dir from to)"
    "linear_resampler_set_rates (fc_resampler conv) (f32 (of_int (frame_rate to))) (f32 (of_int (frame_rate to))) = fc_resampler conv"
    using w unfolding converter_changes_def Let_def by (auto simp: target_format_def)
qed

lemma set_linear_rates_wf:
  assumes "fc_wf width conv" "rate_ok from" "rate_ok to"
  shows "fc_wf width (cras_fmt_conv_set_linear_resample_rates conv from to)"
proof -
  let ?c = "cras_fmt_conv_set_linear_resample_rates conv from to"
  have same: "fc_in_fmt ?c = fc_in_fmt conv" "fc_out_fmt ?c = fc_out_fmt conv" "fc_ch_conv_mtx ?c = fc_ch_conv_mtx conv"
    "fc_channel_converter ?c = fc_channel_converter conv" "fc_in_format_converter ?c = fc_in_format_converter conv" "fc_out_format_converter ?c = fc_out_format_converter conv"
    "fc_num_converters ?c = fc_num_converters conv" "fc_tmp_buf_frames ?c = fc_tmp_buf_frames conv" "fc_pre_linear_resample ?c = fc_pre_linear_resample conv"
    "fc_speex_state ?c = fc_speex_state conv" "fc_tmp_bufs ?c = fc_tmp_bufs conv"
    "fc_resampler ?c = linear_resampler_set_rates (fc_resampler conv) from to"
    by (simp_all add: cras_fmt_conv_set_linear_resample_rates_def)
  have lr: "lr_ok (fc_resampler conv)" using assms(1) by (simp add: fc_wf_def Let_def)
  have u: "use_s32_conversion width ?c = use_s32_conversion width conv" by (simp add: use_s32_conversion_def same)
  have "lr_ok (linear_resampler_set_rates (fc_resampler conv) from to)" using lr assms(2,3) by (intro set_rates_ok) (auto simp: lr_ok_def)
  moreover have "lr_num_channels (linear_resampler_set_rates (fc_resampler conv) from to) = lr_num_channels (fc_resampler conv)"
    "lr_format_width (linear_resampler_set_rates (fc_resampler conv) from to) = lr_format_width (fc_resampler conv)" by (simp_all add: linear_resampler_set_rates_def)
  ultimately show ?thesis using assms(1) unfolding fc_wf_def Let_def u chan_ok_same [OF same(1-4)] same by simp
qed

section \<open>Converters in use\<close>

text \<open>What a caller gives a conversion: frames that fit the temporary buffers, and buffers of that many frames.\<close>

definition convert_pre :: "'s cras_fmt_conv \<Rightarrow> bytes \<Rightarrow> bytes \<Rightarrow> nat \<Rightarrow> nat \<Rightarrow> bool" where
  "convert_pre conv in_buf out_buf in_frames out_frames \<longleftrightarrow> in_frames \<le> fc_tmp_buf_frames conv \<and>
     in_frames * (fmt_size (format (fc_in_fmt conv)) * nat (num_channels (fc_in_fmt conv))) \<le> length in_buf \<and>
     out_frames * (fmt_size (format (fc_out_fmt conv)) * nat (num_channels (fc_out_fmt conv))) \<le> length out_buf \<and>
     src_fits conv in_frames out_frames"

inductive conv_reach :: "(int \<Rightarrow> int) \<Rightarrow> 's speex \<Rightarrow> 's cras_fmt_conv \<Rightarrow> bool" for width sx where
  created: "config_format_converter width sx alloc dir from to node F = Some (0, Some conv) \<Longrightarrow> fmt_ok from \<Longrightarrow> fmt_ok to \<Longrightarrow> conv_reach width sx conv"
| rates: "conv_reach width sx conv \<Longrightarrow> rate_ok from \<Longrightarrow> rate_ok to \<Longrightarrow> conv_reach width sx (cras_fmt_conv_set_linear_resample_rates conv from to)"
| converted: "conv_reach width sx conv \<Longrightarrow> convert_pre conv in_buf out_buf in_frames out_frames \<Longrightarrow>
    cras_fmt_conv_convert_frames width sx conv in_buf out_buf in_frames out_frames = Some (n, used, conv', out') \<Longrightarrow> conv_reach width sx conv'"

lemma bind_some: "Option.bind x f = Some y \<longleftrightarrow> (\<exists>z. x = Some z \<and> f z = Some y)"
  by (cases x) auto

lemma convert_keeps_formats:
  assumes "cras_fmt_conv_convert_frames width sx conv in_buf out_buf in_frames out_frames = Some (n, used, conv', out')"
  shows "fc_in_fmt conv' = fc_in_fmt conv" "fc_out_fmt conv' = fc_out_fmt conv"
  using assms unfolding cras_fmt_conv_convert_frames_def Let_def by (auto simp: bind_some split: if_splits)

lemma reach_wf:
  assumes "conv_reach width sx conv" "width_ok width" "speex_ok sx (nat (num_channels (fc_out_fmt conv)))"
  shows "fc_wf width conv"
  using assms(1,3)
proof induction
  case (created alloc dir "from" to node F conv)
  then show ?case using assms(2) by (intro created_wf)
next
  case (rates conv "from" to)
  then show ?case by (intro set_linear_rates_wf) (simp_all add: cras_fmt_conv_set_linear_resample_rates_def)
next
  case (converted conv in_buf out_buf in_frames out_frames n used conv' out')
  have "speex_ok sx (nat (num_channels (fc_out_fmt conv)))" using converted.prems convert_keeps_formats(2) [OF converted.hyps(3)] by simp
  then show ?case using converted convert_frames_ok [of width conv sx in_frames in_buf out_frames out_buf] assms(2) by (auto simp: convert_pre_def)
qed

lemma config_result:
  assumes "fmt_ok from" "fmt_ok to" "frame_rate from \<noteq> frame_rate to \<Longrightarrow> sx_init sx (num_channels (target_format dir from to)) (frame_rate from) (frame_rate to) \<noteq> None"
  shows "spk_layout_ok node from (target_format dir from to) \<Longrightarrow> \<exists>conv. config_format_converter width sx True dir from to node F = Some (0, Some conv)"
    "\<not> spk_layout_ok node from (target_format dir from to) \<Longrightarrow> config_format_converter width sx True dir from to node F = None"
proof -
  let ?t = "target_format dir from to"
  let ?k = "nat (num_channels ?t)" and ?u = "(if s32_formats width from ?t then 4 else 2)::nat"
  note ok = channel_converter_exists [OF assms(1) target_format_ok [OF assms(1,2), of dir], of node]
  have sup: "is_supported_format from" "is_supported_format ?t" and k: "0 < ?k"
    using assms(1) target_format_ok [OF assms(1,2), of dir] by (auto simp: fmt_ok_def)
  have fr: "frame_rate ?t = frame_rate to" by (simp add: target_format_def)
  show "config_format_converter width sx True dir from to node F = None" if n: "\<not> spk_layout_ok node from ?t"
  proof -
    obtain u where u: "channel_converter_for from ?t node = Inr u" using ok n by (cases "channel_converter_for from ?t node") auto
    have "cras_fmt_conv_create width sx True from ?t F (dir = CRAS_STREAM_INPUT) node = None"
      unfolding cras_fmt_conv_create_def Let_def u sum.case using sup by simp
    then show ?thesis by (simp add: config_target)
  qed
  assume "spk_layout_ok node from ?t"
  then obtain ch where ch: "channel_converter_for from ?t node = Inl ch" using ok by blast
  obtain lr where lr: "linear_resampler_create True ?k (?u * ?k) (f32 (of_int (frame_rate ?t))) (f32 (of_int (frame_rate ?t))) = Some lr"
    using k by (cases "s32_formats width from ?t") (auto simp: linear_resampler_create_def Let_def)
  have "\<exists>conv. cras_fmt_conv_create width sx True from ?t F (dir = CRAS_STREAM_INPUT) node = Some (Some conv)"
    using assms(3) sup unfolding cras_fmt_conv_create_def Let_def ch sum.case lr option.case by (auto simp: fr MAX_NUM_CONVERTERS_def)
  then show "\<exists>conv. config_format_converter width sx True dir from to node F = Some (0, Some conv)"
    by (auto simp: config_target)
qed



text \<open>C33. A capture converter that only corrects the clock reports the frames it was given as the frames it made, not the frames that the linear resampler made:
  \<open>fr_out\<close> is set before the resampler runs. When it makes fewer, the reader takes frames that nothing has written.\<close>

theorem capture_reports_unmade_frames:
  assumes "conv_reach width sx conv" "width_ok width" "speex_ok sx (nat (num_channels (fc_out_fmt conv)))"
    and "convert_pre conv in_buf out_buf in_frames out_frames"
    and "fc_num_converters conv = 1" "fc_pre_linear_resample conv" "linear_resampler_needed (fc_resampler conv)"
  shows "\<exists>made used lr' out'.
    linear_resampler_resample (fc_resampler conv) in_buf 0 (min in_frames out_frames) out_buf 0 (pre_limit conv out_frames) = Some (made, used, lr', out') \<and>
    cras_fmt_conv_convert_frames width sx conv in_buf out_buf in_frames out_frames = Some (min in_frames out_frames, used, conv\<lparr>fc_resampler := lr'\<rparr>, out')"
proof -
  note wf = reach_wf [OF assms(1-3)]
  have none: "fc_in_format_converter conv = None" "fc_out_format_converter conv = None" "fc_channel_converter conv = None" "fc_speex_state conv = None"
    "fc_tmp_bufs conv = []" using wf assms(5) by (auto simp: fc_wf_def Let_def of_bool_def split: if_splits)
  have bufs: "buffers_for conv (Suc 0) in_buf out_buf = [Some in_buf, Some out_buf, None, None, None, None]" by (simp add: buffers_for_def none)
  obtain n used conv' out' where r: "cras_fmt_conv_convert_frames width sx conv in_buf out_buf in_frames out_frames = Some (n, used, conv', out')"
    using convert_frames_ok [OF wf assms(2,3)] assms(4) unfolding convert_pre_def by blast
  have F: "in_frames \<le> fc_tmp_buf_frames conv" using assms(4) by (simp add: convert_pre_def)
  obtain dst made u lr' where l: "linear_stage (fc_resampler conv) (min in_frames out_frames) (pre_limit conv out_frames) in_buf out_buf = Some (dst, made, u, lr')"
    using r F unfolding cras_fmt_conv_convert_frames_def Let_def none
    by (auto simp: bind_some opt_stage_def run_stage_def bufs assms(5-7) split: option.splits)
  have "conv\<lparr>fc_resampler := lr', fc_speex_state := None, fc_tmp_bufs := []\<rparr> = conv\<lparr>fc_resampler := lr'\<rparr>" using none by (cases conv) simp
  then have "cras_fmt_conv_convert_frames width sx conv in_buf out_buf in_frames out_frames = Some (min in_frames out_frames, u, conv\<lparr>fc_resampler := lr'\<rparr>, dst)"
    unfolding cras_fmt_conv_convert_frames_def Let_def none using F
    by (simp add: opt_stage_def run_stage_def bufs assms(5-7) l)
  moreover have "linear_resampler_resample (fc_resampler conv) in_buf 0 (min in_frames out_frames) out_buf 0 (pre_limit conv out_frames) = Some (made, u, lr', dst)"
    using l by (auto simp: linear_stage_def split: if_splits option.splits)
  ultimately show ?thesis by blast
qed

section \<open>Examples\<close>

text \<open>The widths of the formats, a resampler that makes silence for one channel, and a mono capture converter that halves the rate.\<close>

definition pcm_width :: "int \<Rightarrow> int" where
  "pcm_width f = (if f = SND_PCM_FORMAT_U8 then 8 else if f = SND_PCM_FORMAT_S16_LE then 16 else if f = SND_PCM_FORMAT_S24_3LE then 24 else 32)"

definition silent_speex :: "unit speex" where
  "silent_speex = \<lparr>sx_init = (\<lambda>_ _ _. Some ()), sx_process = (\<lambda>s samples fr_in fr_out. (fr_in, fr_out, replicate fr_out 0, s))\<rparr>"

definition mono_format :: "int \<Rightarrow> int \<Rightarrow> cras_audio_format" where
  "mono_format f rate = cras_audio_format_create f rate 1"

definition mono_capture :: "unit cras_fmt_conv" where
  "mono_capture = \<lparr>fc_speex_state = None, fc_channel_converter = None, fc_ch_conv_mtx = None, fc_in_format_converter = None, fc_out_format_converter = None,
     fc_resampler = mono_lr 1, fc_in_fmt = mono_format SND_PCM_FORMAT_S16_LE 48000, fc_out_fmt = mono_format SND_PCM_FORMAT_S16_LE 48000,
     fc_tmp_bufs = [], fc_tmp_buf_frames = 2, fc_pre_linear_resample = True, fc_num_converters = 1\<rparr>"

lemma examples_ok: "width_ok pcm_width" "speex_ok silent_speex 1"
  by (simp_all add: width_ok_def pcm_width_def all_formats speex_ok_def silent_speex_def)

lemma mono_format_ok: "is_supported_format (mono_format f rate) \<Longrightarrow> 0 < rate \<Longrightarrow> rate \<le> 1000000 \<Longrightarrow> fmt_ok (mono_format f rate)"
  by (auto simp: fmt_ok_def mono_format_def cras_audio_format_create_def format_valid_iff CRAS_CH_MAX_def wrap_s_def nth_append)

lemma mono_fields [simp]: "format (mono_format f r) = f" "frame_rate (mono_format f r) = r" "num_channels (mono_format f r) = 1"
  by (simp_all add: mono_format_def cras_audio_format_create_def)

lemma f32_rates: "f32 48000 = 48000" "f32 24000 = 24000" "f32 2400000 = 2400000" "f32 4800000 = 4800000" "f32 1 = 1"
  using fround_int [of 48000 24] fround_int [of 24000 24] fround_int [of 2400000 24] fround_int [of 4800000 24] fround_int [of 1 24] by simp_all

lemma mono_capture_created:
  "config_format_converter pcm_width silent_speex True CRAS_STREAM_INPUT (mono_format SND_PCM_FORMAT_S16_LE 48000) (mono_format SND_PCM_FORMAT_S16_LE 48000) 1 2 = Some (0, Some mono_capture)"
proof -
  have "mono_format f r\<lparr>format := f, frame_rate := r\<rparr> = mono_format f r" for f r by (simp add: mono_format_def cras_audio_format_create_def)
  then have "target_format CRAS_STREAM_INPUT (mono_format SND_PCM_FORMAT_S16_LE 48000) (mono_format SND_PCM_FORMAT_S16_LE 48000) = mono_format SND_PCM_FORMAT_S16_LE 48000"
    by (simp add: target_format_def)
  then show ?thesis
    by (simp add: config_target cras_fmt_conv_create_def Let_def is_supported_format_def s32_formats_def pcm_width_def all_formats channel_converter_for_def linear_resampler_create_def
        linear_resampler_set_rates_def f32_rates c_trunc_def wrap_u_def MAX_NUM_CONVERTERS_def mono_capture_def mono_lr_def CRAS_NODE_TYPE_INTERNAL_SPEAKER_def)
qed

lemma mono_capture_reach: "conv_reach pcm_width silent_speex mono_capture"
  by (intro conv_reach.created [OF mono_capture_created] mono_format_ok) (simp_all add: is_supported_format_def)

lemma half_rate_reach: "conv_reach pcm_width silent_speex (cras_fmt_conv_set_linear_resample_rates mono_capture 48000 24000)"
  by (intro conv_reach.rates mono_capture_reach) (simp_all add: rate_ok_def)



theorem capture_reports_unmade_frames_witness:
  "\<exists>used conv' out'. cras_fmt_conv_convert_frames pcm_width silent_speex (cras_fmt_conv_set_linear_resample_rates mono_capture 48000 24000) [1, 2, 3, 4] [0, 0, 0, 0] 2 2
     = Some (2, used, conv', out') \<and> drop 2 out' = [0, 0]"
proof -
  let ?c = "cras_fmt_conv_set_linear_resample_rates mono_capture 48000 24000"
  have c: "fc_num_converters ?c = 1" "fc_pre_linear_resample ?c" "linear_resampler_needed (fc_resampler ?c)" "pre_limit ?c 2 = 2"
    by (simp_all add: cras_fmt_conv_set_linear_resample_rates_def mono_capture_def linear_resampler_needed_def linear_resampler_set_rates_def f32_rates c_trunc_def wrap_u_def pre_limit_def Let_def)
  have pre: "convert_pre ?c [1, 2, 3, 4] [0, 0, 0, 0] 2 2"
    by (simp add: convert_pre_def mono_capture_def fmt_size_def all_formats src_fits_def cras_fmt_conv_set_linear_resample_rates_def)
  have sx: "speex_ok silent_speex (nat (num_channels (fc_out_fmt ?c)))" using examples_ok(2) by (simp add: mono_capture_def cras_fmt_conv_set_linear_resample_rates_def)
  obtain made used lr' out' where r: "linear_resampler_resample (fc_resampler ?c) [1, 2, 3, 4] 0 2 [0, 0, 0, 0] 0 2 = Some (made, used, lr', out')"
    "cras_fmt_conv_convert_frames pcm_width silent_speex ?c [1, 2, 3, 4] [0, 0, 0, 0] 2 2 = Some (2, used, ?c\<lparr>fc_resampler := lr'\<rparr>, out')"
    using capture_reports_unmade_frames [OF half_rate_reach examples_ok(1) sx pre c(1-3)] c(4) by auto
  have half: "f32 (24000 / 48000) = 1 / 2" using fround_exact [of 1 24 "- 1"] by (simp add: power_int_minus)
  have lr: "fc_resampler ?c = \<lparr>lr_num_channels = 1, lr_format_bytes = 2, lr_format_width = 2, lr_src_offset = 0, lr_dst_offset = 0,
     lr_to_times_100 = 2400000, lr_from_times_100 = 4800000, lr_f = 1 / 2\<rparr>"
    using half by (simp add: cras_fmt_conv_set_linear_resample_rates_def mono_capture_def linear_resampler_set_rates_def mono_lr_def f32_rates c_trunc_def wrap_u_def)
  have pos: "src_position (fc_resampler ?c) 0 = 0" "src_position (fc_resampler ?c) 1 = 2"
    using fround_int [of 2 53] by (simp_all add: lr src_position_def wrap_u_def)
  have "drop 2 out' = [0, 0]"
    using r(1) pos by (auto simp: linear_resampler_resample_def resample_loop.simps [of _ _ _ _ _ _ _ 0] resample_loop.simps [of _ _ _ _ _ _ _ "Suc 0"] lr resample_frame_def for_frames_def
        st_s16_def st_def store_at_def
      split: prod.splits option.splits)
  then show ?thesis using r(2) by blast
qed

end
