(* ===== verification/Dev_Stream.thy ===== *)
theory Dev_Stream
  imports Fmt_Conv_Safe Audio_Area
begin

text \<open>
  A stream on a device (\<open>cras/src/server/dev_stream.c\<close>): it takes the frames of a stream from shared memory, runs them
  through the format converter and mixes them into the buffer of the device, or the other way for capture, and it keeps the time of
  the next callback. The stream itself is shared between its devices: it is an argument of the operations, which return it.
  So is its \<open>audio_area\<close> for capture. What a device answers (\<open>struct cras_iodev\<close>) is a record, the clock an argument. The header of the
  shared area does not change during one operation. The result \<open>None\<close> is an access outside a buffer, a failed \<open>CRAS_CHECK\<close>, or a loop that does not end.
\<close>

unbundle bit_operations_syntax

section \<open>Model\<close>

record 's dev_stream =
  ds_dev_id :: int
  ds_iodev :: int
  ds_conv :: "'s cras_fmt_conv option"
  ds_conv_buffer :: byte_buffer
  ds_conv_area :: cras_audio_area
  ds_conv_buffer_size_frames :: int
  ds_dev_rate :: int
  ds_is_running :: int

text \<open>The device: its address, the type and the latency of its active node, the format after processing of an input
  stream (if there is processing), and the result and time of \<open>cras_iodev_get_htimestamp\<close>.\<close>

record iodev_info =
  io_ptr :: int
  io_node_type :: int
  io_latency_offset_ms :: int
  io_post_format :: "cras_audio_format option"
  io_htimestamp :: "int \<times> timespec"

definition coarse_rate_adjust_step :: int where "coarse_rate_adjust_step = 3"
definition capture_callback_fuzz_ts :: timespec where "capture_callback_fuzz_ts = \<lparr>tv_sec = 0, tv_nsec = 1000000\<rparr>"

subsection \<open>Creation\<close>

definition max_frames_for_conversion :: "int \<Rightarrow> int \<Rightarrow> int \<Rightarrow> int" where
  "max_frames_for_conversion stream_frames stream_rate device_rate =
     u32 (max stream_frames (cras_frames_at_rate stream_rate stream_frames device_rate) + 1)"

text \<open>The inner \<open>None\<close> is the null pointer, of a stream that is not created. The allocations succeed or fail together.\<close>

definition dev_stream_create ::
  "(int \<Rightarrow> int) \<Rightarrow> 's speex \<Rightarrow> bool \<Rightarrow> (nat \<Rightarrow> id_offset) \<Rightarrow> cras_rstream \<Rightarrow> int \<Rightarrow> cras_audio_format \<Rightarrow> iodev_info \<Rightarrow> timespec \<Rightarrow> timespec option \<Rightarrow>
   ('s dev_stream \<times> cras_rstream) option option" where
  "dev_stream_create width sx alloc junk stream dev_id dev_fmt iodev cb_ts sleep_interval_ts =
     (let stream_fmt = rs_format stream;
          max_frames = max_frames_for_conversion (u32 (rs_buffer_frames stream)) (u32 (frame_rate stream_fmt)) (u32 (frame_rate dev_fmt));
          config =
            (if rs_direction stream = CRAS_STREAM_OUTPUT
             then config_format_converter width sx alloc (rs_direction stream) stream_fmt dev_fmt (io_node_type iodev) (nat max_frames)
             else config_format_converter width sx alloc (rs_direction stream)
                    (case io_post_format iodev of None \<Rightarrow> dev_fmt | Some f \<Rightarrow> f) stream_fmt (io_node_type iodev) (nat max_frames))
      in case config of
           None \<Rightarrow> None
         | Some (_, None) \<Rightarrow> Some None
         | Some (rc, Some conv) \<Rightarrow>
             let ofmt = fc_out_fmt conv;
                 dev_frames = u32 (if rs_direction stream = CRAS_STREAM_OUTPUT then cras_fmt_conv_in_frames_to_out conv (rs_buffer_frames stream)
                               else cras_fmt_conv_out_frames_to_in conv (rs_buffer_frames stream));
                 size_frames = u32 (2 * max dev_frames (rs_buffer_frames stream));
                 buf_bytes = u32 (size_frames * cras_get_format_bytes width ofmt);
                 s = stream\<lparr>rs_sleep_interval_ts :=
                       (case sleep_interval_ts of Some t \<Rightarrow> t
                        | None \<Rightarrow> cras_frames_to_time (rs_cb_threshold stream) (frame_rate stream_fmt)),
                       rs_next_cb_ts := cb_ts\<rparr>
             in case (byte_buffer_create alloc buf_bytes, cras_rstream_dev_attach junk s dev_id (io_ptr iodev)) of
                  (Some buf, Some s') \<Rightarrow>
                    Some (Some (\<lparr>ds_dev_id = dev_id, ds_iodev = io_ptr iodev, ds_conv = Some conv, ds_conv_buffer = buf,
                                ds_conv_area = cras_audio_area_create (nat (num_channels ofmt)), ds_conv_buffer_size_frames = size_frames,
                                ds_dev_rate = frame_rate dev_fmt, ds_is_running = 0\<rparr>, s'))
                | _ \<Rightarrow> None)"

definition dev_stream_destroy :: "'s dev_stream \<Rightarrow> cras_rstream \<Rightarrow> cras_rstream" where
  "dev_stream_destroy ds stream = cras_rstream_dev_detach stream (ds_dev_id ds)"

text \<open>\<open>cras_frames_to_time_precise\<close> of \<open>cras_util.h\<close>.\<close>

definition cras_frames_to_time_precise :: "int \<Rightarrow> real \<Rightarrow> timespec" where
  "cras_frames_to_time_precise frames rate =
     (let seconds = f64 (of_int frames / rate); sec = u32 (c_trunc seconds);
          seconds = f64 (seconds - of_int sec)
      in \<lparr>tv_sec = sec, tv_nsec = u32 (c_trunc (f64 (seconds * 1000000000)))\<rparr>)"

definition dev_stream_set_dev_rate :: "'s dev_stream \<Rightarrow> cras_rstream \<Rightarrow> int \<Rightarrow> real \<Rightarrow> real \<Rightarrow> int \<Rightarrow> 's dev_stream \<times> cras_rstream" where
  "dev_stream_set_dev_rate ds stream dev_rate dev_rate_ratio main_rate_ratio coarse_rate_adjust =
     (if ds_dev_id ds = u32 (md_dev_id (rs_main_dev stream)) then
        (ds\<lparr>ds_conv := map_option (\<lambda>c. cras_fmt_conv_set_linear_resample_rates c (f32 (of_int dev_rate)) (f32 (of_int dev_rate))) (ds_conv ds)\<rparr>,
         stream\<lparr>rs_sleep_interval_ts := cras_frames_to_time_precise (u32 (rs_cb_threshold stream)) (f64 (of_int (frame_rate (rs_format stream)) * dev_rate_ratio))\<rparr>)
      else
        let new_rate = f64 (f64 (f64 (of_int dev_rate * dev_rate_ratio) / main_rate_ratio) + of_int (s32 (coarse_rate_adjust_step * coarse_rate_adjust)))
        in (ds\<lparr>ds_conv := map_option (\<lambda>c. cras_fmt_conv_set_linear_resample_rates c (f32 (of_int dev_rate)) (f32 new_rate)) (ds_conv ds)\<rparr>, stream))"

subsection \<open>Playback\<close>

definition dev_stream_attached_devs :: "cras_rstream \<Rightarrow> int" where
  "dev_stream_attached_devs stream = rs_num_attached_devs stream"

definition dev_stream_update_frames :: "cras_rstream \<Rightarrow> cras_rstream" where
  "dev_stream_update_frames stream = cras_rstream_update_queued_frames stream"

definition dev_stream_playback_frames :: "'s dev_stream \<Rightarrow> cras_rstream \<Rightarrow> int" where
  "dev_stream_playback_frames ds stream =
     (let frames = s32 (cras_rstream_playable_frames stream (ds_dev_id ds)) in
      if frames < 0 then frames
      else case ds_conv ds of None \<Rightarrow> frames | Some conv \<Rightarrow> s32 (cras_fmt_conv_in_frames_to_out conv frames))"

definition dev_stream_cb_threshold :: "'s dev_stream \<Rightarrow> cras_rstream \<Rightarrow> int option" where
  "dev_stream_cb_threshold ds stream =
     map_option (\<lambda>conv. let cb_threshold = u32 (rs_cb_threshold stream) in
        u32 (if rs_direction stream = CRAS_STREAM_OUTPUT then cras_fmt_conv_in_frames_to_out conv cb_threshold
             else cras_fmt_conv_out_frames_to_in conv cb_threshold)) (ds_conv ds)"

text \<open>The local variables of the loop of \<open>dev_stream_mix\<close>; \<open>target\<close> is a position in the buffer of the device. A call of \<open>cras_mix_add\<close> accesses
  the samples of both sides.\<close>

record 's mix_state =
  ms_conv :: "'s cras_fmt_conv"
  ms_bytes :: bytes
  ms_dst :: bytes
  ms_target :: nat
  ms_written :: int
  ms_read :: int
  ms_playable :: int

definition mix_samples :: "cras_audio_format \<Rightarrow> bytes \<Rightarrow> nat \<Rightarrow> bytes \<Rightarrow> nat \<Rightarrow> nat \<Rightarrow> bool \<Rightarrow> real \<Rightarrow> bytes option" where
  "mix_samples fmt dst dp src sp count muted vol =
     (if dp + sample_size (format fmt) * count \<le> length dst \<and> sp + sample_size (format fmt) * count \<le> length src
      then Some (cras_mix_add (format fmt) dst dp src sp count 1 muted vol) else None)"

text \<open>What one iteration mixes: the frames for the device, the frames taken from the stream, the converter and its buffer, and where the samples are.\<close>

definition mix_source ::
  "(int \<Rightarrow> int) \<Rightarrow> 's speex \<Rightarrow> cras_rstream \<Rightarrow> 's cras_fmt_conv \<Rightarrow> bytes \<Rightarrow> nat \<Rightarrow> nat \<Rightarrow> nat \<Rightarrow> (nat \<times> nat \<times> 's cras_fmt_conv \<times> bytes \<times> bytes \<times> nat) option" where
  "mix_source width sx stream conv bytes p frames room =
     (if cras_fmt_conversion_needed conv
      then map_option (\<lambda>(dev_frames, read_frames, conv, out). (dev_frames, read_frames, conv, out, out, 0))
             (cras_fmt_conv_convert_frames width sx conv (drop p (samples (rs_shm stream))) bytes frames room)
      else Some (min frames room, min frames room, conv, bytes, samples (rs_shm stream), p))"

text \<open>One iteration; the inner \<open>None\<close> is the \<open>break\<close>.\<close>

definition mix_step ::
  "(int \<Rightarrow> int) \<Rightarrow> 's speex \<Rightarrow> cras_rstream \<Rightarrow> cras_audio_format \<Rightarrow> int \<Rightarrow> int \<Rightarrow> 's mix_state \<Rightarrow> 's mix_state option option" where
  "mix_step width sx stream fmt offset num_to_write s =
     (let shm = rs_shm stream;
          (src, frames) = cras_shm_get_readable_frames shm (u32 (offset + ms_read s));
          frames = min frames (ms_playable s)
      in if frames = 0 then Some None
         else case src of
           None \<Rightarrow> None
         | Some p \<Rightarrow>
             (case mix_source width sx stream (ms_conv s) (ms_bytes s) (nat p) (nat frames) (nat (u32 (num_to_write - ms_written s))) of
                None \<Rightarrow> None
              | Some (dev_frames, read_frames, conv, bytes, from, sp) \<Rightarrow>
                  map_option (\<lambda>dst. Some \<lparr>ms_conv = conv, ms_bytes = bytes, ms_dst = dst,
                      ms_target = ms_target s + dev_frames * nat (cras_get_format_bytes width fmt), ms_written = u32 (ms_written s + int dev_frames),
                      ms_read = u32 (ms_read s + int read_frames), ms_playable = u32 (ms_playable s - int read_frames)\<rparr>)
                    (mix_samples fmt (ms_dst s) (ms_target s) from sp (dev_frames * nat (num_channels fmt))
                       (cras_shm_get_mute shm \<noteq> 0) (cras_shm_get_volume_scaler shm))))"

partial_function (option) mix_frames ::
  "(int \<Rightarrow> int) \<Rightarrow> 's speex \<Rightarrow> cras_rstream \<Rightarrow> cras_audio_format \<Rightarrow> int \<Rightarrow> int \<Rightarrow> 's mix_state \<Rightarrow> 's mix_state option" where
  "mix_frames width sx stream fmt offset num_to_write s =
     (if ms_written s < num_to_write then
        (case mix_step width sx stream fmt offset num_to_write s of
           None \<Rightarrow> None
         | Some None \<Rightarrow> Some s
         | Some (Some s') \<Rightarrow> mix_frames width sx stream fmt offset num_to_write s')
      else Some s)"

text \<open>The result, the pair of stream and device, the stream and the device's buffer.\<close>

definition dev_stream_mix ::
  "(int \<Rightarrow> int) \<Rightarrow> 's speex \<Rightarrow> 's dev_stream \<Rightarrow> cras_rstream \<Rightarrow> cras_audio_format \<Rightarrow> bytes \<Rightarrow> int \<Rightarrow> (int \<times> 's dev_stream \<times> cras_rstream \<times> bytes) option" where
  "dev_stream_mix width sx ds stream fmt dst num_to_write =
     (let fr_in_buf = dev_stream_playback_frames ds stream in
      if fr_in_buf \<le> 0 then Some (fr_in_buf, ds, stream, dst)
      else case ds_conv ds of
        None \<Rightarrow> None
      | Some conv \<Rightarrow>
          let n = (if fr_in_buf < num_to_write then fr_in_buf else num_to_write);
              init = \<lparr>ms_conv = conv, ms_bytes = bb_bytes (ds_conv_buffer ds), ms_dst = dst, ms_target = 0, ms_written = 0, ms_read = 0,
                ms_playable = cras_rstream_playable_frames stream (ds_dev_id ds)\<rparr>
          in map_option (\<lambda>s. (s32 (ms_written s), ds\<lparr>ds_conv := Some (ms_conv s), ds_conv_buffer := (ds_conv_buffer ds)\<lparr>bb_bytes := ms_bytes s\<rparr>\<rparr>,
                 cras_rstream_dev_offset_update stream (ms_read s) (ds_dev_id ds), ms_dst s))
               (mix_frames width sx stream fmt (cras_rstream_dev_offset stream (ds_dev_id ds)) n init))"

subsection \<open>Capture\<close>

definition dev_stream_capture_avail :: "(int \<Rightarrow> int) \<Rightarrow> 's dev_stream \<Rightarrow> cras_rstream \<Rightarrow> int" where
  "dev_stream_capture_avail width ds stream =
     (let wlimit = u32 (u32 (cras_rstream_get_max_write_frames stream) - cras_rstream_dev_offset stream (ds_dev_id ds));
          frames_avail = snd (cras_shm_get_writeable_frames (rs_shm stream) wlimit)
      in case ds_conv ds of
           None \<Rightarrow> frames_avail
         | Some conv \<Rightarrow>
             let format_bytes = u32 (cras_get_format_bytes width (fc_out_fmt conv));
                 conv_buf_level = buf_queued (ds_conv_buffer ds) div format_bytes
             in if frames_avail \<le> conv_buf_level then 0
                else u32 (cras_fmt_conv_out_frames_to_in conv
                       (min (frames_avail - conv_buf_level) (buf_available (ds_conv_buffer ds) div format_bytes))))"

text \<open>The loop of \<open>capture_with_fmt_conv\<close>: the converter, the ring, \<open>total_read\<close> and the position in the samples of the device.
  A conversion gets the part of the ring that may be written.\<close>

partial_function (option) capture_convert ::
  "(int \<Rightarrow> int) \<Rightarrow> 's speex \<Rightarrow> bytes \<Rightarrow> int \<Rightarrow> int \<Rightarrow> int \<Rightarrow> 's cras_fmt_conv \<times> byte_buffer \<times> int \<times> nat \<Rightarrow> ('s cras_fmt_conv \<times> byte_buffer \<times> int \<times> nat) option" where
  "capture_convert width sx source_samples num_frames source_frame_bytes dst_frame_bytes s =
     (case s of (conv, buf, total_read, pos) \<Rightarrow>
      if total_read < num_frames then
        let (p, size) = buf_write_pointer_size buf;
            write_frames = size div dst_frame_bytes
        in if write_frames = 0 then Some s
           else
             (case cras_fmt_conv_convert_frames width sx conv (drop pos source_samples) (take (nat size) (drop (nat p) (bb_bytes buf)))
                     (nat (u32 (num_frames - total_read))) (nat write_frames) of
                None \<Rightarrow> None
              | Some (write_frames, read_frames, conv', out) \<Rightarrow>
                  capture_convert width sx source_samples num_frames source_frame_bytes dst_frame_bytes
                    (conv', buf_increment_write (buf\<lparr>bb_bytes := store_at (bb_bytes buf) (nat p) out\<rparr>) (int write_frames * dst_frame_bytes),
                     u32 (total_read + int read_frames), pos + read_frames * nat source_frame_bytes))
      else Some s)"

definition capture_with_fmt_conv ::
  "(int \<Rightarrow> int) \<Rightarrow> 's speex \<Rightarrow> 's dev_stream \<Rightarrow> bytes \<Rightarrow> nat \<Rightarrow> int \<Rightarrow> (int \<times> 's dev_stream) option" where
  "capture_with_fmt_conv width sx ds source_samples pos num_frames =
     (case ds_conv ds of
        None \<Rightarrow> None
      | Some conv \<Rightarrow>
          let source_frame_bytes = u32 (cras_get_format_bytes width (fc_in_fmt conv));
              dst_frame_bytes = u32 (cras_get_format_bytes width (fc_out_fmt conv));
              ds = ds\<lparr>ds_conv_area := (ds_conv_area ds)\<lparr>aa_num_channels := nat (num_channels (fc_out_fmt conv))\<rparr>\<rparr>
          in map_option (\<lambda>(conv, buf, total_read, _). (total_read, ds\<lparr>ds_conv := Some conv, ds_conv_buffer := buf\<rparr>))
               (capture_convert width sx source_samples num_frames source_frame_bytes dst_frame_bytes (conv, ds_conv_buffer ds, 0, pos)))"

text \<open>The loop of \<open>capture_copy_converted_to_stream\<close>: one iteration, with the ring, the areas, the stream, its offset and \<open>total_written\<close>.\<close>

record copy_state =
  cs_buf :: byte_buffer
  cs_conv_area :: cras_audio_area
  cs_area :: cras_audio_area
  cs_stream :: cras_rstream
  cs_offset :: int
  cs_total :: int

definition copy_step ::
  "(int \<Rightarrow> int) \<Rightarrow> cras_audio_format \<Rightarrow> int \<Rightarrow> nat \<Rightarrow> int \<Rightarrow> int \<Rightarrow> real \<Rightarrow> copy_state \<Rightarrow> copy_state" where
  "copy_step width fmt fb stream_samples dev_id num_frames gain s =
     (let (p, size) = buf_read_pointer_size (cs_buf s);
          write_frames = min (size div fb) (u32 (num_frames - cs_total s));
          conv_area = (cras_audio_area_config_channels (cras_audio_area_config_buf_pointers width (cs_conv_area s) fmt (nat p)) fmt)\<lparr>aa_frames := nat write_frames\<rparr>;
          area = cras_audio_area_config_buf_pointers width (cs_area s) (rs_format (cs_stream s)) stream_samples;
          (_, mem) = cras_audio_area_copy (samples (rs_shm (cs_stream s))) area (nat (cs_offset s)) (rs_format (cs_stream s)) (bb_bytes (cs_buf s)) conv_area 0 gain;
          stream = cras_rstream_dev_offset_update ((cs_stream s)\<lparr>rs_shm := (rs_shm (cs_stream s))\<lparr>samples := mem\<rparr>\<rparr>) write_frames dev_id
      in \<lparr>cs_buf = buf_increment_read (cs_buf s) (write_frames * fb), cs_conv_area = conv_area, cs_area = area, cs_stream = stream,
          cs_offset = cras_rstream_dev_offset stream dev_id, cs_total = u32 (cs_total s + write_frames)\<rparr>)"

partial_function (option) copy_frames ::
  "(int \<Rightarrow> int) \<Rightarrow> cras_audio_format \<Rightarrow> int \<Rightarrow> nat \<Rightarrow> int \<Rightarrow> int \<Rightarrow> real \<Rightarrow> copy_state \<Rightarrow> copy_state option" where
  "copy_frames width fmt fb stream_samples dev_id num_frames gain s =
     (if cs_total s < num_frames
      then copy_frames width fmt fb stream_samples dev_id num_frames gain (copy_step width fmt fb stream_samples dev_id num_frames gain s)
      else Some s)"

definition capture_copy_converted_to_stream ::
  "(int \<Rightarrow> int) \<Rightarrow> 's dev_stream \<Rightarrow> cras_rstream \<Rightarrow> cras_audio_area \<Rightarrow> real \<Rightarrow> (int \<times> 's dev_stream \<times> cras_rstream \<times> cras_audio_area) option" where
  "capture_copy_converted_to_stream width ds stream area gain =
     (case ds_conv ds of
        None \<Rightarrow> None
      | Some conv \<Rightarrow>
          let fmt = fc_out_fmt conv;
              fb = u32 (cras_get_format_bytes width fmt);
              offset = cras_rstream_dev_offset stream (ds_dev_id ds);
              (stream_samples, frames) = cras_shm_get_writeable_frames (rs_shm stream) (u32 (rs_cb_threshold stream));
              num_frames = min (u32 (frames - offset)) (buf_queued (ds_conv_buffer ds) div fb)
          in map_option (\<lambda>s. (cs_total s, ds\<lparr>ds_conv_buffer := cs_buf s, ds_conv_area := cs_conv_area s\<rparr>, cs_stream s, cs_area s))
               (copy_frames width fmt fb (nat stream_samples) (ds_dev_id ds) num_frames gain
                  \<lparr>cs_buf = ds_conv_buffer ds, cs_conv_area = ds_conv_area ds, cs_area = area\<lparr>aa_frames := nat frames\<rparr>, cs_stream = stream,
                   cs_offset = offset, cs_total = 0\<rparr>))"

text \<open>\<open>dev_mem\<close> is the memory of the device, in which its area lies.\<close>

definition dev_stream_capture ::
  "(int \<Rightarrow> int) \<Rightarrow> 's speex \<Rightarrow> 's dev_stream \<Rightarrow> cras_rstream \<Rightarrow> cras_audio_area \<Rightarrow> bytes \<Rightarrow> cras_audio_area \<Rightarrow> int \<Rightarrow> real \<Rightarrow>
   (int \<times> 's dev_stream \<times> cras_rstream \<times> cras_audio_area) option" where
  "dev_stream_capture width sx ds stream stream_area dev_mem area area_offset gain =
     (case ds_conv ds of
        None \<Rightarrow> None
      | Some conv \<Rightarrow>
          if cras_fmt_conversion_needed conv then
            let fr_to_capture = min (dev_stream_capture_avail width ds stream) (u32 (int (aa_frames area) - area_offset));
                format_bytes = u32 (cras_get_format_bytes width (fc_in_fmt conv))
            in (case capture_with_fmt_conv width sx ds dev_mem (ca_buf (aa_channels area ! 0) + nat (area_offset * format_bytes)) fr_to_capture of
                  None \<Rightarrow> None
                | Some (nread, ds) \<Rightarrow>
                    map_option (\<lambda>(_, ds, stream, stream_area). (nread, ds, stream, stream_area))
                      (capture_copy_converted_to_stream width ds stream stream_area gain))
          else
            let offset = cras_rstream_dev_offset stream (ds_dev_id ds);
                (p, frames) = cras_shm_get_writeable_frames (rs_shm stream) (u32 (rs_cb_threshold stream));
                stream_area = cras_audio_area_config_buf_pointers width (stream_area\<lparr>aa_frames := nat frames\<rparr>) (rs_format stream) (nat p);
                (nread, mem) = cras_audio_area_copy (samples (rs_shm stream)) stream_area (nat offset) (rs_format stream) dev_mem area (nat area_offset) gain
            in Some (int nread, ds, cras_rstream_dev_offset_update (stream\<lparr>rs_shm := (rs_shm stream)\<lparr>samples := mem\<rparr>\<rparr>) (int nread) (ds_dev_id ds), stream_area))"

subsection \<open>Wake times\<close>

definition check_next_wake_time :: "timespec \<Rightarrow> cras_rstream \<Rightarrow> cras_rstream" where
  "check_next_wake_time now s =
     (if timespec_after now (rs_next_cb_ts s)
      then s\<lparr>rs_next_cb_ts := add_timespecs now (rs_sleep_interval_ts s), rs_num_missed_cb := s32 (rs_num_missed_cb s + 1)\<rparr>
      else s)"

definition dev_stream_update_next_wake_time :: "timespec \<Rightarrow> cras_rstream \<Rightarrow> cras_rstream" where
  "dev_stream_update_next_wake_time now s =
     (if rs_direction s = CRAS_STREAM_INPUT \<and> \<not> timespec_is_nonzero (Some (rs_next_cb_ts s))
      then s\<lparr>rs_next_cb_ts := add_timespecs now (rs_sleep_interval_ts s)\<rparr>
      else check_next_wake_time now (s\<lparr>rs_next_cb_ts := add_timespecs (rs_next_cb_ts s) (rs_sleep_interval_ts s)\<rparr>))"

definition dev_stream_playback_update_rstream :: "cras_rstream \<Rightarrow> int \<times> cras_rstream" where
  "dev_stream_playback_update_rstream s = (0, cras_rstream_update_output_read_pointer s)"

definition late_enough_for_capture_callback :: "timespec \<Rightarrow> cras_rstream \<Rightarrow> bool" where
  "late_enough_for_capture_callback now s \<longleftrightarrow> timespec_after (add_timespecs now capture_callback_fuzz_ts) (rs_next_cb_ts s)"

text \<open>\<open>now1\<close> and \<open>now2\<close> are the readings of the clock, \<open>wr\<close> the result of \<open>write\<close>.\<close>

definition dev_stream_capture_update_rstream ::
  "timespec \<Rightarrow> timespec \<Rightarrow> int \<Rightarrow> cras_rstream \<Rightarrow> cras_rstream option \<Rightarrow> int \<times> audio_message option \<times> cras_rstream \<times> cras_rstream option" where
  "dev_stream_capture_update_rstream now1 now2 wr s pair =
     (if rs_flags s AND TRIGGER_ONLY \<noteq> 0 \<and> rs_triggered s \<noteq> 0 then (0, None, s, pair)
      else
        let s = cras_rstream_update_input_write_pointer s;
            bulk = rs_flags s AND BULK_AUDIO_OK \<noteq> 0
        in if \<not> bulk \<and> \<not> late_enough_for_capture_callback now1 s then (0, None, s, pair)
           else if \<not> cras_rstream_input_level_met s then (0, None, s, pair)
           else
             let frames_ready = (if bulk then cras_rstream_level s else rs_cb_threshold s);
                 (rc, msg, s, pair) = cras_rstream_audio_ready wr s pair frames_ready
             in if rc < 0 then (rc, msg, s, pair)
                else
                  let s = (if rs_flags s AND TRIGGER_ONLY \<noteq> 0 then s\<lparr>rs_triggered := 1\<rparr> else s)
                  in (0, msg, dev_stream_update_next_wake_time now2 s, pair))"

definition cras_set_playback_timestamp :: "timespec \<Rightarrow> int \<Rightarrow> int \<Rightarrow> int \<Rightarrow> timespec" where
  "cras_set_playback_timestamp now rate frames offset_ms =
     add_timespecs (add_timespecs now (cras_frames_to_time (u32 frames) (u32 rate))) (ms_to_timespec offset_ms)"

definition cras_set_capture_timestamp :: "int \<Rightarrow> int \<Rightarrow> int \<Rightarrow> timespec \<Rightarrow> timespec" where
  "cras_set_capture_timestamp rate frames offset_ms now_ts =
     subtract_timespecs (subtract_timespecs now_ts (cras_frames_to_time (u32 frames) (u32 rate))) (ms_to_timespec offset_ms)"

definition dev_stream_set_delay :: "timespec \<Rightarrow> iodev_info \<Rightarrow> 's dev_stream \<Rightarrow> cras_rstream \<Rightarrow> int \<Rightarrow> (int \<times> cras_rstream) option" where
  "dev_stream_set_delay now iodev ds s delay_frames =
     (let (rc, now_ts) = io_htimestamp iodev; shm = rs_shm s; rate = frame_rate (rs_format s) in
      if rc < 0 then Some (rc, s)
      else case ds_conv ds of
        None \<Rightarrow> None
      | Some conv \<Rightarrow>
          if rs_direction s = CRAS_STREAM_OUTPUT then
            let stream_frames = u32 (cras_fmt_conv_out_frames_to_in conv delay_frames);
                ts = cras_set_playback_timestamp now rate (u32 (stream_frames + cras_shm_get_frames shm)) (io_latency_offset_ms iodev)
            in Some (0, s\<lparr>rs_shm := upd_header (\<lambda>h. h\<lparr>hdr_ts := ts\<rparr>) shm\<rparr>)
          else
            let stream_frames = u32 (cras_fmt_conv_in_frames_to_out conv delay_frames)
            in Some (0, if cras_shm_frames_written shm = 0
                        then s\<lparr>rs_shm := upd_header (\<lambda>h. h\<lparr>hdr_ts := cras_set_capture_timestamp rate stream_frames (io_latency_offset_ms iodev) now_ts\<rparr>) shm\<rparr>
                        else s))"

definition dev_stream_request_playback_samples :: "timespec \<Rightarrow> int \<Rightarrow> cras_rstream \<Rightarrow> timespec \<Rightarrow> int \<times> audio_message option \<times> cras_rstream" where
  "dev_stream_request_playback_samples clock wr s now =
     (let (rc, msg, s) = cras_rstream_request_audio wr s now in
      if rc < 0 then (rc, msg, s) else (0, msg, dev_stream_update_next_wake_time clock s))"

definition dev_stream_poll_stream_fd :: "cras_rstream \<Rightarrow> int" where
  "dev_stream_poll_stream_fd s =
     (if stream_uses_input s \<and> rs_flags s AND USE_DEV_TIMING \<noteq> 0 \<and> cras_rstream_is_pending_reply s \<noteq> 0 then rs_fd s
      else if \<not> stream_uses_output s \<or> cras_rstream_is_pending_reply s = 0 \<or> rs_is_draining s \<noteq> 0 then - EINVAL
      else rs_fd s)"

text \<open>The result and \<open>*wake_time_out\<close>, which is not set when there is nothing to wait for.\<close>

definition get_input_wake_time ::
  "(int \<Rightarrow> int) \<Rightarrow> 's dev_stream \<Rightarrow> cras_rstream \<Rightarrow> int \<Rightarrow> timespec \<Rightarrow> int \<Rightarrow> bool \<Rightarrow> int \<times> timespec option" where
  "get_input_wake_time width ds s curr_level level_tstamp cap_limit is_cap_limit_stream =
     (let needed = s32 (dev_stream_capture_avail width ds s) in
      if \<not> is_cap_limit_stream \<and> u32 needed > cap_limit then (1, None)
      else if rs_flags s AND USE_DEV_TIMING \<noteq> 0 \<and> cras_rstream_is_pending_reply s \<noteq> 0 then (1, None)
      else
        let needed = (if curr_level \<ge> u32 needed then 0 else s32 (u32 needed - curr_level));
            time_for_sample = add_timespecs (cras_frames_to_time (u32 needed) (u32 (ds_dev_rate ds))) level_tstamp;
            wake = (if timespec_after time_for_sample (rs_next_cb_ts s) then time_for_sample else rs_next_cb_ts s)
        in (0, Some (if rs_flags s AND USE_DEV_TIMING \<noteq> 0 then time_for_sample else wake)))"

definition dev_stream_wake_time ::
  "(int \<Rightarrow> int) \<Rightarrow> 's dev_stream \<Rightarrow> cras_rstream \<Rightarrow> int \<Rightarrow> timespec \<Rightarrow> int \<Rightarrow> bool \<Rightarrow> int \<times> timespec option" where
  "dev_stream_wake_time width ds s curr_level level_tstamp cap_limit is_cap_limit_stream =
     (if rs_direction s = CRAS_STREAM_OUTPUT then (- EINVAL, None)
      else get_input_wake_time width ds s curr_level level_tstamp cap_limit is_cap_limit_stream)"

definition dev_stream_is_pending_reply :: "cras_rstream \<Rightarrow> int" where
  "dev_stream_is_pending_reply s = cras_rstream_is_pending_reply s"

definition dev_stream_flush_old_audio_messages :: "(int \<times> (int \<times> audio_message) option) list \<Rightarrow> cras_rstream \<Rightarrow> int \<times> cras_rstream" where
  "dev_stream_flush_old_audio_messages polls s = cras_rstream_flush_old_audio_messages polls s"

end
