(* ===== verification/Dev_Stream_Safe.thy ===== *)
theory Dev_Stream_Safe
  imports Dev_Stream
begin

text \<open>
  A stream on a device, together with everything below it: the shared area that a client may write at any time, the format
  converter and the mixer. For playback, a stream that the server has created and attached is mixed within all buffers, and the loop ends, for every header
  (\<open>playback_stream_attached\<close>, \<open>playback_mix_safe\<close>). For capture the sizes are not enough once the resampler is slowed down
  (\<open>capture_check_aborts\<close>). The schedule of the callbacks is exact (\<open>next_wake_time_exact\<close>).
\<close>

section \<open>Sizes\<close>

lemma frames_at_rate_mono:
  assumes "0 < r" "0 \<le> a" "a \<le> b" "0 \<le> r'" "b * r' + r < 2 ^ 64"
  shows "cras_frames_at_rate r a r' \<le> cras_frames_at_rate r b r'"
proof -
  have "a * r' \<le> b * r'" "0 \<le> a * r'" using assms by (auto intro: mult_right_mono)
  moreover have "u64 (a * r' + r - 1) = a * r' + r - 1" "u64 (b * r' + r - 1) = b * r' + r - 1" "u64 (a * r') = a * r'" "u64 (b * r') = b * r'"
    using calculation assms by (auto intro!: wrap_u_id add_nonneg_pos)
  ultimately show ?thesis using assms unfolding cras_frames_at_rate_def by (intro zdiv_mono1) simp_all
qed

lemma readable_count:
  assumes "shm_config_ok shm" "header_typed (header shm)" "cras_shm_get_readable_frames shm offset = (p, frames)"
  shows "0 \<le> frames" "frames * frame_bytes (config shm) \<le> used_size (config shm)" "p = None \<Longrightarrow> frames = 0"
proof -
  let ?fb = "frame_bytes (config shm)"
  have fb: "0 < ?fb" using assms(1) by (simp add: shm_config_ok_def)
  have "0 \<le> frames \<and> frames * ?fb \<le> used_size (config shm) \<and> (p = None \<longrightarrow> frames = 0)"
  proof (cases p)
    case None
    then show ?thesis using assms(1,3) by (auto simp: cras_shm_get_readable_frames_def Let_def shm_config_ok_def split: if_splits)
  next
    case (Some q)
    then obtain i fo where fr: "frames = (cras_shm_get_checked_write_offset shm (buf_mask i) - fo) div ?fb"
      and fo: "0 \<le> fo" "fo < cras_shm_get_checked_write_offset shm (buf_mask i)"
      using assms(3) by (auto simp: cras_shm_get_readable_frames_def Let_def split: if_splits)
    have "frames * ?fb \<le> cras_shm_get_checked_write_offset shm (buf_mask i) - fo" unfolding fr by (rule floor_mult_le [OF fb])
    moreover have "cras_shm_get_checked_write_offset shm (buf_mask i) \<le> used_size (config shm)"
      using checked_write_offset_bounds [OF assms(1,2) buf_mask_bounds, of i] by auto
    moreover have "0 \<le> frames" using fo fb by (simp add: fr pos_imp_zdiv_nonneg_iff)
    ultimately show ?thesis using fo Some by auto
  qed
  then show "0 \<le> frames" "frames * ?fb \<le> used_size (config shm)" "p = None \<Longrightarrow> frames = 0" by auto
qed

lemma mix_add_frame:
  assumes "mix_format fmt" "dp + sample_size fmt * count \<le> length dst"
  shows "length (cras_mix_add fmt dst dp src sp count 1 muted vol) = length dst"
    and "drop (dp + sample_size fmt * count) (cras_mix_add fmt dst dp src sp count 1 muted vol) = drop (dp + sample_size fmt * count) dst"
proof -
  let ?res = "cras_mix_add fmt dst dp src sp count 1 muted vol"
  have *: "length ?res = length dst \<and> (\<forall>j<length dst. \<not> in_sample (sample_size fmt) dp (sample_size fmt) count j \<longrightarrow> ?res ! j = dst ! j)"
  proof (cases "muted \<or> vol < MIN_VOLUME_TO_SCALE")
    case True
    then have "?res = dst" using assms(1) by (auto simp: mix_format_def cras_mix_add_def cras_mix_add_s16_le_def cras_mix_add_s24_le_def cras_mix_add_s32_le_def cras_mix_add_s24_3le_def)
    then show ?thesis by simp
  next
    case False
    then show ?thesis
      using mix_add_loop [OF assms(1) _ _ _ samples_fit_packed [OF assms(2)], of 1 muted vol count src sp] by auto
  qed
  then show "length ?res = length dst" by simp
  have "\<not> in_sample (sample_size fmt) dp (sample_size fmt) count j" if "dp + sample_size fmt * count \<le> j" for j
    using that sample_bound [of _ count dp "sample_size fmt"] by (fastforce simp: in_sample_def)
  then show "drop (dp + sample_size fmt * count) ?res = drop (dp + sample_size fmt * count) dst"
    using * by (intro nth_equalityI) auto
qed

lemma sample_size_fmt: "mix_format f \<Longrightarrow> sample_size f = fmt_size f"
  by (auto simp: mix_format_def sample_size_def fmt_size_def all_formats)

section \<open>What a conversion keeps\<close>

text \<open>Documented behaviour of speex: with input and room it makes progress.\<close>

definition speex_progress :: "'s speex \<Rightarrow> bool" where
  "speex_progress sx \<longleftrightarrow> (\<forall>s samples fr_in fr_out used made out s'. sx_process sx s samples fr_in fr_out = (used, made, out, s') \<longrightarrow>
     0 < fr_in \<longrightarrow> 0 < fr_out \<longrightarrow> 0 < used \<or> 0 < made)"

definition steady :: "'s cras_fmt_conv \<Rightarrow> bool" where
  "steady conv \<longleftrightarrow> fc_speex_state conv = None \<or> \<not> linear_resampler_needed (fc_resampler conv)"

lemma linear_stage_keeps:
  assumes "linear_stage lr frames room src dst = Some (dst', n, used, lr')"
  shows "linear_resampler_needed lr' = linear_resampler_needed lr"
  using assms by (auto simp: linear_stage_def linear_resampler_resample_def linear_resampler_needed_def Let_def split: if_splits option.splits prod.splits)

lemma opt_stage_off: "opt_stage False f r bufs idx = Some (bufs, idx, r)"
  by (simp add: opt_stage_def)

lemma opt_stage_some:
  assumes "opt_stage on f r0 bufs idx = Some (bufs', idx', r)"
  obtains "\<not> on" "r = r0" "idx' = idx" "bufs' = bufs" | src dst dst' where on "f src dst = Some (dst', r)"
  using assms that by (cases on) (auto simp: opt_stage_def run_stage_def split: if_splits option.splits)

text \<open>The stages of a conversion that decide on its counts.\<close>

lemma bind_stages:
  assumes "do { (b1, i1, u) \<leftarrow> S1; (b2, i2, fr1, lu, lr1) \<leftarrow> S2 b1 i1; (b3, i3, u) \<leftarrow> S3 fr1 b2 i2; (b4, i4, fo, fr2, sp) \<leftarrow> S4 fr1 b3 i3;
      (b5, i5, n, x, lr) \<leftarrow> S5 lr1 fo b4 i4; (b6, i6, u) \<leftarrow> S6 n b5 i5; G n fr2 lu lr sp b6 } = Some R"
  shows "\<exists>b1 i1 b2 i2 fr1 lu lr1 b3 i3 b4 i4 fo fr2 sp b5 i5 n x lr b6. S2 b1 i1 = Some (b2, i2, fr1, lu, lr1) \<and> S4 fr1 b3 i3 = Some (b4, i4, fo, fr2, sp) \<and>
    S5 lr1 fo b4 i4 = Some (b5, i5, n, x, lr) \<and> G n fr2 lu lr sp b6 = Some R"
  using assms by (clarsimp simp: bind_some) blast

lemma convert_stages:
  assumes "cras_fmt_conv_convert_frames width sx conv in_buf out_buf fr out_frames = Some (n, used, conv', out')"
  defines "pre \<equiv> linear_resampler_needed (fc_resampler conv) \<and> fc_pre_linear_resample conv"
    and "post \<equiv> linear_resampler_needed (fc_resampler conv) \<and> \<not> fc_pre_linear_resample conv"
    and "speex \<equiv> fc_speex_state conv \<noteq> None"
    and "fr_in \<equiv> if fc_speex_state conv \<noteq> None then fr else min fr out_frames"
  obtains b1 i1 b2 i2 fr1 lu lr1 b3 i3 b4 i4 fo fr2 sp b5 i5 x lr tmp where
    "opt_stage pre (linear_stage (fc_resampler conv) fr_in (pre_limit conv out_frames)) (fr_in, 0, fc_resampler conv) b1 i1 = Some (b2, i2, fr1, lu, lr1)"
    "opt_stage speex (\<lambda>src dst. map_option (\<lambda>(d, made, used, state). (d, made, used, Some state))
       (speex_stage sx (nat (num_channels (fc_out_fmt conv))) (the (fc_speex_state conv)) fr1 (src_limit conv post fr1 out_frames) src dst))
       (fr_in, fr1, None) b3 i3 = Some (b4, i4, fo, fr2, sp)"
    "opt_stage post (linear_stage lr1 fo (min (fc_tmp_buf_frames conv) out_frames)) (fo, 0, lr1) b4 i4 = Some (b5, i5, n, x, lr)"
    "used = (if pre then if speex \<and> fr2 = 0 then 0 else lu else fr2)"
    "conv' = conv\<lparr>fc_resampler := lr, fc_speex_state := sp, fc_tmp_bufs := tmp\<rparr>"
proof -
  have "fr \<le> fc_tmp_buf_frames conv" using assms(1) by (simp add: cras_fmt_conv_convert_frames_def Let_def split: if_splits)
  from bind_stages [OF assms(1) [unfolded cras_fmt_conv_convert_frames_def Let_def fr_in_def [symmetric] if_not_P [OF not_not [THEN iffD2, OF this]],
      unfolded pre_def [symmetric] post_def [symmetric] speex_def [symmetric]]]
  show ?thesis by (elim exE conjE, simp only: option.inject prod.inject, elim conjE) (rule that, assumption, assumption, assumption, (assumption | erule sym)+)
qed

lemma convert_keeps:
  assumes "cras_fmt_conv_convert_frames width sx conv in_buf out_buf fr out_frames = Some (n, used, conv', out')"
  shows "fc_speex_state conv' = None \<longleftrightarrow> fc_speex_state conv = None"
    "linear_resampler_needed (fc_resampler conv') = linear_resampler_needed (fc_resampler conv)"
    "fc_pre_linear_resample conv' = fc_pre_linear_resample conv" "fc_tmp_buf_frames conv' = fc_tmp_buf_frames conv"
    "fc_num_converters conv' = fc_num_converters conv"
proof -
  from assms obtain b1 i1 b2 i2 fr1 lu lr1 b3 i3 b4 i4 fo fr2 sp b5 i5 x lr tmp where st:
    "opt_stage (linear_resampler_needed (fc_resampler conv) \<and> fc_pre_linear_resample conv)
       (linear_stage (fc_resampler conv) (if fc_speex_state conv \<noteq> None then fr else min fr out_frames) (pre_limit conv out_frames))
       (if fc_speex_state conv \<noteq> None then fr else min fr out_frames, 0, fc_resampler conv) b1 i1 = Some (b2, i2, fr1, lu, lr1)"
    "opt_stage (fc_speex_state conv \<noteq> None) (\<lambda>src dst. map_option (\<lambda>(d, made, used, state). (d, made, used, Some state))
       (speex_stage sx (nat (num_channels (fc_out_fmt conv))) (the (fc_speex_state conv)) fr1
          (src_limit conv (linear_resampler_needed (fc_resampler conv) \<and> \<not> fc_pre_linear_resample conv) fr1 out_frames) src dst))
       (if fc_speex_state conv \<noteq> None then fr else min fr out_frames, fr1, None) b3 i3 = Some (b4, i4, fo, fr2, sp)"
    "opt_stage (linear_resampler_needed (fc_resampler conv) \<and> \<not> fc_pre_linear_resample conv)
       (linear_stage lr1 fo (min (fc_tmp_buf_frames conv) out_frames)) (fo, 0, lr1) b4 i4 = Some (b5, i5, n, x, lr)"
    "conv' = conv\<lparr>fc_resampler := lr, fc_speex_state := sp, fc_tmp_bufs := tmp\<rparr>"
    by (elim convert_stages)
  have "linear_resampler_needed lr1 = linear_resampler_needed (fc_resampler conv)" using st(1) by (auto elim!: opt_stage_some dest: linear_stage_keeps)
  moreover have "linear_resampler_needed lr = linear_resampler_needed lr1" using st(3) by (auto elim!: opt_stage_some dest: linear_stage_keeps)
  moreover have "sp = None \<longleftrightarrow> fc_speex_state conv = None" using st(2) by (auto elim!: opt_stage_some)
  ultimately show "fc_speex_state conv' = None \<longleftrightarrow> fc_speex_state conv = None"
    "linear_resampler_needed (fc_resampler conv') = linear_resampler_needed (fc_resampler conv)"
    "fc_pre_linear_resample conv' = fc_pre_linear_resample conv" "fc_tmp_buf_frames conv' = fc_tmp_buf_frames conv"
    "fc_num_converters conv' = fc_num_converters conv"
    by (simp_all add: st(4))
qed


lemma frames_at_rate_pos:
  assumes "0 < r" "0 < n" "0 < r'" "n * r' + r < 2 ^ 64"
  shows "0 < cras_frames_at_rate r n r'"
proof -
  have "0 < n * r'" using assms by simp
  moreover have "u64 (n * r') = n * r'" "u64 (n * r' + r - 1) = n * r' + r - 1" using calculation assms by (auto intro!: wrap_u_id add_pos_pos)
  ultimately show ?thesis using assms by (simp add: cras_frames_at_rate_def pos_imp_zdiv_pos_iff)
qed

lemma src_limit_pos:
  assumes "fmt_ok (fc_in_fmt conv)" "fmt_ok (fc_out_fmt conv)" "0 < n" "n < 2 ^ 32" "0 < out_frames" "out_frames < 2 ^ 32"
    and "cras_frames_at_rate (frame_rate (fc_in_fmt conv)) (int n) (frame_rate (fc_out_fmt conv)) < 2 ^ 32"
  shows "0 < src_limit conv False n out_frames"
proof -
  let ?r = "frame_rate (fc_in_fmt conv)" and ?r' = "frame_rate (fc_out_fmt conv)"
  have r: "0 < ?r" "?r \<le> 1000000" "0 < ?r'" "?r' \<le> 1000000" using assms(1,2) by (auto simp: fmt_ok_def)
  have "int n * ?r' \<le> 2 ^ 32 * 1000000" using r assms(4) by (intro mult_mono) auto
  then have "0 < cras_frames_at_rate ?r (int n) ?r'" using r assms(3) by (intro frames_at_rate_pos) auto
  then show ?thesis using assms(5-7) by (simp add: src_limit_def wrap_u_id)
qed

lemma convert_progress:
  assumes "cras_fmt_conv_convert_frames width sx conv in_buf out_buf fr out_frames = Some (n, used, conv', out')"
    and "\<not> fc_pre_linear_resample conv" "steady conv" "speex_progress sx" "fmt_ok (fc_in_fmt conv)" "fmt_ok (fc_out_fmt conv)"
    and "0 < fr" "fr < 2 ^ 32" "0 < out_frames" "out_frames < 2 ^ 32"
    and "cras_frames_at_rate (frame_rate (fc_in_fmt conv)) (int fr) (frame_rate (fc_out_fmt conv)) < 2 ^ 32"
  shows "0 < n \<or> 0 < used"
proof (cases "fc_speex_state conv = None")
  case True
  from assms(1) obtain b1 i1 b2 i2 fr1 lu lr1 b3 i3 b4 i4 fo fr2 sp b5 i5 x lr tmp where
    "opt_stage False (linear_stage (fc_resampler conv) (min fr out_frames) (pre_limit conv out_frames)) (min fr out_frames, 0, fc_resampler conv) b1 i1 = Some (b2, i2, fr1, lu, lr1)"
    "opt_stage False (\<lambda>src dst. map_option (\<lambda>(d, made, used, state). (d, made, used, Some state))
       (speex_stage sx (nat (num_channels (fc_out_fmt conv))) (the (fc_speex_state conv)) fr1 (src_limit conv (linear_resampler_needed (fc_resampler conv)) fr1 out_frames) src dst))
       (min fr out_frames, fr1, None) b3 i3 = Some (b4, i4, fo, fr2, sp)" "used = fr2"
    using True assms(2) by (elim convert_stages) simp
  then show ?thesis using assms(7,9) by (auto simp: opt_stage_off)
next
  case False
  then have lr: "\<not> linear_resampler_needed (fc_resampler conv)" using assms(3) by (auto simp: steady_def)
  from assms(1) obtain b1 i1 b2 i2 fr1 lu lr1 b3 i3 b4 i4 fo fr2 sp b5 i5 x lr tmp where st:
    "opt_stage False (linear_stage (fc_resampler conv) fr (pre_limit conv out_frames)) (fr, 0, fc_resampler conv) b1 i1 = Some (b2, i2, fr1, lu, lr1)"
    "opt_stage True (\<lambda>src dst. map_option (\<lambda>(d, made, used, state). (d, made, used, Some state))
       (speex_stage sx (nat (num_channels (fc_out_fmt conv))) (the (fc_speex_state conv)) fr1 (src_limit conv False fr1 out_frames) src dst))
       (fr, fr1, None) b3 i3 = Some (b4, i4, fo, fr2, sp)"
    "opt_stage False (linear_stage lr1 fo (min (fc_tmp_buf_frames conv) out_frames)) (fo, 0, lr1) b4 i4 = Some (b5, i5, n, x, lr)" "used = fr2"
    using False assms(2) lr by (elim convert_stages) simp
  have eq: "fr1 = fr" "fo = n" using st(1,3) by (simp_all add: opt_stage_off)
  have lim: "0 < src_limit conv False fr out_frames" using src_limit_pos [OF assms(5-8) assms(9-11)] .
  obtain src dst dst' sp' where "speex_stage sx (nat (num_channels (fc_out_fmt conv))) (the (fc_speex_state conv)) fr (src_limit conv False fr out_frames) src dst = Some (dst', n, used, sp')"
    using st(2) st(4) by (auto simp: eq elim!: opt_stage_some)
  then show ?thesis using assms(4,7) lim unfolding speex_progress_def by (fastforce simp: speex_stage_def split: if_splits prod.splits)
qed

lemma unneeded_same:
  assumes "fc_wf width conv" "width_ok width" "\<not> cras_fmt_conversion_needed conv"
  shows "fmt_size (format (fc_in_fmt conv)) = fmt_size (format (fc_out_fmt conv))" "num_channels (fc_in_fmt conv) = num_channels (fc_out_fmt conv)"
proof -
  let ?u = "use_s32_conversion width conv"
  have none: "fc_in_format_converter conv = None" "fc_out_format_converter conv = None" "fc_channel_converter conv = None"
    using assms(1,3) by (auto simp: fc_wf_def Let_def cras_fmt_conversion_needed_def of_bool_def split: if_splits)
  have wf: "fmt_ok (fc_in_fmt conv)" "fmt_ok (fc_out_fmt conv)" "chan_ok width conv"
    "None = (if format (fc_in_fmt conv) \<noteq> chain_format ?u then in_format_converter_for ?u (format (fc_in_fmt conv)) else None)"
    "None = (if format (fc_out_fmt conv) \<noteq> chain_format ?u then out_format_converter_for ?u (format (fc_out_fmt conv)) else None)"
    using assms(1) none by (auto simp: fc_wf_def Let_def)
  have w: "?u \<longrightarrow> width (format (fc_in_fmt conv)) > 16" "?u \<longrightarrow> width (format (fc_out_fmt conv)) > 16"
    by (auto simp: use_s32_conversion_def s32_formats_def)
  have sup: "is_supported_format (fc_in_fmt conv)" "is_supported_format (fc_out_fmt conv)" using wf(1,2) by (simp_all add: fmt_ok_def)
  have "format (fc_in_fmt conv) = chain_format ?u"
    using format_converters [OF sup(1) _ w(1) assms(2)] wf(4) by (metis option.distinct(1))
  moreover have "format (fc_out_fmt conv) = chain_format ?u"
    using format_converters [OF sup(2) _ w(2) assms(2)] wf(5) by (metis option.distinct(1))
  ultimately show "fmt_size (format (fc_in_fmt conv)) = fmt_size (format (fc_out_fmt conv))" by simp
  show "num_channels (fc_in_fmt conv) = num_channels (fc_out_fmt conv)" using wf(1-3) none(3) by (auto simp: chan_ok_def Let_def fmt_ok_def)
qed


section \<open>Playback\<close>

text \<open>The shared area of a stream that the server has set up, with a header that the client may have written.\<close>

definition stream_mem_ok :: "cras_rstream \<Rightarrow> bool" where
  "stream_mem_ok stream \<longleftrightarrow> shm_config_ok (rs_shm stream) \<and> header_typed (header (rs_shm stream)) \<and>
     frame_bytes (config (rs_shm stream)) = int (fmt_size (format (rs_format stream)) * nat (num_channels (rs_format stream))) \<and>
     used_size (config (rs_shm stream)) = rs_buffer_frames stream * frame_bytes (config (rs_shm stream))"

text \<open>The converter from the stream to the device, with temporary buffers of the size that \<open>dev_stream_create\<close> asks for.\<close>

definition play_conv :: "(int \<Rightarrow> int) \<Rightarrow> 's speex \<Rightarrow> cras_rstream \<Rightarrow> cras_audio_format \<Rightarrow> 's cras_fmt_conv \<Rightarrow> bool" where
  "play_conv width sx stream fmt conv \<longleftrightarrow> conv_reach width sx conv \<and> \<not> fc_pre_linear_resample conv \<and> fc_in_fmt conv = rs_format stream \<and> fc_out_fmt conv = fmt \<and>
     int (fc_tmp_buf_frames conv) =
       max (rs_buffer_frames stream) (cras_frames_at_rate (frame_rate (rs_format stream)) (rs_buffer_frames stream) (frame_rate fmt)) + 1 \<and>
     int (fc_tmp_buf_frames conv) < 2 ^ 32"

definition mix_inv :: "(int \<Rightarrow> int) \<Rightarrow> 's speex \<Rightarrow> cras_rstream \<Rightarrow> cras_audio_format \<Rightarrow> int \<Rightarrow> nat \<Rightarrow> nat \<Rightarrow> int \<Rightarrow> 's mix_state \<Rightarrow> bool" where
  "mix_inv width sx stream fmt n dlen blen avail s \<longleftrightarrow> play_conv width sx stream fmt (ms_conv s) \<and> steady (ms_conv s) \<and>
     length (ms_bytes s) = blen \<and> length (ms_dst s) = dlen \<and> ms_target s = nat (ms_written s) * nat (cras_get_format_bytes width fmt) \<and>
     0 \<le> ms_written s \<and> ms_written s \<le> n \<and> 0 \<le> ms_read s \<and> 0 \<le> ms_playable s \<and> ms_read s + ms_playable s = avail"

lemma play_conv_frames:
  assumes "play_conv width sx stream fmt conv" "stream_mem_ok stream" "fmt_ok (rs_format stream)" "fmt_ok fmt"
    and "cras_shm_get_readable_frames (rs_shm stream) offset = (p, frames)" "0 \<le> k" "k \<le> frames"
  shows "nat k \<le> fc_tmp_buf_frames conv" "k < 2 ^ 32"
    "cras_frames_at_rate (frame_rate (rs_format stream)) k (frame_rate fmt) \<le> int (fc_tmp_buf_frames conv)"
proof -
  let ?r = "frame_rate (rs_format stream)" and ?r' = "frame_rate fmt" and ?fb = "frame_bytes (config (rs_shm stream))"
  have r: "0 < ?r" "?r \<le> 1000000" "0 < ?r'" "?r' \<le> 1000000" using assms(3,4) by (auto simp: fmt_ok_def)
  have c: "shm_config_ok (rs_shm stream)" "header_typed (header (rs_shm stream))" "used_size (config (rs_shm stream)) = rs_buffer_frames stream * ?fb"
    using assms(2) by (auto simp: stream_mem_ok_def)
  have fb: "0 < ?fb" "rs_buffer_frames stream * ?fb < 2 ^ 31" using c(1,3) by (auto simp: shm_config_ok_def)
  have "frames * ?fb \<le> rs_buffer_frames stream * ?fb" using readable_count(2) [OF c(1,2) assms(5)] c(3) by simp
  then have le: "k \<le> rs_buffer_frames stream" using fb(1) assms(7) by simp
  have "rs_buffer_frames stream * 1 \<le> rs_buffer_frames stream * ?fb" using fb(1) le assms(6) by (intro mult_left_mono) auto
  then have bf: "rs_buffer_frames stream < 2 ^ 31" using fb(2) by simp
  have "rs_buffer_frames stream * ?r' \<le> 2 ^ 31 * 1000000" using bf r le assms(6) by (intro mult_mono) auto
  then have "cras_frames_at_rate ?r k ?r' \<le> cras_frames_at_rate ?r (rs_buffer_frames stream) ?r'"
    using le r assms(6) by (intro frames_at_rate_mono) auto
  then show "nat k \<le> fc_tmp_buf_frames conv" "k < 2 ^ 32" "cras_frames_at_rate ?r k ?r' \<le> int (fc_tmp_buf_frames conv)"
    using assms(1) le bf by (auto simp: play_conv_def)
qed


lemma play_conv_ok:
  assumes "play_conv width sx stream fmt conv" "width_ok width" "speex_ok sx (nat (num_channels fmt))"
  shows "fc_wf width conv" "fmt_ok (rs_format stream)" "fmt_ok fmt"
proof -
  show wf: "fc_wf width conv" using reach_wf [of width sx conv] assms by (auto simp: play_conv_def)
  show "fmt_ok (rs_format stream)" "fmt_ok fmt" using wf assms(1) by (auto simp: fc_wf_def Let_def play_conv_def)
qed

lemma mix_source_ok:
  fixes p frames room :: nat
  assumes "play_conv width sx stream fmt conv" "steady conv" "stream_mem_ok stream" "width_ok width" "speex_ok sx (nat (num_channels fmt))" "speex_progress sx"
    and "cras_shm_get_readable_frames (rs_shm stream) offset = (Some (int p), k)" "0 < frames" "int frames \<le> k" "0 < room" "room < 2 ^ 31"
    and "room * (fmt_size (format fmt) * nat (num_channels fmt)) \<le> length bytes"
  shows "\<exists>n used conv' bytes' src sp. mix_source width sx stream conv bytes p frames room = Some (n, used, conv', bytes', src, sp) \<and> n \<le> room \<and> used \<le> frames \<and>
    (0 < n \<or> 0 < used) \<and> play_conv width sx stream fmt conv' \<and> steady conv' \<and> length bytes' = length bytes \<and>
    sp + n * (fmt_size (format fmt) * nat (num_channels fmt)) \<le> length src"
proof -
  let ?shm = "rs_shm stream" and ?in = "rs_format stream"
  note ok = play_conv_ok [OF assms(1,4,5)]
  have conv: "conv_reach width sx conv" "\<not> fc_pre_linear_resample conv" "fc_in_fmt conv = ?in" "fc_out_fmt conv = fmt" "int (fc_tmp_buf_frames conv) < 2 ^ 32"
    using assms(1) by (auto simp: play_conv_def)
  have shm: "shm_config_ok ?shm" "header_typed (header ?shm)" "frame_bytes (config ?shm) = int (fmt_size (format ?in) * nat (num_channels ?in))"
    using assms(3) by (auto simp: stream_mem_ok_def)
  have "int p + k * frame_bytes (config ?shm) \<le> int (length (samples ?shm))" using readable_region [OF shm(1,2) assms(7)] shm(1) by (simp add: shm_config_ok_def)
  moreover have "int frames * frame_bytes (config ?shm) \<le> k * frame_bytes (config ?shm)" using assms(9) shm(1) by (intro mult_right_mono) (auto simp: shm_config_ok_def)
  ultimately have "int (p + frames * (fmt_size (format ?in) * nat (num_channels ?in))) \<le> int (length (samples ?shm))" by (simp add: shm(3))
  then have src: "p + frames * (fmt_size (format ?in) * nat (num_channels ?in)) \<le> length (samples ?shm)" by linarith
  note fr = play_conv_frames [OF assms(1,3) ok(2,3) assms(7) _ assms(9)]
  show ?thesis
  proof (cases "cras_fmt_conversion_needed conv")
    case True
    have pre: "convert_pre conv (drop p (samples ?shm)) bytes frames room"
      using src fr assms(12) conv by (auto simp: convert_pre_def src_fits_def)
    obtain n used conv' out where r: "cras_fmt_conv_convert_frames width sx conv (drop p (samples ?shm)) bytes frames room = Some (n, used, conv', out)"
      "n \<le> room" "used \<le> frames" "length out = length bytes" "conv_reach width sx conv'"
      using convert_frames_ok [OF ok(1) assms(4) assms(5) [folded conv(4)], of frames "drop p (samples ?shm)" room bytes] pre
        conv_reach.converted [OF conv(1) pre] unfolding convert_pre_def by blast
    have "0 < n \<or> 0 < used"
      using convert_progress [OF r(1) conv(2) assms(2,6)] ok conv fr assms(8,10,11) by simp
    moreover have "n * (fmt_size (format fmt) * nat (num_channels fmt)) \<le> length bytes" using mult_le_mono1 [OF r(2)] assms(12) order_trans by blast
    ultimately show ?thesis using True r convert_keeps [OF r(1)] convert_keeps_formats [OF r(1)] assms(1,2)
      by (auto simp: mix_source_def play_conv_def steady_def)
  next
    case False
    note same = unneeded_same [OF ok(1) assms(4) False, unfolded conv]
    have "p + min frames room * (fmt_size (format fmt) * nat (num_channels fmt)) \<le> p + frames * (fmt_size (format fmt) * nat (num_channels fmt))"
      by (intro add_left_mono mult_le_mono1) simp
    then have "p + min frames room * (fmt_size (format fmt) * nat (num_channels fmt)) \<le> length (samples ?shm)" using src unfolding same by (rule order_trans)
    then show ?thesis using False assms(1,2,8,10) by (simp add: mix_source_def)
  qed
qed


lemma format_bytes_ok: "fmt_ok fmt \<Longrightarrow> width_ok width \<Longrightarrow> nat (cras_get_format_bytes width fmt) = fmt_size (format fmt) * nat (num_channels fmt)"
  by (simp add: format_bytes fmt_ok_def)

lemma mix_step_ok:
  assumes "mix_inv width sx stream fmt n dlen blen avail s" "stream_mem_ok stream" "width_ok width" "speex_ok sx (nat (num_channels fmt))" "speex_progress sx"
    and "mix_format (format fmt)" "ms_written s < n" "n < 2 ^ 31" "avail < 2 ^ 31"
    and "nat n * nat (cras_get_format_bytes width fmt) \<le> dlen" "nat n * nat (cras_get_format_bytes width fmt) \<le> blen"
  shows "mix_step width sx stream fmt offset n s = Some None \<or>
    (\<exists>s'. mix_step width sx stream fmt offset n s = Some (Some s') \<and> mix_inv width sx stream fmt n dlen blen avail s' \<and>
      ms_playable s' + (n - ms_written s') < ms_playable s + (n - ms_written s) \<and>
      drop (ms_target s') (ms_dst s') = drop (ms_target s') (ms_dst s) \<and> ms_target s \<le> ms_target s')"
proof -
  let ?shm = "rs_shm stream" and ?fb = "fmt_size (format fmt) * nat (num_channels fmt)"
  have inv: "play_conv width sx stream fmt (ms_conv s)" "steady (ms_conv s)" "length (ms_bytes s) = blen" "length (ms_dst s) = dlen"
    "0 \<le> ms_written s" "0 \<le> ms_read s" "0 \<le> ms_playable s" "ms_read s + ms_playable s = avail"
    using assms(1) by (auto simp: mix_inv_def)
  have fb: "nat (cras_get_format_bytes width fmt) = ?fb" using format_bytes_ok play_conv_ok [OF inv(1) assms(3,4)] assms(3) by blast
  have tgt: "ms_target s = nat (ms_written s) * ?fb" using assms(1) by (simp add: mix_inv_def fb)
  obtain src k where rd: "cras_shm_get_readable_frames ?shm (u32 (offset + ms_read s)) = (src, k)" by force
  define frames where "frames = min k (ms_playable s)"
  have shm: "shm_config_ok ?shm" "header_typed (header ?shm)" using assms(2) by (auto simp: stream_mem_ok_def)
  note cnt = readable_count [OF shm rd]
  show ?thesis
  proof (cases "frames = 0")
    case True
    then show ?thesis by (simp add: mix_step_def rd frames_def)
  next
    case False
    then have fr: "0 < frames" "frames \<le> k" "frames \<le> ms_playable s" using cnt(1) inv(7) by (auto simp: frames_def)
    then obtain p where p: "src = Some (int p)" using cnt(3) readable_region [OF shm, of "u32 (offset + ms_read s)"] rd by (cases src) (auto, metis int_nat_eq)
    define room where "room = nat (n - ms_written s)"
    have room: "0 < room" "room < 2 ^ 31" "nat (u32 (n - ms_written s)) = room" "int room = n - ms_written s"
      using assms(7,8) inv(5) by (auto simp: room_def wrap_u_id)
    have "room * ?fb \<le> nat n * ?fb" using assms(7) inv(5) by (intro mult_le_mono1) (simp add: room_def nat_le_eq_zle)
    then have rb: "room * ?fb \<le> length (ms_bytes s)" using assms(11) unfolding inv(3) fb by (rule order_trans)
    obtain m used conv' bytes' mem sp where ms: "mix_source width sx stream (ms_conv s) (ms_bytes s) p (nat frames) room = Some (m, used, conv', bytes', mem, sp)"
      "m \<le> room" "used \<le> nat frames" "0 < m \<or> 0 < used" "play_conv width sx stream fmt conv'" "steady conv'" "length bytes' = length (ms_bytes s)" "sp + m * ?fb \<le> length mem"
      using mix_source_ok [OF inv(1,2) assms(2-5) rd [unfolded p] _ _ room(1,2) rb, of "nat frames"] fr by auto
    have "(nat (ms_written s) + m) * ?fb \<le> nat n * ?fb" using ms(2) room(4) inv(5) assms(7) by (intro mult_le_mono1) linarith
    then have dst: "ms_target s + m * ?fb \<le> length (ms_dst s)" using assms(10) fb tgt inv(4) by (simp add: add_mult_distrib)
    have sz: "sample_size (format fmt) * (m * nat (num_channels fmt)) = m * ?fb" by (simp add: sample_size_fmt [OF assms(6)])
    define dst' where "dst' = cras_mix_add (format fmt) (ms_dst s) (ms_target s) mem sp (m * nat (num_channels fmt)) 1 (cras_shm_get_mute ?shm \<noteq> 0) (cras_shm_get_volume_scaler ?shm)"
    have fr': "length dst' = length (ms_dst s)" "drop (ms_target s + m * ?fb) dst' = drop (ms_target s + m * ?fb) (ms_dst s)"
      unfolding dst'_def by (rule mix_add_frame [OF assms(6), of "ms_target s" "m * nat (num_channels fmt)" "ms_dst s", unfolded sz, OF dst])+
    have wrap: "u32 (ms_written s + int m) = ms_written s + int m" "u32 (ms_read s + int used) = ms_read s + int used" "u32 (ms_playable s - int used) = ms_playable s - int used"
      using ms(2,3) room(4) inv assms(7-9) fr by (auto intro!: wrap_u_id)
    let ?s' = "\<lparr>ms_conv = conv', ms_bytes = bytes', ms_dst = dst', ms_target = ms_target s + m * ?fb, ms_written = ms_written s + int m,
      ms_read = ms_read s + int used, ms_playable = ms_playable s - int used\<rparr>"
    have "mix_samples fmt (ms_dst s) (ms_target s) mem sp (m * nat (num_channels fmt)) (cras_shm_get_mute ?shm \<noteq> 0) (cras_shm_get_volume_scaler ?shm) = Some dst'"
      using dst ms(8) unfolding mix_samples_def sz dst'_def by simp
    then have "mix_step width sx stream fmt offset n s = Some (Some ?s')"
      using False ms(1) unfolding mix_step_def rd p Let_def prod.case option.case frames_def [symmetric] room(3) nat_int
      by (simp add: fb wrap)
    moreover have "mix_inv width sx stream fmt n dlen blen avail ?s'"
      using ms room(4) inv fr fr'(1) tgt by (auto simp: mix_inv_def fb nat_add_distrib add_mult_distrib)
    ultimately show ?thesis using ms(4) fr' by auto
  qed
qed


lemma mix_frames_ok:
  assumes "mix_inv width sx stream fmt n dlen blen avail s" "stream_mem_ok stream" "width_ok width" "speex_ok sx (nat (num_channels fmt))" "speex_progress sx"
    and "mix_format (format fmt)" "n < 2 ^ 31" "avail < 2 ^ 31"
    and "nat n * nat (cras_get_format_bytes width fmt) \<le> dlen" "nat n * nat (cras_get_format_bytes width fmt) \<le> blen"
  shows "\<exists>s'. mix_frames width sx stream fmt offset n s = Some s' \<and> mix_inv width sx stream fmt n dlen blen avail s' \<and>
    drop (ms_target s') (ms_dst s') = drop (ms_target s') (ms_dst s) \<and> ms_target s \<le> ms_target s'"
  using assms(1)
proof (induction "nat (ms_playable s + (n - ms_written s))" arbitrary: s rule: less_induct)
  case less
  show ?case
  proof (cases "ms_written s < n")
    case False
    then show ?thesis using less.prems by (intro exI [of _ s]) (simp add: mix_frames.simps)
  next
    case True
    from mix_step_ok [OF less.prems assms(2-6) True assms(7-10), of offset] show ?thesis
    proof (elim disjE exE conjE)
      assume "mix_step width sx stream fmt offset n s = Some None"
      then show ?thesis using True less.prems by (intro exI [of _ s]) (simp add: mix_frames.simps)
    next
      fix t assume t: "mix_step width sx stream fmt offset n s = Some (Some t)" "mix_inv width sx stream fmt n dlen blen avail t"
        "ms_playable t + (n - ms_written t) < ms_playable s + (n - ms_written s)" "drop (ms_target t) (ms_dst t) = drop (ms_target t) (ms_dst s)" "ms_target s \<le> ms_target t"
      have "nat (ms_playable t + (n - ms_written t)) < nat (ms_playable s + (n - ms_written s))" using t(2,3) by (simp add: mix_inv_def)
      from less.hyps [OF this t(2)] obtain s' where s': "mix_frames width sx stream fmt offset n t = Some s'" "mix_inv width sx stream fmt n dlen blen avail s'"
        "drop (ms_target s') (ms_dst s') = drop (ms_target s') (ms_dst t)" "ms_target t \<le> ms_target s'" by blast
      have "drop (ms_target s') (ms_dst t) = drop (ms_target s') (ms_dst s)"
        using arg_cong [OF t(4), of "drop (ms_target s' - ms_target t)"] s'(4) by simp
      then show ?thesis using True t s' by (intro exI [of _ s']) (simp add: mix_frames.simps)
    qed
  qed
qed

lemma s32_nonneg: "0 \<le> s32 (u32 x) \<Longrightarrow> u32 x < 2 ^ 31 \<and> s32 (u32 x) = u32 x"
  using pos_mod_bound [of "2 ^ 32" x] pos_mod_sign [of "2 ^ 32" x] mod_pos_pos_trivial [of "u32 x - 2 ^ 31" "2 ^ 32"] minus_mod_self2 [of "u32 x + 2 ^ 31" "2 ^ 32"]
  by (cases "u32 x < 2 ^ 31") (auto simp: wrap_s_def wrap_u_def)

text \<open>A stream that is attached to a device for playback.\<close>

definition playback_ok :: "(int \<Rightarrow> int) \<Rightarrow> 's speex \<Rightarrow> 's dev_stream \<Rightarrow> cras_rstream \<Rightarrow> cras_audio_format \<Rightarrow> bool" where
  "playback_ok width sx ds stream fmt \<longleftrightarrow> stream_mem_ok stream \<and>
     (\<exists>conv. ds_conv ds = Some conv \<and> play_conv width sx stream fmt conv) \<and>
     nat (ds_conv_buffer_size_frames ds) * nat (cras_get_format_bytes width fmt) \<le> length (bb_bytes (ds_conv_buffer ds))"


section \<open>Creation\<close>

lemma created_resampler:
  assumes "config_format_converter width sx alloc dir from to node F = Some (0, Some conv)" "fmt_ok from" "fmt_ok to" "width_ok width"
  shows "lr_f (fc_resampler conv) = 1" "lr_src_offset (fc_resampler conv) = 0" "lr_dst_offset (fc_resampler conv) = 0"
proof -
  let ?r = "f32 (of_int (frame_rate to))"
  have "rate_ok ?r" using assms(3) by (intro rate_f32) (auto simp: fmt_ok_def)
  then have r: "?r / ?r = 1" by (auto simp: rate_ok_def)
  note lr = created_wf(8) [OF assms]
  show "lr_f (fc_resampler conv) = 1" "lr_src_offset (fc_resampler conv) = 0" "lr_dst_offset (fc_resampler conv) = 0"
    using arg_cong [OF lr, of lr_f] arg_cong [OF lr, of lr_src_offset] arg_cong [OF lr, of lr_dst_offset] r f32_rates(5)
    by (simp_all add: linear_resampler_set_rates_def)
qed

lemma unit_in_to_out:
  assumes "lr_f lr = 1" "lr_src_offset lr = 0" "lr_dst_offset lr = 0" "0 \<le> n" "n < 2 ^ 24"
  shows "linear_resampler_in_frames_to_out lr n = n"
proof -
  have f: "f32 (of_int k) = of_int k" if "0 \<le> k" "k < 2 ^ 24" for k using fround_int [of k 24] that by simp
  have "f32 (real_of_int n - 1) = real_of_int n - 1" if "0 < n" using f [of "n - 1"] assms(5) that by simp
  moreover have "u32 (n - 1) = n - 1" if "0 < n" using that assms(5) by (intro wrap_u_id) auto
  moreover have "c_trunc (real_of_int n - 1) = n - 1" if "0 < n" using that by (simp add: c_trunc_def)
  ultimately show ?thesis using assms by (auto simp: linear_resampler_in_frames_to_out_def Let_def wrap_u_id)
qed


lemma attach_keeps:
  assumes "cras_rstream_dev_attach junk s dev_id p = Some s'"
  shows "rs_shm s' = rs_shm s" "rs_format s' = rs_format s" "rs_buffer_frames s' = rs_buffer_frames s" "rs_direction s' = rs_direction s"
  using assms by (auto simp: cras_rstream_dev_attach_def Let_def split: option.splits if_splits)

text \<open>What \<open>verify_rstream_parameters\<close> leaves of the formats and sizes of a stream.\<close>

lemma created_stream_format:
  assumes "cras_rstream_create env width cfg = (rc, cfg', Some s, ev)" "width_ok width" "0 < num_channels (rs_format s)" "cras_audio_format_valid (rs_format s)"
    and "\<not> cras_rstream_config_is_client_shm_stream cfg"
  shows "fmt_ok (rs_format s)" "0 < rs_buffer_frames s" "rs_buffer_frames s < 10 * frame_rate (rs_format s)" "frame_rate (rs_format s) \<le> 192000"
    "shm_config_ok (rs_shm s)" "frame_bytes (config (rs_shm s)) = int (fmt_size (format (rs_format s)) * nat (num_channels (rs_format s)))"
    "used_size (config (rs_shm s)) = rs_buffer_frames s * frame_bytes (config (rs_shm s))"
proof -
  obtain fmt where c: "\<not> verify_rstream_parameters cfg < 0" "rc_format cfg = Some fmt" "rs_format s = fmt" "rs_buffer_frames s = rc_buffer_frames cfg"
    using assms(1) by (rule rstream_create_ok)
  obtain fmt' where v: "rc_format cfg = Some fmt'" "4000 \<le> frame_rate fmt'" "frame_rate fmt' \<le> 192000" "0 < rc_cb_threshold cfg"
    "rc_cb_threshold cfg \<le> rc_buffer_frames cfg" "rc_buffer_frames cfg < 10 * frame_rate fmt'" "num_channels fmt' \<le> 11"
    "format fmt' \<in> {SND_PCM_FORMAT_S16_LE, SND_PCM_FORMAT_S32_LE, SND_PCM_FORMAT_U8, SND_PCM_FORMAT_S24_LE}"
    using c(1) by (rule verify_rstream_parameters_ok)
  have [simp]: "fmt' = rs_format s" using c(2,3) v(1) by simp
  show "fmt_ok (rs_format s)" using v assms(3,4) by (auto simp: fmt_ok_def is_supported_format_def)
  show "0 < rs_buffer_frames s" "rs_buffer_frames s < 10 * frame_rate (rs_format s)" "frame_rate (rs_format s) \<le> 192000" using v c(4) by auto
  have w: "widths_ok width" using assms(2) by (simp add: widths_ok_def width_ok_def)
  note sc = created_shm_config [OF w assms(1,5,3)]
  show ok: "shm_config_ok (rs_shm s)" by (rule sc(1))
  have "format_sample_bytes width (rs_format s) = int (fmt_size (format (rs_format s)))"
    using v(8) assms(2) by (auto simp: format_sample_bytes_def width_ok_def fmt_size_def all_formats sdiv_eq_div)
  then show "frame_bytes (config (rs_shm s)) = int (fmt_size (format (rs_format s)) * nat (num_channels (rs_format s)))"
    using sc(5) assms(3) by simp
  show "used_size (config (rs_shm s)) = rs_buffer_frames s * frame_bytes (config (rs_shm s))" by (rule sc(6))
qed

lemma stream_frames_bound:
  fixes fmt dev :: cras_audio_format
  assumes "fmt_ok fmt" "fmt_ok dev" "0 \<le> n" "n \<le> bf" "bf < 10 * frame_rate fmt"
  shows "0 \<le> cras_frames_at_rate (frame_rate fmt) n (frame_rate dev)" "cras_frames_at_rate (frame_rate fmt) n (frame_rate dev) \<le> cras_frames_at_rate (frame_rate fmt) bf (frame_rate dev)"
    "cras_frames_at_rate (frame_rate fmt) bf (frame_rate dev) \<le> 10 * frame_rate dev"
proof -
  let ?r = "frame_rate fmt" and ?r' = "frame_rate dev"
  have r: "0 < ?r" "?r \<le> 1000000" "0 < ?r'" "?r' \<le> 1000000" using assms(1,2) by (auto simp: fmt_ok_def)
  have b: "bf * ?r' \<le> (10 * ?r - 1) * ?r'" using assms(5) r by (intro mult_right_mono) auto
  also have "\<dots> \<le> 10000000 * 1000000" using r by (intro mult_mono) auto
  finally have lim: "bf * ?r' \<le> 10000000000000" by simp
  show "cras_frames_at_rate ?r n ?r' \<le> cras_frames_at_rate ?r bf ?r'" using assms(3,4) r lim by (intro frames_at_rate_mono) auto
  have eq: "cras_frames_at_rate ?r k ?r' = (k * ?r' + ?r - 1) div ?r" if "0 \<le> k" "k \<le> bf" for k
  proof -
    have "k * ?r' \<le> bf * ?r'" using that r by (intro mult_right_mono) auto
    then have "k * ?r' \<le> 10000000000000" using lim by (rule order_trans)
    moreover have "0 \<le> k * ?r'" using that r by simp
    ultimately have "u64 (k * ?r') = k * ?r'" "u64 (k * ?r' + ?r - 1) = k * ?r' + ?r - 1" using r by (auto intro!: wrap_u_id add_nonneg_pos)
    then show ?thesis by (simp add: cras_frames_at_rate_def)
  qed
  have "0 \<le> n * ?r' + ?r - 1" using assms(3) r by (simp add: add_nonneg_pos)
  then show "0 \<le> cras_frames_at_rate ?r n ?r'" using r eq [of n] assms(3,4) by (simp add: pos_imp_zdiv_nonneg_iff)
  have "bf * ?r' + ?r - 1 < (10 * ?r' + 1) * ?r" using b r by (simp add: algebra_simps)
  then have "(bf * ?r' + ?r - 1) div ?r * ?r < (10 * ?r' + 1) * ?r" using floor_mult_le [OF r(1), of "bf * ?r' + ?r - 1"] by linarith
  then have "(bf * ?r' + ?r - 1) div ?r < 10 * ?r' + 1" using r(1) by simp
  then show "cras_frames_at_rate ?r bf ?r' \<le> 10 * ?r'" using eq [of bf] assms(3,4) by simp
qed


lemma dev_stream_create_playback:
  assumes "dev_stream_create width sx alloc junk s dev_id dev_fmt iodev cb_ts sleep = Some (Some (ds, s'))" "rs_direction s = CRAS_STREAM_OUTPUT"
  obtains conv s1 where
    "config_format_converter width sx alloc CRAS_STREAM_OUTPUT (rs_format s) dev_fmt (io_node_type iodev)
       (nat (max_frames_for_conversion (u32 (rs_buffer_frames s)) (u32 (frame_rate (rs_format s))) (u32 (frame_rate dev_fmt)))) = Some (0, Some conv)"
    "ds_conv ds = Some conv" "ds_dev_id ds = dev_id"
    "ds_conv_buffer_size_frames ds = u32 (2 * max (u32 (cras_fmt_conv_in_frames_to_out conv (rs_buffer_frames s))) (rs_buffer_frames s))"
    "length (bb_bytes (ds_conv_buffer ds)) = nat (u32 (ds_conv_buffer_size_frames ds * cras_get_format_bytes width (fc_out_fmt conv)))"
    "cras_rstream_dev_attach junk s1 dev_id (io_ptr iodev) = Some s'" "rs_shm s1 = rs_shm s" "rs_format s1 = rs_format s" "rs_buffer_frames s1 = rs_buffer_frames s"
    "rs_sleep_interval_ts s1 = (case sleep of Some t \<Rightarrow> t | None \<Rightarrow> cras_frames_to_time (rs_cb_threshold s) (frame_rate (rs_format s)))" "rs_next_cb_ts s1 = cb_ts"
proof -
  let ?F = "nat (max_frames_for_conversion (u32 (rs_buffer_frames s)) (u32 (frame_rate (rs_format s))) (u32 (frame_rate dev_fmt)))"
  obtain rc conv where c: "config_format_converter width sx alloc CRAS_STREAM_OUTPUT (rs_format s) dev_fmt (io_node_type iodev) ?F = Some (rc, Some conv)"
    using assms by (auto simp: dev_stream_create_def Let_def split: option.splits)
  then have rc: "rc = 0" by (auto simp: config_target split: option.splits)
  show thesis
    using assms(1) c unfolding rc
    by (intro that [of conv "s\<lparr>rs_sleep_interval_ts := (case sleep of Some t \<Rightarrow> t | None \<Rightarrow> cras_frames_to_time (rs_cb_threshold s) (frame_rate (rs_format s))), rs_next_cb_ts := cb_ts\<rparr>"])
       (auto simp: dev_stream_create_def Let_def assms(2) byte_buffer_create_def split: option.splits if_splits)
qed

lemma unit_frames_to_out:
  assumes "fc_wf width conv" "\<not> fc_pre_linear_resample conv" "lr_f (fc_resampler conv) = 1" "lr_src_offset (fc_resampler conv) = 0" "lr_dst_offset (fc_resampler conv) = 0"
    and "0 \<le> n" "n \<le> bf" "bf < 10 * frame_rate (fc_in_fmt conv)"
  shows "cras_fmt_conv_in_frames_to_out conv n = cras_frames_at_rate (frame_rate (fc_in_fmt conv)) n (frame_rate (fc_out_fmt conv))"
proof -
  have ok: "fmt_ok (fc_in_fmt conv)" "fmt_ok (fc_out_fmt conv)" using assms(1) by (auto simp: fc_wf_def Let_def)
  note b = stream_frames_bound [OF ok assms(6-8)]
  have "frame_rate (fc_out_fmt conv) \<le> 1000000" using ok(2) by (simp add: fmt_ok_def)
  then have "cras_frames_at_rate (frame_rate (fc_in_fmt conv)) n (frame_rate (fc_out_fmt conv)) \<le> 10000000" using b by linarith
  then show ?thesis using assms(2) b(1) unit_in_to_out [OF assms(3-5)] by (simp add: cras_fmt_conv_in_frames_to_out_def Let_def wrap_u_id)
qed

text \<open>What mixing relies on holds for a new pair of stream and device.\<close>

lemma attached_playback_ok:
  assumes "cras_rstream_create env width cfg = (rc, cfg', Some s, ev)" "width_ok width" "0 < num_channels (rs_format s)" "cras_audio_format_valid (rs_format s)"
    and "\<not> cras_rstream_config_is_client_shm_stream cfg" "rs_direction s = CRAS_STREAM_OUTPUT" "fmt_ok dev_fmt" "num_channels dev_fmt \<le> int CRAS_CH_MAX"
    and "dev_stream_create width sx alloc junk s dev_id dev_fmt iodev cb_ts sleep = Some (Some (ds, s'))"
    and "header_typed h" "s32 (cras_rstream_playable_frames (s'\<lparr>rs_queued_frames := q\<rparr>) dev_id) \<le> rs_buffer_frames s"
  defines "stream \<equiv> s'\<lparr>rs_shm := (rs_shm s')\<lparr>header := h\<rparr>, rs_queued_frames := q\<rparr>"
  shows "playback_ok width sx ds stream dev_fmt \<and> steady (the (ds_conv ds)) \<and> dev_stream_playback_frames ds stream \<le> ds_conv_buffer_size_frames ds"
proof -
  note st = created_stream_format [OF assms(1-5)]
  let ?bf = "rs_buffer_frames s" and ?r = "frame_rate (rs_format s)" and ?r' = "frame_rate dev_fmt"
  obtain conv s1 where c: "config_format_converter width sx alloc CRAS_STREAM_OUTPUT (rs_format s) dev_fmt (io_node_type iodev)
       (nat (max_frames_for_conversion (u32 ?bf) (u32 ?r) (u32 ?r'))) = Some (0, Some conv)"
    "ds_conv ds = Some conv" "ds_dev_id ds = dev_id"
    "ds_conv_buffer_size_frames ds = u32 (2 * max (u32 (cras_fmt_conv_in_frames_to_out conv ?bf)) ?bf)"
    "length (bb_bytes (ds_conv_buffer ds)) = nat (u32 (ds_conv_buffer_size_frames ds * cras_get_format_bytes width (fc_out_fmt conv)))"
    "cras_rstream_dev_attach junk s1 dev_id (io_ptr iodev) = Some s'" "rs_shm s1 = rs_shm s" "rs_format s1 = rs_format s" "rs_buffer_frames s1 = ?bf"
    using assms(9,6) by (rule dev_stream_create_playback)
  note w = created_wf [OF c(1) st(1) assms(7,2)] and lr = created_resampler [OF c(1) st(1) assms(7,2)]
  have r: "0 < ?r" "?r \<le> 192000" "0 < ?r'" "?r' \<le> 1000000" "?bf < 1920000" using st assms(7) by (auto simp: fmt_ok_def)
  have w': "\<not> fc_pre_linear_resample conv" "fc_in_fmt conv = rs_format s" "fc_out_fmt conv = dev_fmt"
    using w by (auto simp: target_format_def CRAS_STREAM_INPUT_def CRAS_STREAM_OUTPUT_def)
  note b = stream_frames_bound [OF st(1) assms(7) _ _ st(3)]
  have out: "cras_fmt_conv_in_frames_to_out conv n = cras_frames_at_rate ?r n ?r'" if "0 \<le> n" "n \<le> ?bf" for n
    using unit_frames_to_out [OF w(1) w'(1) lr that] st(3) by (simp add: w')
  have F: "max_frames_for_conversion (u32 ?bf) (u32 ?r) (u32 ?r') = max ?bf (cras_frames_at_rate ?r ?bf ?r') + 1"
    using r st(2) b(1,3) [of ?bf] by (simp add: max_frames_for_conversion_def wrap_u_id)
  have size: "ds_conv_buffer_size_frames ds = 2 * max (cras_frames_at_rate ?r ?bf ?r') ?bf" "ds_conv_buffer_size_frames ds \<le> 20000000"
    using c(4) out [of ?bf] r st(2) b(1,3) [of ?bf] by (auto simp: wrap_u_id)
  have keep: "rs_shm s' = rs_shm s" "rs_format s' = rs_format s" "rs_buffer_frames s' = ?bf" using attach_keeps [OF c(6)] c(7-9) by auto
  have "stream_mem_ok stream" using st(5-7) assms(10) by (simp add: stream_mem_ok_def stream_def keep shm_config_ok_def)
  moreover have "play_conv width sx stream dev_fmt conv"
    using conv_reach.created [OF c(1) st(1) assms(7)] w w' F r st(2) b(3) [of ?bf] by (auto simp: play_conv_def stream_def keep)
  moreover have "nat (ds_conv_buffer_size_frames ds) * nat (cras_get_format_bytes width dev_fmt) \<le> length (bb_bytes (ds_conv_buffer ds))"
  proof -
    have "0 \<le> cras_get_format_bytes width dev_fmt" by (simp add: cras_get_format_bytes_def wrap_u_ge0)
    then have fb: "cras_get_format_bytes width dev_fmt = int (fmt_size (format dev_fmt) * nat (num_channels dev_fmt))" using format_bytes_ok [OF assms(7,2)] by linarith
    have "fmt_size (format dev_fmt) * nat (num_channels dev_fmt) \<le> 4 * 11" using assms(8) by (intro mult_le_mono) (auto simp: fmt_size_def CRAS_CH_MAX_def)
    then have "cras_get_format_bytes width dev_fmt \<le> 44" unfolding fb by linarith
    then have "ds_conv_buffer_size_frames ds * cras_get_format_bytes width dev_fmt \<le> 20000000 * 44" using size st(2) fb by (intro mult_mono) auto
    then have "u32 (ds_conv_buffer_size_frames ds * cras_get_format_bytes width dev_fmt) = ds_conv_buffer_size_frames ds * cras_get_format_bytes width dev_fmt"
      using size st(2) fb by (intro wrap_u_id) auto
    then show ?thesis using c(5) size st(2) by (simp add: w' nat_mult_distrib)
  qed
  moreover have "dev_stream_playback_frames ds stream \<le> ds_conv_buffer_size_frames ds"
  proof -
    let ?p = "s32 (cras_rstream_playable_frames stream dev_id)"
    have p: "?p \<le> ?bf" using assms(11) by (simp add: stream_def cras_rstream_playable_frames_def cras_rstream_dev_offset_def)
    have P: "dev_stream_playback_frames ds stream = (if ?p < 0 then ?p else s32 (cras_fmt_conv_in_frames_to_out conv ?p))"
      by (simp add: dev_stream_playback_frames_def c(2,3) Let_def)
    show ?thesis
    proof (cases "?p < 0")
      case True
      then show ?thesis using P size st(2) by simp
    next
      case False
      have "cras_frames_at_rate ?r ?bf ?r' < 2 ^ 31" using b(3) [of ?bf] r st(2) by simp
      then have "s32 (cras_frames_at_rate ?r ?p ?r') = cras_frames_at_rate ?r ?p ?r'" using b [of ?p] p False by (intro wrap_s_id) auto
      then show ?thesis using P False out [of ?p] p b(2) [of ?p] b(1) [of ?p] size by auto
    qed
  qed
  ultimately show ?thesis using w(6) c(2) by (auto simp: playback_ok_def steady_def)
qed

lemma dev_stream_create_exists:
  assumes "cras_rstream_create env width cfg = (rc, cfg', Some s, ev)" "fmt_ok (rs_format s)" "fmt_ok dev_fmt" "dev_index_ok dev_id" "rs_direction s = CRAS_STREAM_OUTPUT"
    and "spk_layout_ok (io_node_type iodev) (rs_format s) dev_fmt"
    and "frame_rate (rs_format s) \<noteq> frame_rate dev_fmt \<Longrightarrow> sx_init sx (num_channels dev_fmt) (frame_rate (rs_format s)) (frame_rate dev_fmt) \<noteq> None"
  shows "\<exists>ds s'. dev_stream_create width sx True junk s dev_id dev_fmt iodev cb_ts sleep = Some (Some (ds, s')) \<and> devs_inv s'"
proof -
  let ?F = "nat (max_frames_for_conversion (u32 (rs_buffer_frames s)) (u32 (frame_rate (rs_format s))) (u32 (frame_rate dev_fmt)))"
  have t: "target_format CRAS_STREAM_OUTPUT (rs_format s) dev_fmt = dev_fmt" by (simp add: target_format_def CRAS_STREAM_INPUT_def CRAS_STREAM_OUTPUT_def)
  obtain conv where c: "config_format_converter width sx True CRAS_STREAM_OUTPUT (rs_format s) dev_fmt (io_node_type iodev) ?F = Some (0, Some conv)"
    using config_result(1) [OF assms(2,3), of sx CRAS_STREAM_OUTPUT "io_node_type iodev" width ?F] assms(6,7) unfolding t by blast
  let ?s = "s\<lparr>rs_sleep_interval_ts := (case sleep of Some t \<Rightarrow> t | None \<Rightarrow> cras_frames_to_time (rs_cb_threshold s) (frame_rate (rs_format s))), rs_next_cb_ts := cb_ts\<rparr>"
  have "devs_inv ?s" using created_devs_inv [OF assms(1)] by (simp add: devs_inv_def)
  then obtain s' where "cras_rstream_dev_attach junk ?s dev_id (io_ptr iodev) = Some s'" "devs_inv s'" using dev_attach_inv [OF _ assms(4)] by blast
  then show ?thesis using c assms(5) by (simp add: dev_stream_create_def Let_def byte_buffer_create_def)
qed


section \<open>Examples\<close>

definition speaker :: iodev_info where
  "speaker = \<lparr>io_ptr = 77, io_node_type = 1, io_latency_offset_ms = 0, io_post_format = None, io_htimestamp = (0, \<lparr>tv_sec = 0, tv_nsec = 0\<rparr>)\<rparr>"

lemma silent_progress: "speex_progress silent_speex"
  by (auto simp: speex_progress_def silent_speex_def)

lemma mono_u8_ok: "fmt_ok (mono_format SND_PCM_FORMAT_U8 4000)" "fmt_ok (mono_format SND_PCM_FORMAT_S16_LE 48000)" "fmt_ok (mono_format SND_PCM_FORMAT_S16_LE 4000)"
  by (intro mono_format_ok; simp add: is_supported_format_def)+

lemma example_playback:
  "\<exists>cfg' s ev. cras_rstream_create example_env pcm_width example_config = (0, cfg', Some s, ev) \<and> rs_format s = mono_format SND_PCM_FORMAT_U8 4000"
proof -
  have "verify_rstream_parameters example_config = 0" by (simp add: create_eval)
  moreover have "rc_format example_config = Some (mono_format SND_PCM_FORMAT_U8 4000)" "\<not> cras_rstream_config_is_client_shm_stream example_config"
    by (simp_all add: example_config_def cras_rstream_config_is_client_shm_stream_def mono_format_def)
  ultimately show ?thesis using rstream_create_own [OF example_env_ok, of example_config "mono_format SND_PCM_FORMAT_U8 4000" pcm_width] by blast
qed


text \<open>A stream with four frames in shared memory.\<close>

definition play_stream :: cras_rstream where
  "play_stream = (rstream_init example_config (mono_format SND_PCM_FORMAT_U8 4000))
     \<lparr>rs_shm := (created_shm 1 8 16 (replicate 16 130) [0, 8])\<lparr>header := zero_header\<lparr>volume_scaler := 1, write_offset := [4, 0], buffer_offset := [0, 8]\<rparr>\<rparr>,
      rs_queued_frames := 4, rs_buf_state := buffer_share_create 8\<rparr>"

definition play_dev :: "unit cras_fmt_conv \<Rightarrow> unit dev_stream" where
  "play_dev conv = \<lparr>ds_dev_id = 3, ds_iodev = 77, ds_conv = Some conv, ds_conv_buffer = the (byte_buffer_create True 32), ds_conv_area = cras_audio_area_create 1,
     ds_conv_buffer_size_frames = 16, ds_dev_rate = 4000, ds_is_running = 1\<rparr>"


section \<open>Capture\<close>

lemma convert_check: "fc_tmp_buf_frames conv < fr \<Longrightarrow> cras_fmt_conv_convert_frames width sx conv in_buf out_buf fr out_frames = None"
  by (simp only: cras_fmt_conv_convert_frames_def Let_def not_le if_True)

text \<open>C34. A capture stream stops the server when it asks its device for more frames than the temporary buffers of its converter hold, and the device has them: the converter's check
  of its argument fails. \<open>max_frames_for_conversion\<close> leaves room for one frame more than the nominal rates need, but after \<open>dev_stream_set_dev_rate\<close> has slowed the resampler down,
  a long buffer needs more than that.\<close>

theorem capture_check_aborts:
  assumes "ds_conv ds = Some conv" "cras_fmt_conversion_needed conv"
    and "int (fc_tmp_buf_frames conv) < dev_stream_capture_avail width ds stream" "int (fc_tmp_buf_frames conv) < u32 (int (aa_frames area) - area_offset)"
    and "0 < u32 (cras_get_format_bytes width (fc_out_fmt conv))" "u32 (cras_get_format_bytes width (fc_out_fmt conv)) \<le> buf_writable (ds_conv_buffer ds)"
  shows "dev_stream_capture width sx ds stream stream_area dev_mem area area_offset gain = None"
proof -
  let ?n = "min (dev_stream_capture_avail width ds stream) (u32 (int (aa_frames area) - area_offset))"
  let ?fb = "u32 (cras_get_format_bytes width (fc_out_fmt conv))"
  have n: "int (fc_tmp_buf_frames conv) < ?n" "?n < 2 ^ 32" using assms(3,4) wrap_u_less [of 32 "int (aa_frames area) - area_offset"] by auto
  then have u: "u32 (?n - 0) = ?n" by (simp add: wrap_u_id)
  have w: "buf_writable (ds_conv_buffer ds) div ?fb \<noteq> 0" using assms(5,6) pos_imp_zdiv_pos_iff [of ?fb "buf_writable (ds_conv_buffer ds)"] by simp
  have "cras_fmt_conv_convert_frames width sx conv a b (nat ?n) r = None" for a b r
    using n(1) by (intro convert_check) linarith
  then have "capture_convert width sx src ?n sfb ?fb (conv, ds_conv_buffer ds, 0, pos) = None" for src sfb pos
    using n w unfolding capture_convert.simps [of _ _ _ _ _ _ "(conv, ds_conv_buffer ds, 0, pos)"] prod.case u buf_write_pointer_size_def Let_def by simp
  then show ?thesis using assms(1,2) by (simp add: dev_stream_capture_def capture_with_fmt_conv_def Let_def)
qed


text \<open>A stream of one second at 48 kHz, on a device that the audio thread slows down by three frames per second.\<close>

definition silence :: bytes where
  "silence = replicate 192000 0"

definition slow_stream :: cras_rstream where
  "slow_stream = (rstream_init example_config (mono_format SND_PCM_FORMAT_S16_LE 48000))
     \<lparr>rs_direction := CRAS_STREAM_INPUT, rs_buffer_frames := 48000, rs_cb_threshold := 48000,
      rs_shm := created_shm 2 96000 192000 silence [0, 96000], rs_buf_state := buffer_share_create 48000\<rparr>"

definition slow_dev :: "unit cras_fmt_conv \<Rightarrow> unit dev_stream" where
  "slow_dev conv = \<lparr>ds_dev_id = 3, ds_iodev = 77, ds_conv = Some conv, ds_conv_buffer = the (byte_buffer_create True 192002), ds_conv_area = cras_audio_area_create 1,
     ds_conv_buffer_size_frames = 96001, ds_dev_rate = 48000, ds_is_running = 1\<rparr>"

lemma slow_resampler_needs:
  fixes lr :: linear_resampler
  assumes "lr_src_offset lr = 0" "lr_dst_offset lr = 0" "lr_f lr = f32 (47997 / 48000)"
  shows "48003 \<le> linear_resampler_out_frames_to_in lr 48000" "linear_resampler_out_frames_to_in lr 48000 \<le> 96001"
proof -
  let ?f = "f32 (47997 / 48000)" and ?q = "f32 (48000 / f32 (47997 / 48000))"
  have "f32 (16383 / 16384) = 16383 / 16384" "f32 (1 / 2) = 1 / 2"
    using fround_exact [of 16383 24 "- 14"] fround_exact [of 1 24 "- 1"] by (simp_all add: power_int_minus)
  moreover have "?f \<le> f32 (16383 / 16384)" "f32 (1 / 2) \<le> ?f" by (auto intro!: fround_mono)
  ultimately have f: "1 / 2 \<le> ?f" "?f \<le> 16383 / 16384" by simp_all
  then have q: "48002 \<le> 48000 / ?f" "48000 / ?f \<le> 96000" by (simp_all add: field_simps)
  have "f32 48002 = 48002" "f32 96000 = 96000" using fround_int [of 48002 24] fround_int [of 96000 24] by simp_all
  then have b: "48002 \<le> ?q" "?q \<le> 96000" using fround_mono [OF q(1), of 24] fround_mono [OF q(2), of 24] by simp_all
  then have t: "48002 \<le> c_trunc ?q" "c_trunc ?q \<le> 96000" by (auto simp: c_trunc_def le_floor_iff floor_le_iff)
  have "linear_resampler_out_frames_to_in lr 48000 = 1 + c_trunc ?q"
    using assms b t f32_rates(1) by (simp add: linear_resampler_out_frames_to_in_def Let_def wrap_u_id fround_idem)
  then show "48003 \<le> linear_resampler_out_frames_to_in lr 48000" "linear_resampler_out_frames_to_in lr 48000 \<le> 96001" using t by simp_all
qed

theorem capture_check_aborts_witness:
  "\<exists>conv ds. config_format_converter pcm_width silent_speex True CRAS_STREAM_INPUT (mono_format SND_PCM_FORMAT_S16_LE 48000) (mono_format SND_PCM_FORMAT_S16_LE 48000) 1
       (nat (max_frames_for_conversion 48000 48000 48000)) = Some (0, Some conv) \<and>
     dev_stream_set_dev_rate (slow_dev conv) slow_stream 48000 1 1 (- 1) = (ds, slow_stream) \<and>
     dev_stream_capture pcm_width silent_speex ds slow_stream (cras_audio_area_create 1) silence ((cras_audio_area_create 1)\<lparr>aa_frames := 60000\<rparr>) 0 1 = None"
proof -
  let ?m = "mono_format SND_PCM_FORMAT_S16_LE 48000"
  have ok: "fmt_ok ?m" by (intro mono_format_ok) (simp_all add: is_supported_format_def)
  have F: "max_frames_for_conversion 48000 48000 48000 = 48001" by (simp add: max_frames_for_conversion_def cras_frames_at_rate_def wrap_u_def)
  have t: "target_format CRAS_STREAM_INPUT ?m ?m = ?m" by (simp add: target_format_def mono_format_def cras_audio_format_create_def)
  obtain conv where c: "config_format_converter pcm_width silent_speex True CRAS_STREAM_INPUT ?m ?m 1 48001 = Some (0, Some conv)"
    using config_result(1) [OF ok ok, of silent_speex CRAS_STREAM_INPUT 1 pcm_width 48001] by (auto simp: t spk_layout_ok_def CRAS_NODE_TYPE_INTERNAL_SPEAKER_def)
  note w = created_wf [OF c ok ok examples_ok(1), unfolded t]
  define c' where "c' = cras_fmt_conv_set_linear_resample_rates conv 48000 47997"
  define ds where "ds = (slow_dev conv)\<lparr>ds_conv := Some c'\<rparr>"
  have "f32 47997 = 47997" "f64 48000 = 48000" "f64 47997 = 47997" "f32 4799700 = 4799700"
    using fround_int [of 47997 24] fround_int [of 48000 53] fround_int [of 47997 53] fround_int [of 4799700 24] by simp_all
  note fl = this f32_rates
  have set: "dev_stream_set_dev_rate (slow_dev conv) slow_stream 48000 1 1 (- 1) = (ds, slow_stream)"
    using fl by (simp add: dev_stream_set_dev_rate_def slow_dev_def slow_stream_def rstream_init_def NO_DEVICE_def coarse_rate_adjust_step_def wrap_s_def wrap_u_def ds_def c'_def Let_def)
  have c': "fc_tmp_buf_frames c' = 48001" "fc_out_fmt c' = ?m" "fc_in_fmt c' = ?m" "fc_pre_linear_resample c'" "cras_fmt_conversion_needed c'"
    using w fl by (auto simp: c'_def cras_fmt_conv_set_linear_resample_rates_def cras_fmt_conversion_needed_def linear_resampler_needed_def linear_resampler_set_rates_def c_trunc_def wrap_u_def)
  have lr: "lr_src_offset (fc_resampler c') = 0" "lr_dst_offset (fc_resampler c') = 0" "lr_f (fc_resampler c') = f32 (47997 / 48000)"
    by (simp_all add: c'_def cras_fmt_conv_set_linear_resample_rates_def linear_resampler_set_rates_def)
  note need = slow_resampler_needs [OF lr]
  have to_in: "cras_fmt_conv_out_frames_to_in c' 48000 = linear_resampler_out_frames_to_in (fc_resampler c') 48000"
    by (simp add: cras_fmt_conv_out_frames_to_in_def c' Let_def cras_frames_at_rate_def wrap_u_def)
  have fb: "cras_get_format_bytes pcm_width ?m = 2" by (simp add: cras_get_format_bytes_def pcm_width_def all_formats wrap_u_def sdiv_eq_div)
  have "get_id_offset (buffer_share_create 48000) 3 = None" by (simp add: get_id_offset_def buffer_share_create_def INITIAL_ID_SIZE_def numeral_3_eq_3)
  then have off: "cras_rstream_dev_offset slow_stream 3 = 0" by (simp add: cras_rstream_dev_offset_def buffer_share_id_offset_def slow_stream_def)
  have buf: "buf_queued (ds_conv_buffer ds) = 0" "buf_available (ds_conv_buffer ds) = 192002" "buf_writable (ds_conv_buffer ds) = 192002"
    by (simp_all add: ds_def slow_dev_def byte_buffer_create_def buf_queued_def buf_available_def buf_writable_def wrap_u_def)
  have "snd (cras_shm_get_writeable_frames (created_shm 2 96000 192000 mem [0, 96000]) 48000) = 48000" for mem
    by (simp add: created_shm_def zero_header_def shm_eval)
  then have wr: "snd (cras_shm_get_writeable_frames (rs_shm slow_stream) 48000) = 48000" by (simp add: slow_stream_def)
  have dsf: "ds_conv ds = Some c'" "ds_dev_id ds = 3" by (simp_all add: ds_def slow_dev_def)
  have lim: "cras_rstream_get_max_write_frames slow_stream = 48000" by (simp add: cras_rstream_get_max_write_frames_def slow_stream_def)
  have "dev_stream_capture_avail pcm_width ds slow_stream = linear_resampler_out_frames_to_in (fc_resampler c') 48000"
    using need unfolding dev_stream_capture_avail_def Let_def dsf lim off buf option.case c'(2) fb by (simp add: wr to_in wrap_u_id)
  then have "dev_stream_capture pcm_width silent_speex ds slow_stream (cras_audio_area_create 1) silence ((cras_audio_area_create 1)\<lparr>aa_frames := 60000\<rparr>) 0 1 = None"
    using need c' fb buf by (intro capture_check_aborts [of ds c']) (simp_all add: ds_def wrap_u_def)
  then show ?thesis using c set by (auto simp: F)
qed


section \<open>Wake times\<close>

lemma ts_ns_zero: "ts_normal t \<Longrightarrow> ts_ns t = 0 \<longleftrightarrow> tv_sec t = 0 \<and> tv_nsec t = 0"
proof
  assume t: "ts_normal t" "ts_ns t = 0"
  consider "tv_sec t = 0" | "tv_sec t \<ge> 1" | "tv_sec t \<le> - 1" by linarith
  then show "tv_sec t = 0 \<and> tv_nsec t = 0" using t by cases (simp_all add: ts_normal_def ts_ns_def)
qed (simp add: ts_ns_def)

text \<open>C35. The next callback of a stream follows its schedule: one interval after the previous one as long as that is not past, and one interval after now when a callback was missed, which is
  counted, or when an input stream starts. The new time is never in the past and never more than an interval after both now and the old time.\<close>

theorem next_wake_time_exact:
  assumes "ts_normal (rs_next_cb_ts s)" "ts_normal (rs_sleep_interval_ts s)" "ts_normal now" "0 \<le> tv_sec (rs_sleep_interval_ts s)"
  defines "s' \<equiv> dev_stream_update_next_wake_time now s" and "old \<equiv> ts_ns (rs_next_cb_ts s)" and "i \<equiv> ts_ns (rs_sleep_interval_ts s)"
  defines "first \<equiv> rs_direction s = CRAS_STREAM_INPUT \<and> old = 0"
  shows "ts_ns (rs_next_cb_ts s') = (if first \<or> ts_ns now > old + i then ts_ns now + i else old + i) \<and>
    rs_num_missed_cb s' = (if \<not> first \<and> ts_ns now > old + i then s32 (rs_num_missed_cb s + 1) else rs_num_missed_cb s) \<and>
    ts_ns now \<le> ts_ns (rs_next_cb_ts s') \<and> ts_ns (rs_next_cb_ts s') \<le> max (ts_ns now) old + i \<and> ts_normal (rs_next_cb_ts s')"
proof -
  have i: "0 \<le> i" using assms(2,4) by (simp add: i_def ts_ns_def ts_normal_def)
  have z: "\<not> timespec_is_nonzero (Some (rs_next_cb_ts s)) \<longleftrightarrow> old = 0"
    using assms(1) ts_ns_zero by (auto simp: timespec_is_nonzero_def old_def)
  note add = add_timespecs_correct
  have n: "ts_ns (add_timespecs now (rs_sleep_interval_ts s)) = ts_ns now + i" "ts_normal (add_timespecs now (rs_sleep_interval_ts s))"
    "ts_ns (add_timespecs (rs_next_cb_ts s) (rs_sleep_interval_ts s)) = old + i" "ts_normal (add_timespecs (rs_next_cb_ts s) (rs_sleep_interval_ts s))"
    using add assms(1-3) by (simp_all add: i_def old_def)
  have after: "timespec_after now (add_timespecs (rs_next_cb_ts s) (rs_sleep_interval_ts s)) \<longleftrightarrow> ts_ns now > old + i"
    using timespec_after_iff_ns [OF assms(3) n(4)] n(3) by simp
  show ?thesis using n i after z unfolding s'_def first_def by (auto simp: dev_stream_update_next_wake_time_def check_next_wake_time_def Let_def)
qed

theorem next_wake_time_exact_witness:
  "ts_ns (rs_next_cb_ts (dev_stream_update_next_wake_time \<lparr>tv_sec = 9, tv_nsec = 0\<rparr> (slow_stream\<lparr>rs_next_cb_ts := \<lparr>tv_sec = 7, tv_nsec = 5\<rparr>, rs_sleep_interval_ts := \<lparr>tv_sec = 1, tv_nsec = 0\<rparr>\<rparr>)))
     = 10000000000"
  using next_wake_time_exact [of "slow_stream\<lparr>rs_next_cb_ts := \<lparr>tv_sec = 7, tv_nsec = 5\<rparr>, rs_sleep_interval_ts := \<lparr>tv_sec = 1, tv_nsec = 0\<rparr>\<rparr>" "\<lparr>tv_sec = 9, tv_nsec = 0\<rparr>"]
  by (simp add: ts_normal_def ts_ns_def)

end
